(* ===== verification/Prelude.thy ===== *)
theory Prelude
  imports Main "HOL-Library.Multiset" "HOL-Library.Word"
begin

text \<open>
  Shared ground of the development: the names of the machine types of the program
  (\<open>int\<close>, \<open>uint64_t\<close>), the exceptions a call can end with, the events it
  leaves on the console, the collections of simplification rules, and the generic facts on
  lists, maps and words that the components share.
\<close>

subsection \<open>Collections\<close>

named_theorems std_simps \<open>how the modelled operations of the standard library compute\<close>
named_theorems um_simps \<open>lookup after an update of an unordered map\<close>
named_theorems index_simps \<open>how the index operations act on the two indexes\<close>

subsection \<open>Machine types and exceptions\<close>

type_synonym cint = "32 word" \<comment> \<open>\<open>int\<close>, read with \<open>sint\<close>\<close>
type_synonym u64 = "64 word" \<comment> \<open>\<open>uint64_t\<close> and \<open>size_t\<close>, read with \<open>unat\<close>\<close>

text \<open>
  The exceptions of the modelled code: \<open>std::out_of_range\<close> of \<open>substr\<close>,
  \<open>std::logic_error\<close> of a \<open>std::string\<close> built from a null pointer, and the
  error of the Redis client.
\<close>

datatype exn = OutOfRange | LogicError | RedisError

subsection \<open>Lists and multisets\<close>

lemma sorted_wrt_mset_nth:
  assumes "sorted_wrt P xs" and "i < j" and "j < length xs"
  shows "P (xs ! i) (xs ! j)"
  using assms by (simp add: sorted_wrt_nth_less)

lemma mset_eq_distinct: "mset xs = mset ys \<Longrightarrow> distinct xs = distinct ys"
  by (metis distinct_count_atmost_1 set_mset_mset)

lemma count_list_eq_zero [simp]: "count_list xs x = 0 \<longleftrightarrow> x \<notin> set xs"
  by (simp add: count_list_0_iff)

lemma count_list_pos: "0 < count_list xs x \<longleftrightarrow> x \<in> set xs"
  by (metis count_list_0_iff gr0I less_numeral_extra(3))

text \<open>A sum over the values of a function when one of them is changed.\<close>

lemma sum_fun_upd:
  fixes g :: "'a \<Rightarrow> 'b \<Rightarrow> nat"
  assumes "finite A" "a \<in> A"
  shows "(\<Sum>i \<in> A. g i ((f(a := x)) i)) + g a (f a) = (\<Sum>i \<in> A. g i (f i)) + g a x"
proof -
  have "(\<Sum>i \<in> A. g i ((f(a := x)) i)) = g a x + (\<Sum>i \<in> A - {a}. g i ((f(a := x)) i))"
    by (subst sum.remove [OF assms]) simp
  moreover have "(\<Sum>i \<in> A - {a}. g i ((f(a := x)) i)) = (\<Sum>i \<in> A - {a}. g i (f i))" by (rule sum.cong) auto
  moreover have "(\<Sum>i \<in> A. g i (f i)) = g a (f a) + (\<Sum>i \<in> A - {a}. g i (f i))" by (rule sum.remove [OF assms])
  ultimately show ?thesis by simp
qed

lemma map_permuted:
  assumes "mset ys = mset (map f xs)"
  shows "\<exists>zs. mset zs = mset xs \<and> ys = map f zs"
  using assms
proof (induction ys arbitrary: xs)
  case Nil
  then show ?case by simp
next
  case (Cons y ys)
  then have "y \<in> set (map f xs)" by (metis list.set_intros(1) mset_eq_setD)
  then obtain x where x: "x \<in> set xs" "y = f x" by auto
  then have "mset xs = add_mset x (mset (remove1 x xs))" by simp
  then have "mset (map f xs) = add_mset y (mset (map f (remove1 x xs)))"
    by (simp only: mset_map image_mset_add_mset x(2))
  with Cons.prems have "mset ys = mset (map f (remove1 x xs))" by simp
  from Cons.IH [OF this] obtain zs where zs: "mset zs = mset (remove1 x xs)" "ys = map f zs"
    by blast
  with x have "mset (x # zs) = mset xs" by simp
  with x zs show ?case by (metis list.simps(9))
qed

subsection \<open>Words of bounded value\<close>

lemma sint_word_of_nat [simp]:
  "n < 2 ^ 31 \<Longrightarrow> sint (word_of_nat n :: cint) = int n"
  by (simp add: signed_of_nat signed_take_bit_int_eq_self_iff)

lemma unat_word_of_nat64 [simp]: "n < 2 ^ 64 \<Longrightarrow> unat (word_of_nat n :: u64) = n"
  by (simp add: unat_of_nat take_bit_nat_eq_self)

lemma scast_word_of_nat [simp]:
  assumes "n < 2 ^ 31"
  shows "scast (word_of_nat n :: cint) = (word_of_nat n :: u64)"
proof -
  have "scast (word_of_nat n :: cint) = (word_of_int (sint (word_of_nat n :: cint)) :: u64)"
    by simp
  also have "\<dots> = word_of_nat n" by (simp only: sint_word_of_nat [OF assms] of_int_of_nat_eq)
  finally show ?thesis .
qed

subsection \<open>Receivers of messages\<close>

text \<open>What servers that pass messages on expect of a receiver (the classes \<open>chat_participant\<close> and
  \<open>subscriber\<close>): it keeps the messages it is asked to deliver, in order.\<close>

locale message_sink =
  fixes deliver :: "'m \<Rightarrow> 'p \<Rightarrow> 'p" and taken :: "'p \<Rightarrow> 'm list"
  assumes taken_deliver: "taken (deliver m p) = taken p @ [m]"
begin

lemma taken_all: "taken (fold deliver ms p) = taken p @ ms"
  by (induction ms arbitrary: p) (simp_all add: taken_deliver)

lemma keeps_up: "taken p = drop k h \<Longrightarrow> k \<le> length h \<Longrightarrow> taken (deliver m p) = drop k (h @ [m])"
  by (simp add: taken_deliver)

end

end
