(* ===== verification/Std_Streams.thy ===== *)
theory Std_Streams
  imports Prelude
begin

text \<open>
  Files and streams: the files a process can open, an input stream with its state bits,
  \<open>std::getline\<close>, and the loop \<open>while (std::getline(in, line))\<close> that
  \<open>FileUtil::ReadFile\<close> and \<open>Index::BulidIndex\<close> are built on. The loop always
  ends and hands its body the lines of the file, in order.
\<close>

subsection \<open>Files\<close>

record filesys =
  readable :: "string \<Rightarrow> string option" \<comment> \<open>content of the files \<open>ifstream\<close> can open\<close>
  creatable :: "string \<Rightarrow> bool" \<comment> \<open>paths \<open>ofstream\<close> can open for writing\<close>

definition write_file :: "string \<Rightarrow> string \<Rightarrow> filesys \<Rightarrow> filesys" where
  "write_file path s fs = fs\<lparr>readable := (readable fs)(path \<mapsto> s)\<rparr>"

lemma readable_write_file [std_simps, simp]:
  "readable (write_file p s fs) = (readable fs)(p \<mapsto> s)"
  "creatable (write_file p s fs) = creatable fs"
  by (simp_all add: write_file_def)

subsection \<open>Input streams and getline\<close>

record istream =
  rest :: string
  eofbit :: bool
  failbit :: bool

abbreviation NL :: char where "NL \<equiv> CHR 0x0A"

definition open_stream :: "string \<Rightarrow> istream" where
  "open_stream s = \<lparr>rest = s, eofbit = False, failbit = False\<rparr>"

definition good :: "istream \<Rightarrow> bool" where
  "good i \<longleftrightarrow> \<not> eofbit i \<and> \<not> failbit i"

text \<open>
  On a good stream \<open>getline\<close> clears the string and takes what comes before the next
  newline, which it drops; at the end of the input it sets \<open>eofbit\<close>, and
  \<open>failbit\<close> when it took nothing. On any other stream it only sets
  \<open>failbit\<close>: the string keeps its old value.
\<close>

definition getline :: "istream \<Rightarrow> string \<Rightarrow> istream \<times> string" where
  "getline i line =
     (if good i
      then let l = takeWhile (\<lambda>c. c \<noteq> NL) (rest i)
           in case dropWhile (\<lambda>c. c \<noteq> NL) (rest i) of
                [] \<Rightarrow> (i\<lparr>rest := [], eofbit := True, failbit := (l = [])\<rparr>, l)
              | _ # r \<Rightarrow> (i\<lparr>rest := r\<rparr>, l)
      else (i\<lparr>failbit := True\<rparr>, line))"

text \<open>Every text is empty, one unterminated line, or a line, its newline and the rest.\<close>

lemma text_cases [case_names empty last line]:
  obtains "s = []"
    | "s \<noteq> []" and "NL \<notin> set s"
    | l r where "s = l @ NL # r" and "NL \<notin> set l"
  by (metis split_list_first)

lemma text_induct [case_names empty last line]:
  assumes "P []" and "\<And>l. l \<noteq> [] \<Longrightarrow> NL \<notin> set l \<Longrightarrow> P l"
    and "\<And>l r. NL \<notin> set l \<Longrightarrow> P r \<Longrightarrow> P (l @ NL # r)"
  shows "P s"
proof (induction s rule: length_induct)
  case (1 s)
  show ?case
    by (cases s rule: text_cases) (use 1 assms in auto)
qed

lemma before_NL [simp]:
  "NL \<notin> set l \<Longrightarrow> takeWhile (\<lambda>c. c \<noteq> NL) (l @ NL # r) = l"
  "NL \<notin> set l \<Longrightarrow> dropWhile (\<lambda>c. c \<noteq> NL) (l @ NL # r) = NL # r"
  "NL \<notin> set l \<Longrightarrow> takeWhile (\<lambda>c. c \<noteq> NL) l = l"
  "NL \<notin> set l \<Longrightarrow> dropWhile (\<lambda>c. c \<noteq> NL) l = []"
  "NL \<notin> set l \<Longrightarrow> filter (\<lambda>c. c \<noteq> NL) l = l"
  by (induction l) auto

lemma getline_empty [std_simps]:
  "good i \<Longrightarrow> rest i = [] \<Longrightarrow>
     getline i line = (i\<lparr>rest := [], eofbit := True, failbit := True\<rparr>, [])"
  by (simp add: getline_def)

lemma getline_last [std_simps]:
  "good i \<Longrightarrow> rest i \<noteq> [] \<Longrightarrow> NL \<notin> set (rest i) \<Longrightarrow>
     getline i line = (i\<lparr>rest := [], eofbit := True, failbit := False\<rparr>, rest i)"
  by (simp add: getline_def)

lemma getline_line [std_simps]:
  "good i \<Longrightarrow> rest i = l @ NL # r \<Longrightarrow> NL \<notin> set l \<Longrightarrow>
     getline i line = (i\<lparr>rest := r\<rparr>, l)"
  by (simp add: getline_def)

lemma getline_bad [std_simps]: "\<not> good i \<Longrightarrow> getline i line = (i\<lparr>failbit := True\<rparr>, line)"
  by (simp add: getline_def)

lemma getline_measure:
  assumes "\<not> failbit (fst (getline i line))"
  shows "length (rest (fst (getline i line))) + of_bool (\<not> eofbit (fst (getline i line)))
         < length (rest i) + of_bool (\<not> eofbit i)"
proof (cases "good i")
  case True
  then have "\<not> eofbit i" by (simp add: good_def)
  with True assms show ?thesis
    by (cases "rest i" rule: text_cases) (auto simp: std_simps)
next
  case False
  with assms show ?thesis by (simp add: getline_bad)
qed

text \<open>\<open>while (std::getline(in, line)) body\<close>, the body acting on a state.\<close>

function getline_loop ::
  "(string \<Rightarrow> 's \<Rightarrow> 's) \<Rightarrow> istream \<Rightarrow> string \<Rightarrow> 's \<Rightarrow> istream \<times> string \<times> 's" where
  "getline_loop body i line st =
     (let r = getline i line
      in if failbit (fst r) then (fst r, snd r, st)
         else getline_loop body (fst r) (snd r) (body (snd r) st))"
  by pat_completeness auto
termination
  by (relation "measure (\<lambda>(_, i, _, _). length (rest i) + of_bool (\<not> eofbit i))")
     (auto dest: getline_measure)

declare getline_loop.simps [simp del]

subsection \<open>The lines of a file\<close>

text \<open>The reference: a file cut at its newlines; text after the last one is a line too.\<close>

function lines_of :: "string \<Rightarrow> string list" where
  "lines_of s =
     (if s = [] then []
      else takeWhile (\<lambda>c. c \<noteq> NL) s #
             (case dropWhile (\<lambda>c. c \<noteq> NL) s of [] \<Rightarrow> [] | _ # r \<Rightarrow> lines_of r))"
  by pat_completeness auto
termination
  by (relation "measure length")
     (auto, metis length_dropWhile_le length_Cons Suc_le_lessD)

declare lines_of.simps [simp del]

lemma lines_of_Nil [simp]: "lines_of [] = []"
  by (simp add: lines_of.simps)

lemma lines_of_line [simp]: "NL \<notin> set l \<Longrightarrow> lines_of (l @ NL # s) = l # lines_of s"
  by (subst lines_of.simps) simp

lemma lines_of_last [simp]: "NL \<notin> set l \<Longrightarrow> l \<noteq> [] \<Longrightarrow> lines_of l = [l]"
  by (subst lines_of.simps) simp

lemma lines_of_no_NL: "l \<in> set (lines_of s) \<Longrightarrow> NL \<notin> set l"
  by (induction s rule: text_induct) auto

lemma concat_lines_of: "concat (lines_of s) = filter (\<lambda>c. c \<noteq> NL) s"
  by (induction s rule: text_induct) auto

lemma lines_of_concat:
  "\<forall>l \<in> set ls. NL \<notin> set l \<Longrightarrow> lines_of (concat (map (\<lambda>l. l @ [NL]) ls)) = ls"
  by (induction ls) auto

text \<open>The loop runs its body on the lines of the stream, in order.\<close>

lemma getline_loop_bad: "\<not> good i \<Longrightarrow> snd (snd (getline_loop body i line st)) = st"
  by (subst getline_loop.simps) (simp add: getline_bad Let_def)

lemma getline_loop_lines:
  assumes "good i"
  shows "snd (snd (getline_loop body i line st)) = fold body (lines_of (rest i)) st"
  using assms
proof (induction "rest i" arbitrary: i line st rule: text_induct)
  case empty
  then show ?case by (subst getline_loop.simps) (simp add: getline_empty)
next
  case last
  then show ?case
    by (subst getline_loop.simps) (simp add: getline_last getline_loop_bad good_def)
next
  case (line l r)
  then have "good (i\<lparr>rest := r\<rparr>)" by (simp add: good_def)
  with line.hyps(2) have "snd (snd (getline_loop body (i\<lparr>rest := r\<rparr>) l (body l st)))
      = fold body (lines_of r) (body l st)" by simp
  moreover from line have "getline i x = (i\<lparr>rest := r\<rparr>, l)" for x
    by (simp add: getline_line)
  moreover from line.prems have "\<not> failbit i" by (simp add: good_def)
  ultimately show ?case using line.hyps
    by (subst getline_loop.simps) (simp flip: line.hyps(3))
qed

lemma getline_loop_open [std_simps]:
  "snd (snd (getline_loop body (open_stream s) line st)) = fold body (lines_of s) st"
  by (simp add: getline_loop_lines good_def open_stream_def)

subsection \<open>Blocks of bytes\<close>

text \<open>\<open>is.read(buf, n)\<close>: the characters extracted, as many as \<open>gcount\<close> says.\<close>

definition stream_read :: "istream \<Rightarrow> nat \<Rightarrow> istream \<times> string" where
  "stream_read i n =
     (if \<not> good i then (i\<lparr>failbit := True\<rparr>, [])
      else if n \<le> length (rest i) then (i\<lparr>rest := drop n (rest i)\<rparr>, take n (rest i))
      else (i\<lparr>rest := [], eofbit := True, failbit := True\<rparr>, rest i))"

text \<open>Writing bytes into the array from an offset on (\<open>memcpy\<close>, or a read of the socket).\<close>

definition overwrite :: "nat \<Rightarrow> 'a list \<Rightarrow> 'a list \<Rightarrow> 'a list" where
  "overwrite off bytes arr = take off arr @ bytes @ drop (off + length bytes) arr"

lemma length_overwrite [simp]: "off + length b \<le> length a \<Longrightarrow> length (overwrite off b a) = length a"
  by (simp add: overwrite_def)

lemma drop_overwrite: "off + length b \<le> length a \<Longrightarrow> drop off (overwrite off b a) = b @ drop (off + length b) a"
  by (simp add: overwrite_def)

lemma first_line:
  assumes "NL \<in> set b"
  shows "b = takeWhile (\<lambda>c. c \<noteq> NL) b @ NL # drop (Suc (length (takeWhile (\<lambda>c. c \<noteq> NL) b))) b"
proof -
  obtain k r where "b = k @ NL # r" "NL \<notin> set k" using split_list_first [OF assms] by blast
  moreover from this have "takeWhile (\<lambda>c. c \<noteq> NL) b = k" by (auto simp: takeWhile_append)
  ultimately show ?thesis by simp
qed

text \<open>A text begins with the complete lines it is cut into in only one way.\<close>

lemma lines_of_prefix:
  assumes "concat (map (\<lambda>l. l @ [NL]) ls) @ r = concat (map (\<lambda>l. l @ [NL]) ms)"
    and "\<forall>l \<in> set ls. NL \<notin> set l" and "\<forall>m \<in> set ms. NL \<notin> set m"
  shows "\<exists>n. ls = take n ms"
  using assms
proof (induction ls arbitrary: ms)
  case Nil
  show ?case by (intro exI [of _ 0]) simp
next
  case (Cons l ls)
  then obtain m ms' where ms: "ms = m # ms'" by (cases ms) auto
  have "l @ NL # (concat (map (\<lambda>l. l @ [NL]) ls) @ r) = m @ NL # concat (map (\<lambda>l. l @ [NL]) ms')"
    using Cons.prems(1) ms by simp
  moreover have head: "takeWhile (\<lambda>c. c \<noteq> NL) (k @ NL # t) = k" if "NL \<notin> set k" for k t
    using that by (auto simp: takeWhile_append)
  have "takeWhile (\<lambda>c. c \<noteq> NL) (l @ NL # concat (map (\<lambda>l. l @ [NL]) ls) @ r) = l"
    "takeWhile (\<lambda>c. c \<noteq> NL) (m @ NL # concat (map (\<lambda>l. l @ [NL]) ms')) = m"
    using Cons.prems(2,3) ms by (intro head; simp)+
  ultimately have "l = m \<and> concat (map (\<lambda>l. l @ [NL]) ls) @ r = concat (map (\<lambda>l. l @ [NL]) ms')"
    by (metis append_same_eq list.inject same_append_eq)
  then obtain n where "l = m" "ls = take n ms'" using Cons.IH [of ms'] Cons.prems ms by auto
  then show ?case using ms by (intro exI [of _ "Suc n"]) simp
qed

end
