(* ===== verification/Logging.thy ===== *)
theory Logging
  imports Prelude
begin

text \<open>
  \<open>include/log.hpp\<close>: the levels, the line \<open>log\<close> prints, and the events the
  modelled functions leave on the console. A \<open>LOG\<close> event keeps the level and the
  message; time, file and line are added by \<open>log_line\<close> when the event is printed.
  The messages of the program are given by their UTF-8 bytes, as in the source.
\<close>

subsection \<open>Levels\<close>

datatype LEVEL = NORMAL | WARNING | DEBUG | FATAL

primrec level_number :: "LEVEL \<Rightarrow> nat" where
  "level_number NORMAL = 1"
| "level_number WARNING = 2"
| "level_number DEBUG = 3"
| "level_number FATAL = 4"

instantiation LEVEL :: linorder
begin

definition less_eq_LEVEL :: "LEVEL \<Rightarrow> LEVEL \<Rightarrow> bool" where
  "less_eq_LEVEL a b \<longleftrightarrow> level_number a \<le> level_number b"

definition less_LEVEL :: "LEVEL \<Rightarrow> LEVEL \<Rightarrow> bool" where
  "less_LEVEL a b \<longleftrightarrow> level_number a < level_number b"

instance
proof
  fix a b :: LEVEL
  show "a \<le> b \<Longrightarrow> b \<le> a \<Longrightarrow> a = b"
    by (cases a; cases b) (simp_all add: less_eq_LEVEL_def)
qed (auto simp: less_eq_LEVEL_def less_LEVEL_def)

end

text \<open>\<open>#LEVEL\<close> makes the macro's argument, not its number, the level that is printed.\<close>

primrec level_name :: "LEVEL \<Rightarrow> string" where
  "level_name NORMAL = ''NORMAL''"
| "level_name WARNING = ''WARNING''"
| "level_name DEBUG = ''DEBUG''"
| "level_name FATAL = ''FATAL''"

subsection \<open>Numbers in decimal\<close>

definition digit :: "nat \<Rightarrow> char" where
  "digit n = char_of (48 + n)"

fun to_string :: "nat \<Rightarrow> string" where
  "to_string n = (if n < 10 then [digit n] else to_string (n div 10) @ [digit (n mod 10)])"

declare to_string.simps [simp del]

subsection \<open>Events and the line that log prints\<close>

text \<open>
  \<open>Rank\<close> is the line of the timer thread: a word, a blank, and its score as
  \<open>operator<<\<close> prints a \<open>double\<close>.
\<close>

datatype event =
    Cout string
  | Cerr string
  | Log LEVEL string
  | Rank string int

definition endl :: string where "endl = [CHR 0x0A]"

definition log_line :: "string \<Rightarrow> string \<Rightarrow> string \<Rightarrow> nat \<Rightarrow> nat \<Rightarrow> string" where
  "log_line level message file line now =
     ''['' @ level @ '']'' @ ''['' @ to_string now @ '']'' @ ''['' @ message @ '']'' @
     ''['' @ file @ '': '' @ to_string line @ '']'' @ endl"

lemma level_name_inj: "level_name a = level_name b \<longleftrightarrow> a = b"
  by (cases a; cases b) simp_all

text \<open>The level can be read off the line: it is what stands in the first brackets.\<close>

lemma log_line_level:
  "takeWhile (\<lambda>c. c \<noteq> CHR '']'') (tl (log_line (level_name l) message file line now)) = level_name l"
  by (cases l) (simp_all add: log_line_def)

subsection \<open>Messages\<close>

definition utf8 :: "nat list \<Rightarrow> string" where
  "utf8 bs = map char_of bs"

definition msg_open :: string where \<comment> \<open>open\<close>
  "msg_open = utf8
     [0xE6, 0x89, 0x93, 0xE5, 0xBC, 0x80]"

definition msg_failed :: string where \<comment> \<open>failed\<close>
  "msg_failed = utf8
     [0xE5, 0xA4, 0xB1, 0xE8, 0xB4, 0xA5]"

definition msg_failed_bang :: string where \<comment> \<open>failed!\<close>
  "msg_failed_bang = utf8
     [0xE5, 0xA4, 0xB1, 0xE8, 0xB4, 0xA5, 0x21]"

definition msg_doc_id_range :: string where \<comment> \<open>document id out of range\<close>
  "msg_doc_id_range = utf8
     [0xE6, 0x96, 0x87, 0xE6, 0xA1, 0xA3, 0x69, 0x64, 0xE8, 0xB6, 0x85, 0xE5, 0x87, 0xBA,
      0xE8, 0x8C, 0x83, 0xE5, 0x9B, 0xB4]"

definition msg_no_postings :: string where \<comment> \<open>has no inverted list\<close>
  "msg_no_postings = utf8
     [0xE6, 0x89, 0xBE, 0xE4, 0xB8, 0x8D, 0xE5, 0x88, 0xB0, 0xE7, 0x9B, 0xB8, 0xE5, 0x85,
      0xB3, 0xE7, 0x9A, 0x84, 0xE5, 0x80, 0x92, 0xE6, 0x8E, 0x92, 0xE6, 0x8B, 0x89, 0xE9,
      0x93, 0xBE]"

definition msg_open_failed :: string where \<comment> \<open>could not be opened!\<close>
  "msg_open_failed = utf8
     [0xE6, 0x89, 0x93, 0xE5, 0xBC, 0x80, 0xE5, 0xA4, 0xB1, 0xE8, 0xB4, 0xA5, 0x21]"

definition msg_indexed_so_far :: string where \<comment> \<open>documents indexed so far\<close>
  "msg_indexed_so_far = utf8
     [0xE5, 0xBD, 0x93, 0xE5, 0x89, 0x8D, 0xE5, 0xB7, 0xB2, 0xE7, 0xBB, 0x8F, 0xE5, 0xBB,
      0xBA, 0xE7, 0xAB, 0x8B, 0xE7, 0x9A, 0x84, 0xE7, 0xB4, 0xA2, 0xE5, 0xBC, 0x95, 0xE6,
      0x96, 0x87, 0xE6, 0xA1, 0xA3]"

definition msg_got_instance :: string where \<comment> \<open>got the index singleton\<close>
  "msg_got_instance = utf8
     [0xE8, 0x8E, 0xB7, 0xE5, 0x8F, 0x96, 0x69, 0x6E, 0x64, 0x65, 0x78, 0xE5, 0x8D, 0x95,
      0xE4, 0xBE, 0x8B, 0xE6, 0x88, 0x90, 0xE5, 0x8A, 0x9F, 0x2E, 0x2E, 0x2E]"

definition msg_index_built :: string where \<comment> \<open>index built\<close>
  "msg_index_built = utf8
     [0xE6, 0xA0, 0xB9, 0xE6, 0x8D, 0xAE, 0x49, 0x6E, 0x64, 0x65, 0x78, 0xE5, 0xAF, 0xB9,
      0xE8, 0xB1, 0xA1, 0xE5, 0xBB, 0xBA, 0xE7, 0xAB, 0x8B, 0xE7, 0xB4, 0xA2, 0xE5, 0xBC,
      0x95, 0xE6, 0x88, 0x90, 0xE5, 0x8A, 0x9F, 0x2E, 0x2E, 0x2E]"

definition msg_no_match :: string where \<comment> \<open>a document does not match the keyword\<close>
  "msg_no_match = utf8
     [0xE5, 0x87, 0xBA, 0xE7, 0x8E, 0xB0, 0xE4, 0xB8, 0x8E, 0xE5, 0x85, 0xB3, 0xE9, 0x94,
      0xAE, 0xE5, 0xAD, 0x97, 0xE4, 0xB8, 0x8D, 0xE7, 0xAC, 0xA6, 0xE7, 0x9A, 0x84, 0xE6,
      0x96, 0x87, 0xE6, 0xA1, 0xA3]"

definition msg_enum_failed :: string where \<comment> \<open>enumerating the files failed!\<close>
  "msg_enum_failed = utf8
     [0xE9, 0x81, 0x8D, 0xE5, 0x8E, 0x86, 0xE6, 0x96, 0x87, 0xE4, 0xBB, 0xB6, 0xE5, 0xA4,
      0xB1, 0xE8, 0xB4, 0xA5, 0x21]"

definition msg_parse_failed :: string where \<comment> \<open>parsing the html failed!\<close>
  "msg_parse_failed = utf8
     [0xE8, 0xA7, 0xA3, 0xE6, 0x9E, 0x90, 0x68, 0x74, 0x6D, 0x6C, 0xE5, 0xA4, 0xB1, 0xE8,
      0xB4, 0xA5, 0x21]"

definition msg_save_failed :: string where \<comment> \<open>saving the html failed!\<close>
  "msg_save_failed = utf8
     [0xE4, 0xBF, 0x9D, 0xE5, 0xAD, 0x98, 0x68, 0x74, 0x6D, 0x6C, 0xE5, 0xA4, 0xB1, 0xE8,
      0xB4, 0xA5, 0x21]"

definition msg_need_keyword :: string where \<comment> \<open>a search keyword is required!\<close>
  "msg_need_keyword = utf8
     [0xE5, 0xBF, 0x85, 0xE9, 0xA1, 0xBB, 0xE8, 0xA6, 0x81, 0xE6, 0x9C, 0x89, 0xE6, 0x90,
      0x9C, 0xE7, 0xB4, 0xA2, 0xE5, 0x85, 0xB3, 0xE9, 0x94, 0xAE, 0xE5, 0xAD, 0x97, 0xEF,
      0xBC, 0x81]"

definition msg_user_search :: string where \<comment> \<open>user searches: \<close>
  "msg_user_search = utf8
     [0xE7, 0x94, 0xA8, 0xE6, 0x88, 0xB7, 0xE6, 0x90, 0x9C, 0xE7, 0xB4, 0xA2, 0x3A, 0x20]"

definition msg_server_started :: string where \<comment> \<open>server started\<close>
  "msg_server_started = utf8
     [0xE6, 0x9C, 0x8D, 0xE5, 0x8A, 0xA1, 0xE5, 0x99, 0xA8, 0xE5, 0x90, 0xAF, 0xE5, 0x8A,
      0xA8, 0xE6, 0x88, 0x90, 0xE5, 0x8A, 0x9F, 0x2E, 0x2E, 0x2E]"

definition msg_redis_cleaned :: string where \<comment> \<open>redis hot words cleaned\<close>
  "msg_redis_cleaned = utf8
     [0x72, 0x65, 0x64, 0x69, 0x73, 0xE7, 0x83, 0xAD, 0xE8, 0xAF, 0x8D, 0xE6, 0x95, 0xB0,
      0xE6, 0x8D, 0xAE, 0xE5, 0xB7, 0xB2, 0xE6, 0xB8, 0x85, 0xE6, 0xB4, 0x97]"

end
