(* ===== verification/Util.thy ===== *)
theory Util
  imports Std_Streams Logging
begin

text \<open>
  \<open>include/util.hpp\<close> without Redis: \<open>FileUtil::ReadFile\<close>,
  \<open>StringUtil::Split\<close> and \<open>JiebaUtil::CutString\<close>. Boost and cppjieba are not part of
  the repository: the functions the program calls are the fields of \<open>text_libs\<close>, and
  the locale \<open>splitter\<close> states what Boost documents of \<open>split\<close> with
  \<open>token_compress_on\<close>.
\<close>

subsection \<open>Third-party text functions\<close>

record text_libs =
  boost_split :: "string \<Rightarrow> string \<Rightarrow> string list" \<comment> \<open>\<open>is_any_of(sep)\<close>, \<open>token_compress_on\<close>\<close>
  boost_to_lower :: "string \<Rightarrow> string"
  CutForSearch :: "string \<Rightarrow> string list"
  word_order :: "string list \<Rightarrow> string list" \<comment> \<open>iteration order of a map with string keys\<close>

subsection \<open>FileUtil\<close>

text \<open>
  The result, the string behind \<open>out\<close> after the call, and the events. The lines are
  appended without the newlines between them.
\<close>

definition ReadFile :: "filesys \<Rightarrow> string \<Rightarrow> string \<Rightarrow> (bool \<times> string) \<times> event list" where
  "ReadFile fs file_path out =
     (case readable fs file_path of
        None \<Rightarrow> ((False, out),
          [Cerr (''open file'' @ file_path @ ''error'' @ endl),
           Log FATAL (msg_open @ file_path @ msg_failed)])
      | Some s \<Rightarrow>
          ((True, snd (snd (getline_loop (\<lambda>line out. out @ line) (open_stream s) [] out))), []))"

lemma fold_append: "fold (\<lambda>x acc. acc @ x) xs acc = acc @ concat xs"
  by (induction xs arbitrary: acc) auto

lemma ReadFile_unreadable:
  "readable fs p = None \<Longrightarrow> fst (ReadFile fs p out) = (False, out)"
  by (simp add: ReadFile_def)

lemma ReadFile_content:
  "readable fs p = Some s \<Longrightarrow>
     ReadFile fs p out = ((True, out @ filter (\<lambda>c. c \<noteq> NL) s), [])"
  by (simp add: ReadFile_def std_simps fold_append concat_lines_of)

subsection \<open>StringUtil and JiebaUtil\<close>

definition Split :: "'a text_libs_scheme \<Rightarrow> string \<Rightarrow> string \<Rightarrow> string list" where
  "Split L target sep = boost_split L target sep"

definition CutString :: "'a text_libs_scheme \<Rightarrow> string \<Rightarrow> string list" where
  "CutString L src = CutForSearch L src"

text \<open>
  What Boost documents of \<open>split\<close>: a text without separators is its only token, and a
  run of adjacent separators counts as one.
\<close>

locale splitter =
  fixes split :: "string \<Rightarrow> string \<Rightarrow> string list"
  assumes split_single: "set s \<inter> set sep = {} \<Longrightarrow> split s sep = [s]"
    and split_run: "\<lbrakk>set t \<inter> set sep = {}; g \<noteq> []; set g \<subseteq> set sep; r = [] \<or> hd r \<notin> set sep\<rbrakk>
      \<Longrightarrow> split (t @ g @ r) sep = t # split r sep"
begin

lemma split_char:
  assumes "c \<notin> set t" and "r = [] \<or> hd r \<noteq> c"
  shows "split (t @ c # r) [c] = t # split r [c]"
  using split_run [of t "[c]" "[c]" r] assms by auto

lemma split_three:
  assumes "c \<notin> set x" and "c \<notin> set y" and "c \<notin> set z" and "y \<noteq> []"
  shows "split (x @ c # y @ c # z) [c] = [x, y, z]"
proof -
  have "hd (y @ c # z) \<noteq> c" using assms by (cases y) auto
  then have "split (x @ c # y @ c # z) [c] = x # split (y @ c # z) [c]"
    using assms by (intro split_char) auto
  also have "split (y @ c # z) [c] = y # split z [c]"
    using assms by (intro split_char) (cases z, auto)
  also have "split z [c] = [z]" using assms by (intro split_single) auto
  finally show ?thesis .
qed

text \<open>Two adjacent separators are one: an empty field in the middle is lost.\<close>

lemma split_empty_middle:
  assumes "c \<notin> set x" and "c \<notin> set z"
  shows "split (x @ c # c # z) [c] = [x, z]"
proof -
  have "split (x @ [c, c] @ z) [c] = x # split z [c]"
    using assms by (intro split_run) (cases z, auto)
  also have "split z [c] = [z]" using assms by (intro split_single) auto
  finally show ?thesis by simp
qed

end

text \<open>An executable function with the documented behaviour.\<close>

function compress_split :: "string \<Rightarrow> string \<Rightarrow> string list" where
  "compress_split s sep =
     (case dropWhile (\<lambda>c. c \<notin> set sep) s of
        [] \<Rightarrow> [takeWhile (\<lambda>c. c \<notin> set sep) s]
      | c # r \<Rightarrow> takeWhile (\<lambda>c. c \<notin> set sep) s #
                 compress_split (dropWhile (\<lambda>c. c \<in> set sep) r) sep)"
  by pat_completeness auto
termination
proof (relation "measure (\<lambda>(s, sep). length s)", goal_cases)
  case (2 s sep c r)
  have "length (dropWhile (\<lambda>c. c \<in> set sep) r) \<le> length r" by (rule length_dropWhile_le)
  also have "\<dots> < length s" using 2 by (metis length_dropWhile_le length_Cons Suc_le_lessD)
  finally show ?case by simp
qed simp

declare compress_split.simps [simp del]

lemma dropWhile_all: "\<forall>x \<in> set xs. P x \<Longrightarrow> dropWhile P (xs @ ys) = dropWhile P ys"
  by (induction xs) auto

lemma takeWhile_all: "\<forall>x \<in> set xs. P x \<Longrightarrow> takeWhile P (xs @ ys) = xs @ takeWhile P ys"
  by (induction xs) auto

interpretation boost_ref: splitter compress_split
proof (unfold_locales, goal_cases)
  case (1 s sep)
  then have "\<forall>c \<in> set s. c \<notin> set sep" by auto
  then show ?case
    by (subst compress_split.simps)
       (simp add: dropWhile_eq_Nil_conv [THEN iffD2] takeWhile_eq_all_conv [THEN iffD2])
next
  case (2 t sep g r)
  from 2(1) have t: "\<forall>c \<in> set t. c \<notin> set sep" by auto
  from 2(2) obtain c g' where g: "g = c # g'" by (cases g) auto
  with 2(3) have c: "c \<in> set sep" "\<forall>x \<in> set g'. x \<in> set sep" by auto
  have "dropWhile (\<lambda>c. c \<in> set sep) r = r" using 2(4) by (cases r) auto
  with c(2) have "dropWhile (\<lambda>c. c \<in> set sep) (g' @ r) = r" by (simp add: dropWhile_all)
  with t g c(1) show ?case
    by (subst compress_split.simps) (simp add: dropWhile_all takeWhile_all)
qed

end
