(* ===== verification/Std_Strings.thy ===== *)
theory Std_Strings
  imports Prelude "HOL-Library.Sublist"
begin

text \<open>
  The operations of \<open>std::string\<close> and \<open><algorithm>\<close> the program calls:
  \<open>find\<close>, \<open>substr\<close>, \<open>std::search\<close> and \<open>std::tolower\<close>, with the
  lemmas that say what they find: the first occurrence, and only that.
\<close>

subsection \<open>find and substr\<close>

text \<open>\<open>s.find(pat)\<close>: the offset of the first occurrence, \<open>None\<close> for \<open>npos\<close>.\<close>

fun string_find :: "string \<Rightarrow> string \<Rightarrow> nat option" where
  "string_find [] pat = (if pat = [] then Some 0 else None)"
| "string_find (c # s) pat =
     (if prefix pat (c # s) then Some 0 else map_option Suc (string_find s pat))"

text \<open>\<open>s.substr(pos, n)\<close> throws when \<open>pos\<close> is past the end.\<close>

definition substr :: "string \<Rightarrow> nat \<Rightarrow> nat \<Rightarrow> exn + string" where
  "substr s pos n = (if length s < pos then Inl OutOfRange else Inr (take n (drop pos s)))"

lemma string_find_Some:
  "string_find s pat = Some i \<Longrightarrow> i \<le> length s \<and> prefix pat (drop i s)"
  by (induction s arbitrary: i) (auto split: if_splits)

lemma string_find_first:
  "string_find s pat = Some i \<Longrightarrow> j < i \<Longrightarrow> \<not> prefix pat (drop j s)"
proof (induction s arbitrary: i j)
  case Nil
  then show ?case by (auto split: if_splits)
next
  case (Cons c s)
  then show ?case by (cases j) (auto split: if_splits)
qed

lemma string_find_None: "string_find s pat = None \<longleftrightarrow> \<not> sublist pat s"
  by (induction s) (auto simp: sublist_Cons_right)

lemma string_find_decomp:
  assumes "string_find s pat = Some i"
  shows "s = take i s @ pat @ drop (i + length pat) s"
proof -
  from string_find_Some [OF assms] obtain r where "drop i s = pat @ r"
    by (auto simp: prefix_def)
  moreover from this have "drop (i + length pat) s = r"
    by (metis add.commute append_eq_conv_conj drop_drop)
  ultimately show ?thesis by (metis append_take_drop_id)
qed

lemma string_find_length: "string_find s pat = Some i \<Longrightarrow> i + length pat \<le> length s"
proof -
  assume a: "string_find s pat = Some i"
  from string_find_Some [OF a] have "length pat \<le> length (drop i s)" and "i \<le> length s"
    by (auto dest: prefix_length_le)
  then show ?thesis by simp
qed

lemma string_find_eqI:
  assumes "i \<le> length s" and "prefix pat (drop i s)"
    and "\<And>j. j < i \<Longrightarrow> \<not> prefix pat (drop j s)"
  shows "string_find s pat = Some i"
  using assms
proof (induction s arbitrary: i)
  case Nil
  then show ?case by simp
next
  case (Cons c s)
  show ?case
  proof (cases i)
    case 0
    with Cons.prems show ?thesis by simp
  next
    case (Suc k)
    with Cons.prems(3) [of 0] have "\<not> prefix pat (c # s)" by simp
    moreover have "string_find s pat = Some k"
      using Cons.prems Suc by (intro Cons.IH) (auto, metis Suc_mono drop_Suc_Cons)
    ultimately show ?thesis using Suc by simp
  qed
qed

text \<open>
  The same without offsets: the text before the match ends before any earlier occurrence.
\<close>

lemma prefix_drop_sublist:
  assumes "prefix pat (drop j s)" and "j + length pat \<le> n"
  shows "sublist pat (take n s)"
proof -
  from assms(1) obtain r where r: "drop j s = pat @ r" by (auto simp: prefix_def)
  have "take n s = take j s @ take (n - j) (drop j s)"
    using assms(2) by (metis add_leD1 le_add_diff_inverse take_add)
  also have "take (n - j) (drop j s) = pat @ take (n - j - length pat) r"
    using assms(2) by (simp add: r)
  finally show ?thesis by (auto simp: sublist_def)
qed

lemma string_find_iff:
  assumes "pat \<noteq> []"
  shows "string_find s pat = Some i \<longleftrightarrow>
           (\<exists>a b. s = a @ pat @ b \<and> length a = i \<and> \<not> sublist pat (a @ butlast pat))"
    (is "?L \<longleftrightarrow> ?R")
proof
  assume L: ?L
  let ?a = "take i s" and ?b = "drop (i + length pat) s"
  have d: "s = ?a @ pat @ ?b" using L by (rule string_find_decomp)
  have i: "i \<le> length s" using string_find_Some [OF L] by simp
  have "\<not> sublist pat (?a @ butlast pat)"
  proof
    assume "sublist pat (?a @ butlast pat)"
    then obtain x y where xy: "?a @ butlast pat = x @ pat @ y" by (auto simp: sublist_def)
    then have "length (?a @ butlast pat) = length (x @ pat @ y)" by simp
    with i assms have "length x < i" by simp (cases pat, auto)
    moreover have "s = x @ pat @ y @ [last pat] @ ?b"
      using d xy assms by (metis append_assoc append_butlast_last_id)
    then have "prefix pat (drop (length x) s)"
      by (metis append_eq_conv_conj prefixI)
    ultimately show False using string_find_first [OF L] by blast
  qed
  with d i show ?R by (intro exI [of _ ?a] exI [of _ ?b]) simp
next
  assume ?R
  then obtain a b where s: "s = a @ pat @ b" and i: "length a = i"
    and n: "\<not> sublist pat (a @ butlast pat)" by blast
  show ?L
  proof (rule string_find_eqI)
    show "i \<le> length s" and "prefix pat (drop i s)" using s i by auto
    fix j assume "j < i"
    show "\<not> prefix pat (drop j s)"
    proof
      assume "prefix pat (drop j s)"
      moreover have "j + length pat \<le> length (a @ butlast pat)"
        using \<open>j < i\<close> i assms by (cases pat) auto
      ultimately have "sublist pat (take (length (a @ butlast pat)) s)"
        by (rule prefix_drop_sublist)
      also have "s = (a @ butlast pat) @ [last pat] @ b"
        using s assms by simp
      finally show False using n by simp
    qed
  qed
qed

subsection \<open>std::search with a predicate\<close>

text \<open>
  The result is the offset of the iterator returned: \<open>length s\<close> stands for \<open>last\<close>,
  which is also the answer for an empty haystack.
\<close>

fun matches_at :: "('a \<Rightarrow> 'a \<Rightarrow> bool) \<Rightarrow> 'a list \<Rightarrow> 'a list \<Rightarrow> bool" where
  "matches_at eq s [] = True"
| "matches_at eq [] (p # ps) = False"
| "matches_at eq (c # s) (p # ps) = (eq c p \<and> matches_at eq s ps)"

fun std_search :: "('a \<Rightarrow> 'a \<Rightarrow> bool) \<Rightarrow> 'a list \<Rightarrow> 'a list \<Rightarrow> nat" where
  "std_search eq [] pat = 0"
| "std_search eq (c # s) pat =
     (if matches_at eq (c # s) pat then 0 else Suc (std_search eq s pat))"

lemma std_search_le: "std_search eq s pat \<le> length s"
  by (induction s) auto

lemma std_search_match:
  "std_search eq s pat < length s \<Longrightarrow> matches_at eq (drop (std_search eq s pat) s) pat"
  by (induction s) auto

lemma std_search_first: "j < std_search eq s pat \<Longrightarrow> \<not> matches_at eq (drop j s) pat"
proof (induction s arbitrary: j)
  case Nil
  then show ?case by simp
next
  case (Cons c s)
  then show ?case by (cases j) (auto split: if_splits)
qed

lemma std_search_found:
  assumes "j < length s" and "matches_at eq (drop j s) pat"
  shows "std_search eq s pat \<le> j"
  using assms std_search_first not_le by blast

lemma matches_at_iff:
  "matches_at eq s pat \<longleftrightarrow> length pat \<le> length s \<and> list_all2 eq (take (length pat) s) pat"
  by (induction eq s pat rule: matches_at.induct) auto

lemma matches_at_append [simp]: "matches_at eq (s @ t) pat" if "matches_at eq s pat"
  using that by (induction eq s pat rule: matches_at.induct) auto

lemma matches_at_refl: "(\<And>c. eq c c) \<Longrightarrow> matches_at eq s s"
  by (induction s) auto

subsection \<open>char, int and tolower\<close>

text \<open>\<open>char\<close> is signed on the target: bytes above 127 are negative as \<open>int\<close>.\<close>

definition char_int :: "char \<Rightarrow> int" where
  "char_int c = (let n = (of_char c :: nat) in if n < 128 then int n else int n - 256)"

text \<open>\<open>std::tolower\<close> in the C locale, the one the program runs in.\<close>

definition std_tolower :: "int \<Rightarrow> int" where
  "std_tolower i = (if 65 \<le> i \<and> i \<le> 90 then i + 32 else i)"

definition ascii_lower :: "char \<Rightarrow> char" where
  "ascii_lower c =
     (let n = (of_char c :: nat) in if 65 \<le> n \<and> n \<le> 90 then char_of (n + 32) else c)"

lemma char_int_inj [simp]: "char_int c = char_int d \<longleftrightarrow> c = d"
proof
  assume "char_int c = char_int d"
  then have "(of_char c :: nat) = of_char d"
    using nat_of_char_less_256 [of c] nat_of_char_less_256 [of d]
    by (auto simp: char_int_def Let_def simp del: nat_of_char_less_256 split: if_splits)
  then show "c = d" by simp
qed simp

lemma std_tolower_char_int [std_simps]: "std_tolower (char_int c) = char_int (ascii_lower c)"
  using nat_of_char_less_256 [of c]
  by (auto simp: std_tolower_def char_int_def ascii_lower_def Let_def simp del: nat_of_char_less_256)

lemma ascii_lower_idem [simp]: "ascii_lower (ascii_lower c) = ascii_lower c"
  by (auto simp: ascii_lower_def Let_def)

text \<open>Two characters the search treats as one letter.\<close>

definition same_letter :: "char \<Rightarrow> char \<Rightarrow> bool" where
  "same_letter x y \<longleftrightarrow> std_tolower (char_int x) = std_tolower (char_int y)"

lemma same_letter_iff: "same_letter x y \<longleftrightarrow> ascii_lower x = ascii_lower y"
  by (simp add: same_letter_def std_simps)

lemma list_all2_same_letter:
  "list_all2 same_letter xs ys \<longleftrightarrow> map ascii_lower xs = map ascii_lower ys"
proof (induction xs arbitrary: ys)
  case Nil
  then show ?case by auto
next
  case (Cons x xs)
  then show ?case by (cases ys) (auto simp: same_letter_iff)
qed

lemma matches_at_same_letter:
  "matches_at same_letter s pat \<longleftrightarrow>
     (\<exists>t r. s = t @ r \<and> map ascii_lower t = map ascii_lower pat)"
proof
  assume "matches_at same_letter s pat"
  then have "map ascii_lower (take (length pat) s) = map ascii_lower pat"
    by (simp add: matches_at_iff list_all2_same_letter)
  then show "\<exists>t r. s = t @ r \<and> map ascii_lower t = map ascii_lower pat"
    by (metis append_take_drop_id)
next
  assume "\<exists>t r. s = t @ r \<and> map ascii_lower t = map ascii_lower pat"
  then obtain t r where "s = t @ r" and e: "map ascii_lower t = map ascii_lower pat" by blast
  moreover from e have "length t = length pat" by (rule map_eq_imp_length_eq)
  ultimately show "matches_at same_letter s pat"
    by (simp add: matches_at_iff list_all2_same_letter)
qed

text \<open>\<open>isspace\<close> in the C locale.\<close>

definition is_space :: "char \<Rightarrow> bool" where
  "is_space c \<longleftrightarrow> c \<in> {CHR '' '', CHR 0x09, CHR 0x0A, CHR 0x0B, CHR 0x0C, CHR 0x0D}"

subsection \<open>Numbers in strings\<close>

text \<open>\<open>atoi\<close>: white space, a sign, digits; 0 without digits.\<close>

definition digit_value :: "char \<Rightarrow> nat option" where
  "digit_value c = (let n = (of_char c :: nat) in if 48 \<le> n \<and> n \<le> 57 then Some (n - 48) else None)"

fun take_digits :: "int \<Rightarrow> string \<Rightarrow> int" where
  "take_digits v [] = v"
| "take_digits v (c # s) = (case digit_value c of None \<Rightarrow> v | Some d \<Rightarrow> take_digits (v * 10 + int d) s)"

definition atoi :: "string \<Rightarrow> int" where
  "atoi s =
     (case dropWhile is_space s of
        [] \<Rightarrow> 0
      | c # t \<Rightarrow> if c = CHR ''+'' then take_digits 0 t
                else if c = CHR ''-'' then - take_digits 0 t
                else take_digits 0 (c # t))"

end
