(* ===== verification/Parser.thy ===== *)
theory Parser
  imports Util Std_Strings
begin

text \<open>
  \<open>src/parser.cc\<close>, the program that turns the HTML files under \<open>data/input\<close> into
  the raw text file the search engine reads: enumeration of the files, extraction of title,
  text and URL of each, and the file that holds one line per document.
\<close>

subsection \<open>Data and constants\<close>

record DocInfo_t =
  title :: string
  content :: string
  url :: string

definition src_path :: string where "src_path = ''data/input''"
definition output_path :: string where "output_path = ''data/raw_html/raw.txt''"
definition url_head :: string where
  "url_head = ''https://www.boost.org/doc/libs/1_85_0/doc/html''"

definition SEP :: char where "SEP = CHR 0x03"

text \<open>
  Boost.Filesystem: whether a path exists, the paths the recursive iterator visits, whether
  one of them is a regular file, and its extension.
\<close>

record fs_lib =
  fs_exists :: "string \<Rightarrow> bool"
  fs_walk :: "string \<Rightarrow> string list"
  fs_is_regular_file :: "string \<Rightarrow> bool"
  fs_extension :: "string \<Rightarrow> string"

subsection \<open>EnumFile\<close>

fun EnumFile_loop :: "fs_lib \<Rightarrow> string list \<Rightarrow> string list \<Rightarrow> string list" where
  "EnumFile_loop F [] file_list = file_list"
| "EnumFile_loop F (iter # its) file_list =
     (if \<not> fs_is_regular_file F iter then EnumFile_loop F its file_list
      else if fs_extension F iter \<noteq> ''.html'' then EnumFile_loop F its file_list
      else EnumFile_loop F its (file_list @ [iter]))"

definition EnumFile ::
  "fs_lib \<Rightarrow> string \<Rightarrow> string list \<Rightarrow> (bool \<times> string list) \<times> event list" where
  "EnumFile F src file_list =
     (if \<not> fs_exists F src
      then ((False, file_list), [Cerr (src @ '' not exists'' @ endl)])
      else ((True, EnumFile_loop F (fs_walk F src) file_list), []))"

subsection \<open>ParserTitle, ParserContent, ParserUrl\<close>

text \<open>
  Each takes the current value of the string behind its output pointer and returns the value
  after the call with the \<open>bool\<close> of the code, or the exception it throws.
\<close>

definition title_open :: string where "title_open = ''<title>''"
definition title_close :: string where "title_close = ''</title>''"

definition ParserTitle :: "string \<Rightarrow> string \<Rightarrow> exn + bool \<times> string" where
  "ParserTitle file t =
     (case string_find file title_open of
        None \<Rightarrow> Inr (False, t)
      | Some b \<Rightarrow>
        (case string_find file title_close of
           None \<Rightarrow> Inr (False, t)
         | Some e \<Rightarrow>
           let b = b + length title_open
           in if e < b then Inr (False, t)
              else case substr file b (e - b) of
                     Inl x \<Rightarrow> Inl x
                   | Inr s \<Rightarrow> Inr (True, s)))"

datatype status = LABLE | CONTENT

fun content_step :: "char \<Rightarrow> status \<times> string \<Rightarrow> status \<times> string" where
  "content_step c (LABLE, out) = (if c = CHR ''>'' then CONTENT else LABLE, out)"
| "content_step c (CONTENT, out) =
     (if c = CHR ''<'' then (LABLE, out)
      else (CONTENT, out @ [if c = NL then CHR '' '' else c]))"

definition ParserContent :: "string \<Rightarrow> string \<Rightarrow> exn + bool \<times> string" where
  "ParserContent file out = Inr (True, snd (fold content_step file (LABLE, out)))"

definition ParserUrl :: "string \<Rightarrow> string \<Rightarrow> exn + bool \<times> string" where
  "ParserUrl file_path u =
     (case substr file_path (length src_path) (length file_path) of
        Inl x \<Rightarrow> Inl x
      | Inr url_tail \<Rightarrow> Inr (True, url_head @ url_tail))"

subsection \<open>ParserHtml\<close>

text \<open>
  One document: \<open>None\<close> where the code says \<open>continue\<close>, the exceptions of the
  three extractions passed on.
\<close>

definition parse_doc :: "string \<Rightarrow> string \<Rightarrow> exn + DocInfo_t option" where
  "parse_doc file result =
     (case ParserTitle result [] of
        Inl x \<Rightarrow> Inl x
      | Inr (False, _) \<Rightarrow> Inr None
      | Inr (True, t) \<Rightarrow>
     (case ParserContent result [] of
        Inl x \<Rightarrow> Inl x
      | Inr (False, _) \<Rightarrow> Inr None
      | Inr (True, c) \<Rightarrow>
     (case ParserUrl file [] of
        Inl x \<Rightarrow> Inl x
      | Inr (False, _) \<Rightarrow> Inr None
      | Inr (True, u) \<Rightarrow> Inr (Some \<lparr>title = t, content = c, url = u\<rparr>))))"

fun ParserHtml ::
  "filesys \<Rightarrow> string list \<Rightarrow> DocInfo_t list \<Rightarrow> (exn + bool \<times> DocInfo_t list) \<times> event list"
where
  "ParserHtml fs [] results = (Inr (True, results), [])"
| "ParserHtml fs (file # files) results =
     (case ReadFile fs file [] of
        ((False, _), ev) \<Rightarrow> apsnd (append ev) (ParserHtml fs files results)
      | ((True, result), ev) \<Rightarrow>
          (case parse_doc file result of
             Inl x \<Rightarrow> (Inl x, ev)
           | Inr None \<Rightarrow> apsnd (append ev) (ParserHtml fs files results)
           | Inr (Some doc) \<Rightarrow> apsnd (append ev) (ParserHtml fs files (results @ [doc]))))"

subsection \<open>SaveHtml and main\<close>

definition out_string :: "DocInfo_t \<Rightarrow> string" where
  "out_string item = title item @ [SEP] @ content item @ [SEP] @ url item @ [NL]"

definition SaveHtml ::
  "DocInfo_t list \<Rightarrow> string \<Rightarrow> filesys \<Rightarrow> (bool \<times> filesys) \<times> event list" where
  "SaveHtml results out fs =
     (if \<not> creatable fs out
      then ((False, fs), [Cerr (''open '' @ out @ '' failed!'' @ endl),
                          Log FATAL (msg_open @ out @ msg_failed_bang)])
      else ((True, write_file out (fold (\<lambda>item s. s @ out_string item) results []) fs), []))"

text \<open>The exit status, or the exception that ends the process, the files and the events.\<close>

definition parser_main :: "fs_lib \<Rightarrow> filesys \<Rightarrow> (exn + int) \<times> filesys \<times> event list" where
  "parser_main F fs =
     (case EnumFile F src_path [] of
        ((False, _), ev1) \<Rightarrow>
          (Inr 1, fs, ev1 @ [Cerr (''enum file error!'' @ endl), Log FATAL msg_enum_failed])
      | ((True, file_list), ev1) \<Rightarrow>
     (case ParserHtml fs file_list [] of
        (Inl x, ev2) \<Rightarrow> (Inl x, fs, ev1 @ ev2)
      | (Inr (False, _), ev2) \<Rightarrow>
          (Inr 2, fs, ev1 @ ev2 @ [Cerr (''parser html error'' @ endl), Log FATAL msg_parse_failed])
      | (Inr (True, results), ev2) \<Rightarrow>
     (case SaveHtml results output_path fs of
        ((False, fs'), ev3) \<Rightarrow>
          (Inr 3, fs', ev1 @ ev2 @ ev3 @ [Cerr (''save html error'' @ endl), Log FATAL msg_save_failed])
      | ((True, fs'), ev3) \<Rightarrow> (Inr 0, fs', ev1 @ ev2 @ ev3))))"

subsection \<open>What the title extraction finds\<close>

lemma substr_total [std_simps]: "p \<le> length s \<Longrightarrow> substr s p n = Inr (take n (drop p s))"
  by (simp add: substr_def)

lemma length_title [simp]: "length title_open = 7" "length title_close = 8"
  by (simp_all add: title_open_def title_close_def)

lemma title_not_Nil [simp]: "title_open \<noteq> []" "title_close \<noteq> []"
  by (simp_all add: title_open_def title_close_def)

text \<open>The test \<open>begin > end\<close> guards the only call that could throw.\<close>

lemma ParserTitle_eq:
  "ParserTitle inp t =
     Inr (case (string_find inp title_open, string_find inp title_close) of
            (Some b, Some e) \<Rightarrow>
              if e < b + 7 then (False, t) else (True, take (e - (b + 7)) (drop (b + 7) inp))
          | _ \<Rightarrow> (False, t))"
  by (auto simp: ParserTitle_def Let_def substr_def split: option.splits
      dest: string_find_length)

lemma ParserTitle_True_iff:
  "ParserTitle inp t = Inr (True, s) \<longleftrightarrow>
     (\<exists>b. string_find inp title_open = Some b \<and>
          string_find inp title_close = Some (b + 7 + length s) \<and>
          take (length s) (drop (b + 7) inp) = s)" (is "?L \<longleftrightarrow> ?R")
proof
  assume ?L
  then obtain b e where b: "string_find inp title_open = Some b"
    and e: "string_find inp title_close = Some e" and le: "b + 7 \<le> e"
    and s: "s = take (e - (b + 7)) (drop (b + 7) inp)"
    by (auto simp: ParserTitle_eq not_less split: option.splits if_splits)
  from string_find_length [OF e] le s have "length s = e - (b + 7)" by simp
  with b e le s show ?R by auto
qed (auto simp: ParserTitle_eq)

subsection \<open>What the content extraction keeps\<close>

text \<open>The text a state machine in the given state sees: tags dropped, newlines blanked.\<close>

definition blank :: "char \<Rightarrow> char" where
  "blank c = (if c = NL then CHR '' '' else c)"

fun visible :: "status \<Rightarrow> string \<Rightarrow> string" where
  "visible s [] = []"
| "visible LABLE (c # cs) = visible (if c = CHR ''>'' then CONTENT else LABLE) cs"
| "visible CONTENT (c # cs) =
     (if c = CHR ''<'' then visible LABLE cs else blank c # visible CONTENT cs)"

fun final_status :: "status \<Rightarrow> string \<Rightarrow> status" where
  "final_status s [] = s"
| "final_status LABLE (c # cs) = final_status (if c = CHR ''>'' then CONTENT else LABLE) cs"
| "final_status CONTENT (c # cs) = final_status (if c = CHR ''<'' then LABLE else CONTENT) cs"

lemma fold_content_step:
  "fold content_step inp (s, out) = (final_status s inp, out @ visible s inp)"
  by (induction s inp arbitrary: out rule: visible.induct) (auto simp: blank_def)

lemma ParserContent_visible: "ParserContent inp out = Inr (True, out @ visible LABLE inp)"
  by (simp add: ParserContent_def fold_content_step)

lemma visible_append: "visible s (x @ y) = visible s x @ visible (final_status s x) y"
  by (induction s x rule: visible.induct) auto

lemma final_status_append: "final_status s (x @ y) = final_status (final_status s x) y"
  by (induction s x rule: final_status.induct) auto

lemma visible_text: "CHR ''<'' \<notin> set x \<Longrightarrow> visible CONTENT x = map blank x"
  by (induction x) auto

lemma final_text: "CHR ''<'' \<notin> set x \<Longrightarrow> final_status CONTENT x = CONTENT"
  by (induction x) auto

lemma visible_tag: "CHR ''>'' \<notin> set x \<Longrightarrow> visible LABLE x = []"
  by (induction x) auto

lemma final_tag: "CHR ''>'' \<notin> set x \<Longrightarrow> final_status LABLE x = LABLE"
  by (induction x) auto

lemma blank_not_NL: "blank c \<noteq> NL"
  by (simp add: blank_def)

lemma visible_chars: "c \<in> set (visible s inp) \<Longrightarrow> c \<noteq> CHR ''<'' \<and> c \<noteq> NL"
  by (induction s inp rule: visible.induct) (auto simp: blank_def split: if_splits)

lemma visible_subset: "set (visible s inp) \<subseteq> insert (CHR '' '') (set inp)"
  by (induction s inp rule: visible.induct) (auto simp: blank_def)

lemma length_visible: "length (visible s inp) \<le> length inp"
  by (induction s inp rule: visible.induct) (auto simp: le_SucI)

text \<open>After \<open><title>\<close> the machine is in state \<open>CONTENT\<close>, whatever came before.\<close>

lemma final_title: "final_status s title_open = CONTENT"
  by (cases s) (simp_all add: title_open_def)

lemma visible_title: "visible CONTENT title_open = []"
  by (simp add: title_open_def)

text \<open>An HTML text as a list of tags and runs of text.\<close>

datatype piece = Tag string | Text string

fun render_piece :: "piece \<Rightarrow> string" where
  "render_piece (Tag t) = CHR ''<'' # t @ [CHR ''>'']"
| "render_piece (Text x) = x"

fun wf_piece :: "piece \<Rightarrow> bool" where
  "wf_piece (Tag t) \<longleftrightarrow> CHR ''>'' \<notin> set t"
| "wf_piece (Text x) \<longleftrightarrow> CHR ''<'' \<notin> set x"

fun piece_text :: "piece \<Rightarrow> string" where
  "piece_text (Tag t) = []"
| "piece_text (Text x) = map blank x"

lemma visible_piece:
  "wf_piece p \<Longrightarrow> visible CONTENT (render_piece p) = piece_text p \<and>
     final_status CONTENT (render_piece p) = CONTENT"
  by (cases p) (auto simp: visible_text final_text visible_tag final_tag visible_append
      final_status_append)

lemma visible_pieces:
  "\<forall>p \<in> set ps. wf_piece p \<Longrightarrow>
     visible CONTENT (concat (map render_piece ps)) = concat (map piece_text ps)"
  by (induction ps) (auto simp: visible_append visible_piece)

text \<open>A title without \<open><\<close> is part of the text, once more, by the other machine.\<close>

lemma title_in_content:
  assumes "ParserTitle inp u = Inr (True, t)" and "CHR ''<'' \<notin> set t"
  shows "sublist (map blank t) (visible LABLE inp)"
proof -
  from assms(1) obtain b where b: "string_find inp title_open = Some b"
    and t: "take (length t) (drop (b + 7) inp) = t"
    by (auto simp: ParserTitle_True_iff)
  from string_find_decomp [OF b]
  have "inp = take b inp @ title_open @ drop (b + 7) inp" by simp
  also have "drop (b + 7) inp = t @ drop (length t) (drop (b + 7) inp)"
    using t by (metis append_take_drop_id)
  finally obtain r where r: "inp = take b inp @ title_open @ t @ r" by blast
  have "visible LABLE inp = (visible LABLE (take b inp) @
      visible (final_status LABLE (take b inp)) title_open) @ map blank t @ visible CONTENT r"
    using assms(2)
    by (subst r) (simp add: visible_append final_status_append final_title visible_text final_text)
  then show ?thesis by (metis sublist_appendI)
qed

lemma map_blank_id [simp]: "NL \<notin> set t \<Longrightarrow> map blank t = t"
  by (induction t) (auto simp: blank_def)

subsection \<open>The whole program as one function of the files\<close>

definition is_html :: "fs_lib \<Rightarrow> string \<Rightarrow> bool" where
  "is_html F p \<longleftrightarrow> fs_is_regular_file F p \<and> fs_extension F p = ''.html''"

text \<open>The text \<open>ReadFile\<close> gives for a file, and the document the file contributes.\<close>

definition joined :: "string \<Rightarrow> string" where
  "joined s = filter (\<lambda>c. c \<noteq> NL) s"

definition doc_of :: "filesys \<Rightarrow> string \<Rightarrow> DocInfo_t option" where
  "doc_of fs p =
     (case readable fs p of
        None \<Rightarrow> None
      | Some s \<Rightarrow>
        (case ParserTitle (joined s) [] of
           Inr (True, t) \<Rightarrow>
             Some \<lparr>title = t, content = visible LABLE (joined s),
                   url = url_head @ drop (length src_path) p\<rparr>
         | _ \<Rightarrow> None))"

lemma EnumFile_loop_filter: "EnumFile_loop F its fl = fl @ filter (is_html F) its"
  by (induction F its fl rule: EnumFile_loop.induct) (auto simp: is_html_def)

lemma ParserUrl_total:
  "length src_path \<le> length p \<Longrightarrow>
     ParserUrl p u = Inr (True, url_head @ drop (length src_path) p)"
  by (simp add: ParserUrl_def std_simps)

lemma ParserHtml_Cons_None:
  "doc_of fs p = None \<Longrightarrow>
     fst (ParserHtml fs (p # files) results) = fst (ParserHtml fs files results)"
proof (cases "readable fs p")
  case None
  then show ?thesis by (simp add: ReadFile_def)
next
  case (Some s)
  moreover assume "doc_of fs p = None"
  ultimately have "parse_doc p (joined s) = Inr None"
    by (auto simp: doc_of_def parse_doc_def ParserTitle_eq split: option.splits if_splits)
  with Some show ?thesis by (simp add: ReadFile_content joined_def)
qed

lemma ParserHtml_Cons_Some:
  "doc_of fs p = Some d \<Longrightarrow> length src_path \<le> length p \<Longrightarrow>
     fst (ParserHtml fs (p # files) results) = fst (ParserHtml fs files (results @ [d]))"
  by (cases "readable fs p")
     (auto simp: doc_of_def ReadFile_content joined_def parse_doc_def ParserContent_visible
        ParserUrl_total split: option.splits sum.splits prod.splits bool.splits)

lemma fold_out_string: "fold (\<lambda>item s. s @ out_string item) ds s = s @ concat (map out_string ds)"
  by (induction ds arbitrary: s) auto

lemma SaveHtml_creatable:
  "creatable fs out \<Longrightarrow>
     SaveHtml ds out fs = ((True, write_file out (concat (map out_string ds)) fs), [])"
  by (simp add: SaveHtml_def fold_out_string)

lemma doc_of_chars:
  assumes "doc_of fs p = Some d"
  shows "NL \<notin> set (title d)" "NL \<notin> set (content d)" "CHR ''<'' \<notin> set (content d)"
proof -
  from assms obtain s where s: "readable fs p = Some s"
    and t: "ParserTitle (joined s) [] = Inr (True, title d)"
    and c: "content d = visible LABLE (joined s)"
    by (auto simp: doc_of_def split: option.splits sum.splits prod.splits bool.splits)
  from t have "set (title d) \<subseteq> set (joined s)"
    by (metis ParserTitle_True_iff set_take_subset set_drop_subset subset_trans)
  then show "NL \<notin> set (title d)" by (auto simp: joined_def)
  show "NL \<notin> set (content d)" "CHR ''<'' \<notin> set (content d)"
    using visible_chars unfolding c by blast+
qed

end
