(* ===== verification/Parser_Correct.thy ===== *)
theory Parser_Correct
  imports Parser
begin

text \<open>
  The properties of the parser: what the title and content extraction find, when anything
  can fail, and the program as a whole as a function from the files under \<open>data/input\<close>
  to the raw text file.
\<close>

subsection \<open>Title\<close>

text \<open>\<open>ParserTitle\<close> succeeds with \<open>t\<close> exactly when the text is the concatenation of
  something, the first \<open><title>\<close>, \<open>t\<close>, the first \<open></title>\<close> of the whole text, and a
  rest.\<close>

theorem ParserTitle_spec:
  "ParserTitle inp u = Inr (True, t) \<longleftrightarrow>
     (\<exists>a b. inp = a @ title_open @ t @ title_close @ b \<and>
        \<not> sublist title_open (a @ butlast title_open) \<and>
        \<not> sublist title_close (a @ title_open @ t @ butlast title_close))"
    (is "?L \<longleftrightarrow> ?R")
proof
  assume ?L
  then obtain i where i: "string_find inp title_open = Some i"
    and j: "string_find inp title_close = Some (i + 7 + length t)"
    and t: "take (length t) (drop (i + 7) inp) = t"
    by (auto simp: ParserTitle_True_iff)
  from i [unfolded string_find_iff [OF title_not_Nil(1)]] obtain a b where
    a: "inp = a @ title_open @ b" "length a = i" "\<not> sublist title_open (a @ butlast title_open)"
    by blast
  from j [unfolded string_find_iff [OF title_not_Nil(2)]] obtain c d where
    c: "inp = c @ title_close @ d" "length c = i + 7 + length t"
      "\<not> sublist title_close (c @ butlast title_close)" by blast
  have "c = take (i + 7 + length t) inp" using c(1,2) by simp
  also have "\<dots> = a @ title_open @ take (length t) b" using a(1,2) by simp
  also have "take (length t) b = t" using t a(1,2) by simp
  finally have "c = a @ title_open @ t" .
  with a c show ?R by auto
next
  assume ?R
  then obtain a b where inp: "inp = a @ title_open @ t @ title_close @ b"
    and n: "\<not> sublist title_open (a @ butlast title_open)"
      "\<not> sublist title_close ((a @ title_open @ t) @ butlast title_close)" by auto
  have "string_find inp title_open = Some (length a)"
    unfolding string_find_iff [OF title_not_Nil(1)] using inp n(1) by blast
  moreover have "string_find inp title_close = Some (length (a @ title_open @ t))"
    unfolding string_find_iff [OF title_not_Nil(2)] using inp n(2)
    by (intro exI [of _ "a @ title_open @ t"] exI [of _ b]) simp
  ultimately show ?L using inp by (simp add: ParserTitle_True_iff)
qed

subsection \<open>Content\<close>

text \<open>C13. On an HTML text given as tags and runs of text, after any characters without
  \<open>>\<close> and a first tag, \<open>ParserContent\<close> appends exactly the text, newlines replaced by blanks.\<close>

theorem ParserContent_markup:
  assumes "CHR ''>'' \<notin> set junk" and "\<forall>p \<in> set ps. wf_piece p" and "wf_piece (Tag g)"
  shows "ParserContent (junk @ concat (map render_piece (Tag g # ps))) out =
           Inr (True, out @ concat (map piece_text ps))"
proof -
  let ?x = "junk @ render_piece (Tag g)"
  have x: "visible LABLE ?x = []" "final_status LABLE ?x = CONTENT"
    using assms(1,3) by (simp_all add: visible_append final_status_append visible_tag final_tag)
  have "visible LABLE (?x @ concat (map render_piece ps)) = concat (map piece_text ps)"
    unfolding visible_append [of LABLE ?x] x visible_pieces [OF assms(2)] by simp
  then show ?thesis by (simp add: ParserContent_visible)
qed

theorem ParserContent_markup_witness:
  "ParserContent (''x'' @ concat (map render_piece
      (Tag ''html'' # [Text ''a>b'', Tag ''/p'', Text [CHR ''c'', NL, CHR ''d'']]))) ''>''
   = Inr (True, ''>'' @ concat (map piece_text
      [Text ''a>b'', Tag ''/p'', Text [CHR ''c'', NL, CHR ''d'']]))"
  by (rule ParserContent_markup) simp_all

text \<open>Whatever the input, what \<open>ParserContent\<close> appends has no newline and no
  \<open><\<close>, and is no longer than the input.\<close>

theorem ParserContent_clean:
  "\<exists>t. ParserContent inp out = Inr (True, out @ t) \<and> NL \<notin> set t \<and> CHR ''<'' \<notin> set t \<and>
     length t \<le> length inp"
  using visible_chars length_visible by (auto simp: ParserContent_visible)

text \<open>A title without \<open><\<close> occurs again inside the content of the same text, because
  the state machine is in its content state after \<open><title>\<close>: title words are counted twice.\<close>

theorem title_repeated_in_content:
  assumes "ParserTitle inp u = Inr (True, t)" and "CHR ''<'' \<notin> set t" and "NL \<notin> set inp"
  shows "\<exists>c. ParserContent inp [] = Inr (True, c) \<and> sublist t c"
proof -
  from assms(1) have "set t \<subseteq> set inp"
    by (metis ParserTitle_True_iff set_take_subset set_drop_subset subset_trans)
  with assms(3) have "map blank t = t" by (intro map_blank_id) blast
  with title_in_content [OF assms(1,2)] show ?thesis by (simp add: ParserContent_visible)
qed

theorem title_repeated_in_content_witness:
  "\<exists>c. ParserContent ''<html><title>Boost</title>'' [] = Inr (True, c) \<and> sublist ''Boost'' c"
  by (rule title_repeated_in_content [of _ "[]"]) code_simp+

subsection \<open>Reading a file\<close>

text \<open>\<open>ReadFile\<close> appends the characters of the file without its newlines, whatever their
  number and whether the last line ends with one, and leaves the string alone when the file cannot
  be opened.\<close>

theorem ReadFile_joins:
  "fst (ReadFile fs p out) =
     (case readable fs p of None \<Rightarrow> (False, out) | Some s \<Rightarrow> (True, out @ filter (\<lambda>c. c \<noteq> NL) s))"
  by (auto simp: ReadFile_content ReadFile_unreadable split: option.split)

subsection \<open>Failures\<close>

text \<open>The extraction of a page with a title ends with an exception, \<open>std::out_of_range\<close>
  from \<open>ParserUrl\<close>, exactly when its path is shorter than \<open>data/input\<close>; without a
  title the page is skipped; in all other cases it gives a document.\<close>

theorem parse_doc_outcome:
  "parse_doc p inp =
     (case ParserTitle inp [] of
        Inr (True, t) \<Rightarrow>
          if length p < length src_path then Inl OutOfRange
          else Inr (Some \<lparr>title = t, content = visible LABLE inp,
                          url = url_head @ drop (length src_path) p\<rparr>)
      | _ \<Rightarrow> Inr None)"
  by (auto simp: parse_doc_def ParserTitle_eq ParserContent_visible ParserUrl_def substr_def
      split: option.splits if_splits)

subsection \<open>The whole program\<close>

text \<open>The documents of the files the walk visits, in its order.\<close>

definition parsed_docs :: "fs_lib \<Rightarrow> filesys \<Rightarrow> DocInfo_t list" where
  "parsed_docs F fs = List.map_filter (doc_of fs) (filter (is_html F) (fs_walk F src_path))"

lemma ParserHtml_docs:
  "\<forall>p \<in> set ps. length src_path \<le> length p \<Longrightarrow>
     fst (ParserHtml fs ps results) = Inr (True, results @ List.map_filter (doc_of fs) ps)"
proof (induction ps arbitrary: results)
  case (Cons p ps)
  then show ?case
    by (cases "doc_of fs p") (simp_all add: ParserHtml_Cons_None ParserHtml_Cons_Some
        del: ParserHtml.simps)
qed simp

lemma EnumFile_exists:
  "fs_exists F src_path \<Longrightarrow>
     EnumFile F src_path [] = ((True, filter (is_html F) (fs_walk F src_path)), [])"
  by (simp add: EnumFile_def EnumFile_loop_filter)

text \<open>For each file the walk gives, \<open>ParserHtml\<close> adds at most one document: title,
  tag-free text and URL of the file with its newlines removed, in the order of the files.\<close>

theorem ParserHtml_spec:
  assumes "\<forall>p \<in> set ps. length src_path \<le> length p"
  shows "fst (ParserHtml fs ps results) = Inr (True, results @ List.map_filter (doc_of fs) ps)"
  by (rule ParserHtml_docs) (rule assms)

definition demo_page :: string where
  "demo_page = ''<html><title>Boost</title>'' @ [NL] @ ''<p>fast</p>''"

definition demo_files :: filesys where
  "demo_files = \<lparr>readable = [''data/input/a.html'' \<mapsto> demo_page, ''data/input/b.html'' \<mapsto> ''x''],
                 creatable = (\<lambda>_. True)\<rparr>"

definition demo_walk :: fs_lib where
  "demo_walk = \<lparr>fs_exists = (\<lambda>_. True),
     fs_walk = (\<lambda>_. [''data/input/a.html'', ''data/input/img'', ''data/input/b.html'']),
     fs_is_regular_file = (\<lambda>p. p \<noteq> ''data/input/img''), fs_extension = (\<lambda>p. drop 12 p)\<rparr>"

theorem ParserHtml_spec_witness:
  "fst (ParserHtml demo_files [''data/input/a.html'', ''data/input/c.html''] []) =
     Inr (True, [] @ List.map_filter (doc_of demo_files) [''data/input/a.html'', ''data/input/c.html''])"
  by (rule ParserHtml_spec) (simp add: src_path_def)

lemma parser_main_ok:
  assumes "fs_exists F src_path" and "creatable fs output_path"
    and "\<forall>p \<in> set (fs_walk F src_path). length src_path \<le> length p"
  obtains ev where "parser_main F fs =
    (Inr 0, write_file output_path (concat (map out_string (parsed_docs F fs))) fs, ev)"
proof -
  let ?ps = "filter (is_html F) (fs_walk F src_path)"
  have "fst (ParserHtml fs ?ps []) = Inr (True, parsed_docs F fs)"
    using assms(3) by (subst ParserHtml_docs) (auto simp: parsed_docs_def)
  then obtain ev where "ParserHtml fs ?ps [] = (Inr (True, parsed_docs F fs), ev)"
    by (metis prod.collapse)
  with that show thesis
    by (simp add: parser_main_def EnumFile_exists [OF assms(1)] SaveHtml_creatable [OF assms(2)])
qed

text \<open>C14. When the input directory exists and the output can be created, the program exits
  with 0 and leaves one encoded line per document in the raw file and every other file as it was.\<close>

theorem parser_main_writes:
  assumes "fs_exists F src_path" and "creatable fs output_path"
    and "\<forall>p \<in> set (fs_walk F src_path). length src_path \<le> length p"
  shows "fst (parser_main F fs) = Inr 0 \<and>
    fst (snd (parser_main F fs)) =
      write_file output_path (concat (map out_string (parsed_docs F fs))) fs"
  by (rule parser_main_ok [OF assms]) simp

theorem parser_main_writes_witness:
  "fst (parser_main demo_walk demo_files) = Inr 0 \<and>
    fst (snd (parser_main demo_walk demo_files)) =
      write_file output_path (concat (map out_string (parsed_docs demo_walk demo_files))) demo_files"
  by (rule parser_main_writes) (simp_all add: demo_walk_def demo_files_def src_path_def)

text \<open>The exit status tells what failed, and on a failure no file changes: 1 without the
  input directory, 3 when the output cannot be created; the status 2 is never returned.\<close>

theorem parser_main_failures:
  assumes "\<forall>p \<in> set (fs_walk F src_path). length src_path \<le> length p"
  shows "fst (parser_main F fs) =
      Inr (if \<not> fs_exists F src_path then 1 else if \<not> creatable fs output_path then 3 else 0) \<and>
    (fst (parser_main F fs) \<noteq> Inr 0 \<longrightarrow> fst (snd (parser_main F fs)) = fs)"
proof (cases "fs_exists F src_path")
  case False
  then show ?thesis by (simp add: parser_main_def EnumFile_def)
next
  case ex: True
  obtain ds ev where "ParserHtml fs (filter (is_html F) (fs_walk F src_path)) [] = (Inr (True, ds), ev)"
    using ParserHtml_docs [of "filter (is_html F) (fs_walk F src_path)" fs "[]"] assms
    by (metis append_Nil filter_is_subset prod.collapse subset_code(1))
  then show ?thesis
    by (cases "creatable fs output_path")
       (simp_all add: parser_main_def EnumFile_exists [OF ex] SaveHtml_creatable SaveHtml_def ex)
qed

theorem parser_main_failures_witness:
  "fst (parser_main demo_walk (demo_files\<lparr>creatable := \<lambda>_. False\<rparr>)) = Inr 3"
  using parser_main_failures [of demo_walk "demo_files\<lparr>creatable := \<lambda>_. False\<rparr>"]
  by (simp add: demo_walk_def demo_files_def src_path_def)

subsection \<open>The lines of the raw file\<close>

lemma doc_of_subset:
  assumes "doc_of fs p = Some d"
  obtains s where "readable fs p = Some s" and "set (title d) \<subseteq> set s"
    and "set (content d) \<subseteq> insert (CHR '' '') (set s)"
proof -
  from assms obtain s where s: "readable fs p = Some s"
    and t: "ParserTitle (joined s) [] = Inr (True, title d)"
    and c: "content d = visible LABLE (joined s)"
    by (auto simp: doc_of_def split: option.splits sum.splits prod.splits bool.splits)
  have j: "set (joined s) \<subseteq> set s" by (auto simp: joined_def)
  have "set (title d) \<subseteq> set (joined s)"
    using t by (metis ParserTitle_True_iff set_take_subset set_drop_subset subset_trans)
  moreover have "set (content d) \<subseteq> insert (CHR '' '') (set (joined s))"
    by (simp add: c visible_subset)
  ultimately show thesis using that [OF s] j by blast
qed

lemma doc_of_url: "doc_of fs p = Some d \<Longrightarrow> url d = url_head @ drop (length src_path) p"
  by (auto simp: doc_of_def split: option.splits sum.splits prod.splits bool.splits)

lemma in_map_filter: "y \<in> set (List.map_filter f xs) \<longleftrightarrow> (\<exists>x \<in> set xs. f x = Some y)"
  by (induction xs) (auto split: option.split)

text \<open>No file name with a newline, then every document has its own line of the raw file:
  the lines read back are the encodings, in order.\<close>

theorem raw_file_lines:
  assumes "\<forall>p \<in> set (fs_walk F src_path). NL \<notin> set p"
  shows "lines_of (concat (map out_string (parsed_docs F fs))) =
           map (\<lambda>d. title d @ SEP # content d @ SEP # url d) (parsed_docs F fs)"
proof -
  let ?line = "\<lambda>d. title d @ SEP # content d @ SEP # url d"
  have "NL \<notin> set (?line d)" if d: "d \<in> set (parsed_docs F fs)" for d
  proof -
    from d obtain p where p: "p \<in> set (fs_walk F src_path)" "doc_of fs p = Some d"
      by (auto simp: parsed_docs_def in_map_filter)
    from assms p(1) have "NL \<notin> set (url d)"
      by (auto simp: doc_of_url [OF p(2)] url_head_def dest: in_set_dropD)
    with doc_of_chars [OF p(2)] show ?thesis by (simp add: SEP_def)
  qed
  then have "lines_of (concat (map (\<lambda>l. l @ [NL]) (map ?line (parsed_docs F fs)))) =
      map ?line (parsed_docs F fs)" by (intro lines_of_concat) auto
  moreover have "map out_string (parsed_docs F fs) =
      map (\<lambda>l. l @ [NL]) (map ?line (parsed_docs F fs))" by (simp add: out_string_def)
  ultimately show ?thesis by (simp only:)
qed

theorem raw_file_lines_witness:
  "lines_of (concat (map out_string (parsed_docs demo_walk demo_files))) =
     map (\<lambda>d. title d @ SEP # content d @ SEP # url d) (parsed_docs demo_walk demo_files)"
  by (rule raw_file_lines) (simp add: demo_walk_def)

end
