(* ===== verification/Std_Containers.thy ===== *)
theory Std_Containers
  imports Prelude
begin

text \<open>
  \<open>std::unordered_map\<close> and \<open>std::sort\<close>. The standard fixes neither the order in
  which a hash map is iterated nor the order \<open>sort\<close> gives to equivalent elements, so
  both orders are parameters of the model; the locales \<open>hash_order\<close> and
  \<open>std_sorter\<close> state what the standard does promise, and everything proved about the
  program holds for every order that keeps these promises.
\<close>

subsection \<open>std::unordered_map\<close>

text \<open>A map is its key/value pairs in the order in which the keys were inserted.\<close>

type_synonym ('k, 'v) umap = "('k \<times> 'v) list"

text \<open>
  \<open>f(m[k])\<close>: \<open>operator[]\<close> inserts the default \<open>d\<close> under a new key, and the
  value is changed in place by \<open>f\<close>.
\<close>

fun um_modify :: "'k \<Rightarrow> 'v \<Rightarrow> ('v \<Rightarrow> 'v) \<Rightarrow> ('k, 'v) umap \<Rightarrow> ('k, 'v) umap" where
  "um_modify k d f [] = [(k, f d)]"
| "um_modify k d f ((k', v) # m) =
     (if k' = k then (k', f v) # m else (k', v) # um_modify k d f m)"

text \<open>A range \<open>for\<close> over the map visits the pairs in the order of the hash table.\<close>

definition um_iter :: "('k list \<Rightarrow> 'k list) \<Rightarrow> ('k, 'v) umap \<Rightarrow> ('k \<times> 'v) list" where
  "um_iter ord m =
     concat (map (\<lambda>k. case map_of m k of None \<Rightarrow> [] | Some v \<Rightarrow> [(k, v)]) (ord (map fst m)))"

lemma map_of_um_modify [um_simps]:
  "map_of (um_modify k d f m) k' =
     (if k' = k then Some (f (case map_of m k of None \<Rightarrow> d | Some v \<Rightarrow> v)) else map_of m k')"
  by (induction k d f m rule: um_modify.induct) auto

lemma keys_um_modify [um_simps]: "fst ` set (um_modify k d f m) = insert k (fst ` set m)"
  by (induction k d f m rule: um_modify.induct) (auto simp: image_iff)

lemma distinct_um_modify [um_simps]:
  "distinct (map fst m) \<Longrightarrow> distinct (map fst (um_modify k d f m))"
  by (induction k d f m rule: um_modify.induct) (auto simp: keys_um_modify)

lemma um_modify_not_Nil [simp]: "um_modify k d f m \<noteq> []"
  by (induction k d f m rule: um_modify.induct) auto

lemma map_of_dom_keys: "map_of m k = None \<longleftrightarrow> k \<notin> fst ` set m"
  by (rule map_of_eq_None_iff)

text \<open>The promise of the standard: every key is visited exactly once.\<close>

locale hash_order =
  fixes ord :: "'k list \<Rightarrow> 'k list"
  assumes perm: "mset (ord ks) = mset ks"
begin

lemma distinct_ord: "distinct (ord ks) = distinct ks"
  by (rule mset_eq_distinct) (rule perm)

lemma set_ord: "set (ord ks) = set ks"
  by (rule mset_eq_setD) (rule perm)

lemma um_iter_map:
  assumes "distinct (map fst m)"
  shows "um_iter ord m = map (\<lambda>k. (k, the (map_of m k))) (ord (map fst m))"
proof -
  have "\<forall>k \<in> set (ord (map fst m)). \<exists>v. map_of m k = Some v"
    by (auto simp: set_ord) (metis map_of_dom_keys fst_conv image_eqI not_None_eq)
  then have eq: "map (\<lambda>k. case map_of m k of None \<Rightarrow> [] | Some v \<Rightarrow> [(k, v)]) (ord (map fst m))
      = map (\<lambda>k. [(k, the (map_of m k))]) (ord (map fst m))"
    by auto
  show ?thesis unfolding um_iter_def eq by (rule concat_map_singleton)
qed

lemma mset_um_iter:
  assumes "distinct (map fst m)"
  shows "mset (um_iter ord m) = mset m"
proof -
  have "mset (um_iter ord m) = image_mset (\<lambda>k. (k, the (map_of m k))) (mset (map fst m))"
    by (simp add: um_iter_map [OF assms] perm)
  also have "\<dots> = mset (map (\<lambda>p. (fst p, the (map_of m (fst p)))) m)"
    by (simp add: image_mset.compositionality comp_def)
  also have "map (\<lambda>p. (fst p, the (map_of m (fst p)))) m = m"
    using assms by (intro map_idI) auto
  finally show ?thesis .
qed

lemma set_um_iter: "distinct (map fst m) \<Longrightarrow> set (um_iter ord m) = set m"
  by (rule mset_eq_setD) (rule mset_um_iter)

lemma distinct_um_iter:
  "distinct (map fst m) \<Longrightarrow> distinct (map fst (um_iter ord m))"
  by (simp add: um_iter_map comp_def distinct_ord)

end

text \<open>
  Two orders an implementation has: insertion order, and the order of libstdc++ without
  collisions, which links every new node in front of the others.
\<close>

definition fifo_order :: "'k list \<Rightarrow> 'k list" where "fifo_order ks = ks"
definition lifo_order :: "'k list \<Rightarrow> 'k list" where "lifo_order ks = rev ks"

interpretation fifo: hash_order fifo_order
  by unfold_locales (simp add: fifo_order_def)

interpretation lifo: hash_order lifo_order
  by unfold_locales (simp add: lifo_order_def)

subsection \<open>std::sort\<close>

text \<open>A comparator must be a strict weak order; otherwise \<open>std::sort\<close> is undefined.\<close>

definition strict_weak :: "('a \<Rightarrow> 'a \<Rightarrow> bool) \<Rightarrow> bool" where
  "strict_weak lt \<longleftrightarrow>
     (\<forall>x. \<not> lt x x) \<and>
     (\<forall>x y z. lt x y \<longrightarrow> lt y z \<longrightarrow> lt x z) \<and>
     (\<forall>x y z. \<not> lt x y \<longrightarrow> \<not> lt y z \<longrightarrow> \<not> lt x z)"

locale std_sorter =
  fixes sort :: "('a \<Rightarrow> 'a \<Rightarrow> bool) \<Rightarrow> 'a list \<Rightarrow> 'a list"
  assumes permutes: "strict_weak lt \<Longrightarrow> mset (sort lt xs) = mset xs"
    and sorts: "strict_weak lt \<Longrightarrow> sorted_wrt (\<lambda>a b. \<not> lt b a) (sort lt xs)"
begin

lemma set_sort: "strict_weak lt \<Longrightarrow> set (sort lt xs) = set xs"
  by (rule mset_eq_setD) (rule permutes)

lemma length_sort: "strict_weak lt \<Longrightarrow> length (sort lt xs) = length xs"
  by (rule mset_eq_length) (rule permutes)

lemma distinct_map_sort:
  "strict_weak lt \<Longrightarrow> distinct (map f (sort lt xs)) = distinct (map f xs)"
  by (rule mset_eq_distinct) (simp add: permutes)

end

text \<open>The insertion sort libstdc++ uses for short ranges.\<close>

fun linear_insert :: "('a \<Rightarrow> 'a \<Rightarrow> bool) \<Rightarrow> 'a \<Rightarrow> 'a list \<Rightarrow> 'a list" where
  "linear_insert lt x [] = [x]"
| "linear_insert lt x (y # ys) = (if lt x y then x # y # ys else y # linear_insert lt x ys)"

definition insertion_sort :: "('a \<Rightarrow> 'a \<Rightarrow> bool) \<Rightarrow> 'a list \<Rightarrow> 'a list" where
  "insertion_sort lt xs = fold (linear_insert lt) xs []"

lemma mset_linear_insert [simp]: "mset (linear_insert lt x ys) = add_mset x (mset ys)"
  by (induction ys) auto

lemma set_linear_insert [simp]: "set (linear_insert lt x ys) = insert x (set ys)"
  by (induction ys) auto

lemma sorted_linear_insert:
  assumes "strict_weak lt" and "sorted_wrt (\<lambda>a b. \<not> lt b a) ys"
  shows "sorted_wrt (\<lambda>a b. \<not> lt b a) (linear_insert lt x ys)"
  using assms(2)
proof (induction ys)
  case Nil
  then show ?case by simp
next
  case (Cons y ys)
  have irr: "\<not> lt y x" if "lt x y"
    using assms(1) that unfolding strict_weak_def by blast
  have neg: "\<not> lt z x" if "lt x y" "\<not> lt z y" for z
    using assms(1) that unfolding strict_weak_def by blast
  show ?case using Cons irr neg by auto
qed

lemma mset_fold_insert: "mset (fold (linear_insert lt) xs acc) = mset xs + mset acc"
  by (induction xs arbitrary: acc) auto

lemma sorted_fold_insert:
  "strict_weak lt \<Longrightarrow> sorted_wrt (\<lambda>a b. \<not> lt b a) acc \<Longrightarrow>
     sorted_wrt (\<lambda>a b. \<not> lt b a) (fold (linear_insert lt) xs acc)"
  by (induction xs arbitrary: acc) (auto intro: sorted_linear_insert)

interpretation isort: std_sorter insertion_sort
  by unfold_locales
     (auto simp: insertion_sort_def mset_fold_insert intro: sorted_fold_insert)

end
