(* ===== verification/Index_Build.thy ===== *)
theory Index_Build
  imports Parser Std_Containers
begin

text \<open>
  \<open>include/index.hpp\<close> without the singleton: the forward index (documents by id), the
  inverted index (postings by word), the two look-ups, and the construction of both from
  the raw text file.
\<close>

subsection \<open>Data\<close>

text \<open>
  The index has its own \<open>DocInfo\<close> structure: the three fields of the parser's and an
  id. It is declared as an extension of the parser's record, field by field the same.
\<close>

record DocInfo = DocInfo_t +
  doc_id :: cint

record InvertedElem =
  ie_doc_id :: u64
  ie_word :: string
  ie_weight :: cint

type_synonym InvertedList = "InvertedElem list"

record Index =
  forward_index :: "DocInfo list"
  inverted_index :: "string \<Rightarrow> InvertedList option"

definition empty_index :: Index where
  "empty_index = \<lparr>forward_index = [], inverted_index = (\<lambda>_. None)\<rparr>"

text \<open>The id of a document as the postings and the map of a search hold it.\<close>

definition id64 :: "DocInfo \<Rightarrow> u64" where
  "id64 d = scast (doc_id d)"

subsection \<open>Look-ups\<close>

definition GetForwardIndex :: "Index \<Rightarrow> u64 \<Rightarrow> DocInfo option \<times> event list" where
  "GetForwardIndex idx i =
     (if length (forward_index idx) \<le> unat i
      then (None, [Cerr (''doc_id out of range,error!'' @ endl),
                   Log WARNING msg_doc_id_range])
      else (Some (forward_index idx ! unat i), []))"

definition GetInvertedList :: "Index \<Rightarrow> string \<Rightarrow> InvertedList option \<times> event list" where
  "GetInvertedList idx w =
     (case inverted_index idx w of
        None \<Rightarrow> (None, [Cerr (w @ [CHR 0x27] @ ''s InvertedList not found'' @ endl),
                       Log WARNING (w @ msg_no_postings)])
      | Some l \<Rightarrow> (Some l, []))"

subsection \<open>Construction from one line\<close>

definition BulidForwardIndex ::
  "'a text_libs_scheme \<Rightarrow> string \<Rightarrow> Index \<Rightarrow> DocInfo option \<times> Index" where
  "BulidForwardIndex L line idx =
     (case Split L line [CHR 0x03] of
        [t, c, u] \<Rightarrow>
          let doc = \<lparr>title = t, content = c, url = u,
                     doc_id = word_of_nat (length (forward_index idx))\<rparr>
          in (Some doc, idx\<lparr>forward_index := forward_index idx @ [doc]\<rparr>)
      | _ \<Rightarrow> (None, idx))"

record word_cnt =
  title_cnt :: cint
  content_cnt :: cint

definition word_cnt0 :: word_cnt where
  "word_cnt0 = \<lparr>title_cnt = 0, content_cnt = 0\<rparr>"

definition inc_title :: "word_cnt \<Rightarrow> word_cnt" where
  "inc_title c = c\<lparr>title_cnt := title_cnt c + 1\<rparr>"

definition inc_content :: "word_cnt \<Rightarrow> word_cnt" where
  "inc_content c = c\<lparr>content_cnt := content_cnt c + 1\<rparr>"

text \<open>The two counting loops differ in the counter they increment.\<close>

fun count_words :: "'a text_libs_scheme \<Rightarrow> (word_cnt \<Rightarrow> word_cnt) \<Rightarrow> string list \<Rightarrow>
    (string, word_cnt) umap \<Rightarrow> (string, word_cnt) umap" where
  "count_words L inc [] m = m"
| "count_words L inc (w # ws) m =
     count_words L inc ws (um_modify (boost_to_lower L w) word_cnt0 inc m)"

definition word_map :: "'a text_libs_scheme \<Rightarrow> DocInfo \<Rightarrow> (string, word_cnt) umap" where
  "word_map L doc =
     (let title_words = CutString L (title doc);
          m = count_words L inc_title title_words [];
          content_words = CutString L (content doc)
      in count_words L inc_content content_words m)"

definition weight_X :: cint where "weight_X = 10"
definition weight_Y :: cint where "weight_Y = 1"

fun add_postings :: "DocInfo \<Rightarrow> (string \<times> word_cnt) list \<Rightarrow>
    (string \<Rightarrow> InvertedList option) \<Rightarrow> (string \<Rightarrow> InvertedList option)" where
  "add_postings doc [] ii = ii"
| "add_postings doc ((w, c) # ps) ii =
     (let item = \<lparr>ie_doc_id = id64 doc, ie_word = w,
                  ie_weight = weight_X * title_cnt c + weight_Y * content_cnt c\<rparr>;
          inverted_list = (case ii w of None \<Rightarrow> [] | Some l \<Rightarrow> l)
      in add_postings doc ps (ii(w \<mapsto> inverted_list @ [item])))"

definition BulidInvertedIndex :: "'a text_libs_scheme \<Rightarrow> DocInfo \<Rightarrow> Index \<Rightarrow> bool \<times> Index" where
  "BulidInvertedIndex L doc idx =
     (True, idx\<lparr>inverted_index :=
        add_postings doc (um_iter (word_order L) (word_map L doc)) (inverted_index idx)\<rparr>)"

subsection \<open>Construction from the raw file\<close>

text \<open>The body of the loop: index, number of documents indexed, events.\<close>

definition index_line ::
  "'a text_libs_scheme \<Rightarrow> string \<Rightarrow> Index \<times> nat \<times> event list \<Rightarrow> Index \<times> nat \<times> event list" where
  "index_line L line st =
     (case st of (idx, n, ev) \<Rightarrow>
        case BulidForwardIndex L line idx of
          (None, idx1) \<Rightarrow> (idx1, n, ev @ [Cerr (''bulid '' @ line @ '' error!'' @ endl)])
        | (Some doc, idx1) \<Rightarrow>
            let idx2 = snd (BulidInvertedIndex L doc idx1);
                n1 = n + 1
            in (idx2, n1,
                ev @ (if n1 mod 50 = 0
                      then [Log NORMAL (msg_indexed_so_far @ to_string n1)] else [])))"

definition BulidIndex ::
  "'a text_libs_scheme \<Rightarrow> filesys \<Rightarrow> string \<Rightarrow> Index \<Rightarrow> (bool \<times> Index) \<times> event list" where
  "BulidIndex L fs inp idx =
     (case readable fs inp of
        None \<Rightarrow> ((False, idx), [Cerr (''sorry, '' @ inp @ '' open error'' @ endl),
                               Log WARNING (inp @ msg_open_failed)])
      | Some s \<Rightarrow>
          (case snd (snd (getline_loop (index_line L) (open_stream s) [] (idx, 0, []))) of
             (idx1, n, ev) \<Rightarrow> ((True, idx1), ev)))"

subsection \<open>What the word count computes\<close>

text \<open>The words of a text as the index sees them, and the relevance of a word.\<close>

definition tokens :: "'a text_libs_scheme \<Rightarrow> string \<Rightarrow> string list" where
  "tokens L s = map (boost_to_lower L) (CutForSearch L s)"

definition doc_words :: "'a text_libs_scheme \<Rightarrow> DocInfo \<Rightarrow> string set" where
  "doc_words L d = set (tokens L (title d)) \<union> set (tokens L (content d))"

definition relevance :: "'a text_libs_scheme \<Rightarrow> DocInfo \<Rightarrow> string \<Rightarrow> nat" where
  "relevance L d w =
     10 * count_list (tokens L (title d)) w + count_list (tokens L (content d)) w"

lemma relevance_pos: "0 < relevance L d w \<longleftrightarrow> w \<in> doc_words L d"
  by (auto simp: relevance_def doc_words_def count_list_pos)

lemma count_words_tokens:
  "count_words L inc ws m =
     fold (\<lambda>w. um_modify w word_cnt0 inc) (map (boost_to_lower L) ws) m"
  by (induction ws arbitrary: m) auto

lemma distinct_fold_modify:
  "distinct (map fst m) \<Longrightarrow> distinct (map fst (fold (\<lambda>w. um_modify w d f) ws m))"
  by (induction ws arbitrary: m) (auto simp: um_simps)

lemma map_of_fold_modify:
  "map_of (fold (\<lambda>w. um_modify w d f) ws m) k =
     (if k \<in> set ws
      then Some ((f ^^ count_list ws k) (case map_of m k of None \<Rightarrow> d | Some v \<Rightarrow> v))
      else map_of m k)"
  by (induction ws arbitrary: m)
     (auto simp: um_simps funpow_swap1 split: option.splits)

lemma funpow_inc_title:
  "(inc_title ^^ n) c = c\<lparr>title_cnt := title_cnt c + word_of_nat n\<rparr>"
  by (induction n) (auto simp: inc_title_def algebra_simps)

lemma funpow_inc_content:
  "(inc_content ^^ n) c = c\<lparr>content_cnt := content_cnt c + word_of_nat n\<rparr>"
  by (induction n) (auto simp: inc_content_def algebra_simps)

lemma distinct_word_map: "distinct (map fst (word_map L d))"
  by (simp add: word_map_def count_words_tokens distinct_fold_modify Let_def)

lemma map_of_word_map:
  "map_of (word_map L d) w =
     (if w \<in> doc_words L d
      then Some \<lparr>title_cnt = word_of_nat (count_list (tokens L (title d)) w),
                 content_cnt = word_of_nat (count_list (tokens L (content d)) w)\<rparr>
      else None)"
  by (auto simp: word_map_def count_words_tokens map_of_fold_modify funpow_inc_title
      funpow_inc_content word_cnt0_def doc_words_def tokens_def CutString_def Let_def)

end
