(* ===== verification/Index_Correct.thy ===== *)
theory Index_Correct
  imports Index_Build
begin

text \<open>
  What the index is: after any sequence of lines the inverted list of a word holds, in
  document order, one posting for every document with the word, with the word's relevance
  in it, whatever the iteration order of the hash map the code counts words in. The locale
  \<open>search_index\<close> is the contract the search relies on; it is interpreted here on
  \<open>GetForwardIndex\<close> and \<open>GetInvertedList\<close>.
\<close>

subsection \<open>The postings of a list of documents\<close>

definition posting :: "'a text_libs_scheme \<Rightarrow> string \<Rightarrow> DocInfo \<Rightarrow> InvertedElem" where
  "posting L w d = \<lparr>ie_doc_id = id64 d, ie_word = w, ie_weight = word_of_nat (relevance L d w)\<rparr>"

definition postings :: "'a text_libs_scheme \<Rightarrow> DocInfo list \<Rightarrow> string \<Rightarrow> InvertedList" where
  "postings L ds w = map (posting L w) (filter (\<lambda>d. w \<in> doc_words L d) ds)"

definition list_option :: "'b list \<Rightarrow> 'b list option" where
  "list_option l = (if l = [] then None else Some l)"

definition numbered :: "DocInfo list \<Rightarrow> bool" where
  "numbered ds \<longleftrightarrow> (\<forall>i < length ds. doc_id (ds ! i) = word_of_nat i)"

definition index_ok :: "'a text_libs_scheme \<Rightarrow> Index \<Rightarrow> bool" where
  "index_ok L idx \<longleftrightarrow>
     numbered (forward_index idx) \<and>
     inverted_index idx = (\<lambda>w. list_option (postings L (forward_index idx) w))"

lemma postings_snoc:
  "postings L (ds @ [d]) w =
     postings L ds w @ (if w \<in> doc_words L d then [posting L w d] else [])"
  by (simp add: postings_def)

lemma list_option_snoc:
  "list_option (l @ [x]) = Some ((case list_option l of None \<Rightarrow> [] | Some l' \<Rightarrow> l') @ [x])"
  by (simp add: list_option_def)

lemma list_option_Nil [simp]: "list_option [] = None"
  by (simp add: list_option_def)

lemma numbered_snoc:
  "numbered (ds @ [d]) \<longleftrightarrow> numbered ds \<and> doc_id d = word_of_nat (length ds)"
  by (auto simp: numbered_def nth_append less_Suc_eq)

subsection \<open>One document\<close>

lemma add_postings_eq:
  "distinct (map fst ps) \<Longrightarrow>
     add_postings d ps ii w =
       (case map_of ps w of
          None \<Rightarrow> ii w
        | Some c \<Rightarrow> Some ((case ii w of None \<Rightarrow> [] | Some l \<Rightarrow> l) @
            [\<lparr>ie_doc_id = id64 d, ie_word = w,
              ie_weight = weight_X * title_cnt c + weight_Y * content_cnt c\<rparr>]))"
  by (induction ps arbitrary: ii)
     (auto simp: Let_def map_of_eq_None_iff [symmetric] split: option.splits)

lemma map_of_same_set:
  assumes "distinct (map fst xs)" and "distinct (map fst ys)" and "set xs = set ys"
  shows "map_of xs = map_of ys"
  using assms by (metis map_of_inject_set)

lemma map_of_visit:
  assumes "hash_order (word_order L)"
  shows "map_of (um_iter (word_order L) (word_map L d)) = map_of (word_map L d)"
  using hash_order.set_um_iter [OF assms distinct_word_map]
    hash_order.distinct_um_iter [OF assms distinct_word_map] distinct_word_map
  by (intro map_of_same_set) auto

lemma add_document_postings:
  assumes "hash_order (word_order L)"
  shows "add_postings d (um_iter (word_order L) (word_map L d)) ii w =
     (if w \<in> doc_words L d
      then Some ((case ii w of None \<Rightarrow> [] | Some l \<Rightarrow> l) @ [posting L w d]) else ii w)"
  using hash_order.distinct_um_iter [OF assms distinct_word_map [of L d]]
  by (simp add: add_postings_eq map_of_visit [OF assms] map_of_word_map posting_def
      relevance_def weight_X_def weight_Y_def)

lemma BulidInvertedIndex_ok:
  assumes "hash_order (word_order L)"
    and "inverted_index idx = (\<lambda>w. list_option (postings L ds w))"
  shows "inverted_index (snd (BulidInvertedIndex L d idx)) =
           (\<lambda>w. list_option (postings L (ds @ [d]) w))"
  by (rule ext)
     (simp add: BulidInvertedIndex_def add_document_postings [OF assms(1)] assms(2)
        postings_snoc list_option_snoc)

lemma forward_BulidInvertedIndex [index_simps]:
  "forward_index (snd (BulidInvertedIndex L d idx)) = forward_index idx"
  by (simp add: BulidInvertedIndex_def)

subsection \<open>One line, one file\<close>

text \<open>The document a line stands for, and the document list after it.\<close>

definition decode :: "'a text_libs_scheme \<Rightarrow> string \<Rightarrow> DocInfo_t option" where
  "decode L line =
     (case Split L line [SEP] of
        [t, c, u] \<Rightarrow> Some \<lparr>title = t, content = c, url = u\<rparr>
      | _ \<Rightarrow> None)"

definition with_id :: "DocInfo_t \<Rightarrow> nat \<Rightarrow> DocInfo" where
  "with_id d n = DocInfo_t.extend d (DocInfo.fields (word_of_nat n))"

definition add_doc :: "DocInfo_t option \<Rightarrow> DocInfo list \<Rightarrow> DocInfo list" where
  "add_doc d ds = (case d of None \<Rightarrow> ds | Some d \<Rightarrow> ds @ [with_id d (length ds)])"

lemma with_id_simps [simp]:
  "title (with_id d n) = title d" "content (with_id d n) = content d" "url (with_id d n) = url d"
  "doc_id (with_id d n) = word_of_nat n"
  by (simp_all add: with_id_def DocInfo_t.defs DocInfo.defs)

lemma with_id_make:
  "with_id \<lparr>title = t, content = c, url = u\<rparr> n =
     \<lparr>title = t, content = c, url = u, doc_id = word_of_nat n\<rparr>"
  by (simp add: with_id_def DocInfo_t.defs DocInfo.defs)

lemma BulidForwardIndex_eq [index_simps]:
  "BulidForwardIndex L line idx =
     (case decode L line of
        None \<Rightarrow> (None, idx)
      | Some d \<Rightarrow>
          (Some (with_id d (length (forward_index idx))),
           idx\<lparr>forward_index := forward_index idx @ [with_id d (length (forward_index idx))]\<rparr>))"
  by (auto simp: BulidForwardIndex_def decode_def SEP_def with_id_make Let_def split: list.split)

lemma index_line_forward [index_simps]:
  "forward_index (fst (index_line L line (idx, n, ev))) =
     add_doc (decode L line) (forward_index idx)"
  by (simp add: index_line_def index_simps add_doc_def Let_def split: option.split)

lemma index_line_ok:
  assumes "hash_order (word_order L)" and "index_ok L idx"
  shows "index_ok L (fst (index_line L line (idx, n, ev)))"
proof (cases "decode L line")
  case None
  with assms(2) show ?thesis by (simp add: index_line_def index_simps)
next
  case (Some d)
  let ?d = "with_id d (length (forward_index idx))"
  let ?idx = "idx\<lparr>forward_index := forward_index idx @ [?d]\<rparr>"
  from assms(2) have "inverted_index ?idx = (\<lambda>w. list_option (postings L (forward_index idx) w))"
    by (simp add: index_ok_def)
  from BulidInvertedIndex_ok [OF assms(1) this, of ?d] assms(2) Some show ?thesis
    by (simp add: index_line_def index_simps index_ok_def numbered_snoc Let_def)
qed

lemma index_lines_forward:
  "forward_index (fst (fold (index_line L) ls st)) =
     fold (\<lambda>l. add_doc (decode L l)) ls (forward_index (fst st))"
proof (induction ls arbitrary: st)
  case (Cons l ls)
  then show ?case by (cases st) (simp add: index_line_forward)
qed simp

lemma index_lines_ok:
  assumes "hash_order (word_order L)"
  shows "index_ok L (fst st) \<Longrightarrow> index_ok L (fst (fold (index_line L) ls st))"
proof (induction ls arbitrary: st)
  case (Cons l ls)
  then show ?case by (cases st) (simp add: index_line_ok [OF assms])
qed simp

lemma empty_index_ok: "index_ok L empty_index"
  by (simp add: index_ok_def empty_index_def numbered_def postings_def)

text \<open>The documents \<open>BulidIndex\<close> adds, in the order of the lines.\<close>

definition number_docs :: "DocInfo_t list \<Rightarrow> DocInfo list \<Rightarrow> DocInfo list" where
  "number_docs ts ds = fold (\<lambda>d. add_doc (Some d)) ts ds"

lemma fold_add_doc:
  "fold (\<lambda>l. add_doc (decode L l)) ls ds = number_docs (List.map_filter (decode L) ls) ds"
  by (induction ls arbitrary: ds)
     (auto simp: number_docs_def add_doc_def split: option.split)

lemma BulidIndex_Some:
  "readable fs p = Some s \<Longrightarrow>
     fst (BulidIndex L fs p idx) = (True, fst (fold (index_line L) (lines_of s) (idx, 0, [])))"
  by (simp add: BulidIndex_def std_simps split: prod.split)

subsection \<open>Ids\<close>

lemma length_number_docs [simp]: "length (number_docs ts ds) = length ds + length ts"
  by (induction ts arbitrary: ds) (simp_all add: number_docs_def add_doc_def)

lemma number_docs_eq:
  "number_docs ts ds = ds @ map (\<lambda>i. with_id (ts ! i) (length ds + i)) [0..<length ts]"
proof (induction ts arbitrary: ds)
  case Nil
  then show ?case by (simp add: number_docs_def)
next
  case (Cons t ts)
  have "number_docs (t # ts) ds = number_docs ts (ds @ [with_id t (length ds)])"
    by (simp add: number_docs_def add_doc_def)
  also have "\<dots> = ds @ with_id t (length ds) #
      map (\<lambda>i. with_id (ts ! i) (Suc (length ds + i))) [0..<length ts]"
    by (simp add: Cons.IH)
  also have "\<dots> = ds @ map (\<lambda>i. with_id ((t # ts) ! i) (length ds + i)) [0..<length (t # ts)]"
    by (simp add: map_upt_Suc del: upt_Suc)
  finally show ?case .
qed

lemma id64_nth:
  "numbered ds \<Longrightarrow> length ds \<le> 2 ^ 31 \<Longrightarrow> i < length ds \<Longrightarrow> id64 (ds ! i) = word_of_nat i"
  by (simp add: id64_def numbered_def)

lemma unat_id64_nth:
  "numbered ds \<Longrightarrow> length ds \<le> 2 ^ 31 \<Longrightarrow> i < length ds \<Longrightarrow> unat (id64 (ds ! i)) = i"
  by (simp add: id64_nth)

lemma distinct_id64:
  assumes "numbered ds" and "length ds \<le> 2 ^ 31"
  shows "distinct (map id64 ds)"
proof -
  have "i = j" if "i < length ds" "j < length ds" "id64 (ds ! i) = id64 (ds ! j)" for i j
    using unat_id64_nth [OF assms] that by metis
  then show ?thesis by (auto simp: distinct_conv_nth)
qed

lemma GetForwardIndex_doc:
  assumes "numbered (forward_index idx)" and "length (forward_index idx) \<le> 2 ^ 31"
    and "d \<in> set (forward_index idx)"
  shows "GetForwardIndex idx (id64 d) = (Some d, [])"
proof -
  from assms(3) obtain i where "i < length (forward_index idx)" "d = forward_index idx ! i"
    by (auto simp: in_set_conv_nth)
  with assms show ?thesis by (simp add: GetForwardIndex_def unat_id64_nth)
qed

subsection \<open>The contract of the index\<close>

text \<open>
  What a search may rely on: the list of a word has one posting, made by \<open>post\<close>, for
  every document that has it, in document order, there is no list for a word no document
  has, and the id in a posting leads back to the document.
\<close>

locale search_index =
  fixes ok :: "'ix \<Rightarrow> bool"
    and docs :: "'ix \<Rightarrow> DocInfo list"
    and has :: "DocInfo \<Rightarrow> string \<Rightarrow> bool"
    and post :: "string \<Rightarrow> DocInfo \<Rightarrow> InvertedElem"
    and fetch :: "'ix \<Rightarrow> u64 \<Rightarrow> DocInfo option"
    and lookup :: "'ix \<Rightarrow> string \<Rightarrow> InvertedList option"
  assumes lookup_eq: "ok ix \<Longrightarrow> lookup ix w = list_option (map (post w) (filter (\<lambda>d. has d w) (docs ix)))"
    and fetch_doc: "ok ix \<Longrightarrow> d \<in> set (docs ix) \<Longrightarrow> fetch ix (id64 d) = Some d"
    and distinct_docs: "ok ix \<Longrightarrow> distinct (docs ix)"
    and post_id: "ie_doc_id (post w d) = id64 d"
    and post_word: "ie_word (post w d) = w"
begin

lemma distinct_ids: "ok ix \<Longrightarrow> distinct (map id64 (docs ix))"
  by (auto simp: distinct_map distinct_docs intro!: inj_onI) (metis fetch_doc option.inject)

lemma lookup_None_iff: "ok ix \<Longrightarrow> lookup ix w = None \<longleftrightarrow> (\<forall>d \<in> set (docs ix). \<not> has d w)"
  by (auto simp: lookup_eq list_option_def filter_empty_conv)

lemma lookup_Some: "ok ix \<Longrightarrow> lookup ix w = Some l \<Longrightarrow>
    l = map (post w) (filter (\<lambda>d. has d w) (docs ix))"
  by (simp add: lookup_eq list_option_def split: if_splits)

text \<open>Every posting of every list resolves to a document with the word.\<close>

lemma list_resolves:
  assumes "ok ix" and "lookup ix w = Some l" and "e \<in> set l"
  shows "\<exists>d \<in> set (docs ix). fetch ix (ie_doc_id e) = Some d \<and> has d w \<and> ie_word e = w"
  using lookup_Some [OF assms(1,2)] assms(3)
  by (auto simp: post_id post_word fetch_doc [OF assms(1)])

lemma postings_ids_distinct:
  assumes "ok ix" and "lookup ix w = Some l"
  shows "distinct (map ie_doc_id l)"
  using lookup_Some [OF assms] distinct_ids [OF assms(1)]
  by (simp add: comp_def post_id distinct_map_filter)

end

definition index_valid :: "'a text_libs_scheme \<Rightarrow> Index \<Rightarrow> bool" where
  "index_valid L idx \<longleftrightarrow> index_ok L idx \<and> length (forward_index idx) \<le> 2 ^ 31"

interpretation ns_index: search_index
  "index_valid L" forward_index "\<lambda>d w. w \<in> doc_words L d" "posting L"
  "\<lambda>idx i. fst (GetForwardIndex idx i)" "\<lambda>idx w. fst (GetInvertedList idx w)"
  for L :: "'a text_libs_scheme"
proof (unfold_locales, goal_cases)
  case (1 ix w)
  then show ?case
    by (auto simp: index_valid_def index_ok_def GetInvertedList_def postings_def
        split: option.split)
next
  case (2 ix d)
  then show ?case by (simp add: index_valid_def index_ok_def GetForwardIndex_doc)
next
  case (3 ix)
  then show ?case
    by (meson distinct_id64 distinct_map index_ok_def index_valid_def)
qed (simp_all add: posting_def)

end
