(* ===== verification/Hot_Words.thy ===== *)
theory Hot_Words
  imports Logging Std_Containers
begin

text \<open>
  The hot-word statistics: \<open>RedisUtil\<close> and \<open>ThreadUtil\<close> of
  \<open>include/util.hpp\<close>. The Redis server and its client library are not part of the
  repository; their operations are the fields of \<open>redis_ops\<close>, over any type of server
  state, and the locale \<open>sorted_set_server\<close> states the documented behaviour of sorted
  sets the code relies on, for a server that answers.
\<close>

subsection \<open>The operations the code calls\<close>

datatype redis_cmd =
    ZADD_NX string string int \<comment> \<open>key, member, score; \<open>UpdateType::NOT_EXIST\<close>\<close>
  | ZINCRBY string int string \<comment> \<open>key, increment, member\<close>

text \<open>
  A call that fails throws; what it had done to the server by then stays done. Scores are
  doubles that only ever hold integers here.
\<close>

record 'r redis_ops =
  pipe_exec :: "redis_cmd list \<Rightarrow> 'r \<Rightarrow> exn option \<times> 'r"
  zrevrange :: "string \<Rightarrow> int \<Rightarrow> int \<Rightarrow> 'r \<Rightarrow> exn + (string \<times> int) list"
  redis_del :: "string \<Rightarrow> 'r \<Rightarrow> exn option \<times> 'r"
  redis_ping :: "'r \<Rightarrow> exn + string"

definition hot_key :: string where "hot_key = ''keyword:famous''"

subsection \<open>RedisUtil and ThreadUtil\<close>

definition AddkeywordAndIncrase :: "'r redis_ops \<Rightarrow> string \<Rightarrow> 'r \<Rightarrow> exn option \<times> 'r" where
  "AddkeywordAndIncrase R keyword r =
     pipe_exec R [ZADD_NX hot_key keyword 0, ZINCRBY hot_key 1 keyword] r"

text \<open>One round of the timer thread after its sleep; an exception ends the process.\<close>

definition timer_round :: "'r redis_ops \<Rightarrow> 'r \<Rightarrow> (exn + unit) \<times> 'r \<times> event list" where
  "timer_round R r =
     (case zrevrange R hot_key 0 (-1) r of
        Inl x \<Rightarrow> (Inl x, r, [])
      | Inr rank \<Rightarrow>
          let ev = map (\<lambda>e. Rank (fst e) (snd e)) rank
          in case redis_del R hot_key r of
               (Some x, r') \<Rightarrow> (Inl x, r', ev)
             | (None, r') \<Rightarrow> (Inr (), r', ev @ [Cout (msg_redis_cleaned @ endl)]))"

text \<open>\<open>while (true)\<close>: the first \<open>n\<close> rounds of the thread.\<close>

fun timerTask :: "'r redis_ops \<Rightarrow> nat \<Rightarrow> 'r \<Rightarrow> (exn + unit) \<times> 'r \<times> event list" where
  "timerTask R 0 r = (Inr (), r, [])"
| "timerTask R (Suc n) r =
     (case timer_round R r of
        (Inl x, r', ev) \<Rightarrow> (Inl x, r', ev)
      | (Inr _, r', ev) \<Rightarrow>
          (case timerTask R n r' of (res, r2, ev2) \<Rightarrow> (res, r2, ev @ ev2)))"

subsection \<open>What Redis documents\<close>

text \<open>
  The locale's \<open>score r k m\<close> observes the score of a member. A pipeline runs its commands in order.
  Increments are exact as long as the score stays within the integers a double
  holds. \<open>hot_count\<close> is the number of times a word was counted since the last clean-up.
\<close>

definition hot_count :: "('r \<Rightarrow> string \<Rightarrow> string \<Rightarrow> int option) \<Rightarrow> 'r \<Rightarrow> string \<Rightarrow> int" where
  "hot_count score r w = (case score r hot_key w of None \<Rightarrow> 0 | Some s \<Rightarrow> s)"

locale sorted_set_server =
  fixes R :: "'r redis_ops"
    and score :: "'r \<Rightarrow> string \<Rightarrow> string \<Rightarrow> int option"
    and up :: "'r \<Rightarrow> bool"
  assumes exec_up: "up r \<Longrightarrow> fst (pipe_exec R cs r) = None \<and> up (snd (pipe_exec R cs r))"
    and exec_Cons: "up r \<Longrightarrow> cs \<noteq> [] \<Longrightarrow>
          pipe_exec R (c # cs) r = pipe_exec R cs (snd (pipe_exec R [c] r))"
    and zadd: "up r \<Longrightarrow> score (snd (pipe_exec R [ZADD_NX k m s] r)) k' m' =
          (if k' = k \<and> m' = m \<and> score r k m = None then Some s else score r k' m')"
    and zincrby: "up r \<Longrightarrow> t = (case score r k m of None \<Rightarrow> 0 | Some s \<Rightarrow> s) + i \<Longrightarrow>
          \<bar>t\<bar> \<le> 2 ^ 53 \<Longrightarrow>
          score (snd (pipe_exec R [ZINCRBY k i m] r)) k' m' =
          (if k' = k \<and> m' = m then Some t else score r k' m')"
    and zrevrange_all: "up r \<Longrightarrow> \<exists>rank. zrevrange R k 0 (-1) r = Inr rank \<and>
          distinct (map fst rank) \<and> set rank = {(m, s). score r k m = Some s} \<and>
          sorted_wrt (\<lambda>a b. snd b \<le> snd a) rank"
    and del: "up r \<Longrightarrow> fst (redis_del R k r) = None \<and> up (snd (redis_del R k r)) \<and>
          score (snd (redis_del R k r)) k' m = (if k' = k then None else score r k' m)"
begin

lemma add_up:
  assumes "up r"
  shows "fst (AddkeywordAndIncrase R w r) = None \<and> up (snd (AddkeywordAndIncrase R w r))"
  using exec_up [OF assms] by (simp add: AddkeywordAndIncrase_def)

lemma add_score:
  assumes "up r" and "0 \<le> hot_count score r w" and "hot_count score r w < 2 ^ 53"
  shows "score (snd (AddkeywordAndIncrase R w r)) k m =
           (if k = hot_key \<and> m = w then Some (hot_count score r w + 1) else score r k m)"
proof -
  let ?r = "snd (pipe_exec R [ZADD_NX hot_key w 0] r)"
  have up: "up ?r" using exec_up [OF assms(1)] by blast
  have s: "score ?r k m = (if k = hot_key \<and> m = w \<and> score r k m = None then Some 0 else score r k m)"
    for k m using zadd [OF assms(1)] by auto
  have t: "hot_count score r w + 1 = (case score ?r hot_key w of None \<Rightarrow> 0 | Some s \<Rightarrow> s) + 1"
    by (simp add: s hot_count_def split: option.split)
  have "snd (AddkeywordAndIncrase R w r) = snd (pipe_exec R [ZINCRBY hot_key 1 w] ?r)"
    using exec_Cons [OF assms(1)] by (simp add: AddkeywordAndIncrase_def)
  with zincrby [OF up t] assms(2,3) show ?thesis by (auto simp: s)
qed

text \<open>\<open>ZADD ... NX 0\<close> before the increment changes nothing: the increment alone would do.\<close>

lemma zadd_redundant:
  assumes "up r" and "0 \<le> hot_count score r w" and "hot_count score r w < 2 ^ 53"
  shows "score (snd (AddkeywordAndIncrase R w r)) =
           score (snd (pipe_exec R [ZINCRBY hot_key 1 w] r))"
proof (intro ext)
  fix k m
  have "score (snd (pipe_exec R [ZINCRBY hot_key 1 w] r)) k m =
      (if k = hot_key \<and> m = w then Some (hot_count score r w + 1) else score r k m)"
    by (rule zincrby) (use assms in \<open>auto simp: hot_count_def\<close>)
  with add_score [OF assms]
  show "score (snd (AddkeywordAndIncrase R w r)) k m =
      score (snd (pipe_exec R [ZINCRBY hot_key 1 w] r)) k m" by simp
qed

lemma add_count:
  assumes "up r" and "0 \<le> hot_count score r w" and "hot_count score r w < 2 ^ 53"
  shows "hot_count score (snd (AddkeywordAndIncrase R w r)) v = hot_count score r v + of_bool (v = w)"
  using add_score [OF assms] by (simp add: hot_count_def)

text \<open>A round of the timer prints the ranking and forgets it, and touches no other key.\<close>

lemma timer_round_up:
  assumes "up r"
  shows "\<exists>rank r'. timer_round R r =
           (Inr (), r', map (\<lambda>e. Rank (fst e) (snd e)) rank @ [Cout (msg_redis_cleaned @ endl)]) \<and>
         up r' \<and> distinct (map fst rank) \<and>
         set rank = {(m, s). score r hot_key m = Some s} \<and>
         sorted_wrt (\<lambda>a b. snd b \<le> snd a) rank \<and>
         (\<forall>k m. score r' k m = (if k = hot_key then None else score r k m))"
proof -
  obtain rank where rank: "zrevrange R hot_key 0 (-1) r = Inr rank"
    and *: "distinct (map fst rank)" "set rank = {(m, s). score r hot_key m = Some s}"
      "sorted_wrt (\<lambda>a b. snd b \<le> snd a) rank"
    using zrevrange_all [OF assms] by blast
  obtain r' where r': "redis_del R hot_key r = (None, r')"
    using del [OF assms, of hot_key] by (metis prod.collapse)
  have "up r'" "score r' k m = (if k = hot_key then None else score r k m)" for k m
    using del [OF assms, of hot_key k m] r' by auto
  with rank r' * show ?thesis
    by (intro exI [of _ rank] exI [of _ r']) (simp add: timer_round_def)
qed

text \<open>While the server answers, the timer thread never ends with an exception.\<close>

lemma timerTask_up: "up r \<Longrightarrow> fst (timerTask R n r) = Inr () \<and> up (fst (snd (timerTask R n r)))"
proof (induction n arbitrary: r)
  case (Suc n)
  from timer_round_up [OF Suc.prems] obtain r' ev where
    "timer_round R r = (Inr (), r', ev)" "up r'" by blast
  with Suc.IH [of r'] show ?case by (auto split: prod.split)
qed simp

end

subsection \<open>A server with the documented behaviour\<close>

text \<open>
  An executable sorted-set store: the members of all keys with their scores, and whether the
  server answers.
\<close>

record zserver =
  zdata :: "(string \<times> string, int) umap"
  alive :: bool

fun zref_cmd :: "redis_cmd \<Rightarrow> (string \<times> string, int) umap \<Rightarrow> (string \<times> string, int) umap" where
  "zref_cmd (ZADD_NX k m s) d = um_modify (k, m) s (\<lambda>x. x) d"
| "zref_cmd (ZINCRBY k i m) d = um_modify (k, m) 0 (\<lambda>x. x + i) d"

definition zslice :: "int \<Rightarrow> int \<Rightarrow> 'a list \<Rightarrow> 'a list" where
  "zslice start stop xs =
     (let n = int (length xs);
          a = max 0 (if start < 0 then n + start else start);
          b = (if stop < 0 then n + stop else stop)
      in take (nat (b - a + 1)) (drop (nat a) xs))"

definition zref_rank :: "string \<Rightarrow> (string \<times> string, int) umap \<Rightarrow> (string \<times> int) list" where
  "zref_rank k d = insertion_sort (\<lambda>a b. snd b < snd a)
     (map (\<lambda>p. (snd (fst p), snd p)) (filter (\<lambda>p. fst (fst p) = k) d))"

definition zref_ops :: "zserver redis_ops" where
  "zref_ops =
     \<lparr>pipe_exec = (\<lambda>cs z. if alive z then (None, z\<lparr>zdata := fold zref_cmd cs (zdata z)\<rparr>)
                          else (Some RedisError, z)),
      zrevrange = (\<lambda>k a b z. if alive z then Inr (zslice a b (zref_rank k (zdata z)))
                             else Inl RedisError),
      redis_del = (\<lambda>k z. if alive z
                         then (None, z\<lparr>zdata := filter (\<lambda>p. fst (fst p) \<noteq> k) (zdata z)\<rparr>)
                         else (Some RedisError, z)),
      redis_ping = (\<lambda>z. if alive z then Inr ''PONG'' else Inl RedisError)\<rparr>"

definition zref_score :: "zserver \<Rightarrow> string \<Rightarrow> string \<Rightarrow> int option" where
  "zref_score z k m = map_of (zdata z) (k, m)"

definition zref_up :: "zserver \<Rightarrow> bool" where
  "zref_up z \<longleftrightarrow> alive z \<and> distinct (map fst (zdata z))"

lemma distinct_zref_cmd:
  "distinct (map fst d) \<Longrightarrow> distinct (map fst (zref_cmd c d))"
  by (cases c) (auto simp: um_simps)

lemma distinct_zref_cmds:
  "distinct (map fst d) \<Longrightarrow> distinct (map fst (fold zref_cmd cs d))"
  by (induction cs arbitrary: d) (auto simp: distinct_zref_cmd)

lemma strict_weak_score: "strict_weak (\<lambda>a b. snd b < (snd a :: int))"
  by (auto simp: strict_weak_def)

lemma zslice_all: "zslice 0 (-1) xs = xs"
  by (simp add: zslice_def Let_def)

lemma map_of_filter_fst:
  "map_of (filter (\<lambda>p. P (fst p)) d) k = (if P k then map_of d k else None)"
  by (induction d) auto

lemma set_zref_rank:
  "distinct (map fst d) \<Longrightarrow> set (zref_rank k d) = {(m, s). map_of d (k, m) = Some s}"
  by (auto simp: zref_rank_def map_of_eq_Some_iff image_iff isort.set_sort [OF strict_weak_score])

lemma distinct_zref_rank:
  assumes "distinct (map fst d)"
  shows "distinct (map fst (zref_rank k d))"
proof -
  have "distinct (map fst (map (\<lambda>p. (snd (fst p), snd p)) (filter (\<lambda>p. fst (fst p) = k) d)))"
    using assms by (induction d) (auto simp: image_iff)
  then show ?thesis
    by (simp add: zref_rank_def isort.distinct_map_sort [OF strict_weak_score])
qed

lemma sorted_zref_rank: "sorted_wrt (\<lambda>a b. snd b \<le> snd a) (zref_rank k d)"
  using isort.sorts [OF strict_weak_score [where 'a = string]]
  by (simp add: zref_rank_def not_less)

interpretation zref: sorted_set_server zref_ops zref_score zref_up
proof (unfold_locales, goal_cases)
  case (5 r k)
  then show ?case
    by (intro exI [of _ "zref_rank k (zdata r)"])
       (auto simp: zref_ops_def zref_up_def zslice_all set_zref_rank distinct_zref_rank
          sorted_zref_rank zref_score_def)
next
  case (6 r k k' m)
  then show ?case
    using map_of_filter_fst [of "\<lambda>p. fst p \<noteq> k" "zdata r"]
    by (auto simp: zref_ops_def zref_up_def zref_score_def distinct_map_filter)
qed (auto simp: zref_ops_def zref_up_def zref_score_def distinct_zref_cmds um_simps
       split: option.split)

end
