(* ===== verification/Searcher.thy ===== *)
theory Searcher
  imports Index_Correct Hot_Words
begin

text \<open>
  \<open>include/searcher.hpp\<close>: initialisation, the search itself (cut the query, collect and
  merge the postings of its words, sort, build the result), and the summary \<open>GetDesc\<close>.
  A search threads the state of the Redis server and ends with a string or an exception;
  the index is read only.
\<close>

subsection \<open>Data\<close>

record InvertedElemPrint =
  pr_doc_id :: u64
  pr_weight :: cint
  pr_words :: "string list"

definition print0 :: InvertedElemPrint where
  "print0 = \<lparr>pr_doc_id = 0, pr_weight = 0, pr_words = []\<rparr>"

text \<open>
  One element of the JSON array. The \<open>Json::Value\<close> the results are appended to is the
  list of its elements (it is \<open>null\<close> as long as nothing was appended), and its
  serialisation by \<open>Json::StyledWriter\<close> is a function of that list.
\<close>

record json_elem =
  js_title :: string
  js_desc :: string
  js_url :: string

record search_libs = text_libs +
  doc_order :: "u64 list \<Rightarrow> u64 list" \<comment> \<open>iteration order of a map with integer keys\<close>
  std_sort :: "(InvertedElemPrint \<Rightarrow> InvertedElemPrint \<Rightarrow> bool) \<Rightarrow>
                InvertedElemPrint list \<Rightarrow> InvertedElemPrint list"
  json_write :: "json_elem list \<Rightarrow> string"

subsection \<open>GetDesc\<close>

definition prev_stop :: cint where "prev_stop = 50"
definition next_stop :: cint where "next_stop = 100"

text \<open>
  \<open>return nullptr\<close> builds the returned \<open>std::string\<close> from a null pointer, which
  throws \<open>std::logic_error\<close>.
\<close>

definition GetDesc :: "string \<Rightarrow> string \<Rightarrow> (exn + string) \<times> event list" where
  "GetDesc html_content w =
     (let iter = std_search same_letter html_content w
      in if iter = length html_content then (Inr ''None'', [Log WARNING msg_no_match])
         else
           let pos = (word_of_nat iter :: cint);
               last = (word_of_nat (length html_content) - 1 :: cint);
               start = (if sint prev_stop < sint pos then pos - prev_stop else 0);
               stop = (if sint (pos + next_stop) < sint last then pos + next_stop else last)
           in if sint stop \<le> sint start then (Inl LogicError, [])
              else (substr html_content (unat (scast start :: u64)) (unat (scast (stop - start) :: u64)),
                    []))"

subsection \<open>Search\<close>

text \<open>\<open>tokens_map[elem.doc_id]\<close> is created or found and updated for every posting.\<close>

definition merge_elem ::
  "InvertedElem \<Rightarrow> (u64, InvertedElemPrint) umap \<Rightarrow> (u64, InvertedElemPrint) umap" where
  "merge_elem e m =
     um_modify (ie_doc_id e) print0
       (\<lambda>item. item\<lparr>pr_doc_id := ie_doc_id e, pr_weight := pr_weight item + ie_weight e,
                    pr_words := pr_words item @ [ie_word e]\<rparr>) m"

definition merge_list ::
  "InvertedList \<Rightarrow> (u64, InvertedElemPrint) umap \<Rightarrow> (u64, InvertedElemPrint) umap" where
  "merge_list l m = fold merge_elem l m"

text \<open>The loop over the words of the query.\<close>

fun search_words :: "'a text_libs_scheme \<Rightarrow> 'r redis_ops \<Rightarrow> Index \<Rightarrow> string list \<Rightarrow>
    (u64, InvertedElemPrint) umap \<Rightarrow> 'r \<Rightarrow>
    (exn + (u64, InvertedElemPrint) umap) \<times> 'r \<times> event list" where
  "search_words L R idx [] m r = (Inr m, r, [])"
| "search_words L R idx (w # ws) m r =
     (let w = boost_to_lower L w
      in case GetInvertedList idx w of
           (None, ev) \<Rightarrow>
             (case search_words L R idx ws m r of (res, r', ev') \<Rightarrow> (res, r', ev @ ev'))
         | (Some inverted_list, ev) \<Rightarrow>
             (case AddkeywordAndIncrase R w r of
                (Some x, r') \<Rightarrow> (Inl x, r', ev)
              | (None, r') \<Rightarrow>
                  (case search_words L R idx ws (merge_list inverted_list m) r' of
                     (res, r2, ev') \<Rightarrow> (res, r2, ev @ ev'))))"

definition by_weight :: "InvertedElemPrint \<Rightarrow> InvertedElemPrint \<Rightarrow> bool" where
  "by_weight e1 e2 \<longleftrightarrow> sint (pr_weight e2) < sint (pr_weight e1)"

text \<open>
  The loop over the sorted results. \<open>words[0]\<close> of an empty vector is undefined behaviour;
  the model gives it \<open>OutOfRange\<close>, and no search reaches that branch.
\<close>

fun build_results :: "Index \<Rightarrow> InvertedElemPrint list \<Rightarrow> json_elem list \<Rightarrow>
    (exn + json_elem list) \<times> event list" where
  "build_results idx [] root = (Inr root, [])"
| "build_results idx (item # items) root =
     (case GetForwardIndex idx (pr_doc_id item) of
        (None, ev) \<Rightarrow> apsnd (append ev) (build_results idx items root)
      | (Some doc, ev) \<Rightarrow>
          (case pr_words item of
             [] \<Rightarrow> (Inl OutOfRange, ev)
           | w # _ \<Rightarrow>
               (case GetDesc (content doc) w of
                  (Inl x, ev') \<Rightarrow> (Inl x, ev @ ev')
                | (Inr desc, ev') \<Rightarrow>
                    apsnd (append (ev @ ev'))
                      (build_results idx items
                         (root @ [\<lparr>js_title = title doc, js_desc = desc, js_url = url doc\<rparr>])))))"

definition Search :: "'a search_libs_scheme \<Rightarrow> 'r redis_ops \<Rightarrow> Index \<Rightarrow> string \<Rightarrow> 'r \<Rightarrow>
    (exn + string) \<times> 'r \<times> event list" where
  "Search L R idx query r =
     (case search_words L R idx (CutString L query) [] r of
        (Inl x, r', ev) \<Rightarrow> (Inl x, r', ev)
      | (Inr tokens_map, r', ev) \<Rightarrow>
          let inverted_list_all = map snd (um_iter (doc_order L) tokens_map);
              sorted_all = std_sort L by_weight inverted_list_all
          in case build_results idx sorted_all [] of
               (Inl x, ev') \<Rightarrow> (Inl x, r', ev @ ev')
             | (Inr root, ev') \<Rightarrow> (Inr (json_write L root), r', ev @ ev'))"

subsection \<open>Constructor and InitSearcher\<close>

definition Searcher_new :: "'r redis_ops \<Rightarrow> 'r \<Rightarrow> (exn + unit) \<times> event list" where
  "Searcher_new R r =
     (case redis_ping R r of
        Inl x \<Rightarrow> (Inl x, [])
      | Inr s \<Rightarrow> (Inr (), [Cout (s @ endl)]))"

text \<open>\<open>idx\<close> is the index object \<open>GetInstance\<close> returns.\<close>

definition InitSearcher ::
  "'a text_libs_scheme \<Rightarrow> filesys \<Rightarrow> string \<Rightarrow> Index \<Rightarrow> Index \<times> event list" where
  "InitSearcher L fs inp idx =
     (case BulidIndex L fs inp idx of
        ((ok, idx'), ev) \<Rightarrow>
          (idx', [Log NORMAL msg_got_instance] @ ev @
                 (if ok then [Log NORMAL msg_index_built] else [])))"

end
