(* ===== verification/Demo.thy ===== *)
theory Demo
  imports Searcher
begin

text \<open>
  A concrete world for the witnesses: text functions with the behaviour the third-party
  libraries document (splitting, ASCII lower case, words between blanks), the hash order of
  libstdc++, its insertion sort, a plain serialisation, and a small raw file.
\<close>

definition demo_cut :: "string \<Rightarrow> string list" where
  "demo_cut s = filter (\<lambda>w. w \<noteq> []) (compress_split s '' '')"

definition demo_write :: "json_elem list \<Rightarrow> string" where
  "demo_write root = concat (map (\<lambda>e. js_title e @ ''|'' @ js_desc e @ ''|'' @ js_url e @ '';'') root)"

definition demo_libs :: search_libs where
  "demo_libs = \<lparr>boost_split = compress_split, boost_to_lower = map ascii_lower,
     CutForSearch = demo_cut, word_order = lifo_order, doc_order = lifo_order,
     std_sort = insertion_sort, json_write = demo_write\<rparr>"

definition demo_docs :: "DocInfo_t list" where
  "demo_docs =
     [\<lparr>title = ''Asio'', content = ''Asio fast io'', url = ''u/0''\<rparr>,
      \<lparr>title = ''Empty'', content = [], url = ''u/1''\<rparr>,
      \<lparr>title = ''Fast'', content = ''Fast fast map'', url = ''u/2''\<rparr>]"

definition demo_raw :: string where
  "demo_raw = concat (map out_string demo_docs)"

definition demo_fs :: filesys where
  "demo_fs = \<lparr>readable = [''raw'' \<mapsto> demo_raw], creatable = (\<lambda>_. True)\<rparr>"

definition demo_index :: Index where
  "demo_index = snd (fst (BulidIndex demo_libs demo_fs ''raw'' empty_index))"

definition demo_server :: zserver where
  "demo_server = \<lparr>zdata = [], alive = True\<rparr>"

definition dead_server :: zserver where
  "dead_server = \<lparr>zdata = [], alive = False\<rparr>"

lemma demo_orders: "hash_order (word_order demo_libs)" "hash_order (doc_order demo_libs)"
  by (simp_all add: demo_libs_def lifo.hash_order_axioms)

lemma demo_sorter: "std_sorter (std_sort demo_libs)"
  by (simp add: demo_libs_def isort.std_sorter_axioms)

lemma demo_splitter: "splitter (boost_split demo_libs)"
  by (simp add: demo_libs_def boost_ref.splitter_axioms)

lemma demo_server_up: "zref_up demo_server"
  by (simp add: zref_up_def demo_server_def)

text \<open>The documents of the demo index, with their ids: the empty one is missing.\<close>

lemma demo_forward:
  "forward_index demo_index =
     [with_id (demo_docs ! 0) 0, with_id (demo_docs ! 2) 1]"
  by code_simp

lemma demo_index_valid: "index_valid demo_libs demo_index"
proof -
  have "index_ok demo_libs demo_index"
    unfolding demo_index_def
    by (simp add: BulidIndex_Some demo_fs_def index_lines_ok [OF demo_orders(1)] empty_index_ok)
  then show ?thesis by (simp add: index_valid_def demo_forward)
qed

end
