(* ===== verification/Index_Properties.thy ===== *)
theory Index_Properties
  imports Demo
begin

text \<open>
  The properties of the index: its contents after reading a file, that the hash order of
  the counting map does not show, that it can be extended, that its weights do not overflow
  and its ids resolve, and that the raw file's format is read back as it was written.
\<close>

subsection \<open>Contents\<close>

text \<open>The documents the lines of a file decode to.\<close>

definition file_docs :: "'a text_libs_scheme \<Rightarrow> string \<Rightarrow> DocInfo_t list" where
  "file_docs L s = List.map_filter (decode L) (lines_of s)"

lemma BulidIndex_forward:
  assumes "readable fs p = Some s"
  shows "fst (fst (BulidIndex L fs p idx)) = True"
    and "forward_index (snd (fst (BulidIndex L fs p idx))) =
           number_docs (file_docs L s) (forward_index idx)"
  by (simp_all add: BulidIndex_Some [OF assms] index_lines_forward fold_add_doc file_docs_def)

lemma BulidIndex_ok:
  assumes "hash_order (word_order L)" and "index_ok L idx"
  shows "index_ok L (snd (fst (BulidIndex L fs p idx)))"
proof (cases "readable fs p")
  case None
  with assms(2) show ?thesis by (simp add: BulidIndex_def)
next
  case (Some s)
  then show ?thesis using assms by (simp add: BulidIndex_Some index_lines_ok)
qed

text \<open>C3. From the empty index, \<open>BulidIndex\<close> stores the documents of the file, numbered in
  the order of their lines, and for every word the postings of exactly the documents with that word
  in that order, each with ten times the count in the title plus the count in the content.\<close>

theorem BulidIndex_contents:
  assumes "hash_order (word_order L)" and "readable fs p = Some s"
  shows "\<exists>idx ev. BulidIndex L fs p empty_index = ((True, idx), ev) \<and>
    forward_index idx = number_docs (file_docs L s) [] \<and>
    (\<forall>w. inverted_index idx w = list_option (postings L (number_docs (file_docs L s) []) w))"
proof -
  obtain b idx ev where B: "BulidIndex L fs p empty_index = ((b, idx), ev)"
    by (metis prod.collapse)
  have "b = True" and f: "forward_index idx = number_docs (file_docs L s) []"
    using BulidIndex_forward [OF assms(2), of L empty_index] B by (simp_all add: empty_index_def)
  moreover have "index_ok L idx"
    using BulidIndex_ok [OF assms(1) empty_index_ok, of fs p] B by simp
  ultimately show ?thesis using B by (simp add: index_ok_def)
qed

theorem BulidIndex_contents_witness:
  "\<exists>idx ev. BulidIndex demo_libs demo_fs ''raw'' empty_index = ((True, idx), ev) \<and>
    forward_index idx = number_docs (file_docs demo_libs demo_raw) [] \<and>
    (\<forall>w. inverted_index idx w =
       list_option (postings demo_libs (number_docs (file_docs demo_libs demo_raw) []) w))"
  by (rule BulidIndex_contents) (simp_all add: demo_orders demo_fs_def)

text \<open>C8. The order in which the hash map of the word count is iterated does not show: any two
  orders build the same index from the same file.\<close>

theorem BulidIndex_order_independent:
  assumes "hash_order ord1" and "hash_order ord2"
  shows "fst (BulidIndex (L\<lparr>word_order := ord1\<rparr>) fs p empty_index) =
         fst (BulidIndex (L\<lparr>word_order := ord2\<rparr>) fs p empty_index)"
proof (cases "readable fs p")
  case None
  then show ?thesis by (simp add: BulidIndex_def)
next
  case (Some s)
  have same: "tokens (L\<lparr>word_order := r\<rparr>) = tokens L" "decode (L\<lparr>word_order := r\<rparr>) = decode L" for r
    by (simp_all add: fun_eq_iff tokens_def decode_def Split_def)
  have p: "postings (L\<lparr>word_order := r\<rparr>) = postings L" for r
    by (simp add: fun_eq_iff postings_def posting_def relevance_def doc_words_def same)
  let ?i = "\<lambda>r. snd (fst (BulidIndex (L\<lparr>word_order := r\<rparr>) fs p empty_index))"
  have ok: "index_ok (L\<lparr>word_order := r\<rparr>) (?i r)" if "hash_order r" for r
    using that by (intro BulidIndex_ok empty_index_ok) simp
  have f: "forward_index (?i r) = number_docs (file_docs L s) []" for r
    by (simp add: BulidIndex_forward(2) [OF Some] file_docs_def same empty_index_def)
  have "?i ord1 = ?i ord2"
    using ok [OF assms(1)] ok [OF assms(2)] by (simp add: index_ok_def p f)
  then show ?thesis by (simp add: prod_eq_iff BulidIndex_forward(1) [OF Some])
qed

theorem BulidIndex_order_independent_witness:
  "fst (BulidIndex (demo_libs\<lparr>word_order := fifo_order\<rparr>) demo_fs ''raw'' empty_index) =
   fst (BulidIndex (demo_libs\<lparr>word_order := lifo_order\<rparr>) demo_fs ''raw'' empty_index)"
  by (rule BulidIndex_order_independent [OF fifo.hash_order_axioms lifo.hash_order_axioms])

text \<open>C9. \<open>BulidIndex\<close> keeps the invariant of the index from any state that has it: forward
  ids are positions, and the inverted lists are those of the stored documents. The documents of the
  new file follow the old ones.\<close>

theorem BulidIndex_invariant:
  assumes "hash_order (word_order L)" and "index_ok L idx"
  shows "index_ok L (snd (fst (BulidIndex L fs p idx))) \<and>
    forward_index (snd (fst (BulidIndex L fs p idx))) =
      number_docs (case readable fs p of None \<Rightarrow> [] | Some s \<Rightarrow> file_docs L s) (forward_index idx)"
  using BulidIndex_ok [OF assms, of fs p] BulidIndex_forward(2) [of fs p _ L idx]
  by (auto simp: BulidIndex_def number_docs_def split: option.split)

theorem BulidIndex_invariant_witness:
  "index_ok demo_libs (snd (fst (BulidIndex demo_libs demo_fs ''raw'' demo_index))) \<and>
    forward_index (snd (fst (BulidIndex demo_libs demo_fs ''raw'' demo_index))) =
      number_docs (case readable demo_fs ''raw'' of None \<Rightarrow> [] | Some s \<Rightarrow> file_docs demo_libs s)
        (forward_index demo_index)"
  using demo_index_valid by (intro BulidIndex_invariant demo_orders) (simp add: index_valid_def)

subsection \<open>Postings\<close>

text \<open>Every posting of every inverted list leads to a document of the forward index, and
  that document has the word: \<open>GetForwardIndex\<close> never answers a posting with a null pointer.\<close>

theorem posting_resolves:
  assumes "index_valid L idx" and "fst (GetInvertedList idx w) = Some l" and "e \<in> set l"
  shows "\<exists>d \<in> set (forward_index idx).
    fst (GetForwardIndex idx (ie_doc_id e)) = Some d \<and> w \<in> doc_words L d \<and> ie_word e = w"
  using assms by (rule ns_index.list_resolves)

lemma demo_list:
  "fst (GetInvertedList demo_index ''fast'') =
     Some [\<lparr>ie_doc_id = 0, ie_word = ''fast'', ie_weight = 1\<rparr>,
           \<lparr>ie_doc_id = 1, ie_word = ''fast'', ie_weight = 12\<rparr>]"
  by code_simp

theorem posting_resolves_witness:
  "\<exists>d \<in> set (forward_index demo_index).
     fst (GetForwardIndex demo_index 1) = Some d \<and> ''fast'' \<in> doc_words demo_libs d"
  using posting_resolves [OF demo_index_valid demo_list,
      of "\<lparr>ie_doc_id = 1, ie_word = ''fast'', ie_weight = 12\<rparr>"] by auto

text \<open>No list holds two postings of one document, and the list of a word exists exactly
  when a document has the word.\<close>

theorem inverted_list_distinct:
  assumes "index_valid L idx"
  shows "(\<forall>l. fst (GetInvertedList idx w) = Some l \<longrightarrow> distinct (map ie_doc_id l)) \<and>
    (fst (GetInvertedList idx w) = None \<longleftrightarrow> (\<forall>d \<in> set (forward_index idx). w \<notin> doc_words L d))"
  using ns_index.postings_ids_distinct [OF assms] ns_index.lookup_None_iff [OF assms] by blast

theorem inverted_list_distinct_witness:
  "distinct (map ie_doc_id [\<lparr>ie_doc_id = 0, ie_word = ''fast'', ie_weight = 1\<rparr>,
           \<lparr>ie_doc_id = 1, ie_word = ''fast'', ie_weight = 12\<rparr>])"
  using inverted_list_distinct [OF demo_index_valid, of "''fast''"] demo_list by blast

lemma count_le_length': "count_list xs x \<le> length xs"
  by (induction xs) auto

text \<open>The weight of a posting is exact, without overflow of \<open>int\<close>, for documents whose
  title has fewer than 100 million words and whose content has fewer than a thousand million.\<close>

theorem posting_weight_exact:
  assumes "index_valid L idx" and "fst (GetInvertedList idx w) = Some l" and "e \<in> set l"
    and "\<forall>d \<in> set (forward_index idx). length (CutString L (title d)) < 100000000 \<and>
           length (CutString L (content d)) < 1000000000"
  shows "\<exists>d \<in> set (forward_index idx). ie_doc_id e = id64 d \<and>
    sint (ie_weight e) = 10 * int (count_list (tokens L (title d)) w) +
                         int (count_list (tokens L (content d)) w)"
proof -
  from ns_index.lookup_Some [OF assms(1,2)] assms(3) obtain d where
    d: "d \<in> set (forward_index idx)" "e = posting L w d" by auto
  from assms(4) d(1) have len: "length (tokens L (title d)) < 100000000"
    "length (tokens L (content d)) < 1000000000" by (auto simp: tokens_def CutString_def)
  have "relevance L d w < 2 ^ 31"
    using count_le_length' [of "tokens L (title d)" w] count_le_length' [of "tokens L (content d)" w] len
    by (simp add: relevance_def)
  then have "sint (ie_weight e) = int (relevance L d w)" by (simp add: d(2) posting_def)
  with d show ?thesis by (auto simp: relevance_def posting_def)
qed

theorem posting_weight_exact_witness:
  "\<exists>d \<in> set (forward_index demo_index). (1::u64) = id64 d \<and>
    sint (12::cint) = 10 * int (count_list (tokens demo_libs (title d)) ''fast'') +
                      int (count_list (tokens demo_libs (content d)) ''fast'')"
proof -
  have "\<forall>d \<in> set (forward_index demo_index). length (CutString demo_libs (title d)) < 4 \<and>
      length (CutString demo_libs (content d)) < 4"
    by code_simp
  then have "\<forall>d \<in> set (forward_index demo_index).
      length (CutString demo_libs (title d)) < 100000000 \<and>
      length (CutString demo_libs (content d)) < 1000000000" by fastforce
  from posting_weight_exact [OF demo_index_valid demo_list _ this,
      of "\<lparr>ie_doc_id = 1, ie_word = ''fast'', ie_weight = 12\<rparr>"] show ?thesis by simp
qed

subsection \<open>The raw file read back\<close>

text \<open>One line, as \<open>SaveHtml\<close> writes it without the newline.\<close>

definition encode :: "DocInfo_t \<Rightarrow> string" where
  "encode d = title d @ SEP # content d @ SEP # url d"

definition plain :: "DocInfo_t \<Rightarrow> bool" where
  "plain d \<longleftrightarrow> (\<forall>s \<in> {title d, content d, url d}. SEP \<notin> set s \<and> NL \<notin> set s)"

lemma decode_encode:
  assumes "splitter (boost_split L)" and "plain d"
  shows "decode L (encode d) = (if content d = [] then None else Some d)"
proof (cases "content d = []")
  case True
  then show ?thesis using splitter.split_empty_middle [OF assms(1)] assms(2)
    by (simp add: decode_def encode_def plain_def Split_def)
next
  case False
  then show ?thesis using splitter.split_three [OF assms(1)] assms(2)
    by (simp add: decode_def encode_def plain_def Split_def)
qed

lemma file_docs_saved:
  assumes "splitter (boost_split L)" and "\<forall>d \<in> set ds. plain d"
  shows "file_docs L (concat (map out_string ds)) = filter (\<lambda>d. content d \<noteq> []) ds"
proof -
  have out: "map out_string ds = map (\<lambda>l. l @ [NL]) (map encode ds)"
    by (simp add: out_string_def encode_def)
  have "lines_of (concat (map out_string ds)) = map encode ds"
    unfolding out using assms(2)
    by (intro lines_of_concat) (auto simp: encode_def plain_def SEP_def)
  moreover have "List.map_filter (decode L) (map encode ds) = filter (\<lambda>d. content d \<noteq> []) ds"
    using assms(2) by (induction ds) (auto simp: decode_encode [OF assms(1)])
  ultimately show ?thesis by (simp add: file_docs_def)
qed

text \<open>C4. Saving and indexing are a round trip: for documents whose fields hold neither the
  separator nor a newline, the forward index holds the saved documents, in order, except those with
  an empty content, which \<open>token_compress_on\<close> loses.\<close>

theorem save_build_roundtrip:
  assumes "splitter (boost_split L)" and "creatable fs p" and "\<forall>d \<in> set ds. plain d"
  shows "forward_index (snd (fst (BulidIndex L (snd (fst (SaveHtml ds p fs))) p empty_index))) =
           number_docs (filter (\<lambda>d. content d \<noteq> []) ds) []"
proof -
  let ?fs = "snd (fst (SaveHtml ds p fs))"
  have "readable ?fs p = Some (concat (map out_string ds))"
    by (simp add: SaveHtml_creatable [OF assms(2)])
  from BulidIndex_forward(2) [OF this, of L empty_index] show ?thesis
    by (simp add: file_docs_saved [OF assms(1,3)] empty_index_def)
qed

theorem save_build_roundtrip_witness:
  "forward_index (snd (fst (BulidIndex demo_libs
      (snd (fst (SaveHtml demo_docs ''raw'' demo_fs))) ''raw'' empty_index))) =
   number_docs (filter (\<lambda>d. content d \<noteq> []) demo_docs) []"
  by (rule save_build_roundtrip)
     (simp_all add: demo_splitter demo_fs_def, code_simp)

subsection \<open>Progress and rejected lines\<close>

lemma index_line_events:
  "index_line L line (idx, n, ev) =
     (case decode L line of
        None \<Rightarrow> (idx, n, ev @ [Cerr (''bulid '' @ line @ '' error!'' @ endl)])
      | Some d \<Rightarrow> (fst (index_line L line (idx, n, ev)), n + 1,
          ev @ (if (n + 1) mod 50 = 0
                then [Log NORMAL (msg_indexed_so_far @ to_string (n + 1))] else [])))"
  by (simp add: index_line_def index_simps Let_def split: option.split)

definition is_progress :: "event \<Rightarrow> bool" where
  "is_progress e \<longleftrightarrow> (case e of Log l m \<Rightarrow> l = NORMAL | _ \<Rightarrow> False)"

definition is_cerr :: "event \<Rightarrow> bool" where
  "is_cerr e \<longleftrightarrow> (case e of Cerr m \<Rightarrow> True | _ \<Rightarrow> False)"

lemma is_progress_simps [simp]:
  "is_progress (Log l m) \<longleftrightarrow> l = NORMAL" "\<not> is_progress (Cerr m)" "\<not> is_progress (Cout m)"
  by (simp_all add: is_progress_def)

lemma is_cerr_simps [simp]: "is_cerr (Cerr m)" "\<not> is_cerr (Log l m)" "\<not> is_cerr (Cout m)"
  by (simp_all add: is_cerr_def)

lemma fold_index_events:
  "length (filter is_progress ev) = n div 50 \<Longrightarrow>
     (case fold (index_line L) ls (idx, n, ev) of (idx', n', ev') \<Rightarrow>
        n' = n + length (List.map_filter (decode L) ls) \<and>
        length (filter is_progress ev') = n' div 50 \<and>
        length (filter is_cerr ev') + length (List.map_filter (decode L) ls) =
          length (filter is_cerr ev) + length ls)"
proof (induction ls arbitrary: idx n ev)
  case (Cons l ls)
  obtain idx' n' ev' where st: "index_line L l (idx, n, ev) = (idx', n', ev')"
    by (metis prod.collapse)
  have p: "length (filter is_progress ev') = n' div 50"
  proof -
    have "(n + 1) div 50 = (if (n + 1) mod 50 = 0 then n div 50 + 1 else n div 50)"
      by (auto simp: div_Suc)
    with Cons.prems st show ?thesis
      by (subst (asm) index_line_events)
         (auto split: option.splits if_splits)
  qed
  from st have "n' = n + (if decode L l = None then 0 else 1)"
    and "length (filter is_cerr ev') = length (filter is_cerr ev) + (if decode L l = None then 1 else 0)"
    by (subst (asm) index_line_events, auto split: option.splits if_splits)+
  with Cons.IH [OF p, of idx'] show ?case
    by (auto simp: st split: option.split prod.splits)
qed simp

text \<open>\<open>BulidIndex\<close> reports progress once per 50 indexed documents, and writes one error line
  for each line of the file it could not read as a document.\<close>

theorem BulidIndex_events:
  assumes "readable fs p = Some s"
  shows "length (filter is_progress (snd (BulidIndex L fs p idx))) =
           length (file_docs L s) div 50 \<and>
         length (filter is_cerr (snd (BulidIndex L fs p idx))) + length (file_docs L s) =
           length (lines_of s)"
  using fold_index_events [where ev = "[]" and n = 0 and L = L and idx = idx and ls = "lines_of s"]
  by (simp add: BulidIndex_def assms std_simps file_docs_def case_prod_unfold)

theorem BulidIndex_events_witness:
  "length (filter is_progress (snd (BulidIndex demo_libs demo_fs ''raw'' empty_index))) =
     length (file_docs demo_libs demo_raw) div 50 \<and>
   length (filter is_cerr (snd (BulidIndex demo_libs demo_fs ''raw'' empty_index))) +
     length (file_docs demo_libs demo_raw) = length (lines_of demo_raw)"
  by (rule BulidIndex_events) (simp add: demo_fs_def)

end
