(* ===== verification/Desc_Correct.thy ===== *)
theory Desc_Correct
  imports Searcher
begin

text \<open>
  \<open>GetDesc\<close> without machine integers: for contents that fit into an \<open>int\<close> with
  room for the window, the summary is the window from 50 characters before the first match
  to 100 after it, cut at the ends of the content, less the last character of the content.
\<close>

definition desc_start :: "nat \<Rightarrow> nat" where
  "desc_start pos = pos - 50"

definition desc_stop :: "nat \<Rightarrow> nat \<Rightarrow> nat" where
  "desc_stop n pos = min (pos + 100) (n - 1)"

lemma word_of_nat_diff1:
  "0 < n \<Longrightarrow> (word_of_nat n - 1 :: cint) = word_of_nat (n - 1)"
  by simp

lemma desc_words:
  assumes "pos < n" and "n + 100 < 2 ^ 31"
  shows "(if sint prev_stop < sint (word_of_nat pos :: cint) then word_of_nat pos - prev_stop else 0)
           = (word_of_nat (desc_start pos) :: cint)" (is ?start)
    and "(if sint (word_of_nat pos + next_stop :: cint) < sint (word_of_nat n - 1 :: cint)
          then word_of_nat pos + next_stop else word_of_nat n - 1)
           = (word_of_nat (desc_stop n pos) :: cint)" (is ?stop)
proof -
  have p: "sint (word_of_nat pos :: cint) = int pos" using assms by simp
  have s: "sint prev_stop = 50" by (simp add: prev_stop_def)
  show ?start
  proof (cases "50 < pos")
    case True
    then have "word_of_nat (pos - 50) = (word_of_nat pos - 50 :: cint)" by simp
    with True show ?thesis by (simp only: p s desc_start_def prev_stop_def) simp
  qed (simp add: p s desc_start_def)
  have a: "(word_of_nat pos + next_stop :: cint) = word_of_nat (pos + 100)"
    by (simp add: next_stop_def)
  have b: "(word_of_nat n - 1 :: cint) = word_of_nat (n - 1)"
    using assms(1) by (intro word_of_nat_diff1) simp
  have "sint (word_of_nat (pos + 100) :: cint) = int (pos + 100)"
    and "sint (word_of_nat (n - 1) :: cint) = int (n - 1)"
    using assms by (intro sint_word_of_nat; simp)+
  then show ?stop unfolding a b by (simp add: desc_stop_def min_def del: of_nat_add of_nat_diff)
qed

lemma GetDesc_window:
  assumes n: "length c + 100 < 2 ^ 31" and pos: "std_search same_letter c w = pos"
  shows "GetDesc c w =
     (if pos = length c then (Inr ''None'', [Log WARNING msg_no_match])
      else if length c = 1 then (Inl LogicError, [])
      else (Inr (take (desc_stop (length c) pos - desc_start pos) (drop (desc_start pos) c)), []))"
proof (cases "pos = length c")
  case True
  with pos show ?thesis by (simp add: GetDesc_def Let_def)
next
  case False
  with pos std_search_le [of same_letter c w] have lt: "pos < length c" by simp
  let ?a = "desc_start pos" and ?z = "desc_stop (length c) pos"
  have sa: "sint (word_of_nat ?a :: cint) = int ?a" and sz: "sint (word_of_nat ?z :: cint) = int ?z"
    using lt n by (intro sint_word_of_nat; simp add: desc_start_def desc_stop_def)+
  have le: "?z \<le> ?a \<longleftrightarrow> length c = 1" and al: "?a \<le> length c"
    using lt by (auto simp: desc_start_def desc_stop_def)
  have u: "unat (scast (word_of_nat ?a :: cint) :: u64) = ?a"
    using lt n by (simp add: desc_start_def)
  have v: "unat (scast (word_of_nat ?z - word_of_nat ?a :: cint) :: u64) = ?z - ?a"
    if "?a < ?z"
  proof -
    have "word_of_nat ?z - word_of_nat ?a = (word_of_nat (?z - ?a) :: cint)"
      using that by simp
    moreover have "?z - ?a < 2 ^ 31" using lt n by (simp add: desc_stop_def)
    ultimately show ?thesis by simp
  qed
  have g: "GetDesc c w = (if length c = 1 then (Inl LogicError, [])
      else (substr c ?a (unat (scast (word_of_nat ?z - word_of_nat ?a :: cint) :: u64)), []))"
    using lt pos le by (simp add: GetDesc_def Let_def desc_words [OF lt n] sa sz u)
  show ?thesis
  proof (cases "length c = 1")
    case True
    with lt g show ?thesis by simp
  next
    case False
    with le have "?a < ?z" by simp
    with v False lt al show ?thesis by (simp add: g substr_def)
  qed
qed

text \<open>The match the window is put around, in the letters of the content.\<close>

lemma search_match:
  assumes "std_search same_letter c w < length c"
  shows "std_search same_letter c w + length w \<le> length c"
    and "map ascii_lower (take (length w) (drop (std_search same_letter c w) c)) = map ascii_lower w"
  using std_search_match [OF assms] assms
  by (auto simp: matches_at_iff list_all2_same_letter)

text \<open>A text that contains the word up to case is not answered with \<open>None\<close>.\<close>

lemma search_finds:
  assumes "c = a @ t @ b" and "map ascii_lower t = map ascii_lower w" and "length a < length c"
  shows "std_search same_letter c w \<le> length a"
proof (rule std_search_found)
  show "matches_at same_letter (drop (length a) c) w"
    using assms by (auto simp: matches_at_same_letter)
qed (rule assms(3))

text \<open>What the window holds.\<close>

lemma window_length:
  assumes "pos < n" and "1 < n"
  shows "desc_start pos < desc_stop n pos" and "desc_stop n pos < n"
    and "desc_stop n pos - desc_start pos \<le> 150"
  using assms by (auto simp: desc_start_def desc_stop_def)

lemma window_holds_match:
  assumes "pos + k < length c" and "k \<le> 100"
  shows "sublist (take k (drop pos c))
           (take (desc_stop (length c) pos - desc_start pos) (drop (desc_start pos) c))"
proof -
  let ?a = "desc_start pos" and ?z = "desc_stop (length c) pos"
  have le: "?a \<le> pos" "pos + k \<le> ?z" using assms by (auto simp: desc_start_def desc_stop_def)
  have "drop (pos - ?a) (drop ?a c) = drop pos c" using le by simp
  then have "take (?z - ?a) (drop ?a c) =
      take (pos - ?a) (drop ?a c) @ take (?z - pos) (drop pos c)"
    using le take_add [of "pos - ?a" "?z - pos" "drop ?a c"] by simp
  also have "take (?z - pos) (drop pos c) =
      take k (drop pos c) @ take (?z - pos - k) (drop k (drop pos c))"
    using le take_add [of k "?z - pos - k" "drop pos c"] by simp
  finally show ?thesis by (metis sublist_appendI)
qed

end
