(* ===== verification/Desc_Properties.thy ===== *)
theory Desc_Properties
  imports Desc_Correct
begin

text \<open>
  The properties of the summary \<open>GetDesc\<close>, stated over the places where the word occurs in
  the content up to ASCII case.
\<close>

definition occurs_at :: "string \<Rightarrow> string \<Rightarrow> nat \<Rightarrow> bool" where
  "occurs_at c w i \<longleftrightarrow> i < length c \<and> map ascii_lower (take (length w) (drop i c)) = map ascii_lower w"

lemma occurs_at_search:
  assumes "occurs_at c w i"
  shows "std_search same_letter c w \<le> i"
proof -
  have "c = take i c @ take (length w) (drop i c) @ drop (length w) (drop i c)"
    by (metis append_take_drop_id)
  from search_finds [OF this, of w] assms show ?thesis by (simp add: occurs_at_def)
qed

lemma search_occurs:
  "std_search same_letter c w < length c \<Longrightarrow> occurs_at c w (std_search same_letter c w)"
  using search_match(2) [of c w] by (simp add: occurs_at_def)

lemma no_occurrence:
  "(\<nexists>i. occurs_at c w i) \<longleftrightarrow> std_search same_letter c w = length c"
  using search_occurs [of c w] occurs_at_search [of c w] std_search_le [of same_letter c w]
  by (metis leD nat_less_le occurs_at_def order_le_less_trans)

text \<open>C10. \<open>GetDesc\<close> has three outcomes. Without an occurrence it answers \<open>None\<close> and logs a
  warning; on a content of one character that matches it throws; otherwise it answers with a
  non-empty contiguous part of the content without its last character, at most 150 long.\<close>

theorem GetDesc_outcome:
  assumes "length c + 100 < 2 ^ 31"
  shows "if \<nexists>i. occurs_at c w i then GetDesc c w = (Inr ''None'', [Log WARNING msg_no_match])
    else if length c = 1 then GetDesc c w = (Inl LogicError, [])
    else \<exists>s. GetDesc c w = (Inr s, []) \<and> s \<noteq> [] \<and> length s \<le> 150 \<and> sublist s (butlast c)"
proof -
  let ?p = "std_search same_letter c w"
  have "\<exists>s. GetDesc c w = (Inr s, []) \<and> s \<noteq> [] \<and> length s \<le> 150 \<and> sublist s (butlast c)"
    if p: "?p \<noteq> length c" and n: "length c \<noteq> 1"
  proof -
    let ?a = "desc_start ?p" and ?z = "desc_stop (length c) ?p"
    have "?p < length c" using p std_search_le [of same_letter c w] by simp
    then have "1 < length c" using n by simp
    note l = window_length [OF \<open>?p < length c\<close> this]
    have "take (?z - ?a) (drop ?a c) = take (?z - ?a) (drop ?a (butlast c))"
      using l(1,2) by (simp add: butlast_conv_take drop_take min_def)
    then have "sublist (take (?z - ?a) (drop ?a c)) (butlast c)"
      by (metis sublist_drop sublist_order.order_trans sublist_take)
    moreover have "take (?z - ?a) (drop ?a c) \<noteq> []" using l(1,2) by simp
    moreover have "length (take (?z - ?a) (drop ?a c)) \<le> 150" using l(3) by simp
    ultimately show ?thesis using p n by (simp add: GetDesc_window [OF assms refl])
  qed
  moreover have "(\<nexists>i. occurs_at c w i) \<longleftrightarrow> ?p = length c" by (rule no_occurrence)
  moreover have "GetDesc c w = (Inr ''None'', [Log WARNING msg_no_match])" if "?p = length c"
    using that by (simp add: GetDesc_window [OF assms refl])
  moreover have "GetDesc c w = (Inl LogicError, [])" if "?p \<noteq> length c" "length c = 1"
    using that by (simp add: GetDesc_window [OF assms refl])
  ultimately show ?thesis by auto
qed

theorem GetDesc_outcome_witness:
  "\<exists>s. GetDesc ''Fast fast map'' ''map'' = (Inr s, []) \<and> s \<noteq> [] \<and> length s \<le> 150 \<and>
     sublist s (butlast ''Fast fast map'')"
proof -
  have "occurs_at ''Fast fast map'' ''map'' 10" by code_simp
  with GetDesc_outcome [of "''Fast fast map''" "''map''"] show ?thesis
    by (auto split: if_splits)
qed

text \<open>C11. The summary shows the first occurrence of the word, at most 50 characters into it,
  for words of at most 100 characters, unless the occurrence ends with the content.\<close>

theorem GetDesc_shows_match:
  assumes "length c + 100 < 2 ^ 31" and "occurs_at c w i" and "\<forall>j < i. \<not> occurs_at c w j"
    and "length w \<le> 100" and "i + length w < length c" and "w \<noteq> []"
  shows "\<exists>s. fst (GetDesc c w) = Inr s \<and>
    map ascii_lower (take (length w) (drop (min i 50) s)) = map ascii_lower w"
proof -
  have i: "i < length c" using assms(2) by (simp add: occurs_at_def)
  have "std_search same_letter c w \<le> i" by (rule occurs_at_search [OF assms(2)])
  with i search_occurs [of c w] assms(3) have p: "std_search same_letter c w = i"
    by (metis nat_less_le order_le_less_trans)
  have n: "length c \<noteq> 1" using assms(5,6) by (cases w) auto
  let ?s = "take (desc_stop (length c) i - desc_start i) (drop (desc_start i) c)"
  have "fst (GetDesc c w) = Inr ?s" using i n by (simp add: GetDesc_window [OF assms(1) p])
  moreover have "take (length w) (drop (min i 50) ?s) = take (length w) (drop i c)"
    using assms(4,5) by (auto simp: drop_take desc_start_def desc_stop_def min_def)
  ultimately show ?thesis using assms(2) by (simp add: occurs_at_def)
qed

theorem GetDesc_shows_match_witness:
  "\<exists>s. fst (GetDesc ''Fast fast map'' ''FAST'') = Inr s \<and>
    map ascii_lower (take (length ''FAST'') (drop (min 0 50) s)) = map ascii_lower ''FAST''"
proof -
  have "occurs_at ''Fast fast map'' ''FAST'' 0" by code_simp
  then show ?thesis by (rule GetDesc_shows_match [rotated 1]) simp_all
qed

text \<open>A content of at most 100 characters with an occurrence in its first 51 is shown whole,
  less its last character.\<close>

theorem GetDesc_drops_last:
  assumes "1 < length c" and "length c \<le> 100" and "occurs_at c w i" and "i \<le> 50"
  shows "GetDesc c w = (Inr (butlast c), [])"
proof -
  let ?p = "std_search same_letter c w"
  have "?p \<le> i" by (rule occurs_at_search [OF assms(3)])
  then have "?p \<noteq> length c" and "desc_start ?p = 0"
    and "desc_stop (length c) ?p = length c - 1"
    using assms by (auto simp: occurs_at_def desc_start_def desc_stop_def)
  with assms(1,2) show ?thesis
    by (simp add: GetDesc_window [OF _ refl] butlast_conv_take)
qed

theorem GetDesc_drops_last_witness: "GetDesc ''Fast fast map'' ''map'' = (Inr ''Fast fast ma'', [])"
proof -
  have "occurs_at ''Fast fast map'' ''map'' 10" by code_simp
  from GetDesc_drops_last [OF _ _ this] show ?thesis by simp
qed

end
