(* ===== verification/Search_Correct.thy ===== *)
theory Search_Correct
  imports Desc_Correct
begin

text \<open>
  What a search returns: one result for every document that has a word of the query, with
  the sum of the words' relevances as its weight, best first. The part on the merging of
  postings is proved once for every index that keeps the contract \<open>search_index\<close>.
\<close>

subsection \<open>Specification\<close>

definition matched :: "'a text_libs_scheme \<Rightarrow> string list \<Rightarrow> DocInfo \<Rightarrow> string list" where
  "matched L ws d = filter (\<lambda>w. w \<in> doc_words L d) ws"

definition doc_score :: "'a text_libs_scheme \<Rightarrow> string list \<Rightarrow> DocInfo \<Rightarrow> nat" where
  "doc_score L ws d = sum_list (map (relevance L d) ws)"

definition item_of :: "'a text_libs_scheme \<Rightarrow> string list \<Rightarrow> DocInfo \<Rightarrow> InvertedElemPrint" where
  "item_of L ws d =
     \<lparr>pr_doc_id = id64 d, pr_weight = word_of_nat (doc_score L ws d), pr_words = matched L ws d\<rparr>"

subsection \<open>Merging the lists of several words\<close>

definition gather :: "(string \<Rightarrow> InvertedList option) \<Rightarrow> string list \<Rightarrow>
    (u64, InvertedElemPrint) umap" where
  "gather look ws = fold (\<lambda>w m. case look w of None \<Rightarrow> m | Some l \<Rightarrow> merge_list l m) ws []"

definition upd_item :: "InvertedElem \<Rightarrow> InvertedElemPrint \<Rightarrow> InvertedElemPrint" where
  "upd_item e item =
     item\<lparr>pr_doc_id := ie_doc_id e, pr_weight := pr_weight item + ie_weight e,
          pr_words := pr_words item @ [ie_word e]\<rparr>"

lemma merge_elem_upd: "merge_elem e m = um_modify (ie_doc_id e) print0 (upd_item e) m"
  by (simp add: merge_elem_def upd_item_def [abs_def])

lemma gather_snoc:
  "gather look (ws @ [w]) =
     (case look w of None \<Rightarrow> gather look ws | Some l \<Rightarrow> merge_list l (gather look ws))"
  by (simp add: gather_def split: option.split)

lemma distinct_merge_list:
  "distinct (map fst m) \<Longrightarrow> distinct (map fst (merge_list l m))"
  unfolding merge_list_def
  by (induction l arbitrary: m) (auto simp: merge_elem_upd um_simps)

lemma distinct_gather: "distinct (map fst (gather look ws))"
  by (induction ws rule: rev_induct)
     (auto simp: gather_snoc distinct_merge_list gather_def split: option.split)

definition doc_at :: "DocInfo list \<Rightarrow> u64 \<Rightarrow> DocInfo option" where
  "doc_at ds k = map_of (map (\<lambda>d. (id64 d, d)) ds) k"

lemma doc_at_Some:
  "distinct (map id64 ds) \<Longrightarrow> doc_at ds k = Some d \<longleftrightarrow> d \<in> set ds \<and> id64 d = k"
  by (auto simp: doc_at_def map_of_eq_Some_iff comp_def)

lemma doc_at_None: "doc_at ds k = None \<longleftrightarrow> k \<notin> id64 ` set ds"
  by (auto simp: doc_at_def map_of_eq_None_iff image_iff)

lemma doc_at_Cons: "doc_at (d # ds) k = (if id64 d = k then Some d else doc_at ds k)"
  by (simp add: doc_at_def)

text \<open>How many times, and by which postings, a document is merged.\<close>

definition merged :: "(DocInfo \<Rightarrow> string \<Rightarrow> bool) \<Rightarrow> (string \<Rightarrow> DocInfo \<Rightarrow> InvertedElem) \<Rightarrow>
    string list \<Rightarrow> DocInfo \<Rightarrow> InvertedElemPrint" where
  "merged has post ws d = fold (\<lambda>w. upd_item (post w d)) (filter (has d) ws) print0"

context search_index
begin

lemma map_of_merge_postings:
  "distinct (map id64 ds) \<Longrightarrow>
     map_of (merge_list (map (post w) (filter (\<lambda>d. has d w) ds)) m) k =
       (case doc_at ds k of
          None \<Rightarrow> map_of m k
        | Some d \<Rightarrow>
            if has d w
            then Some (upd_item (post w d) (case map_of m k of None \<Rightarrow> print0 | Some i \<Rightarrow> i))
            else map_of m k)"
proof (induction ds arbitrary: m)
  case Nil
  then show ?case by (simp add: merge_list_def doc_at_def)
next
  case (Cons d ds)
  then have "doc_at ds (id64 d) = None" by (simp add: doc_at_None)
  with Cons show ?case
    by (auto simp: doc_at_Cons merge_list_def merge_elem_upd um_simps post_id split: option.split)
qed

lemma map_of_gather:
  assumes "ok ix"
  shows "map_of (gather (lookup ix) ws) k =
     (case doc_at (docs ix) k of
        None \<Rightarrow> None
      | Some d \<Rightarrow> if filter (has d) ws = [] then None else Some (merged has post ws d))"
proof (induction ws rule: rev_induct)
  case Nil
  then show ?case by (simp add: gather_def split: option.split)
next
  case (snoc w ws)
  let ?l = "map (post w) (filter (\<lambda>d. has d w) (docs ix))"
  have "gather (lookup ix) (ws @ [w]) = merge_list ?l (gather (lookup ix) ws)"
    by (simp add: gather_snoc lookup_eq [OF assms] list_option_def merge_list_def)
  then show ?case
    using snoc map_of_merge_postings [OF distinct_ids [OF assms], of w "gather (lookup ix) ws" k]
    by (auto simp: merged_def split: option.split)
qed

text \<open>The pairs of the map: the documents with a word of the list, each once.\<close>

lemma mset_gather:
  assumes "ok ix"
  shows "mset (gather (lookup ix) ws) =
     mset (map (\<lambda>d. (id64 d, merged has post ws d))
            (filter (\<lambda>d. filter (has d) ws \<noteq> []) (docs ix)))"
proof -
  note dis = distinct_ids [OF assms]
  have "set (gather (lookup ix) ws) =
      set (map (\<lambda>d. (id64 d, merged has post ws d))
            (filter (\<lambda>d. filter (has d) ws \<noteq> []) (docs ix)))" (is "?G = ?S")
  proof (intro set_eqI)
    fix p :: "u64 \<times> InvertedElemPrint"
    obtain k i where p: "p = (k, i)" by (cases p)
    have "p \<in> ?G \<longleftrightarrow> map_of (gather (lookup ix) ws) k = Some i"
      by (simp add: p map_of_eq_Some_iff distinct_gather)
    also have "\<dots> \<longleftrightarrow> (\<exists>d. doc_at (docs ix) k = Some d \<and> filter (has d) ws \<noteq> [] \<and>
        i = merged has post ws d)"
      by (auto simp: map_of_gather [OF assms] split: option.split)
    also have "\<dots> \<longleftrightarrow> p \<in> ?S" by (auto simp: p doc_at_Some [OF dis])
    finally show "p \<in> ?G \<longleftrightarrow> p \<in> ?S" .
  qed
  moreover have "distinct (gather (lookup ix) ws)"
    using distinct_gather distinct_map by blast
  moreover have "distinct (map (\<lambda>d. (id64 d, merged has post ws d))
            (filter (\<lambda>d. filter (has d) ws \<noteq> []) (docs ix)))"
    using dis by (auto simp: distinct_map intro: inj_onI dest: inj_onD)
  ultimately show ?thesis using set_eq_iff_mset_eq_distinct by blast
qed

end

lemma fold_upd_postings:
  "fold (\<lambda>w. upd_item (posting L w d)) vs i =
     (if vs = [] then i
      else \<lparr>pr_doc_id = id64 d,
            pr_weight = pr_weight i + word_of_nat (sum_list (map (relevance L d) vs)),
            pr_words = pr_words i @ vs\<rparr>)"
  by (induction vs arbitrary: i) (auto simp: upd_item_def posting_def)

lemma sum_relevance_matched:
  "sum_list (map (relevance L d) (matched L ws d)) = doc_score L ws d"
  unfolding matched_def doc_score_def
  by (induction ws) (auto simp: relevance_pos [symmetric])

lemma merged_item_of:
  "matched L ws d \<noteq> [] \<Longrightarrow>
     merged (\<lambda>d w. w \<in> doc_words L d) (posting L) ws d = item_of L ws d"
  using sum_relevance_matched [of L d ws]
  by (simp add: merged_def item_of_def fold_upd_postings print0_def matched_def)

definition found :: "'a text_libs_scheme \<Rightarrow> Index \<Rightarrow> string list \<Rightarrow> DocInfo list" where
  "found L idx ws = filter (\<lambda>d. matched L ws d \<noteq> []) (forward_index idx)"

definition lists_of :: "Index \<Rightarrow> string \<Rightarrow> InvertedList option" where
  "lists_of idx w = fst (GetInvertedList idx w)"

lemma mset_items:
  assumes "index_valid L idx"
  shows "mset (gather (lists_of idx) ws) =
           mset (map (\<lambda>d. (id64 d, item_of L ws d)) (found L idx ws))"
proof -
  have "mset (gather (lists_of idx) ws) =
     mset (map (\<lambda>d. (id64 d, merged (\<lambda>d w. w \<in> doc_words L d) (posting L) ws d)) (found L idx ws))"
    using ns_index.mset_gather [OF assms, of ws]
    by (simp add: found_def matched_def lists_of_def [abs_def])
  also have "map (\<lambda>d. (id64 d, merged (\<lambda>d w. w \<in> doc_words L d) (posting L) ws d)) (found L idx ws)
      = map (\<lambda>d. (id64 d, item_of L ws d)) (found L idx ws)"
    by (intro map_cong) (auto simp: found_def merged_item_of)
  finally show ?thesis .
qed

subsection \<open>The loop over the words\<close>

text \<open>
  With a server that answers, the loop builds the map \<open>gather\<close> describes. Without it,
  the first word of the index ends the search.
\<close>

lemma search_words_up:
  assumes "sorted_set_server R score up" and "up r"
  shows "fst (search_words L R idx ws m r) =
      Inr (fold (\<lambda>w m. case lists_of idx w of None \<Rightarrow> m | Some l \<Rightarrow> merge_list l m)
             (map (boost_to_lower L) ws) m) \<and>
    up (fst (snd (search_words L R idx ws m r)))"
  using assms(2)
proof (induction ws arbitrary: m r)
  case Nil
  then show ?case by simp
next
  case (Cons w ws)
  let ?w = "boost_to_lower L w"
  obtain l ev where g: "GetInvertedList idx ?w = (l, ev)" by (cases "GetInvertedList idx ?w")
  show ?case
  proof (cases l)
    case None
    with g Cons.IH [OF Cons.prems, of m] show ?thesis
      by (simp add: lists_of_def case_prod_unfold)
  next
    case (Some l')
    obtain r' where r': "AddkeywordAndIncrase R ?w r = (None, r')" "up r'"
      using sorted_set_server.add_up [OF assms(1) Cons.prems] by (metis prod.collapse)
    from Cons.IH [OF r'(2), of "merge_list l' m"] Some g r'(1) show ?thesis
      by (simp add: lists_of_def case_prod_unfold)
  qed
qed

lemma search_words_counts:
  assumes "sorted_set_server R score up" and "up r"
    and "\<forall>w. 0 \<le> hot_count score r w \<and> hot_count score r w + int (length ws) \<le> 2 ^ 53"
  shows "hot_count score (fst (snd (search_words L R idx ws m r))) v =
      hot_count score r v +
      (if lists_of idx v = None then 0 else int (count_list (map (boost_to_lower L) ws) v))"
  using assms(2,3)
proof (induction ws arbitrary: m r)
  case Nil
  then show ?case by simp
next
  case (Cons w ws)
  let ?w = "boost_to_lower L w"
  have bound: "0 \<le> hot_count score r u" "hot_count score r u + int (length ws) < 2 ^ 53" for u
    using spec [OF Cons.prems(2), of u] by simp_all
  obtain l ev where g: "GetInvertedList idx ?w = (l, ev)" by (cases "GetInvertedList idx ?w")
  show ?case
  proof (cases l)
    case None
    from bound have "\<forall>u. 0 \<le> hot_count score r u \<and> hot_count score r u + int (length ws) \<le> 2 ^ 53"
      by (meson less_imp_le)
    from Cons.IH [OF Cons.prems(1) this, of m] None g show ?thesis
      by (auto simp: lists_of_def case_prod_unfold)
  next
    case (Some l')
    obtain r' where r': "AddkeywordAndIncrase R ?w r = (None, r')" "up r'"
      using sorted_set_server.add_up [OF assms(1) Cons.prems(1)] by (metis prod.collapse)
    from bound [of ?w] have "0 \<le> hot_count score r ?w" "hot_count score r ?w < 2 ^ 53"
      by linarith+
    from sorted_set_server.add_count [OF assms(1) Cons.prems(1) this] r'(1)
    have c: "hot_count score r' u = hot_count score r u + of_bool (u = ?w)" for u by simp
    have "0 \<le> hot_count score r' u \<and> hot_count score r' u + int (length ws) \<le> 2 ^ 53" for u
      using bound [of u] by (auto simp: c of_bool_def)
    then have "\<forall>u. 0 \<le> hot_count score r' u \<and> hot_count score r' u + int (length ws) \<le> 2 ^ 53"
      by blast
    from Cons.IH [OF r'(2) this, of "merge_list l' m"] Some g r'(1) show ?thesis
      by (auto simp: lists_of_def c case_prod_unfold)
  qed
qed

lemma search_words_none:
  assumes "\<forall>w \<in> set ws. lists_of idx (boost_to_lower L w) = None"
  shows "\<exists>ev. search_words L R idx ws m r = (Inr m, r, ev)"
  using assms
proof (induction ws)
  case (Cons w ws)
  then obtain ev where ev: "search_words L R idx ws m r = (Inr m, r, ev)" by auto
  obtain l ev1 where g: "GetInvertedList idx (boost_to_lower L w) = (l, ev1)"
    by (cases "GetInvertedList idx (boost_to_lower L w)")
  with Cons.prems have "l = None" by (simp add: lists_of_def)
  with ev g show ?case by simp
qed simp

subsection \<open>The loop over the results\<close>

lemma strict_weak_by_weight: "strict_weak by_weight"
  by (auto simp: strict_weak_def by_weight_def)

definition desc_of :: "string \<Rightarrow> string \<Rightarrow> string" where
  "desc_of c w = (case fst (GetDesc c w) of Inl _ \<Rightarrow> [] | Inr s \<Rightarrow> s)"

definition result_of :: "'a text_libs_scheme \<Rightarrow> string list \<Rightarrow> DocInfo \<Rightarrow> json_elem" where
  "result_of L ws d =
     \<lparr>js_title = title d, js_desc = desc_of (content d) (hd (matched L ws d)), js_url = url d\<rparr>"

text \<open>The one content a summary cannot be cut from: a single character that matches.\<close>

definition desc_throws :: "string \<Rightarrow> string \<Rightarrow> bool" where
  "desc_throws c w \<longleftrightarrow> length c = 1 \<and> std_search same_letter c w = 0"

lemma GetDesc_throws:
  assumes "length c + 100 < 2 ^ 31"
  shows "fst (GetDesc c w) = (if desc_throws c w then Inl LogicError else Inr (desc_of c w))"
  using std_search_le [of same_letter c w]
  by (auto simp: desc_of_def desc_throws_def GetDesc_window [OF assms refl])

lemma build_results_docs:
  assumes "index_valid L idx"
    and "\<forall>d \<in> set ds. d \<in> set (forward_index idx) \<and> matched L ws d \<noteq> [] \<and>
           length (content d) + 100 < 2 ^ 31"
  shows "fst (build_results idx (map (item_of L ws) ds) root) =
     (if \<exists>d \<in> set ds. desc_throws (content d) (hd (matched L ws d)) then Inl LogicError
      else Inr (root @ map (result_of L ws) ds))"
  using assms(2)
proof (induction ds arbitrary: root)
  case Nil
  then show ?case by simp
next
  case (Cons d ds)
  have f: "GetForwardIndex idx (id64 d) = (Some d, [])"
    using assms(1) Cons.prems by (simp add: index_valid_def index_ok_def GetForwardIndex_doc)
  obtain w v where m: "matched L ws d = w # v" using Cons.prems by (cases "matched L ws d") auto
  have g: "fst (GetDesc (content d) w) =
      (if desc_throws (content d) w then Inl LogicError else Inr (desc_of (content d) w))"
    using Cons.prems by (intro GetDesc_throws) simp
  then obtain ev where e: "GetDesc (content d) w =
      (if desc_throws (content d) w then Inl LogicError else Inr (desc_of (content d) w), ev)"
    by (metis prod.collapse)
  show ?case
    using Cons by (simp add: item_of_def f m e result_of_def)
qed

lemma sint_score:
  "doc_score L ws d < 2 ^ 31 \<Longrightarrow> sint (pr_weight (item_of L ws d)) = int (doc_score L ws d)"
  by (simp add: item_of_def)

text \<open>The sorted items are the items of the found documents, best first.\<close>

lemma sorted_items:
  assumes "index_valid L idx" and "hash_order (doc_order L)" and "std_sorter (std_sort L)"
    and "\<forall>d \<in> set (forward_index idx). doc_score L ws d < 2 ^ 31"
  obtains ds where "mset ds = mset (found L idx ws)"
    and "std_sort L by_weight (map snd (um_iter (doc_order L) (gather (lists_of idx) ws)))
           = map (item_of L ws) ds"
    and "sorted_wrt (\<lambda>d e. doc_score L ws e \<le> doc_score L ws d) ds"
proof -
  let ?items = "map snd (um_iter (doc_order L) (gather (lists_of idx) ws))"
  let ?sorted = "std_sort L by_weight ?items"
  have "mset ?sorted = mset ?items"
    by (rule std_sorter.permutes [OF assms(3) strict_weak_by_weight])
  also have "\<dots> = image_mset snd (mset (gather (lists_of idx) ws))"
    by (simp add: hash_order.mset_um_iter [OF assms(2) distinct_gather])
  also have "\<dots> = mset (map (item_of L ws) (found L idx ws))"
    by (simp add: mset_items [OF assms(1)] image_mset.compositionality comp_def)
  finally obtain ds where ds: "mset ds = mset (found L idx ws)"
    and eq: "?sorted = map (item_of L ws) ds" using map_permuted by blast
  have "set ds \<subseteq> set (forward_index idx)"
    using mset_eq_setD [OF ds] by (auto simp: found_def)
  moreover have "sorted_wrt (\<lambda>d e. \<not> by_weight (item_of L ws e) (item_of L ws d)) ds"
    using std_sorter.sorts [OF assms(3) strict_weak_by_weight, of ?items]
    by (simp add: eq sorted_wrt_map)
  ultimately have "sorted_wrt (\<lambda>d e. doc_score L ws e \<le> doc_score L ws d) ds"
    using assms(4)
    by (elim sorted_wrt_mono_rel [rotated]) (auto simp: by_weight_def sint_score subset_iff)
  with ds eq that show thesis by blast
qed

end
