(* ===== verification/Search_Properties.thy ===== *)
theory Search_Properties
  imports Search_Correct Demo
begin

text \<open>
  The properties of \<open>Search\<close>: what it answers and in which order, what the Redis server
  has to do with it, which errors it can end with, and what it counts.
\<close>

subsection \<open>The search with a server that answers\<close>

text \<open>The answer as a function of the index, the query and the libraries.\<close>

definition answer :: "'a search_libs_scheme \<Rightarrow> Index \<Rightarrow> string list \<Rightarrow> exn + string" where
  "answer L idx ws =
     (case fst (build_results idx (std_sort L by_weight
              (map snd (um_iter (doc_order L) (gather (lists_of idx) ws)))) []) of
        Inl x \<Rightarrow> Inl x
      | Inr root \<Rightarrow> Inr (json_write L root))"

lemma tokens_lower: "map (boost_to_lower L) (CutString L q) = tokens L q"
  by (simp add: tokens_def CutString_def)

lemma Search_up:
  assumes "sorted_set_server R score up" and "up r"
  shows "fst (Search L R idx q r) = answer L idx (tokens L q)"
    and "fst (snd (Search L R idx q r)) = fst (snd (search_words L R idx (CutString L q) [] r))"
proof -
  obtain res r' ev where p: "search_words L R idx (CutString L q) [] r = (res, r', ev)"
    by (cases "search_words L R idx (CutString L q) [] r") auto
  with search_words_up [OF assms, of L idx "CutString L q" "[]"]
  have s: "search_words L R idx (CutString L q) [] r =
      (Inr (gather (lists_of idx) (tokens L q)), r', ev)"
    by (simp add: gather_def tokens_lower)
  show "fst (Search L R idx q r) = answer L idx (tokens L q)"
    and "fst (snd (Search L R idx q r)) = fst (snd (search_words L R idx (CutString L q) [] r))"
    by (auto simp: Search_def s answer_def Let_def split: sum.split prod.split)
qed

text \<open>The sizes for which \<open>int\<close> arithmetic is exact.\<close>

definition fits :: "'a text_libs_scheme \<Rightarrow> Index \<Rightarrow> string list \<Rightarrow> bool" where
  "fits L idx ws \<longleftrightarrow> (\<forall>d \<in> set (forward_index idx).
     doc_score L ws d < 2 ^ 31 \<and> length (content d) + 100 < 2 ^ 31)"

definition best_first :: "'a text_libs_scheme \<Rightarrow> string list \<Rightarrow> DocInfo list \<Rightarrow> bool" where
  "best_first L ws ds \<longleftrightarrow> sorted_wrt (\<lambda>d e. doc_score L ws e \<le> doc_score L ws d) ds"

definition rendered :: "'a search_libs_scheme \<Rightarrow> string list \<Rightarrow> DocInfo list \<Rightarrow> exn + string" where
  "rendered L ws ds =
     (if \<exists>d \<in> set ds. desc_throws (content d) (hd (matched L ws d)) then Inl LogicError
      else Inr (json_write L (map (result_of L ws) ds)))"

lemma answer_ranked:
  assumes "index_valid L idx" and "hash_order (doc_order L)" and "std_sorter (std_sort L)"
    and "fits L idx ws"
  obtains ds where "mset ds = mset (found L idx ws)" and "best_first L ws ds"
    and "answer L idx ws = rendered L ws ds"
proof -
  from assms(4) have "\<forall>d \<in> set (forward_index idx). doc_score L ws d < 2 ^ 31"
    by (simp add: fits_def)
  from sorted_items [OF assms(1-3) this] obtain ds where ds: "mset ds = mset (found L idx ws)"
    and s: "std_sort L by_weight (map snd (um_iter (doc_order L) (gather (lists_of idx) ws)))
           = map (item_of L ws) ds"
    and b: "sorted_wrt (\<lambda>d e. doc_score L ws e \<le> doc_score L ws d) ds" by blast
  have "\<forall>d \<in> set ds. d \<in> set (forward_index idx) \<and> matched L ws d \<noteq> [] \<and>
      length (content d) + 100 < 2 ^ 31"
    using mset_eq_setD [OF ds] assms(4) by (auto simp: found_def fits_def)
  then have "answer L idx ws = rendered L ws ds"
    by (simp add: answer_def s build_results_docs [OF assms(1)] rendered_def)
  with that ds b show thesis by (simp add: best_first_def)
qed

lemma demo_fits: "fits demo_libs demo_index (tokens demo_libs ''fast io'')"
proof -
  have "\<forall>d \<in> set (forward_index demo_index).
      doc_score demo_libs (tokens demo_libs ''fast io'') d < 20 \<and> length (content d) < 20"
    by code_simp
  then show ?thesis by (force simp: fits_def)
qed

subsection \<open>The answer\<close>

text \<open>C2. A search answers with one result for every document that has a word of the query,
  each once, none other, the document with the greater sum of relevances first. It ends with an
  exception instead exactly when the summary of one of them cannot be cut.\<close>

theorem Search_ranks:
  assumes "index_valid L idx" and "fits L idx (tokens L q)"
    and "hash_order (doc_order L)" and "std_sorter (std_sort L)"
    and "sorted_set_server R score up" and "up r"
  shows "\<exists>ds. mset ds = mset (found L idx (tokens L q)) \<and> best_first L (tokens L q) ds \<and>
    fst (Search L R idx q r) = rendered L (tokens L q) ds"
  using answer_ranked [OF assms(1,3,4,2)] Search_up(1) [OF assms(5,6)] by metis

theorem Search_ranks_witness:
  "\<exists>ds. mset ds = mset (found demo_libs demo_index (tokens demo_libs ''fast io'')) \<and>
    best_first demo_libs (tokens demo_libs ''fast io'') ds \<and>
    fst (Search demo_libs zref_ops demo_index ''fast io'' demo_server) =
      rendered demo_libs (tokens demo_libs ''fast io'') ds"
  by (rule Search_ranks [OF demo_index_valid demo_fits demo_orders(2) demo_sorter
        zref.sorted_set_server_axioms demo_server_up])

lemma sorted_unique:
  assumes "mset xs = mset ys" and "distinct (map f xs)"
    and "sorted_wrt (\<lambda>d e. f e \<le> f d) xs" and "sorted_wrt (\<lambda>d e. f e \<le> (f d :: nat)) ys"
  shows "xs = ys"
proof -
  have "sorted (rev (map f xs))" "sorted (rev (map f ys))"
    using assms(3,4) by (simp_all add: sorted_wrt_rev sorted_wrt_map rev_map)
  moreover have "mset (rev (map f xs)) = mset (rev (map f ys))"
    using assms(1) by simp
  ultimately have "map f xs = map f ys"
    by (metis properties_for_sort rev_rev_ident)
  moreover have "inj_on f (set xs \<union> set ys)"
    using assms(2) mset_eq_setD [OF assms(1)] by (simp add: distinct_map)
  ultimately show ?thesis by (simp add: inj_on_map_eq_map)
qed

text \<open>What does not depend on the order of a map or the sorting algorithm.\<close>

lemma with_orders:
  fixes L :: "'a search_libs_scheme"
  defines "L' ord srt \<equiv> L\<lparr>doc_order := ord, std_sort := srt\<rparr>"
  shows "tokens (L' ord srt) = tokens L" and "found (L' ord srt) = found L"
    and "best_first (L' ord srt) = best_first L" and "rendered (L' ord srt) = rendered L"
    and "fits (L' ord srt) = fits L" and "index_valid (L' ord srt) = index_valid L"
    and "doc_order (L' ord srt) = ord" and "std_sort (L' ord srt) = srt"
proof -
  show t: "tokens (L' ord srt) = tokens L" by (simp add: fun_eq_iff tokens_def L'_def)
  have w: "doc_words (L' ord srt) = doc_words L" "relevance (L' ord srt) = relevance L"
    by (simp_all add: fun_eq_iff doc_words_def relevance_def t)
  have m: "matched (L' ord srt) = matched L" "doc_score (L' ord srt) = doc_score L"
    by (simp_all add: fun_eq_iff matched_def doc_score_def w)
  have r: "result_of (L' ord srt) = result_of L" "json_write (L' ord srt) = json_write L"
    by (simp_all add: fun_eq_iff result_of_def m) (simp add: L'_def)
  have p: "postings (L' ord srt) = postings L"
    by (simp add: fun_eq_iff postings_def posting_def w)
  show "found (L' ord srt) = found L" "best_first (L' ord srt) = best_first L"
    "rendered (L' ord srt) = rendered L" "fits (L' ord srt) = fits L"
    "index_valid (L' ord srt) = index_valid L"
    by (simp_all add: fun_eq_iff found_def best_first_def rendered_def fits_def m r
        index_valid_def index_ok_def p)
  show "doc_order (L' ord srt) = ord" "std_sort (L' ord srt) = srt" by (simp_all add: L'_def)
qed

text \<open>C7. When the documents found have different scores, the answer is determined: the
  order of the hash map, the sorting algorithm and the Redis server do not show in it.\<close>

theorem Search_determined:
  assumes "index_valid L idx" and "fits L idx (tokens L q)"
    and "distinct (map (doc_score L (tokens L q)) (found L idx (tokens L q)))"
    and "hash_order ord1" and "std_sorter sort1" and "sorted_set_server R1 score1 up1" and "up1 r1"
    and "hash_order ord2" and "std_sorter sort2" and "sorted_set_server R2 score2 up2" and "up2 r2"
  shows "fst (Search (L\<lparr>doc_order := ord1, std_sort := sort1\<rparr>) R1 idx q r1) =
         fst (Search (L\<lparr>doc_order := ord2, std_sort := sort2\<rparr>) R2 idx q r2)"
proof -
  let ?ws = "tokens L q"
  have common: "\<exists>ds. mset ds = mset (found L idx ?ws) \<and> best_first L ?ws ds \<and>
      answer (L\<lparr>doc_order := ord, std_sort := srt\<rparr>) idx ?ws = rendered L ?ws ds"
    if "hash_order ord" "std_sorter srt" for ord srt
  proof -
    let ?L = "L\<lparr>doc_order := ord, std_sort := srt\<rparr>"
    from answer_ranked [of ?L idx ?ws] assms(1,2) that show ?thesis
      by (auto simp: with_orders)
  qed
  from common [OF assms(4,5)] obtain ds1 where 1: "mset ds1 = mset (found L idx ?ws)"
    "best_first L ?ws ds1"
    "answer (L\<lparr>doc_order := ord1, std_sort := sort1\<rparr>) idx ?ws = rendered L ?ws ds1"
    by blast
  from common [OF assms(8,9)] obtain ds2 where 2: "mset ds2 = mset (found L idx ?ws)"
    "best_first L ?ws ds2"
    "answer (L\<lparr>doc_order := ord2, std_sort := sort2\<rparr>) idx ?ws = rendered L ?ws ds2"
    by blast
  have "distinct (map (doc_score L ?ws) ds1)"
    using assms(3) 1(1) mset_eq_imp_distinct_iff
    by (metis mset_map)
  then have "ds1 = ds2"
    using sorted_unique [of ds1 ds2 "doc_score L ?ws"] 1(1,2) 2(1,2) by (simp add: best_first_def)
  with 1 2 show ?thesis
    by (simp add: Search_up(1) [OF assms(6,7)] Search_up(1) [OF assms(10,11)] with_orders)
qed

text \<open>The two demo libraries differ in nothing but the two orders.\<close>

theorem Search_determined_witness:
  "fst (Search (demo_libs\<lparr>doc_order := fifo_order, std_sort := insertion_sort\<rparr>) zref_ops
      demo_index ''fast io'' demo_server) =
   fst (Search (demo_libs\<lparr>doc_order := lifo_order, std_sort := insertion_sort\<rparr>) zref_ops
      demo_index ''fast io'' demo_server)"
proof -
  have "distinct (map (doc_score demo_libs (tokens demo_libs ''fast io''))
      (found demo_libs demo_index (tokens demo_libs ''fast io'')))"
    by code_simp
  from Search_determined [OF demo_index_valid demo_fits this
      fifo.hash_order_axioms isort.std_sorter_axioms zref.sorted_set_server_axioms demo_server_up
      lifo.hash_order_axioms isort.std_sorter_axioms zref.sorted_set_server_axioms demo_server_up]
  show ?thesis .
qed

lemma Search_no_lists:
  assumes "hash_order (doc_order L)" and "std_sorter (std_sort L)"
    and "\<forall>w \<in> set (CutString L q). lists_of idx (boost_to_lower L w) = None"
  shows "\<exists>ev. Search L R idx q r = (Inr (json_write L []), r, ev)"
proof -
  obtain ev where s: "search_words L R idx (CutString L q) [] r = (Inr [], r, ev)"
    using search_words_none [OF assms(3), of R "[]" r] by blast
  have "map snd (um_iter (doc_order L) []) = ([] :: InvertedElemPrint list)"
    using hash_order.mset_um_iter [OF assms(1), of "[] :: (u64, InvertedElemPrint) umap"] by simp
  moreover have "std_sort L by_weight [] = []"
    using std_sorter.permutes [OF assms(2) strict_weak_by_weight, of "[]"] by simp
  ultimately show ?thesis by (simp add: Search_def s)
qed

text \<open>A query none of whose words is indexed is answered with the empty result, whatever
  the state of the Redis server, which is not asked.\<close>

theorem Search_unknown_words:
  assumes "index_valid L idx" and "found L idx (tokens L q) = []"
    and "hash_order (doc_order L)" and "std_sorter (std_sort L)"
  shows "\<exists>ev. Search L R idx q r = (Inr (json_write L []), r, ev)"
proof -
  have "lists_of idx (boost_to_lower L w) = None" if "w \<in> set (CutString L q)" for w
  proof -
    from that have t: "boost_to_lower L w \<in> set (tokens L q)"
      by (simp flip: tokens_lower)
    have "boost_to_lower L w \<notin> doc_words L d" if "d \<in> set (forward_index idx)" for d
      using assms(2) that t by (auto simp: found_def filter_empty_conv matched_def)
    then show ?thesis using ns_index.lookup_None_iff [OF assms(1)] by (simp add: lists_of_def)
  qed
  then show ?thesis by (intro Search_no_lists [OF assms(3,4)]) blast
qed

theorem Search_unknown_words_witness:
  "\<exists>ev. Search demo_libs zref_ops demo_index ''boost'' dead_server =
     (Inr (json_write demo_libs []), dead_server, ev)"
  by (rule Search_unknown_words [OF demo_index_valid _ demo_orders(2) demo_sorter]) code_simp

subsection \<open>Errors\<close>

lemma search_words_down:
  assumes "\<forall>cs. pipe_exec R cs r = (Some RedisError, r)"
    and "\<exists>w \<in> set ws. lists_of idx (boost_to_lower L w) \<noteq> None"
  shows "\<exists>ev. search_words L R idx ws m r = (Inl RedisError, r, ev)"
  using assms(2)
proof (induction ws)
  case (Cons w ws)
  obtain l ev where g: "GetInvertedList idx (boost_to_lower L w) = (l, ev)"
    by (cases "GetInvertedList idx (boost_to_lower L w)")
  show ?case
  proof (cases l)
    case None
    with Cons g obtain ev' where "search_words L R idx ws m r = (Inl RedisError, r, ev')"
      by (auto simp: lists_of_def)
    with None g show ?thesis by simp
  next
    case (Some l')
    with g show ?thesis using assms(1) by (simp add: AddkeywordAndIncrase_def)
  qed
qed simp

text \<open>While the Redis server does not answer, every search that would find a document ends
  with its exception instead: the statistics are not optional.\<close>

theorem Search_redis_down:
  assumes "index_valid L idx" and "found L idx (tokens L q) \<noteq> []"
    and "\<forall>cs. pipe_exec R cs r = (Some RedisError, r)"
  shows "\<exists>ev. Search L R idx q r = (Inl RedisError, r, ev)"
proof -
  from assms(2) obtain d w where "d \<in> set (forward_index idx)" "w \<in> set (tokens L q)"
    "w \<in> doc_words L d"
    by (auto simp: found_def matched_def filter_empty_conv)
  then have "lists_of idx w \<noteq> None" and "w \<in> boost_to_lower L ` set (CutString L q)"
    using ns_index.lookup_None_iff [OF assms(1), of w]
    by (auto simp: lists_of_def simp flip: tokens_lower)
  then have "\<exists>w \<in> set (CutString L q). lists_of idx (boost_to_lower L w) \<noteq> None" by auto
  from search_words_down [OF assms(3) this, of "[]"] show ?thesis by (auto simp: Search_def)
qed

theorem Search_redis_down_witness:
  "\<exists>ev. Search demo_libs zref_ops demo_index ''io'' dead_server = (Inl RedisError, dead_server, ev)"
proof (rule Search_redis_down [OF demo_index_valid])
  show "found demo_libs demo_index (tokens demo_libs ''io'') \<noteq> []" by code_simp
  show "\<forall>cs. pipe_exec zref_ops cs dead_server = (Some RedisError, dead_server)"
    by (simp add: zref_ops_def dead_server_def)
qed

text \<open>A document whose whole content is one character makes every search that finds it end
  with \<open>std::logic_error\<close> when the first word it has is that character: no result is shown,
  for the other documents either.\<close>

theorem Search_poisoned:
  assumes "index_valid L idx" and "fits L idx (tokens L q)"
    and "hash_order (doc_order L)" and "std_sorter (std_sort L)"
    and "sorted_set_server R score up" and "up r"
    and "d \<in> set (found L idx (tokens L q))" and "length (content d) = 1"
    and "map ascii_lower (content d) = map ascii_lower (hd (matched L (tokens L q) d))"
  shows "fst (Search L R idx q r) = Inl LogicError"
proof -
  from answer_ranked [OF assms(1,3,4,2)] obtain ds where
    ds: "mset ds = mset (found L idx (tokens L q))"
    and a: "answer L idx (tokens L q) = rendered L (tokens L q) ds" by blast
  have "d \<in> set ds" using mset_eq_setD [OF ds] assms(7) by simp
  moreover have "std_search same_letter (content d) (hd (matched L (tokens L q) d)) = 0"
    using search_finds [of "content d" "[]" "content d" "[]"] assms(8,9) by simp
  ultimately show ?thesis
    using assms(8) by (auto simp: Search_up(1) [OF assms(5,6)] a rendered_def desc_throws_def)
qed

definition poison_index :: Index where
  "poison_index = snd (fst (BulidIndex demo_libs
     (write_file ''p'' (concat (map out_string
        [\<lparr>title = ''A'', content = ''A'', url = ''u/3''\<rparr>,
         \<lparr>title = ''B'', content = ''B is not A'', url = ''u/4''\<rparr>])) demo_fs) ''p'' empty_index))"

theorem Search_poisoned_witness:
  "fst (Search demo_libs zref_ops poison_index ''a'' demo_server) = Inl LogicError"
proof (rule Search_poisoned [OF _ _ demo_orders(2) demo_sorter
      zref.sorted_set_server_axioms demo_server_up])
  show "index_valid demo_libs poison_index"
  proof -
    have "index_ok demo_libs poison_index"
      unfolding poison_index_def
      by (simp add: BulidIndex_Some index_lines_ok [OF demo_orders(1)] empty_index_ok)
    moreover have "length (forward_index poison_index) = 2" by code_simp
    ultimately show ?thesis by (simp add: index_valid_def)
  qed
  have "\<forall>d \<in> set (forward_index poison_index).
      doc_score demo_libs (tokens demo_libs ''a'') d < 20 \<and> length (content d) < 20"
    by code_simp
  then show "fits demo_libs poison_index (tokens demo_libs ''a'')"
    by (force simp: fits_def)
  show "with_id \<lparr>title = ''A'', content = ''A'', url = ''u/3''\<rparr> 0
      \<in> set (found demo_libs poison_index (tokens demo_libs ''a''))"
    by code_simp
  show "length (content (with_id \<lparr>title = ''A'', content = ''A'', url = ''u/3''\<rparr> 0)) = 1"
    by simp
  show "map ascii_lower (content (with_id \<lparr>title = ''A'', content = ''A'', url = ''u/3''\<rparr> 0)) =
      map ascii_lower (hd (matched demo_libs (tokens demo_libs ''a'')
        (with_id \<lparr>title = ''A'', content = ''A'', url = ''u/3''\<rparr> 0)))"
    by code_simp
qed

subsection \<open>Hot words\<close>

text \<open>A search adds one to the hot-word count of a word for every time the word occurs in the
  query, when the word is indexed, and leaves the counts of all other words alone.\<close>

theorem Search_counts:
  assumes "index_valid L idx" and "sorted_set_server R score up" and "up r"
    and "\<forall>w. 0 \<le> hot_count score r w \<and>
           hot_count score r w + int (length (CutString L q)) \<le> 2 ^ 53"
  shows "hot_count score (fst (snd (Search L R idx q r))) w =
    hot_count score r w +
    (if \<exists>d \<in> set (forward_index idx). w \<in> doc_words L d
     then int (count_list (tokens L q) w) else 0)"
proof -
  have "lists_of idx w = None \<longleftrightarrow> \<not> (\<exists>d \<in> set (forward_index idx). w \<in> doc_words L d)"
    using ns_index.lookup_None_iff [OF assms(1), of w] by (simp add: lists_of_def)
  then show ?thesis
    by (simp add: Search_up(2) [OF assms(2,3)] search_words_counts [OF assms(2-4)] tokens_lower)
qed

theorem Search_counts_witness:
  "hot_count zref_score
     (fst (snd (Search demo_libs zref_ops demo_index ''fast Fast io'' demo_server))) ''fast'' =
   hot_count zref_score demo_server ''fast'' +
   (if \<exists>d \<in> set (forward_index demo_index). ''fast'' \<in> doc_words demo_libs d
    then int (count_list (tokens demo_libs ''fast Fast io'') ''fast'') else 0)"
proof (rule Search_counts [OF demo_index_valid zref.sorted_set_server_axioms demo_server_up])
  have "length (CutString demo_libs ''fast Fast io'') = 3" by code_simp
  then show "\<forall>w. 0 \<le> hot_count zref_score demo_server w \<and>
      hot_count zref_score demo_server w +
        int (length (CutString demo_libs ''fast Fast io'')) \<le> 2 ^ 53"
    by (simp add: hot_count_def zref_score_def demo_server_def)
qed

end
