(* ===== verification/Http_Server.thy ===== *)
theory Http_Server
  imports Search_Correct
begin

text \<open>
  \<open>src/http_server.cc\<close> and \<open>src/debug.cc\<close>: the start of the server, the handler
  of \<open>GET /s\<close>, and the test program with its endless loop. The threads the server
  runs beside each other are in \<open>Server_Threads\<close>.
\<close>

subsection \<open>Start and handler\<close>

definition server_input :: string where "server_input = ''../data/raw_html/raw.txt''"

text \<open>cpp-httplib: the two questions the handler asks a request.\<close>

record 'q http_lib =
  has_param :: "'q \<Rightarrow> string \<Rightarrow> bool"
  get_param_value :: "'q \<Rightarrow> string \<Rightarrow> string"

text \<open>The arguments of the \<open>set_content\<close> call: body and content type.\<close>

type_synonym set_content_args = "string \<times> string"

definition text_type :: string where "text_type = ''text/plain: chatset=utf-8''"
definition json_type :: string where "json_type = ''application/json''"

definition handle_s :: "'q http_lib \<Rightarrow> 'a search_libs_scheme \<Rightarrow> 'r redis_ops \<Rightarrow> Index \<Rightarrow> 'q \<Rightarrow> 'r \<Rightarrow>
    (exn + set_content_args) \<times> 'r \<times> event list" where
  "handle_s H L R idx req r =
     (if \<not> has_param H req ''word'' then (Inr (msg_need_keyword, text_type), r, [])
      else
        let w = get_param_value H req ''word'';
            ev = [Log NORMAL (msg_user_search @ w)]
        in case Search L R idx w r of
             (Inl x, r', ev') \<Rightarrow> (Inl x, r', ev @ ev')
           | (Inr json_string, r', ev') \<Rightarrow> (Inr (json_string, json_type), r', ev @ ev'))"

text \<open>
  \<open>main\<close> up to \<open>listen\<close>: construct the searcher (which pings Redis), build the index,
  report. \<open>InitSearcher\<close> returns nothing, so the server starts whether or not the raw
  file could be read.
\<close>

definition http_start :: "'a text_libs_scheme \<Rightarrow> 'r redis_ops \<Rightarrow> filesys \<Rightarrow> 'r \<Rightarrow>
    (exn + Index) \<times> event list" where
  "http_start L R fs r =
     (case Searcher_new R r of
        (Inl x, ev) \<Rightarrow> (Inl x, ev)
      | (Inr _, ev) \<Rightarrow>
          (case InitSearcher L fs server_input empty_index of
             (idx, ev') \<Rightarrow> (Inr idx, ev @ ev' @ [Log NORMAL msg_server_started])))"

text \<open>
  The whole \<open>main\<close>: what it sets up, and where it ends. \<open>set_base_dir\<close> and \<open>listen\<close> of the HTTP library say whether they
  succeeded; \<open>main\<close> asks neither. After \<open>listen\<close> it waits for the timer thread, whose loop has no end. An exception, with the
  timer thread still joinable, terminates the process.
\<close>

record http_setup =
  redis_host :: string
  redis_port :: nat
  redis_password :: string
  clean_interval :: nat \<comment> \<open>seconds\<close>
  base_dir :: string
  listen_host :: string
  listen_port :: nat

definition root_path :: string where "root_path = ''../wwwroot''"

definition server_setup :: http_setup where
  "server_setup = \<lparr>redis_host = ''127.0.0.1'', redis_port = 6379, redis_password = ''123'', clean_interval = 30,
     base_dir = root_path, listen_host = ''0.0.0.0'', listen_port = 8081\<rparr>"

datatype http_end = Terminated exn | Waits_for_timer \<comment> \<open>files served?\<close> bool \<comment> \<open>had been listening?\<close> bool

definition server_main :: "'a text_libs_scheme \<Rightarrow> 'r redis_ops \<Rightarrow> filesys \<Rightarrow> 'r \<Rightarrow> (string \<Rightarrow> bool) \<Rightarrow> (string \<Rightarrow> nat \<Rightarrow> bool) \<Rightarrow>
    http_end \<times> event list" where
  "server_main L R fs r set_base_dir listen =
     (case http_start L R fs r of
        (Inl x, ev) \<Rightarrow> (Terminated x, ev)
      | (Inr idx, ev) \<Rightarrow>
          (let mounted = set_base_dir (base_dir server_setup);
               listened = listen (listen_host server_setup) (listen_port server_setup)
           in (Waits_for_timer mounted listened, ev)))"

text \<open>A server that cannot listen reports the same as one that can, that it has started, and stays.\<close>

lemma server_main_unheard:
  "snd (server_main L R fs r sb listen) = snd (server_main L R fs r sb' listen')"
  "http_start L R fs r = (Inr idx, ev) \<Longrightarrow>
     server_main L R fs r sb listen = (Waits_for_timer (sb ''../wwwroot'') (listen ''0.0.0.0'' 8081), ev)"
  by (auto simp: server_main_def server_setup_def root_path_def Let_def split: prod.split sum.split)

text \<open>Requests served one after the other.\<close>

fun serve :: "'q http_lib \<Rightarrow> 'a search_libs_scheme \<Rightarrow> 'r redis_ops \<Rightarrow> Index \<Rightarrow> 'q list \<Rightarrow> 'r \<Rightarrow>
    (exn + set_content_args) list \<times> 'r" where
  "serve H L R idx [] r = ([], r)"
| "serve H L R idx (q # qs) r =
     (case handle_s H L R idx q r of
        (res, r', _) \<Rightarrow> apfst (Cons res) (serve H L R idx qs r'))"

subsection \<open>The test program\<close>

definition debug_input :: string where "debug_input = ''data/raw_html/raw.txt''"

text \<open>
  One iteration of \<open>while (true)\<close>: the stream and the string \<open>query\<close> as
  \<open>getline\<close> leaves them, the search, the answer printed. An exception ends the process.
\<close>

definition debug_iter :: "'a search_libs_scheme \<Rightarrow> 'r redis_ops \<Rightarrow> Index \<Rightarrow>
    istream \<times> string \<times> 'r \<Rightarrow> (exn + istream \<times> string \<times> 'r) \<times> event list" where
  "debug_iter L R idx st =
     (case st of (cin, query, r) \<Rightarrow>
        case getline cin query of
          (cin', query') \<Rightarrow>
            (case Search L R idx query' r of
               (Inl x, r', ev) \<Rightarrow> (Inl x, Cout ''Please Enter You Search Query#'' # ev)
             | (Inr json_string, r', ev) \<Rightarrow>
                 (Inr (cin', query', r'),
                  Cout ''Please Enter You Search Query#'' # ev @ [Cout (json_string @ endl)])))"

fun debug_loop :: "nat \<Rightarrow> 'a search_libs_scheme \<Rightarrow> 'r redis_ops \<Rightarrow> Index \<Rightarrow>
    istream \<times> string \<times> 'r \<Rightarrow> (exn + istream \<times> string \<times> 'r) \<times> event list" where
  "debug_loop 0 L R idx st = (Inr st, [])"
| "debug_loop (Suc n) L R idx st =
     (case debug_iter L R idx st of
        (Inl x, ev) \<Rightarrow> (Inl x, ev)
      | (Inr st', ev) \<Rightarrow> apsnd (append ev) (debug_loop n L R idx st'))"

text \<open>\<open>main\<close> of the test program, for \<open>n\<close> iterations of its endless loop.\<close>

definition debug_main :: "nat \<Rightarrow> 'a search_libs_scheme \<Rightarrow> 'r redis_ops \<Rightarrow> filesys \<Rightarrow>
    istream \<Rightarrow> 'r \<Rightarrow> (exn + istream \<times> string \<times> 'r) \<times> event list" where
  "debug_main n L R fs cin r =
     (case Searcher_new R r of
        (Inl x, ev) \<Rightarrow> (Inl x, ev)
      | (Inr _, ev) \<Rightarrow>
          (case InitSearcher L fs debug_input empty_index of
             (idx, ev') \<Rightarrow> apsnd (append (ev @ ev')) (debug_loop n L R idx (cin, [], r))))"

end
