(* ===== verification/Server_Threads.thy ===== *)
theory Server_Threads
  imports Hot_Words
begin

text \<open>
  The threads that share the Redis server: any number of request handlers, each sending the
  pipeline of \<open>AddkeywordAndIncrase\<close> for a word, and the timer thread. A pipeline is not a
  transaction, and the timer reads and deletes with two commands, so the unit of interleaving
  is one command. \<open>counted\<close>, \<open>printed\<close> and \<open>dropped\<close> are ghost counters: how
  often a word was counted, what the rankings printed for it, what the clean-ups deleted.
\<close>

subsection \<open>The machine\<close>

datatype timer_pc = Sleeping | Cleaning "(string \<times> int) list"

record 'r server_state =
  db :: 'r
  pipes :: "nat \<Rightarrow> redis_cmd list" \<comment> \<open>what is left of each handler's pipeline\<close>
  timer :: timer_pc
  counted :: "string \<Rightarrow> int"
  printed :: "string \<Rightarrow> int"
  dropped :: "string \<Rightarrow> int"

definition server_init :: "'r \<Rightarrow> 'r server_state" where
  "server_init r = \<lparr>db = r, pipes = (\<lambda>_. []), timer = Sleeping,
     counted = (\<lambda>_. 0), printed = (\<lambda>_. 0), dropped = (\<lambda>_. 0)\<rparr>"

fun cmd_counts :: "redis_cmd \<Rightarrow> string \<Rightarrow> int" where
  "cmd_counts (ZADD_NX k m s) w = 0"
| "cmd_counts (ZINCRBY k i m) w = (if k = hot_key \<and> m = w then i else 0)"

definition rank_score :: "(string \<times> int) list \<Rightarrow> string \<Rightarrow> int" where
  "rank_score rank w = (case map_of rank w of None \<Rightarrow> 0 | Some s \<Rightarrow> s)"

inductive server_step :: "'r redis_ops \<Rightarrow> ('r \<Rightarrow> string \<Rightarrow> string \<Rightarrow> int option) \<Rightarrow>
    'r server_state \<Rightarrow> 'r server_state \<Rightarrow> bool" for R score where
  send: "pipes s i = [] \<Longrightarrow>
    server_step R score s
      (s\<lparr>pipes := (pipes s)(i := [ZADD_NX hot_key w 0, ZINCRBY hot_key 1 w])\<rparr>)"
| exec_cmd: "pipes s i = c # cs \<Longrightarrow> pipe_exec R [c] (db s) = (None, r') \<Longrightarrow>
    server_step R score s
      (s\<lparr>db := r', pipes := (pipes s)(i := cs), counted := (\<lambda>w. counted s w + cmd_counts c w)\<rparr>)"
| wake: "timer s = Sleeping \<Longrightarrow> zrevrange R hot_key 0 (-1) (db s) = Inr rank \<Longrightarrow>
    server_step R score s
      (s\<lparr>timer := Cleaning rank, printed := (\<lambda>w. printed s w + rank_score rank w)\<rparr>)"
| clean: "timer s = Cleaning rank \<Longrightarrow> redis_del R hot_key (db s) = (None, r') \<Longrightarrow>
    server_step R score s
      (s\<lparr>db := r', timer := Sleeping,
         dropped := (\<lambda>w. dropped s w + hot_count score (db s) w)\<rparr>)"

inductive_cases server_stepE: "server_step R score s t"

inductive server_reachable :: "'r redis_ops \<Rightarrow> ('r \<Rightarrow> string \<Rightarrow> string \<Rightarrow> int option) \<Rightarrow>
    'r \<Rightarrow> nat \<Rightarrow> 'r server_state \<Rightarrow> bool" for R score r0 where
  server_start: "server_reachable R score r0 0 (server_init r0)"
| server_next: "server_reachable R score r0 n s \<Longrightarrow> server_step R score s t \<Longrightarrow>
    server_reachable R score r0 (Suc n) t"

subsection \<open>Invariant\<close>

text \<open>The commands handlers send: the two of the pipeline, for some word.\<close>

definition pipe_ok :: "redis_cmd list \<Rightarrow> bool" where
  "pipe_ok cs \<longleftrightarrow>
     (\<exists>w. cs = [] \<or> cs = [ZINCRBY hot_key 1 w] \<or> cs = [ZADD_NX hot_key w 0, ZINCRBY hot_key 1 w])"

text \<open>
  After \<open>n\<close> steps: nothing is counted twice or lost by the server (what was counted is
  there or was dropped), scores are small enough to be exact, and what the rankings printed
  is covered by what was dropped, or by what is there while the timer is about to delete.
\<close>

definition server_inv :: "('r \<Rightarrow> string \<Rightarrow> string \<Rightarrow> int option) \<Rightarrow> ('r \<Rightarrow> bool) \<Rightarrow> nat \<Rightarrow>
    'r server_state \<Rightarrow> bool" where
  "server_inv score up n s \<longleftrightarrow>
     up (db s) \<and> (\<forall>i. pipe_ok (pipes s i)) \<and>
     (\<forall>w. counted s w = hot_count score (db s) w + dropped s w) \<and>
     (\<forall>w. 0 \<le> hot_count score (db s) w \<and> counted s w \<le> int n \<and> 0 \<le> dropped s w) \<and>
     (\<forall>w. printed s w \<le> dropped s w +
        (case timer s of Sleeping \<Rightarrow> 0 | Cleaning rank \<Rightarrow> rank_score rank w)) \<and>
     (\<forall>rank w. timer s = Cleaning rank \<longrightarrow> rank_score rank w \<le> hot_count score (db s) w)"

lemma server_inv_bound:
  assumes "server_inv score up n s"
  shows "0 \<le> hot_count score (db s) w \<and> hot_count score (db s) w \<le> int n"
proof -
  have "counted s w = hot_count score (db s) w + dropped s w" "counted s w \<le> int n"
    "0 \<le> dropped s w" "0 \<le> hot_count score (db s) w"
    using assms unfolding server_inv_def by blast+
  then show ?thesis by linarith
qed

lemma counted_Suc: "server_inv score up n s \<Longrightarrow> counted s w \<le> int (Suc n)"
  unfolding server_inv_def by (metis int_Suc le_add_same_cancel1 order_trans zero_le_one)

context sorted_set_server
begin

lemma count_zadd:
  assumes "up r"
  shows "hot_count score (snd (pipe_exec R [ZADD_NX hot_key m 0] r)) w = hot_count score r w"
  using zadd [OF assms, of hot_key m 0 hot_key w] by (auto simp: hot_count_def split: option.split)

lemma count_zincrby:
  assumes "up r" and "0 \<le> hot_count score r m" and "hot_count score r m < 2 ^ 53"
  shows "hot_count score (snd (pipe_exec R [ZINCRBY hot_key 1 m] r)) w =
           hot_count score r w + of_bool (w = m)"
proof -
  have "score (snd (pipe_exec R [ZINCRBY hot_key 1 m] r)) hot_key w =
      (if hot_key = hot_key \<and> w = m then Some (hot_count score r m + 1) else score r hot_key w)"
    by (rule zincrby) (use assms in \<open>auto simp: hot_count_def\<close>)
  then show ?thesis by (auto simp: hot_count_def)
qed

lemma rank_score_count:
  assumes "up r" and "zrevrange R hot_key 0 (-1) r = Inr rank"
  shows "rank_score rank w = hot_count score r w"
proof -
  from zrevrange_all [OF assms(1), of hot_key] assms(2)
  have "distinct (map fst rank)" and "set rank = {(m, s). score r hot_key m = Some s}" by auto
  then have "map_of rank w = score r hot_key w"
    by (metis (mono_tags, lifting) case_prodI case_prodD map_of_eq_Some_iff mem_Collect_eq
        not_Some_eq)
  then show ?thesis by (simp add: rank_score_def hot_count_def)
qed

lemma exec_inv:
  assumes inv: "server_inv score up n s" and "n < 2 ^ 53" and p: "pipes s i = c # cs"
    and x: "pipe_exec R [c] (db s) = (None, r')"
  shows "up r'" and "hot_count score r' w = hot_count score (db s) w + cmd_counts c w"
    and "0 \<le> cmd_counts c w" and "cmd_counts c w \<le> 1" and "pipe_ok cs"
proof -
  from inv have u: "up (db s)" by (simp add: server_inv_def)
  have b: "0 \<le> hot_count score (db s) m" "hot_count score (db s) m < 2 ^ 53" for m
    using server_inv_bound [OF inv, of m] assms(2) by auto
  show "up r'" using exec_up [OF u, of "[c]"] x by simp
  from inv p have ok: "pipe_ok (c # cs)" unfolding server_inv_def by metis
  then obtain m where c: "c = ZADD_NX hot_key m 0 \<or> c = ZINCRBY hot_key 1 m"
    by (auto simp: pipe_ok_def)
  from ok show "pipe_ok cs" by (auto simp: pipe_ok_def)
  show "hot_count score r' w = hot_count score (db s) w + cmd_counts c w"
    using c count_zadd [OF u, of m w] count_zincrby [OF u b, of m w] x by auto
  show "0 \<le> cmd_counts c w" "cmd_counts c w \<le> 1" using c by auto
qed

lemma server_inv_init:
  assumes "up r" and "\<And>w. score r hot_key w = None"
  shows "server_inv score up 0 (server_init r)"
  using assms by (simp add: server_inv_def server_init_def pipe_ok_def hot_count_def)

lemma server_step_inv:
  assumes "server_step R score s t" and inv: "server_inv score up n s" and n: "n < 2 ^ 53"
  shows "server_inv score up (Suc n) t"
  using assms(1)
proof (cases rule: server_step.cases)
  case (send i w)
  from inv have "pipe_ok (pipes t j)" for j
    using send by (auto simp: server_inv_def pipe_ok_def)
  moreover note counted_Suc [OF inv]
  ultimately show ?thesis using inv send(1) by (simp add: server_inv_def)
next
  case (exec_cmd i c cs r')
  note c = exec_inv [OF inv n exec_cmd(2,3)]
  have cnt: "counted t w = hot_count score (db t) w + dropped t w"
    "0 \<le> hot_count score (db t) w" "counted t w \<le> int (Suc n)" "0 \<le> dropped t w" for w
  proof -
    have s: "counted s w = hot_count score (db s) w + dropped s w" "counted s w \<le> int n"
      "0 \<le> dropped s w" "0 \<le> hot_count score (db s) w"
      using inv unfolding server_inv_def by blast+
    show "counted t w = hot_count score (db t) w + dropped t w"
      "0 \<le> hot_count score (db t) w" "counted t w \<le> int (Suc n)" "0 \<le> dropped t w"
      using s c(2-4) [of w] exec_cmd(1) by simp_all
  qed
  have grow: "hot_count score (db s) w \<le> hot_count score (db t) w" for w
    using exec_cmd(1) c(2,3) [of w] by simp
  have "rank_score rank w \<le> hot_count score (db t) w" if "timer s = Cleaning rank" for rank w
    using inv that grow [of w] unfolding server_inv_def by (metis order_trans)
  moreover from inv have "pipe_ok (pipes t j)" for j
    using exec_cmd(1) c(5) by (auto simp: server_inv_def)
  ultimately show ?thesis
    using inv cnt c(1) exec_cmd(1) by (auto simp: server_inv_def)
next
  case (wake rank)
  from inv have u: "up (db s)" by (simp add: server_inv_def)
  note rank = rank_score_count [OF u wake(3)]
  from counted_Suc [OF inv] inv wake show ?thesis by (auto simp: server_inv_def rank)
next
  case (clean rank r')
  from inv have u: "up (db s)" by (simp add: server_inv_def)
  from del [OF u, of hot_key] clean(3)
  have r': "up r'" "hot_count score r' w = 0" for w by (auto simp: hot_count_def)
  note counted_Suc [OF inv]
  moreover have "printed s w \<le> dropped s w + hot_count score (db s) w" for w
    using inv clean(2) unfolding server_inv_def by (auto intro: order_trans)
  ultimately show ?thesis using inv clean r' by (auto simp: server_inv_def)
qed

lemma server_reachable_inv:
  assumes "up r" and "\<And>w. score r hot_key w = None"
  shows "server_reachable R score r n s \<Longrightarrow> n \<le> 2 ^ 53 \<Longrightarrow> server_inv score up n s"
proof (induction rule: server_reachable.induct)
  case server_start
  show ?case by (rule server_inv_init [OF assms])
next
  case (server_next n s t)
  then show ?case by (intro server_step_inv) auto
qed

end

end
