(* ===== verification/Server_Properties.thy ===== *)
theory Server_Properties
  imports Search_Properties Http_Server Server_Threads
begin

text \<open>
  The properties of the programs around the search: the hot-word statistics with one thread
  and with many, the start of the server, its handler, and the test program.
\<close>

subsection \<open>Hot words\<close>

text \<open>The \<open>ZADD NX\<close> the pipeline starts with is redundant: for a server with Redis's
  documented semantics the increment alone leaves the same scores.\<close>

theorem ZADD_redundant:
  assumes "sorted_set_server R score up" and "up r"
    and "0 \<le> hot_count score r w" and "hot_count score r w < 2 ^ 53"
  shows "score (snd (AddkeywordAndIncrase R w r)) =
         score (snd (pipe_exec R [ZINCRBY hot_key 1 w] r))"
  by (rule sorted_set_server.zadd_redundant [OF assms])

theorem ZADD_redundant_witness:
  "zref_score (snd (AddkeywordAndIncrase zref_ops ''boost'' demo_server)) =
   zref_score (snd (pipe_exec zref_ops [ZINCRBY hot_key 1 ''boost''] demo_server))"
  by (rule ZADD_redundant [OF zref.sorted_set_server_axioms demo_server_up])
     (simp_all add: hot_count_def zref_score_def demo_server_def)

text \<open>A round of the timer prints every counted word once with its count, greatest count
  first, then forgets all counts, and leaves the other keys of the server alone.\<close>

theorem timer_round_prints:
  assumes "sorted_set_server R score up" and "up r"
  shows "\<exists>rank r'. timer_round R r =
      (Inr (), r', map (\<lambda>e. Rank (fst e) (snd e)) rank @ [Cout (msg_redis_cleaned @ endl)]) \<and>
    distinct (map fst rank) \<and> set rank = {(w, n). score r hot_key w = Some n} \<and>
    sorted_wrt (\<lambda>a b. snd b \<le> snd a) rank \<and>
    (\<forall>k w. score r' k w = (if k = hot_key then None else score r k w))"
  using sorted_set_server.timer_round_up [OF assms] by blast

theorem timer_round_prints_witness:
  "\<exists>rank r'. timer_round zref_ops demo_server =
      (Inr (), r', map (\<lambda>e. Rank (fst e) (snd e)) rank @ [Cout (msg_redis_cleaned @ endl)]) \<and>
    distinct (map fst rank) \<and> set rank = {(w, n). zref_score demo_server hot_key w = Some n} \<and>
    sorted_wrt (\<lambda>a b. snd b \<le> snd a) rank \<and>
    (\<forall>k w. zref_score r' k w = (if k = hot_key then None else zref_score demo_server k w))"
  by (rule timer_round_prints [OF zref.sorted_set_server_axioms demo_server_up])

lemma timer_round_down:
  "zrevrange R hot_key 0 (-1) r = Inl x \<Longrightarrow> timer_round R r = (Inl x, r, [])"
  by (simp add: timer_round_def)

text \<open>While the server answers, the timer thread goes through any number of rounds without an
  exception; the first round in which the ranking cannot be read ends it (and the process).\<close>

theorem timerTask_outcome:
  assumes "sorted_set_server R score up" and "up r"
  shows "fst (timerTask R n r) = Inr () \<and> up (fst (snd (timerTask R n r))) \<and>
    (zrevrange R hot_key 0 (-1) r0 = Inl x \<longrightarrow> timerTask R (Suc m) r0 = (Inl x, r0, []))"
  using sorted_set_server.timerTask_up [OF assms, of n] by (simp add: timer_round_down)

theorem timerTask_outcome_witness:
  "fst (timerTask zref_ops 7 demo_server) = Inr () \<and>
   timerTask zref_ops (Suc 7) dead_server = (Inl RedisError, dead_server, [])"
  using timerTask_outcome [OF zref.sorted_set_server_axioms demo_server_up,
      of 7 dead_server RedisError 7]
  by (simp add: zref_ops_def dead_server_def del: timerTask.simps)

subsection \<open>Hot words with many threads\<close>

text \<open>C6. In every interleaving of handlers and timer, command by command, the server keeps the
  counts: each counted search is in the store or was deleted by a clean-up, the rankings never
  print a count twice, and no count is negative.\<close>

theorem threads_conserve_counts:
  assumes "sorted_set_server R score up" and "up r" and "\<forall>w. score r hot_key w = None"
    and "server_reachable R score r n s" and "n \<le> 2 ^ 53"
  shows "counted s w = hot_count score (db s) w + dropped s w \<and>
    0 \<le> hot_count score (db s) w \<and> 0 \<le> dropped s w \<and> printed s w \<le> counted s w"
proof -
  have inv: "server_inv score up n s"
    using sorted_set_server.server_reachable_inv [OF assms(1,2) _ assms(4,5)] assms(3) by blast
  then have c: "counted s w = hot_count score (db s) w + dropped s w"
    "0 \<le> hot_count score (db s) w" "0 \<le> dropped s w"
    unfolding server_inv_def by blast+
  have "printed s w \<le> dropped s w + hot_count score (db s) w"
    using inv unfolding server_inv_def
    by (cases "timer s") (auto intro: order_trans [OF spec [of _ w]] add_left_mono)
  with c show ?thesis by linarith
qed

text \<open>A run in which a search falls between the reading and the deletion of the ranking.\<close>

lemma lost_run:
  obtains s where "server_reachable zref_ops zref_score demo_server 5 s"
    and "counted s = (\<lambda>w. of_bool (w = ''boost''))" and "printed s = (\<lambda>w. 0)"
    and "hot_count zref_score (db s) ''boost'' = 0" and "timer s = Sleeping"
proof -
  note ops = zref_ops_def demo_server_def
  let ?s0 = "server_init demo_server"
  let ?cs = "[ZADD_NX hot_key ''boost'' 0, ZINCRBY hot_key 1 ''boost'']"
  let ?s1 = "?s0\<lparr>timer := Cleaning [], printed := (\<lambda>w. printed ?s0 w + rank_score [] w)\<rparr>"
  let ?s2 = "?s1\<lparr>pipes := (pipes ?s1)(0 := ?cs)\<rparr>"
  let ?d3 = "snd (pipe_exec zref_ops [hd ?cs] (db ?s2))"
  let ?s3 = "?s2\<lparr>db := ?d3, pipes := (pipes ?s2)(0 := tl ?cs),
    counted := (\<lambda>w. counted ?s2 w + cmd_counts (hd ?cs) w)\<rparr>"
  let ?d4 = "snd (pipe_exec zref_ops [?cs ! 1] ?d3)"
  let ?s4 = "?s3\<lparr>db := ?d4, pipes := (pipes ?s3)(0 := []),
    counted := (\<lambda>w. counted ?s3 w + cmd_counts (?cs ! 1) w)\<rparr>"
  let ?d5 = "snd (redis_del zref_ops hot_key ?d4)"
  let ?s5 = "?s4\<lparr>db := ?d5, timer := Sleeping,
    dropped := (\<lambda>w. dropped ?s4 w + hot_count zref_score (db ?s4) w)\<rparr>"
  let ?step = "server_step zref_ops zref_score"
  have "?step ?s0 ?s1" by (rule wake) (simp_all add: server_init_def ops zref_rank_def zslice_all
      insertion_sort_def)
  moreover have "?step ?s1 ?s2" by (rule send) (simp add: server_init_def)
  moreover have "?step ?s2 ?s3" by (rule exec_cmd) (simp_all add: server_init_def ops)
  moreover have "?step ?s3 ?s4" by (rule exec_cmd) (simp_all add: server_init_def ops)
  moreover have "?step ?s4 ?s5" by (rule clean) (simp_all add: server_init_def ops)
  ultimately have "server_reachable zref_ops zref_score demo_server (Suc (Suc (Suc (Suc (Suc 0))))) ?s5"
    by (blast intro: server_start server_next)
  then have "server_reachable zref_ops zref_score demo_server 5 ?s5"
    by (simp only: eval_nat_numeral BitM.simps numeral_One)
  then show thesis
  proof (rule that)
    show "hot_count zref_score (db ?s5) ''boost'' = 0" by code_simp
  qed (auto simp: server_init_def rank_score_def hot_key_def of_bool_def)
qed

theorem threads_conserve_counts_witness:
  "\<exists>s :: zserver server_state. counted s ''boost'' = 1 \<and>
    counted s ''boost'' = hot_count zref_score (db s) ''boost'' + dropped s ''boost'' \<and>
    0 \<le> hot_count zref_score (db s) ''boost'' \<and> 0 \<le> dropped s ''boost'' \<and>
    printed s ''boost'' \<le> counted s ''boost''"
proof -
  from lost_run obtain s where s: "server_reachable zref_ops zref_score demo_server 5 s"
    and c: "counted s = (\<lambda>w. of_bool (w = ''boost''))" by blast
  from threads_conserve_counts [OF zref.sorted_set_server_axioms demo_server_up _ s,
      of "''boost''"]
  have "counted s ''boost'' = hot_count zref_score (db s) ''boost'' + dropped s ''boost'' \<and>
    0 \<le> hot_count zref_score (db s) ''boost'' \<and> 0 \<le> dropped s ''boost'' \<and>
    printed s ''boost'' \<le> counted s ''boost''"
    by (simp add: zref_score_def demo_server_def)
  then show ?thesis by (intro exI [of _ s]) (simp add: c)
qed

text \<open>Counts can be lost: reading and deleting the ranking are two commands, and a search
  counted between them is deleted without having been printed.\<close>

theorem counts_can_be_lost:
  "\<exists>n s. server_reachable zref_ops zref_score demo_server n s \<and> timer s = Sleeping \<and>
    counted s ''boost'' = 1 \<and> printed s ''boost'' = 0 \<and> hot_count zref_score (db s) ''boost'' = 0"
proof -
  from lost_run obtain s where "server_reachable zref_ops zref_score demo_server 5 s"
    "counted s = (\<lambda>w. of_bool (w = ''boost''))" "printed s = (\<lambda>w. 0)"
    "hot_count zref_score (db s) ''boost'' = 0" "timer s = Sleeping" by blast
  then show ?thesis by (intro exI [of _ 5] exI [of _ s]) simp
qed

subsection \<open>The server\<close>

lemma Search_state_up:
  assumes "sorted_set_server R score up" and "up r"
  shows "up (fst (snd (Search L R idx q r)))"
  using search_words_up [OF assms, of L idx "CutString L q" "[]"]
  by (simp add: Search_up(2) [OF assms])

lemma handle_s_up:
  assumes "sorted_set_server R score up" and "up r"
  shows "fst (handle_s H L R idx req r) =
      (if \<not> has_param H req ''word'' then Inr (msg_need_keyword, text_type)
       else case answer L idx (tokens L (get_param_value H req ''word'')) of
              Inl x \<Rightarrow> Inl x | Inr json \<Rightarrow> Inr (json, json_type))"
    and "up (fst (snd (handle_s H L R idx req r)))"
  using Search_up(1) [OF assms, of L idx "get_param_value H req ''word''"]
    Search_state_up [OF assms, of L idx "get_param_value H req ''word''"] assms(2)
  by (auto simp: handle_s_def Let_def split: prod.splits sum.splits)

text \<open>Requests do not influence each other's answers: each of a sequence of requests is
  answered as it would be on its own, in any other state of a Redis server that answers.\<close>

theorem serve_independent:
  assumes "sorted_set_server R score up" and "up r" and "up r0"
  shows "fst (serve H L R idx reqs r) = map (\<lambda>q. fst (handle_s H L R idx q r0)) reqs"
  using assms(2)
proof (induction reqs arbitrary: r)
  case (Cons q qs)
  from handle_s_up [OF assms(1), where H = H and L = L and idx = idx and req = q]
  have "fst (handle_s H L R idx q r) = fst (handle_s H L R idx q r0)"
    and "up (fst (snd (handle_s H L R idx q r)))"
    using Cons.prems assms(3) by auto
  with Cons.IH [of "fst (snd (handle_s H L R idx q r))"] show ?case
    by (auto simp: case_prod_unfold)
qed simp

text \<open>A request as the list of its parameters.\<close>

definition demo_http :: "(string \<times> string) list http_lib" where
  "demo_http = \<lparr>has_param = (\<lambda>q k. k \<in> fst ` set q),
     get_param_value = (\<lambda>q k. case map_of q k of None \<Rightarrow> [] | Some v \<Rightarrow> v)\<rparr>"

theorem serve_independent_witness:
  "fst (serve demo_http demo_libs zref_ops demo_index
      [[(''word'', ''fast'')], [], [(''word'', ''io'')]] demo_server) =
   map (\<lambda>q. fst (handle_s demo_http demo_libs zref_ops demo_index q demo_server))
      [[(''word'', ''fast'')], [], [(''word'', ''io'')]]"
  by (rule serve_independent [OF zref.sorted_set_server_axioms demo_server_up demo_server_up])

lemma handle_s_result:
  assumes "has_param H req ''word''"
    and "Search L R idx (get_param_value H req ''word'') r = (Inr json, r', ev)"
  shows "fst (handle_s H L R idx req r) = Inr (json, json_type)"
  using assms by (simp add: handle_s_def)

text \<open>The server starts without its raw file: when the file cannot be read, \<open>main\<close> goes
  on with an empty index and answers every search with the empty result.\<close>

theorem start_without_raw_file:
  assumes "readable fs server_input = None" and "redis_ping R r = Inr pong"
    and "hash_order (doc_order L)" and "std_sorter (std_sort L)"
  shows "\<exists>idx ev. http_start L R fs r = (Inr idx, ev) \<and> forward_index idx = [] \<and>
    (\<forall>H req. has_param H req ''word'' \<longrightarrow>
       fst (handle_s H L R idx req r) = Inr (json_write L [], json_type))"
proof -
  have e: "lists_of empty_index w = None" for w
    by (simp add: lists_of_def GetInvertedList_def empty_index_def)
  have "fst (handle_s H L R empty_index req r) = Inr (json_write L [], json_type)"
    if "has_param H req ''word''" for H :: "'c http_lib" and req
    using Search_no_lists [OF assms(3,4)] handle_s_result [OF that] e by metis
  then show ?thesis
    using assms(1,2)
    by (auto simp: http_start_def Searcher_new_def InitSearcher_def BulidIndex_def empty_index_def)
qed

theorem start_without_raw_file_witness:
  "\<exists>idx ev. http_start demo_libs zref_ops demo_fs demo_server = (Inr idx, ev) \<and>
    forward_index idx = [] \<and>
    fst (handle_s demo_http demo_libs zref_ops idx [(''word'', ''fast'')] demo_server) =
      Inr (json_write demo_libs [], json_type)"
proof -
  have raw: "readable demo_fs server_input = None" by (simp add: demo_fs_def server_input_def)
  have ping: "redis_ping zref_ops demo_server = Inr ''PONG''"
    by (simp add: zref_ops_def demo_server_def)
  from start_without_raw_file [OF raw ping demo_orders(2) demo_sorter] obtain idx ev where
    idx: "http_start demo_libs zref_ops demo_fs demo_server = (Inr idx, ev)" "forward_index idx = []"
    and answers: "\<forall>(H :: (string \<times> string) list http_lib) req. has_param H req ''word'' \<longrightarrow>
       fst (handle_s H demo_libs zref_ops idx req demo_server) = Inr (json_write demo_libs [], json_type)"
    by blast
  have "has_param demo_http [(''word'', ''fast'')] ''word''" by (simp add: demo_http_def)
  from mp [OF spec [OF spec [OF answers]] this] idx show ?thesis by blast
qed

subsection \<open>The test program\<close>

text \<open>At the end of its input the test program does not stop: it repeats the search for the
  string the last \<open>getline\<close> left, and prints its answer, in every iteration, without end.\<close>

theorem debug_repeats_last_query:
  assumes "sorted_set_server R score up" and "up r" and "\<not> good cin"
    and "answer L idx (tokens L query) = Inr json"
  shows "\<exists>cin' r'. \<not> good cin' \<and> up r' \<and>
    fst (debug_loop n L R idx (cin, query, r)) = Inr (cin', query, r') \<and>
    n \<le> length (filter (\<lambda>e. e = Cout (json @ endl)) (snd (debug_loop n L R idx (cin, query, r))))"
  using assms(2,3)
proof (induction n arbitrary: cin r)
  case (Suc n)
  obtain r' ev where S: "Search L R idx query r = (Inr json, r', ev)" and up: "up r'"
    using Search_up(1) [OF assms(1) Suc.prems(1), of L idx query]
      Search_state_up [OF assms(1) Suc.prems(1), of L idx query] assms(4)
    by (cases "Search L R idx query r") auto
  have bad: "\<not> good (cin\<lparr>failbit := True\<rparr>)" by (simp add: good_def)
  have it: "debug_iter L R idx (cin, query, r) = (Inr (cin\<lparr>failbit := True\<rparr>, query, r'),
      Cout ''Please Enter You Search Query#'' # ev @ [Cout (json @ endl)])"
    by (simp add: debug_iter_def getline_bad [OF Suc.prems(2)] S)
  from Suc.IH [OF up bad] it show ?case by (auto simp: apsnd_def map_prod_def case_prod_unfold)
qed auto

theorem debug_repeats_last_query_witness:
  "\<exists>cin' r'. \<not> good cin' \<and> zref_up r' \<and>
    fst (debug_loop 3 demo_libs zref_ops demo_index
      ((open_stream [])\<lparr>failbit := True\<rparr>, ''boost'', demo_server)) = Inr (cin', ''boost'', r') \<and>
    3 \<le> length (filter (\<lambda>e. e = Cout ([] @ endl)) (snd (debug_loop 3 demo_libs zref_ops demo_index
      ((open_stream [])\<lparr>failbit := True\<rparr>, ''boost'', demo_server))))"
proof (rule debug_repeats_last_query [OF zref.sorted_set_server_axioms demo_server_up])
  show "\<not> good ((open_stream [])\<lparr>failbit := True\<rparr>)" by (simp add: good_def)
  show "answer demo_libs demo_index (tokens demo_libs ''boost'') = Inr []" by code_simp
qed

end
