(* ===== verification/Pipeline.thy ===== *)
theory Pipeline
  imports Parser_Correct Index_Properties Desc_Properties Server_Properties
begin

text \<open>
  The two programs together: the parser writes the raw file, the server reads it, and a request
  is answered from the files under \<open>data/input\<close>. The paths of the raw file are relative,
  to the root for the parser and to a subdirectory of it for the server.
\<close>

text \<open>No file name and no page has the character that separates the fields of the raw file,
  and no file name has a newline.\<close>

definition clean_site :: "fs_lib \<Rightarrow> filesys \<Rightarrow> bool" where
  "clean_site F fs \<longleftrightarrow> (\<forall>p \<in> set (fs_walk F src_path).
     length src_path \<le> length p \<and> SEP \<notin> set p \<and> NL \<notin> set p \<and>
     (case readable fs p of None \<Rightarrow> True | Some s \<Rightarrow> SEP \<notin> set s))"

lemma parsed_plain:
  assumes "clean_site F fs" and "d \<in> set (parsed_docs F fs)"
  shows "plain d"
proof -
  from assms(2) obtain p where p: "p \<in> set (fs_walk F src_path)" "doc_of fs p = Some d"
    by (auto simp: parsed_docs_def in_map_filter)
  from doc_of_subset [OF p(2)] obtain s where s: "readable fs p = Some s"
    "set (title d) \<subseteq> set s" "set (content d) \<subseteq> insert (CHR '' '') (set s)" .
  from assms(1) p(1) s(1) have "SEP \<notin> set p" "NL \<notin> set p" "SEP \<notin> set s"
    by (auto simp: clean_site_def split: option.splits)
  moreover have "SEP \<notin> set url_head" "NL \<notin> set url_head" "SEP \<noteq> CHR '' ''"
    by (simp_all add: url_head_def SEP_def)
  ultimately show ?thesis
    using s(2,3) doc_of_chars [OF p(2)]
    by (auto simp: plain_def doc_of_url [OF p(2)] dest: in_set_dropD)
qed

text \<open>The index the server builds from what the parser wrote.\<close>

lemma http_start_index:
  assumes "clean_site F fs" and "splitter (boost_split L)" and "hash_order (word_order L)"
    and "length (parsed_docs F fs) \<le> 2 ^ 31" and "redis_ping R r = Inr pong"
    and "readable fs' server_input = Some (concat (map out_string (parsed_docs F fs)))"
  obtains idx ev where "http_start L R fs' r = (Inr idx, ev)" and "index_valid L idx"
    and "forward_index idx = number_docs (filter (\<lambda>d. content d \<noteq> []) (parsed_docs F fs)) []"
proof -
  let ?b = "BulidIndex L fs' server_input empty_index"
  have f: "forward_index (snd (fst ?b)) =
      number_docs (filter (\<lambda>d. content d \<noteq> []) (parsed_docs F fs)) []"
    using BulidIndex_forward(2) [OF assms(6), of L empty_index] parsed_plain [OF assms(1)]
    by (simp add: file_docs_saved [OF assms(2)] empty_index_def)
  have "length (filter (\<lambda>d. content d \<noteq> []) (parsed_docs F fs)) \<le> 2 ^ 31"
    using assms(4) length_filter_le le_trans by blast
  then have "index_valid L (snd (fst ?b))"
    using BulidIndex_ok [OF assms(3) empty_index_ok, of fs' server_input] by (simp add: index_valid_def f)
  moreover obtain ev where "http_start L R fs' r = (Inr (snd (fst ?b)), ev)"
    using assms(5)
    by (cases ?b) (auto simp: http_start_def Searcher_new_def InitSearcher_def split: prod.split)
  ultimately show thesis using that f by blast
qed

text \<open>C1. The search engine as a whole: after the parser has run, the server starts with exactly
  the parsed pages that have some text, and answers a request with one result for every page that
  has a word of the query, most relevant first, or an exception when a summary cannot be cut.\<close>

theorem site_search:
  assumes "fs_exists F src_path" and "creatable fs output_path" and "clean_site F fs"
    and "length (parsed_docs F fs) \<le> 2 ^ 31"
    and "readable fs' server_input = readable (fst (snd (parser_main F fs))) output_path"
    and "splitter (boost_split L)" and "hash_order (word_order L)"
    and "hash_order (doc_order L)" and "std_sorter (std_sort L)"
    and "sorted_set_server R score up" and "up r" and "redis_ping R r = Inr pong"
  shows "\<exists>idx ev. http_start L R fs' r = (Inr idx, ev) \<and>
    forward_index idx = number_docs (filter (\<lambda>d. content d \<noteq> []) (parsed_docs F fs)) [] \<and>
    (\<forall>(H :: 'h http_lib) req ws. has_param H req ''word'' \<and> ws = tokens L (get_param_value H req ''word'') \<and>
        fits L idx ws \<longrightarrow>
      (\<exists>ds. mset ds = mset (found L idx ws) \<and> best_first L ws ds \<and>
        fst (handle_s H L R idx req r) =
          (case rendered L ws ds of Inl x \<Rightarrow> Inl x | Inr json \<Rightarrow> Inr (json, json_type))))"
proof -
  have len: "\<forall>p \<in> set (fs_walk F src_path). length src_path \<le> length p"
    using assms(3) by (simp add: clean_site_def)
  from parser_main_ok [OF assms(1,2) len] obtain ev where
    "parser_main F fs = (Inr 0, write_file output_path (concat (map out_string (parsed_docs F fs))) fs, ev)" .
  with assms(5) have "readable fs' server_input = Some (concat (map out_string (parsed_docs F fs)))"
    by simp
  from http_start_index [OF assms(3,6,7,4,12) this] obtain idx ev where
    start: "http_start L R fs' r = (Inr idx, ev)" and valid: "index_valid L idx"
    and docs: "forward_index idx = number_docs (filter (\<lambda>d. content d \<noteq> []) (parsed_docs F fs)) []" .
  have "\<exists>ds. mset ds = mset (found L idx ws) \<and> best_first L ws ds \<and>
      fst (handle_s H L R idx req r) =
        (case rendered L ws ds of Inl x \<Rightarrow> Inl x | Inr json \<Rightarrow> Inr (json, json_type))"
    if "has_param H req ''word''" "ws = tokens L (get_param_value H req ''word'')" "fits L idx ws"
    for H :: "'h http_lib" and req ws
  proof -
    from answer_ranked [OF valid assms(8,9) that(3)] obtain ds where
      ds: "mset ds = mset (found L idx ws)" "best_first L ws ds"
      and a: "answer L idx ws = rendered L ws ds" .
    have "fst (handle_s H L R idx req r) =
        (case rendered L ws ds of Inl x \<Rightarrow> Inl x | Inr json \<Rightarrow> Inr (json, json_type))"
      using that(1) by (simp add: handle_s_up(1) [OF assms(10,11)] flip: a that(2))
    with ds show ?thesis by blast
  qed
  with start docs show ?thesis by blast
qed

definition demo_site :: filesys where
  "demo_site = \<lparr>readable = [server_input \<mapsto>
     concat (map out_string (parsed_docs demo_walk demo_files))], creatable = (\<lambda>_. True)\<rparr>"

theorem site_search_witness:
  "\<exists>idx ev ds. http_start demo_libs zref_ops demo_site demo_server = (Inr idx, ev) \<and>
    mset ds = mset (found demo_libs idx (tokens demo_libs ''fast'')) \<and>
    fst (handle_s demo_http demo_libs zref_ops idx [(''word'', ''fast'')] demo_server) =
      (case rendered demo_libs (tokens demo_libs ''fast'') ds of
         Inl x \<Rightarrow> Inl x | Inr json \<Rightarrow> Inr (json, json_type))"
proof -
  let ?docs = "number_docs (filter (\<lambda>d. content d \<noteq> []) (parsed_docs demo_walk demo_files)) []"
  let ?ws = "tokens demo_libs ''fast''"
  let ?req = "[(''word'', ''fast'')]"
  have ex: "fs_exists demo_walk src_path" "creatable demo_files output_path"
    by (simp_all add: demo_walk_def demo_files_def)
  have clean: "clean_site demo_walk demo_files" by code_simp
  have "length (parsed_docs demo_walk demo_files) = 1" by code_simp
  then have len: "length (parsed_docs demo_walk demo_files) \<le> 2 ^ 31" by simp
  have "readable (fst (snd (parser_main demo_walk demo_files))) output_path = readable demo_site server_input"
    by code_simp
  note raw = this [symmetric]
  have ping: "redis_ping zref_ops demo_server = Inr ''PONG''"
    by (simp add: zref_ops_def demo_server_def)
  have "\<forall>d \<in> set ?docs. doc_score demo_libs ?ws d < 20 \<and> length (content d) < 20"
    by code_simp
  then have fits: "fits demo_libs idx ?ws" if "forward_index idx = ?docs" for idx
    using that by (force simp: fits_def)
  from site_search [OF ex clean len raw demo_splitter demo_orders demo_sorter
      zref.sorted_set_server_axioms demo_server_up ping]
  obtain idx ev where start: "http_start demo_libs zref_ops demo_site demo_server = (Inr idx, ev)"
    and docs: "forward_index idx = ?docs"
    and answers: "\<forall>(H :: (string \<times> string) list http_lib) req ws. has_param H req ''word'' \<and>
        ws = tokens demo_libs (get_param_value H req ''word'') \<and> fits demo_libs idx ws \<longrightarrow>
      (\<exists>ds. mset ds = mset (found demo_libs idx ws) \<and> best_first demo_libs ws ds \<and>
        fst (handle_s H demo_libs zref_ops idx req demo_server) =
          (case rendered demo_libs ws ds of Inl x \<Rightarrow> Inl x | Inr json \<Rightarrow> Inr (json, json_type)))"
    by (elim exE conjE) (rule that; assumption)
  have "has_param demo_http ?req ''word'' \<and> ?ws = tokens demo_libs (get_param_value demo_http ?req ''word'') \<and>
      fits demo_libs idx ?ws"
    using fits [OF docs] by (simp add: demo_http_def)
  from mp [OF spec [OF spec [OF spec [OF answers]]] this] start show ?thesis
    by (elim exE conjE) (intro exI conjI; assumption)
qed

end
