(* ===== verification/Singleton.thy ===== *)
theory Singleton
  imports Prelude
begin

text \<open>
  \<open>Index::GetInstance\<close> of \<open>include/index.hpp\<close>: the double-checked creation of the
  one index, for any number of threads. A step is one access of one thread to the shared
  state (the pointer \<open>instance\<close>, the mutex \<open>mtx\<close>, the heap); the steps of different
  threads interleave freely. The memory is sequentially consistent: reorderings a compiler or
  processor may do on the unsynchronised first read are outside the model.
\<close>

subsection \<open>The machine\<close>

text \<open>
  The program points of the function: the first test, \<open>lock\<close>, the second test, the
  allocation, the assignment, \<open>unlock\<close>, the final read, and the returned pointer.
\<close>

datatype gi_pc =
    First_test | At_lock | Second_test | At_new | At_assign nat | At_unlock | At_return
  | Returned "nat option"

text \<open>Objects are numbered in the order of their allocation; \<open>None\<close> is \<open>nullptr\<close>.\<close>

record singleton =
  inst :: "nat option"
  mtx :: "nat option" \<comment> \<open>the thread that holds the mutex\<close>
  allocated :: nat
  pcs :: "nat \<Rightarrow> gi_pc"

definition gi_init :: singleton where
  "gi_init = \<lparr>inst = None, mtx = None, allocated = 0, pcs = (\<lambda>_. First_test)\<rparr>"

definition goto :: "nat \<Rightarrow> gi_pc \<Rightarrow> singleton \<Rightarrow> singleton" where
  "goto i p s = s\<lparr>pcs := (pcs s)(i := p)\<rparr>"

inductive gi_step :: "nat \<Rightarrow> singleton \<Rightarrow> singleton \<Rightarrow> bool" where
  first_null: "pcs s i = First_test \<Longrightarrow> inst s = None \<Longrightarrow> gi_step i s (goto i At_lock s)"
| first_set: "pcs s i = First_test \<Longrightarrow> inst s \<noteq> None \<Longrightarrow> gi_step i s (goto i At_return s)"
| lock: "pcs s i = At_lock \<Longrightarrow> mtx s = None \<Longrightarrow>
    gi_step i s (goto i Second_test (s\<lparr>mtx := Some i\<rparr>))"
| second_null: "pcs s i = Second_test \<Longrightarrow> inst s = None \<Longrightarrow> gi_step i s (goto i At_new s)"
| second_set: "pcs s i = Second_test \<Longrightarrow> inst s \<noteq> None \<Longrightarrow> gi_step i s (goto i At_unlock s)"
| new: "pcs s i = At_new \<Longrightarrow>
    gi_step i s (goto i (At_assign (allocated s)) (s\<lparr>allocated := Suc (allocated s)\<rparr>))"
| assign: "pcs s i = At_assign p \<Longrightarrow> gi_step i s (goto i At_unlock (s\<lparr>inst := Some p\<rparr>))"
| unlock: "pcs s i = At_unlock \<Longrightarrow> gi_step i s (goto i At_return (s\<lparr>mtx := None\<rparr>))"
| return: "pcs s i = At_return \<Longrightarrow> gi_step i s (goto i (Returned (inst s)) s)"

inductive_cases gi_stepE: "gi_step i s t"

inductive gi_reachable :: "singleton \<Rightarrow> bool" where
  start: "gi_reachable gi_init"
| step: "gi_reachable s \<Longrightarrow> gi_step i s t \<Longrightarrow> gi_reachable t"

text \<open>The function run by one thread alone, from a state in which nobody holds the mutex.\<close>

definition GetInstance :: "nat option \<times> nat \<Rightarrow> nat option \<times> (nat option \<times> nat)" where
  "GetInstance = (\<lambda>(ptr, n).
     case ptr of None \<Rightarrow> (Some n, (Some n, Suc n)) | Some p \<Rightarrow> (Some p, (Some p, n)))"

subsection \<open>Invariant\<close>

fun in_critical :: "gi_pc \<Rightarrow> bool" where
  "in_critical Second_test = True"
| "in_critical At_new = True"
| "in_critical (At_assign _) = True"
| "in_critical At_unlock = True"
| "in_critical _ = False"

text \<open>What a thread at a program point knows of the pointer and the number of objects.\<close>

fun pc_ok :: "nat option \<Rightarrow> nat \<Rightarrow> gi_pc \<Rightarrow> bool" where
  "pc_ok ptr n At_new \<longleftrightarrow> ptr = None \<and> n = 0"
| "pc_ok ptr n (At_assign q) \<longleftrightarrow> ptr = None \<and> n = 1 \<and> q = 0"
| "pc_ok ptr n At_unlock \<longleftrightarrow> ptr = Some 0"
| "pc_ok ptr n At_return \<longleftrightarrow> ptr = Some 0"
| "pc_ok ptr n (Returned q) \<longleftrightarrow> ptr = Some 0 \<and> q = Some 0"
| "pc_ok ptr n _ \<longleftrightarrow> True"

text \<open>The pointer and the number of objects agree, up to a thread about to assign.\<close>

definition heap_ok :: "singleton \<Rightarrow> bool" where
  "heap_ok s \<longleftrightarrow>
     (case inst s of
        None \<Rightarrow> allocated s = 0 \<or> (\<exists>i. pcs s i = At_assign 0)
      | Some p \<Rightarrow> p = 0 \<and> allocated s = 1)"

definition gi_inv :: "singleton \<Rightarrow> bool" where
  "gi_inv s \<longleftrightarrow>
     (\<forall>i. in_critical (pcs s i) \<longleftrightarrow> mtx s = Some i) \<and>
     (\<forall>i. pc_ok (inst s) (allocated s) (pcs s i)) \<and> heap_ok s"

lemma gi_invD:
  assumes "gi_inv s"
  shows "in_critical (pcs s i) \<longleftrightarrow> mtx s = Some i" and "pc_ok (inst s) (allocated s) (pcs s i)"
    and "heap_ok s"
  using assms by (auto simp: gi_inv_def)

lemma pcs_goto [simp]: "pcs (goto i p s) j = (if j = i then p else pcs s j)"
  by (simp add: goto_def)

lemma goto_frame [simp]:
  "inst (goto i p s) = inst s" "mtx (goto i p s) = mtx s" "allocated (goto i p s) = allocated s"
  by (simp_all add: goto_def)

lemma gi_inv_init: "gi_inv gi_init"
  by (simp add: gi_inv_def gi_init_def heap_ok_def)

lemma critical_unique:
  assumes "gi_inv s" and "in_critical (pcs s i)" and "in_critical (pcs s j)"
  shows "i = j"
  using gi_invD(1) [OF assms(1), of i] gi_invD(1) [OF assms(1), of j] assms(2,3) by simp

lemma second_no_assign:
  assumes "gi_inv s" and "pcs s i = Second_test"
  shows "pcs s k \<noteq> At_assign q"
proof
  assume "pcs s k = At_assign q"
  with assms critical_unique [of s i k] have "i = k" by simp
  with assms(2) \<open>pcs s k = At_assign q\<close> show False by simp
qed

lemma heap_ok_frame:
  assumes "heap_ok s" and "inst t = inst s" and "allocated t = allocated s"
    and "\<And>q. pcs s i \<noteq> At_assign q" and "\<And>j. j \<noteq> i \<Longrightarrow> pcs t j = pcs s j"
  shows "heap_ok t"
proof -
  have "\<exists>k. pcs t k = At_assign 0" if "pcs s k = At_assign 0" for k
    using assms(4,5) that by metis
  with assms(1-3) show ?thesis by (auto simp: heap_ok_def split: option.splits)
qed

text \<open>Outside the critical section a null pointer leaves two program points.\<close>

lemma outside_null: "pc_ok None n p \<Longrightarrow> \<not> in_critical p \<Longrightarrow> p = First_test \<or> p = At_lock"
  by (cases p) auto

lemma outside_frame:
  "pc_ok None n p \<Longrightarrow> \<not> in_critical p \<Longrightarrow> pc_ok ptr n' p"
  by (cases p) auto

lemma gi_step_critical:
  assumes "gi_step i s t" and "gi_inv s"
  shows "in_critical (pcs t j) \<longleftrightarrow> mtx t = Some j"
  using assms gi_invD(1) [OF assms(2), of i] gi_invD(1) [OF assms(2), of j]
  by (cases rule: gi_step.cases) auto

lemma gi_step_pc_ok:
  assumes "gi_step i s t" and "gi_inv s"
  shows "pc_ok (inst t) (allocated t) (pcs t j)"
  using assms(1)
proof (cases rule: gi_step.cases)
  case new
  then have i: "in_critical (pcs s i)" "inst s = None" "allocated s = 0"
    using gi_invD(2) [OF assms(2), of i] by auto
  show ?thesis
  proof (cases "j = i")
    case False
    then have "\<not> in_critical (pcs s j)"
      using i(1) gi_invD(1) [OF assms(2)] by (metis option.inject)
    with gi_invD(2) [OF assms(2), of j] i(2) show ?thesis
      using False new(1) by (auto intro: outside_frame)
  qed (use new i in simp)
next
  case (assign p)
  then have i: "in_critical (pcs s i)" "inst s = None" "allocated s = 1" "p = 0"
    using gi_invD(2) [OF assms(2), of i] by auto
  show ?thesis
  proof (cases "j = i")
    case False
    then have "\<not> in_critical (pcs s j)"
      using i(1) gi_invD(1) [OF assms(2)] by (metis option.inject)
    with gi_invD(2) [OF assms(2), of j] i(2) show ?thesis
      using False assign(1) by (auto intro: outside_frame)
  qed (use assign i in simp)
next
  case second_null
  then have "allocated s = 0"
    using gi_invD(3) [OF assms(2)] second_no_assign [OF assms(2)] by (auto simp: heap_ok_def)
  with second_null gi_invD(2) [OF assms(2), of j] show ?thesis by simp
qed (use gi_invD(2) [OF assms(2), of j] gi_invD(2) [OF assms(2), of i] gi_invD(3) [OF assms(2)]
     in \<open>auto simp: heap_ok_def split: option.splits\<close>)

lemma gi_step_heap_ok:
  assumes "gi_step i s t" and "gi_inv s"
  shows "heap_ok t"
  using assms(1)
proof (cases rule: gi_step.cases)
  case new
  then show ?thesis using gi_invD(2) [OF assms(2), of i] by (auto simp: heap_ok_def)
next
  case (assign p)
  then show ?thesis using gi_invD(2) [OF assms(2), of i] by (simp add: heap_ok_def)
qed (rule heap_ok_frame [OF gi_invD(3) [OF assms(2)], where i = i]; simp)+

lemma gi_step_inv: "gi_step i s t \<Longrightarrow> gi_inv s \<Longrightarrow> gi_inv t"
  using gi_step_critical gi_step_pc_ok gi_step_heap_ok unfolding gi_inv_def by metis

lemma gi_reachable_inv: "gi_reachable s \<Longrightarrow> gi_inv s"
  by (induction rule: gi_reachable.induct) (auto intro: gi_inv_init gi_step_inv)

subsection \<open>Runs of finitely many threads\<close>

text \<open>\<open>gi_run n k s t\<close>: \<open>k\<close> steps of the threads below \<open>n\<close>.\<close>

inductive gi_run :: "nat \<Rightarrow> nat \<Rightarrow> singleton \<Rightarrow> singleton \<Rightarrow> bool" for n where
  run_refl: "gi_run n 0 s s"
| run_step: "gi_run n k s t \<Longrightarrow> i < n \<Longrightarrow> gi_step i t u \<Longrightarrow> gi_run n (Suc k) s u"

fun steps_left :: "gi_pc \<Rightarrow> nat" where
  "steps_left First_test = 7"
| "steps_left At_lock = 6"
| "steps_left Second_test = 5"
| "steps_left At_new = 4"
| "steps_left (At_assign _) = 3"
| "steps_left At_unlock = 2"
| "steps_left At_return = 1"
| "steps_left (Returned _) = 0"

definition total_left :: "nat \<Rightarrow> singleton \<Rightarrow> nat" where
  "total_left n s = (\<Sum>i<n. steps_left (pcs s i))"

lemma gi_step_frame: "gi_step i s t \<Longrightarrow> j \<noteq> i \<Longrightarrow> pcs t j = pcs s j"
  by (auto elim!: gi_stepE)

lemma gi_step_left: "gi_step i s t \<Longrightarrow> steps_left (pcs t i) < steps_left (pcs s i)"
  by (auto elim!: gi_stepE)

lemma total_left_step:
  assumes "gi_step i s t" and "i < n"
  shows "total_left n t < total_left n s"
  unfolding total_left_def
proof (rule sum_strict_mono_ex1)
  show "\<forall>j \<in> {..<n}. steps_left (pcs t j) \<le> steps_left (pcs s j)"
    using gi_step_left [OF assms(1)] gi_step_frame [OF assms(1)]
    by (metis less_imp_le order_refl)
  show "\<exists>j \<in> {..<n}. steps_left (pcs t j) < steps_left (pcs s j)"
    using gi_step_left [OF assms(1)] assms(2) by blast
qed simp

lemma gi_run_bound: "gi_run n k s t \<Longrightarrow> k + total_left n t \<le> total_left n s"
  by (induction rule: gi_run.induct) (auto dest: total_left_step)

lemma total_left_init: "total_left n gi_init = 7 * n"
  by (simp add: total_left_def gi_init_def)

lemma gi_run_reachable: "gi_run n k s t \<Longrightarrow> gi_reachable s \<Longrightarrow> gi_reachable t"
  by (induction rule: gi_run.induct) (auto intro: gi_reachable.step)

lemma gi_run_others: "gi_run n k s t \<Longrightarrow> n \<le> j \<Longrightarrow> pcs t j = pcs s j"
  by (induction rule: gi_run.induct) (auto, metis gi_step_frame not_le)

text \<open>A thread that has not returned can move, or waits for one that can.\<close>

lemma gi_can_step:
  "pcs s i \<noteq> At_lock \<Longrightarrow> (\<And>q. pcs s i \<noteq> Returned q) \<Longrightarrow> \<exists>t. gi_step i s t"
  by (cases "pcs s i"; cases "inst s") (auto intro: gi_step.intros)

lemma gi_progress:
  assumes "gi_inv s" and "\<And>q. pcs s i \<noteq> Returned q"
  shows "\<exists>t. gi_step i s t \<or> (\<exists>j. in_critical (pcs s j) \<and> gi_step j s t)"
proof (cases "pcs s i = At_lock \<and> mtx s \<noteq> None")
  case True
  then obtain j where "in_critical (pcs s j)" using gi_invD(1) [OF assms(1)] by blast
  then have "pcs s j \<noteq> At_lock" and "pcs s j \<noteq> Returned q" for q by auto
  then have "\<exists>t. gi_step j s t" by (rule gi_can_step)
  with \<open>in_critical (pcs s j)\<close> show ?thesis by blast
next
  case False
  then show ?thesis using gi_can_step [of s i] assms(2) by (auto intro: gi_step.lock)
qed

subsection \<open>Schedules\<close>

text \<open>
  The step of a thread is determined, so a list of thread numbers determines a run;
  \<open>None\<close> when a thread is to run that waits for the mutex or has returned.
\<close>

definition gi_next :: "nat \<Rightarrow> singleton \<Rightarrow> singleton option" where
  "gi_next i s =
     (case pcs s i of
        First_test \<Rightarrow> Some (goto i (if inst s = None then At_lock else At_return) s)
      | At_lock \<Rightarrow> if mtx s = None then Some (goto i Second_test (s\<lparr>mtx := Some i\<rparr>)) else None
      | Second_test \<Rightarrow> Some (goto i (if inst s = None then At_new else At_unlock) s)
      | At_new \<Rightarrow>
          Some (goto i (At_assign (allocated s)) (s\<lparr>allocated := Suc (allocated s)\<rparr>))
      | At_assign p \<Rightarrow> Some (goto i At_unlock (s\<lparr>inst := Some p\<rparr>))
      | At_unlock \<Rightarrow> Some (goto i At_return (s\<lparr>mtx := None\<rparr>))
      | At_return \<Rightarrow> Some (goto i (Returned (inst s)) s)
      | Returned q \<Rightarrow> None)"

lemma gi_return: "pcs s i = At_return \<Longrightarrow> inst s = q \<Longrightarrow> gi_step i s (goto i (Returned q) s)"
  using gi_step.return [of s i] by simp

lemma gi_next_step: "gi_next i s = Some t \<Longrightarrow> gi_step i s t"
  by (cases "pcs s i"; cases "inst s")
     (auto simp: gi_next_def split: if_splits intro: gi_step.intros gi_return)

fun gi_schedule :: "nat list \<Rightarrow> singleton \<Rightarrow> singleton option" where
  "gi_schedule [] s = Some s"
| "gi_schedule (i # is) s = (case gi_next i s of None \<Rightarrow> None | Some t \<Rightarrow> gi_schedule is t)"

lemma gi_schedule_reachable:
  "gi_schedule is s = Some t \<Longrightarrow> gi_reachable s \<Longrightarrow> gi_reachable t"
  by (induction "is" s rule: gi_schedule.induct)
     (auto split: option.splits intro: gi_reachable.step gi_next_step)

lemma gi_run_cons:
  "gi_run n k t u \<Longrightarrow> i < n \<Longrightarrow> gi_step i s t \<Longrightarrow> gi_run n (Suc k) s u"
  by (induction rule: gi_run.induct) (auto intro: gi_run.intros)

lemma gi_schedule_run:
  "gi_schedule is s = Some t \<Longrightarrow> \<forall>i \<in> set is. i < n \<Longrightarrow> gi_run n (length is) s t"
  by (induction "is" s rule: gi_schedule.induct)
     (auto split: option.splits intro: gi_run.run_refl gi_run_cons gi_next_step)

end
