(* ===== verification/Singleton_Properties.thy ===== *)
theory Singleton_Properties
  imports Singleton
begin

text \<open>
  The properties of \<open>Index::GetInstance\<close> over all interleavings of any number of threads.
\<close>

text \<open>A run of two threads that overlap: thread 1 passes the first test before thread 0 has
  assigned the pointer, and finds it set at the second.\<close>

definition two_threads :: "singleton option" where
  "two_threads = gi_schedule [0, 1, 0, 0, 0, 0, 0, 0, 1, 1, 1, 1] gi_init"

lemma two_threads_run:
  obtains s where "gi_reachable s" and "gi_run 2 12 gi_init s"
    and "pcs s 0 = Returned (Some 0)" and "pcs s 1 = Returned (Some 0)"
proof -
  have "case two_threads of None \<Rightarrow> False
      | Some s \<Rightarrow> pcs s 0 = Returned (Some 0) \<and> pcs s 1 = Returned (Some 0)"
    by code_simp
  then obtain s where s: "two_threads = Some s"
    and r: "pcs s 0 = Returned (Some 0)" "pcs s 1 = Returned (Some 0)"
    by (auto split: option.splits)
  have "gi_reachable s"
    using s unfolding two_threads_def by (rule gi_schedule_reachable) (rule gi_reachable.start)
  moreover have "gi_run 2 12 gi_init s"
    using gi_schedule_run [OF s [unfolded two_threads_def], of 2] by (simp add: eval_nat_numeral)
  ultimately show thesis using r that by blast
qed

text \<open>C5. Whatever the interleaving, at most one index object is ever created, every call
  returns a pointer to it, and never a null pointer.\<close>

theorem GetInstance_unique:
  assumes "gi_reachable s"
  shows "allocated s \<le> 1 \<and> (\<forall>i q. pcs s i = Returned q \<longrightarrow> q = Some 0 \<and> inst s = Some 0)"
proof -
  note inv = gi_reachable_inv [OF assms]
  have "allocated s \<le> 1"
  proof (cases "allocated s = 0 \<or> inst s \<noteq> None")
    case True
    then show ?thesis using gi_invD(3) [OF inv] by (auto simp: heap_ok_def)
  next
    case False
    then obtain i where "pcs s i = At_assign 0" using gi_invD(3) [OF inv] by (auto simp: heap_ok_def)
    then show ?thesis using gi_invD(2) [OF inv, of i] by simp
  qed
  moreover have "q = Some 0 \<and> inst s = Some 0" if "pcs s i = Returned q" for i q
    using gi_invD(2) [OF inv, of i] that by simp
  ultimately show ?thesis by blast
qed

theorem GetInstance_unique_witness:
  "\<exists>s :: singleton. pcs s 0 = Returned (Some 0) \<and> pcs s 1 = Returned (Some 0) \<and> allocated s \<le> 1"
proof -
  from two_threads_run obtain s where s: "gi_reachable s" "pcs s 0 = Returned (Some 0)"
    "pcs s 1 = Returned (Some 0)" by blast
  with GetInstance_unique [OF s(1)] show ?thesis by blast
qed

text \<open>At most one thread is between \<open>lock\<close> and \<open>unlock\<close>, and it holds the
  mutex: the second test, the allocation and the assignment exclude each other.\<close>

theorem GetInstance_exclusive:
  assumes "gi_reachable s" and "in_critical (pcs s i)" and "in_critical (pcs s j)"
  shows "i = j \<and> mtx s = Some i"
  using critical_unique [OF gi_reachable_inv] gi_invD(1) [OF gi_reachable_inv] assms by metis

theorem GetInstance_exclusive_witness:
  "case gi_schedule [3, 5, 3] gi_init of None \<Rightarrow> False | Some s \<Rightarrow> mtx s = Some 3"
proof -
  have "case gi_schedule [3, 5, 3] gi_init of None \<Rightarrow> False | Some s \<Rightarrow> in_critical (pcs s 3)"
    by code_simp
  then obtain s where s: "gi_schedule [3, 5, 3] gi_init = Some s" and c: "in_critical (pcs s 3)"
    by (auto split: option.splits)
  from gi_schedule_reachable [OF s gi_reachable.start]
  have "3 = (3::nat) \<and> mtx s = Some 3" by (rule GetInstance_exclusive [OF _ c c])
  with s show ?thesis by simp
qed

text \<open>C12. Any run of \<open>n\<close> threads ends after at most seven steps each, and it ends with all
  calls returned: no thread waits for the mutex for ever.\<close>

theorem GetInstance_terminates:
  assumes "gi_run n k gi_init s"
  shows "k \<le> 7 * n \<and>
    ((\<exists>i < n. \<exists>t. gi_step i s t) \<or> (\<forall>i < n. pcs s i = Returned (Some 0)))"
proof -
  have "k \<le> 7 * n" using gi_run_bound [OF assms] by (simp add: total_left_init)
  moreover have "\<exists>j < n. \<exists>t. gi_step j s t" if i: "i < n" "pcs s i \<noteq> Returned (Some 0)" for i
  proof -
    have inv: "gi_inv s"
      using gi_run_reachable [OF assms gi_reachable.start] by (rule gi_reachable_inv)
    have "pcs s i \<noteq> Returned q" for q using gi_invD(2) [OF inv, of i] i(2) by auto
    from gi_progress [OF inv this] obtain t j where
      "gi_step i s t \<or> in_critical (pcs s j) \<and> gi_step j s t" by blast
    moreover have "j < n" if "in_critical (pcs s j)"
      using gi_run_others [OF assms, of j] that by (metis gi_init_def in_critical.simps(5) not_less
          singleton.select_convs(4))
    ultimately show ?thesis using i(1) by blast
  qed
  ultimately show ?thesis by blast
qed

theorem GetInstance_terminates_witness:
  "\<exists>s. 12 \<le> 7 * (2::nat) \<and>
    ((\<exists>i < 2. \<exists>t. gi_step i s t) \<or> (\<forall>i < 2. pcs s i = Returned (Some 0)))"
proof -
  from two_threads_run obtain s where "gi_run 2 12 gi_init s" by blast
  from GetInstance_terminates [OF this] show ?thesis by blast
qed

text \<open>A call that no other thread disturbs is the sequential function: it returns the
  pointer, and creates the object when there is none.\<close>

theorem GetInstance_alone:
  assumes "pcs s i = First_test" and "mtx s = None"
  shows "\<exists>t. gi_schedule (replicate (if inst s = None then 7 else 2) i) s = Some t \<and>
    GetInstance (inst s, allocated s) = (case pcs t i of Returned q \<Rightarrow> q | _ \<Rightarrow> None,
      (inst t, allocated t)) \<and>
    pcs t i = Returned (inst t) \<and> mtx t = None"
  using assms
  by (cases "inst s")
     (simp_all add: eval_nat_numeral gi_next_def GetInstance_def)

theorem GetInstance_alone_witness:
  "\<exists>t. gi_schedule (replicate (if inst gi_init = None then 7 else 2) 4) gi_init = Some t \<and>
    GetInstance (inst gi_init, allocated gi_init) =
      (case pcs t 4 of Returned q \<Rightarrow> q | _ \<Rightarrow> None, (inst t, allocated t)) \<and>
    pcs t 4 = Returned (inst t) \<and> mtx t = None"
  by (rule GetInstance_alone) (simp_all add: gi_init_def)

end
