(* ===== verification/Std_Extract.thy ===== *)
theory Std_Extract
  imports Std_Streams Std_Strings
begin

text \<open>
  Formatted extraction: \<open>operator>>\<close> for strings and unsigned integers, as the library of the compiler does it
  (skip white space, take what fits, set the state bits), and what a round trip through decimal or hexadecimal digits gives.
\<close>

subsection \<open>Digits\<close>

definition hex_value :: "char \<Rightarrow> nat option" where
  "hex_value c =
     (let n = (of_char c :: nat) in
      if 48 \<le> n \<and> n \<le> 57 then Some (n - 48)
      else if 65 \<le> n \<and> n \<le> 70 then Some (n - 55)
      else if 97 \<le> n \<and> n \<le> 102 then Some (n - 87)
      else None)"

definition base_digit :: "nat \<Rightarrow> char \<Rightarrow> nat option" where
  "base_digit base c = (case hex_value c of Some d \<Rightarrow> if d < base then Some d else None | None \<Rightarrow> None)"

text \<open>The digits at the front of a text, their value, and what follows them.\<close>

fun span_digits :: "nat \<Rightarrow> nat \<Rightarrow> string \<Rightarrow> nat \<times> string" where
  "span_digits base v [] = (v, [])"
| "span_digits base v (c # s) = (case base_digit base c of None \<Rightarrow> (v, c # s) | Some d \<Rightarrow> span_digits base (v * base + d) s)"

definition starts_with_digit :: "nat \<Rightarrow> string \<Rightarrow> bool" where
  "starts_with_digit base s = (case s of [] \<Rightarrow> False | c # _ \<Rightarrow> base_digit base c \<noteq> None)"

subsection \<open>Extraction\<close>

text \<open>What every extraction begins with: on a good stream the white space is skipped; no more text is a failure.\<close>

definition sentry :: "istream \<Rightarrow> istream" where
  "sentry i =
     (if \<not> good i then i\<lparr>failbit := True\<rparr>
      else case dropWhile is_space (rest i) of
             [] \<Rightarrow> i\<lparr>rest := [], eofbit := True, failbit := True\<rparr>
           | r \<Rightarrow> i\<lparr>rest := r\<rparr>)"

definition extract_word :: "istream \<Rightarrow> string \<Rightarrow> istream \<times> string" where
  "extract_word i w =
     (let j = sentry i
      in if \<not> good j then (j, w)
         else let r = dropWhile (\<lambda>c. \<not> is_space c) (rest j)
              in (j\<lparr>rest := r, eofbit := (r = [])\<rparr>, takeWhile (\<lambda>c. \<not> is_space c) (rest j)))"

text \<open>
  \<open>is >> n\<close> for an unsigned type with the largest value \<open>m\<close>: a sign is taken, and a minus negates modulo \<open>m + 1\<close>; in base 16 so is a
  prefix \<open>0x\<close>; too large a number gives \<open>m\<close> and no digits give 0, both a failure. When white space cannot be skipped the
  variable is left as it was.
\<close>

definition extract_unsigned :: "nat \<Rightarrow> nat \<Rightarrow> istream \<Rightarrow> nat \<Rightarrow> istream \<times> nat" where
  "extract_unsigned base m i old =
     (let j = sentry i
      in if \<not> good j then (j, old)
         else let negative = (rest j \<noteq> [] \<and> hd (rest j) = CHR ''-'');
                  s = (if rest j \<noteq> [] \<and> hd (rest j) \<in> {CHR ''+'', CHR ''-''} then tl (rest j) else rest j);
                  t = (if base = 16 \<and> take 2 s \<in> {''0x'', ''0X''} then drop 2 s else s);
                  (v, r) = span_digits base 0 t;
                  k = j\<lparr>rest := r, eofbit := (r = [])\<rparr>
              in if \<not> starts_with_digit base t then (k\<lparr>failbit := True\<rparr>, 0)
                 else if m < v then (k\<lparr>failbit := True\<rparr>, m)
                 else (k, if negative then (Suc m - v) mod Suc m else v))"

subsection \<open>Hexadecimal numbers as they are printed\<close>

definition hex_digit :: "nat \<Rightarrow> char" where
  "hex_digit d = char_of (if d < 10 then 48 + d else 87 + d)"

fun to_hex :: "nat \<Rightarrow> string" where
  "to_hex n = (if n < 16 then [hex_digit n] else to_hex (n div 16) @ [hex_digit (n mod 16)])"

declare to_hex.simps [simp del]

text \<open>\<open>os << std::setw(w) << std::hex << n\<close>: blanks on the left, never cut.\<close>

definition padded_hex :: "nat \<Rightarrow> nat \<Rightarrow> string" where
  "padded_hex w n = replicate (w - length (to_hex n)) (CHR '' '') @ to_hex n"

lemma hex_value_hex_digit: "d < 16 \<Longrightarrow> hex_value (hex_digit d) = Some d"
  by (auto simp: hex_digit_def hex_value_def)

lemma base_digit_hex [simp]: "d < 16 \<Longrightarrow> base_digit 16 (hex_digit d) = Some d"
  by (simp add: base_digit_def hex_value_hex_digit)

lemma hex_digit_plain: "d < 16 \<Longrightarrow> \<not> is_space (hex_digit d) \<and> hex_digit d \<notin> {CHR ''+'', CHR ''-'', CHR ''x'', CHR ''X''}"
proof -
  have "list_all (\<lambda>d. \<not> is_space (hex_digit d) \<and> hex_digit d \<notin> {CHR ''+'', CHR ''-'', CHR ''x'', CHR ''X''}) [0..<16]" by code_simp
  then show "d < 16 \<Longrightarrow> ?thesis" by (simp add: list_all_iff del: upt_Suc)
qed

lemma to_hex_digits: "c \<in> set (to_hex n) \<Longrightarrow> \<exists>d < 16. c = hex_digit d"
proof (induction n rule: to_hex.induct)
  case (1 n)
  have "\<exists>d < 16. hex_digit (n mod 16) = hex_digit d" by (rule exI [of _ "n mod 16"]) simp
  then show ?case using 1 by (subst (asm) (2) to_hex.simps) (auto split: if_splits)
qed

lemma to_hex_not_Nil [simp]: "to_hex n \<noteq> []"
  by (subst to_hex.simps) simp

lemma span_digits_append:
  "(\<And>c. c \<in> set xs \<Longrightarrow> base_digit b c \<noteq> None) \<Longrightarrow> span_digits b v (xs @ ys) = span_digits b (fst (span_digits b v xs)) ys"
proof (induction xs arbitrary: v)
  case (Cons a xs)
  then obtain d where "base_digit b a = Some d" by fastforce
  then show ?case using Cons by simp
qed simp

lemma span_to_hex: "span_digits 16 0 (to_hex n) = (n, [])"
proof (induction n rule: to_hex.induct)
  case (1 n)
  show ?case
  proof (cases "n < 16")
    case True
    then show ?thesis by (subst to_hex.simps) simp
  next
    case False
    have "span_digits 16 0 (to_hex (n div 16) @ [hex_digit (n mod 16)]) = span_digits 16 (n div 16) [hex_digit (n mod 16)]"
      using 1 [OF False] to_hex_digits by (subst span_digits_append) fastforce+
    then show ?thesis using False by (subst to_hex.simps) simp
  qed
qed

lemma length_to_hex: "0 < k \<Longrightarrow> length (to_hex n) \<le> k \<longleftrightarrow> n < 16 ^ k"
proof (induction k arbitrary: n)
  case (Suc k)
  show ?case
  proof (cases "n < 16")
    case True
    then have "n < 16 ^ Suc k" by (simp add: less_le_trans [of n 16])
    then show ?thesis using True by (subst to_hex.simps) simp
  next
    case False
    show ?thesis
    proof (cases "k = 0")
      case True
      then show ?thesis using False by (subst to_hex.simps) (simp add: Suc_le_eq)
    next
      case k: False
      have "length (to_hex (n div 16)) \<le> k \<longleftrightarrow> n div 16 < 16 ^ k" using Suc.IH k by simp
      then show ?thesis using False by (subst to_hex.simps) (simp add: less_mult_imp_div_less div_less_iff_less_mult mult.commute)
    qed
  qed
qed simp

lemma length_padded_hex: "0 < w \<Longrightarrow> length (padded_hex w n) = w \<longleftrightarrow> n < 16 ^ w"
  using length_to_hex [of w n] by (auto simp: padded_hex_def)

lemma extract_padded_hex:
  assumes "n \<le> m"
  shows "extract_unsigned 16 m (open_stream (padded_hex w n)) 0 = ((open_stream [])\<lparr>eofbit := True\<rparr>, n)"
proof -
  obtain c cs where c: "to_hex n = c # cs" by (cases "to_hex n") auto
  have digits: "\<not> is_space x \<and> x \<notin> {CHR ''+'', CHR ''-'', CHR ''x'', CHR ''X''} \<and> base_digit 16 x \<noteq> None" if "x \<in> set (c # cs)" for x
    using to_hex_digits [of x n] that c hex_digit_plain by fastforce
  have blank: "is_space (CHR '' '')" by (simp add: is_space_def)
  have "dropWhile is_space (replicate k (CHR '' '') @ c # cs) = c # cs" for k
    using blank digits by (induction k) auto
  then have sentry: "sentry (open_stream (padded_hex w n)) = open_stream (c # cs)"
    by (simp add: sentry_def open_stream_def good_def padded_hex_def c)
  have "take 2 (to_hex n) \<notin> {''0x'', ''0X''}" using digits by (cases cs) (auto simp: c)
  moreover have "hd (to_hex n) \<noteq> CHR ''+''" "hd (to_hex n) \<noteq> CHR ''-''" "starts_with_digit 16 (to_hex n)"
    using digits [of c] by (auto simp: c starts_with_digit_def)
  moreover have "good (open_stream (to_hex n))" "rest (open_stream (to_hex n)) = to_hex n"
    "(open_stream (to_hex n))\<lparr>rest := [], eofbit := True\<rparr> = (open_stream [])\<lparr>eofbit := True\<rparr>"
    by (simp_all add: open_stream_def good_def)
  ultimately show ?thesis
    using assms by (simp add: extract_unsigned_def sentry [folded c] span_to_hex Let_def)
qed


end
