(* ===== verification/Http_Client.thy ===== *)
theory Http_Client
  imports Std_Extract Logging
begin

text \<open>
  The two HTTP clients (\<open>http/client/async_client.cpp\<close>, \<open>sync_client.cpp\<close>): the request they send, the buffer the response comes in,
  and what they print. The resolver and the connection are not under the programs' control: they succeed or fail with an error, and
  the connection brings the response in pieces of any size and then ends.
\<close>

subsection \<open>Errors\<close>

text \<open>An error as it is printed by \<open><<\<close>, and its message; \<open>End_of_file\<close> is \<open>boost::asio::error::eof\<close>.\<close>

datatype net_error = End_of_file | Net_error string string

fun error_shown :: "net_error \<Rightarrow> string" where
  "error_shown End_of_file = ''asio.misc:2''"
| "error_shown (Net_error shown _) = shown"

fun error_message :: "net_error \<Rightarrow> string" where
  "error_message End_of_file = ''End of file''"
| "error_message (Net_error _ msg) = msg"

subsection \<open>The asynchronous client\<close>

text \<open>The operation under way, the two buffers, what was written to the socket, and the standard output.\<close>

datatype fetch_op = Resolving | Connecting | Writing_request | Reading_status_line | Reading_headers | Reading_content

record http_client =
  fetch_pending :: "fetch_op option"
  request_buf :: string
  response_buf :: string
  request_sent :: string
  stdout :: string

abbreviation eol :: string where "eol \<equiv> [CHR 0x0D, CHR 0x0A]"

definition request_text :: "string \<Rightarrow> string \<Rightarrow> string" where
  "request_text server path =
     ''GET '' @ path @ '' HTTP/1.0'' @ eol @
     ''Host: '' @ server @ eol @
     ''Accept: */*'' @ eol @
     ''Connection: close'' @ eol @ eol"

definition new_http_client :: "string \<Rightarrow> string \<Rightarrow> http_client" where
  "new_http_client server path = \<lparr>fetch_pending = Some Resolving, request_buf = request_text server path,
     response_buf = [], request_sent = [], stdout = []\<rparr>"

definition say :: "string \<Rightarrow> http_client \<Rightarrow> http_client" where
  "say t c = c\<lparr>stdout := stdout c @ t\<rparr>"

definition start_op :: "fetch_op \<Rightarrow> http_client \<Rightarrow> http_client" where
  "start_op p c = c\<lparr>fetch_pending := Some p\<rparr>"

definition say_error :: "string \<Rightarrow> http_client \<Rightarrow> http_client" where
  "say_error t = say (''Error: '' @ t @ [NL])"

definition handle_resolve :: "net_error option \<Rightarrow> http_client \<Rightarrow> http_client" where
  "handle_resolve err c = (case err of None \<Rightarrow> start_op Connecting c | Some e \<Rightarrow> say_error (error_message e) c)"

definition handle_http_connect :: "net_error option \<Rightarrow> http_client \<Rightarrow> http_client" where
  "handle_http_connect err c =
     (case err of None \<Rightarrow> start_op Writing_request c | Some e \<Rightarrow> say_error (error_message e) c)"

definition handle_write_request :: "net_error option \<Rightarrow> http_client \<Rightarrow> http_client" where
  "handle_write_request err c =
     (case err of None \<Rightarrow> start_op Reading_status_line c | Some e \<Rightarrow> say_error (error_message e) c)"

text \<open>
  The status line, on a stream over the response: its version, its code, its message, and the stream afterwards. The code is not
  initialised, so it is given.
\<close>

definition read_status_line :: "istream \<Rightarrow> nat \<Rightarrow> istream \<times> string \<times> nat" where
  "read_status_line i uninitialised =
     (let (i, http_version) = extract_word i [];
          (i, status_code) = extract_unsigned 10 (2 ^ 32 - 1) i uninitialised;
          (i, status_message) = getline i []
      in (i, http_version, status_code))"

definition handle_read_status_line :: "nat \<Rightarrow> net_error option \<Rightarrow> http_client \<Rightarrow> http_client" where
  "handle_read_status_line uninitialised err c =
     (case err of
        None \<Rightarrow>
          let (i, http_version, status_code) = read_status_line (open_stream (response_buf c)) uninitialised;
              c = c\<lparr>response_buf := rest i\<rparr>
          in if failbit i \<or> take 5 http_version \<noteq> ''HTTP/'' then say (''Invalid response'' @ [NL]) c
             else if status_code \<noteq> 200
             then say (''Response returned with status code '' @ to_string status_code @ [NL]) c
             else start_op Reading_headers c
      | Some e \<Rightarrow> say_error (error_shown e) c)"

text \<open>\<open>while (std::getline(response_stream, header) && header != "\r") std::cout << header << "\n";\<close>\<close>

function header_loop :: "istream \<Rightarrow> string \<Rightarrow> istream \<times> string" where
  "header_loop i out =
     (let (j, header) = getline i []
      in if failbit j \<or> header = [CHR 0x0D] then (j, out) else header_loop j (out @ header @ [NL]))"
  by pat_completeness auto
termination
proof (relation "measure (\<lambda>(i, _). length (rest i) + of_bool (\<not> eofbit i))")
  show "wf (measure (\<lambda>(i, _). length (rest i) + of_bool (\<not> eofbit i)))" by simp
  fix i :: istream and out x j header
  assume "x = getline i []" "(j, header) = x" "\<not> (failbit j \<or> header = [CHR 0x0D])"
  then have "fst (getline i []) = j" "\<not> failbit j" by (metis fst_conv, simp)
  then show "((j, out @ header @ [NL]), i, out) \<in> measure (\<lambda>(i, _). length (rest i) + of_bool (\<not> eofbit i))"
    using getline_measure [of i "[]"] by simp
qed

declare header_loop.simps [simp del]

text \<open>\<open>std::cout << &response_\<close> prints the buffer and leaves it empty.\<close>

definition say_response :: "http_client \<Rightarrow> http_client" where
  "say_response c = (say (response_buf c) c)\<lparr>response_buf := []\<rparr>"

definition handle_read_headers :: "net_error option \<Rightarrow> http_client \<Rightarrow> http_client" where
  "handle_read_headers err c =
     (case err of
        None \<Rightarrow>
          let (i, lines) = header_loop (open_stream (response_buf c)) [];
              c = say (lines @ [NL]) (c\<lparr>response_buf := rest i\<rparr>);
              c = (if response_buf c \<noteq> [] then say_response c else c)
          in start_op Reading_content c
      | Some e \<Rightarrow> say_error (error_shown e) c)"

definition handle_read_content :: "net_error option \<Rightarrow> http_client \<Rightarrow> http_client" where
  "handle_read_content err c =
     (case err of
        None \<Rightarrow> start_op Reading_content (say_response c)
      | Some e \<Rightarrow> if e \<noteq> End_of_file then say_error (error_shown e) c else c)"

text \<open>
  What happens to the client: an operation completes, bytes arrive, or the connection ends. \<open>async_read_until\<close> completes as soon as the
  buffer has the delimiter, without a read when it has it already; \<open>transfer_at_least(1)\<close> completes with the first bytes.
\<close>

datatype fetch_event = Resolved "net_error option" | Connected "net_error option" | Written "net_error option"
  | Arrived string | Ended net_error

definition read_until_done :: "nat \<Rightarrow> http_client \<Rightarrow> http_client" where
  "read_until_done uninitialised c =
     (if fetch_pending c = Some Reading_status_line \<and> string_find (response_buf c) eol \<noteq> None
      then handle_read_status_line uninitialised None (c\<lparr>fetch_pending := None\<rparr>)
      else if fetch_pending c = Some Reading_headers \<and> string_find (response_buf c) (eol @ eol) \<noteq> None
      then handle_read_headers None (c\<lparr>fetch_pending := None\<rparr>)
      else c)"

fun fetch_step :: "nat \<Rightarrow> fetch_event \<Rightarrow> http_client \<Rightarrow> http_client" where
  "fetch_step u (Resolved err) c =
     (if fetch_pending c = Some Resolving then handle_resolve err (c\<lparr>fetch_pending := None\<rparr>) else c)"
| "fetch_step u (Connected err) c =
     (if fetch_pending c = Some Connecting then handle_http_connect err (c\<lparr>fetch_pending := None\<rparr>) else c)"
| "fetch_step u (Written err) c =
     (if fetch_pending c = Some Writing_request
      then handle_write_request err (case err of
             None \<Rightarrow> c\<lparr>fetch_pending := None, request_sent := request_sent c @ request_buf c, request_buf := []\<rparr>
           | Some _ \<Rightarrow> c\<lparr>fetch_pending := None\<rparr>)
      else c)"
| "fetch_step u (Arrived bytes) c =
     (case fetch_pending c of
        Some Reading_status_line \<Rightarrow> read_until_done u (read_until_done u (c\<lparr>response_buf := response_buf c @ bytes\<rparr>))
      | Some Reading_headers \<Rightarrow> read_until_done u (c\<lparr>response_buf := response_buf c @ bytes\<rparr>)
      | Some Reading_content \<Rightarrow> handle_read_content None (c\<lparr>fetch_pending := None, response_buf := response_buf c @ bytes\<rparr>)
      | _ \<Rightarrow> c)"
| "fetch_step u (Ended e) c =
     (case fetch_pending c of
        Some Reading_status_line \<Rightarrow> handle_read_status_line u (Some e) (c\<lparr>fetch_pending := None\<rparr>)
      | Some Reading_headers \<Rightarrow> handle_read_headers (Some e) (c\<lparr>fetch_pending := None\<rparr>)
      | Some Reading_content \<Rightarrow> handle_read_content (Some e) (c\<lparr>fetch_pending := None\<rparr>)
      | _ \<Rightarrow> c)"

definition fetch_run :: "nat \<Rightarrow> fetch_event list \<Rightarrow> http_client \<Rightarrow> http_client" where
  "fetch_run u evs c = fold (fetch_step u) evs c"

text \<open>\<open>main\<close>: exit status and output.\<close>

definition async_client_main :: "nat \<Rightarrow> string list \<Rightarrow> fetch_event list \<Rightarrow> nat \<times> string" where
  "async_client_main u argv evs =
     (if length argv \<noteq> 3
      then (1, ''Usage: async_client <server> <path>'' @ [NL] @ ''Example:'' @ [NL] @
               ''  async_client www.boost.org /LICENSE_1_0.txt'' @ [NL])
      else (0, stdout (fetch_run u evs (new_http_client (argv ! 1) (argv ! 2)))))"

subsection \<open>The synchronous client\<close>

text \<open>The connection: the pieces it will still bring, and how it ends then.\<close>

type_synonym connection_script = "string list \<times> net_error"

text \<open>\<open>read_until\<close>: pieces are read until the buffer has the delimiter; at the end of the connection it throws.\<close>

fun sync_read_until :: "string \<Rightarrow> string \<Rightarrow> string list \<Rightarrow> string \<times> string list \<times> bool" where
  "sync_read_until delim buf [] = (buf, [], string_find buf delim \<noteq> None)"
| "sync_read_until delim buf (p # ps) =
     (if string_find buf delim \<noteq> None then (buf, p # ps, True) else sync_read_until delim (buf @ p) ps)"

definition sync_exception :: "string \<Rightarrow> string" where
  "sync_exception what = ''Exception: '' @ what @ [NL]"

text \<open>
  The exchange after the connection has been made. One stream serves status line and headers, so its state bits stay. The last loop
  prints the pieces as they come; the error after it is thrown unless it is the end of file. What the library says of a thrown error
  (\<open>what\<close>) is a parameter.
\<close>

definition sync_exchange :: "(net_error \<Rightarrow> string) \<Rightarrow> nat \<Rightarrow> connection_script \<Rightarrow> nat \<times> string" where
  "sync_exchange what uninitialised script =
     (let (buf, ps, found) = sync_read_until eol [] (fst script)
      in if \<not> found then (0, sync_exception (what (snd script)))
         else let (i, http_version, status_code) = read_status_line (open_stream buf) uninitialised
         in if failbit i \<or> take 5 http_version \<noteq> ''HTTP/'' then (1, ''Invalid response'' @ [NL])
         else if status_code \<noteq> 200 then (1, ''Response returned with status code '' @ to_string status_code @ [NL])
         else let (buf, ps, found) = sync_read_until (eol @ eol) (rest i) ps
         in if \<not> found then (0, sync_exception (what (snd script)))
         else let (i, lines) = header_loop (i\<lparr>rest := buf\<rparr>) []
         in (0, lines @ [NL] @ rest i @ concat ps @
                (if snd script \<noteq> End_of_file then sync_exception (what (snd script)) else [])))"

text \<open>Resolving, connecting and writing the request fail with an error (\<open>Inl\<close>), or there is a connection.\<close>

definition sync_client_main :: "(net_error \<Rightarrow> string) \<Rightarrow> nat \<Rightarrow> string list \<Rightarrow> net_error + connection_script \<Rightarrow> nat \<times> string" where
  "sync_client_main what u argv world =
     (if length argv \<noteq> 3
      then (1, ''Usage: sync_client <server> <path>'' @ [NL] @ ''Example:'' @ [NL] @
               ''  sync_client www.boost.org /LICENSE_1_0.txt'' @ [NL])
      else case world of
             Inl e \<Rightarrow> (0, sync_exception (what e))
           | Inr script \<Rightarrow> sync_exchange what u script)"

end
