(* ===== verification/Asio_Request.thy ===== *)
theory Asio_Request
  imports Std_Strings Logging
begin

text \<open>
  The request side of the HTTP server among the pages' example programs
  (\<open>boost_asio/example/cpp11/http/server\<close>): \<open>header.hpp\<close>, \<open>request.hpp\<close>, and the
  character-by-character parser of \<open>request_parser.cpp\<close>. The parser's state and the request
  it fills are passed in and returned.
\<close>

subsection \<open>Data\<close>

record header =
  h_name :: string
  h_value :: string

record request =
  rq_method :: string
  rq_uri :: string
  http_version_major :: cint
  http_version_minor :: cint
  rq_headers :: "header list"

datatype result_type = Good | Bad | Indeterminate

datatype parser_state =
    method_start | method_name | uri
  | http_version_h | http_version_t_1 | http_version_t_2 | http_version_p | http_version_slash
  | version_major_start | version_major | version_minor_start | version_minor
  | expecting_newline_1 | header_line_start | header_lws | header_name
  | space_before_header_value | header_value | expecting_newline_2 | expecting_newline_3

subsection \<open>Classes of characters\<close>

text \<open>The parameter is the \<open>int\<close> a signed \<open>char\<close> is promoted to.\<close>

definition is_char :: "int \<Rightarrow> bool" where
  "is_char c \<longleftrightarrow> 0 \<le> c \<and> c \<le> 127"

definition is_ctl :: "int \<Rightarrow> bool" where
  "is_ctl c \<longleftrightarrow> (0 \<le> c \<and> c \<le> 31) \<or> c = 127"

definition is_tspecial :: "int \<Rightarrow> bool" where
  "is_tspecial c \<longleftrightarrow> c \<in> set (map char_int
     [CHR ''('', CHR '')'', CHR ''<'', CHR ''>'', CHR ''@'',
      CHR '','', CHR '';'', CHR '':'', CHR 0x5C, CHR 0x22,
      CHR ''/'', CHR ''['', CHR '']'', CHR ''?'', CHR ''='',
      CHR ''{'', CHR ''}'', CHR '' '', CHR 0x09])"

definition is_digit :: "int \<Rightarrow> bool" where
  "is_digit c \<longleftrightarrow> char_int (CHR ''0'') \<le> c \<and> c \<le> char_int (CHR ''9'')"

abbreviation CR :: char where "CR \<equiv> CHR 0x0D"
abbreviation LF :: char where "LF \<equiv> CHR 0x0A"
abbreviation TAB :: char where "TAB \<equiv> CHR 0x09"

subsection \<open>The parser\<close>

text \<open>\<open>v * 10 + input - '0'\<close>, in \<open>int\<close>.\<close>

definition add_digit :: "cint \<Rightarrow> char \<Rightarrow> cint" where
  "add_digit v c = v * 10 + word_of_int (char_int c) - word_of_int (char_int (CHR ''0''))"

definition push_name :: "char \<Rightarrow> request \<Rightarrow> request" where
  "push_name c r = r\<lparr>rq_headers := butlast (rq_headers r) @
     [(last (rq_headers r))\<lparr>h_name := h_name (last (rq_headers r)) @ [c]\<rparr>]\<rparr>"

definition push_value :: "char \<Rightarrow> request \<Rightarrow> request" where
  "push_value c r = r\<lparr>rq_headers := butlast (rq_headers r) @
     [(last (rq_headers r))\<lparr>h_value := h_value (last (rq_headers r)) @ [c]\<rparr>]\<rparr>"

text \<open>The states inside the headers; a state the switch does not name is bad, as its default says.\<close>

fun consume_header :: "parser_state \<Rightarrow> request \<Rightarrow> char \<Rightarrow> result_type \<times> parser_state \<times> request" where
"consume_header header_line_start req c =
     (if c = CR then (Indeterminate, expecting_newline_3, req)
      else if rq_headers req \<noteq> [] \<and> (c = CHR '' '' \<or> c = TAB)
      then (Indeterminate, header_lws, req)
      else if \<not> is_char (char_int c) \<or> is_ctl (char_int c) \<or> is_tspecial (char_int c)
      then (Bad, header_line_start, req)
      else (Indeterminate, header_name,
            push_name c (req\<lparr>rq_headers := rq_headers req @ [\<lparr>h_name = [], h_value = []\<rparr>]\<rparr>)))"
| "consume_header header_lws req c =
     (if c = CR then (Indeterminate, expecting_newline_2, req)
      else if c = CHR '' '' \<or> c = TAB then (Indeterminate, header_lws, req)
      else if is_ctl (char_int c) then (Bad, header_lws, req)
      else (Indeterminate, header_value, push_value c req))"
| "consume_header header_name req c =
     (if c = CHR '':'' then (Indeterminate, space_before_header_value, req)
      else if \<not> is_char (char_int c) \<or> is_ctl (char_int c) \<or> is_tspecial (char_int c)
      then (Bad, header_name, req)
      else (Indeterminate, header_name, push_name c req))"
| "consume_header space_before_header_value req c =
     (if c = CHR '' '' then (Indeterminate, header_value, req)
      else (Bad, space_before_header_value, req))"
| "consume_header header_value req c =
     (if c = CR then (Indeterminate, expecting_newline_2, req)
      else if is_ctl (char_int c) then (Bad, header_value, req)
      else (Indeterminate, header_value, push_value c req))"
| "consume_header expecting_newline_2 req c =
     (if c = LF then (Indeterminate, header_line_start, req) else (Bad, expecting_newline_2, req))"
| "consume_header expecting_newline_3 req c = (if c = LF then Good else Bad, expecting_newline_3, req)"
| "consume_header st req c = (Bad, st, req)"

text \<open>The states of the request line, and the switch as a whole.\<close>

fun consume :: "parser_state \<Rightarrow> request \<Rightarrow> char \<Rightarrow> result_type \<times> parser_state \<times> request" where
  "consume method_start req c =
     (if \<not> is_char (char_int c) \<or> is_ctl (char_int c) \<or> is_tspecial (char_int c)
      then (Bad, method_start, req)
      else (Indeterminate, method_name, req\<lparr>rq_method := rq_method req @ [c]\<rparr>))"
| "consume method_name req c =
     (if c = CHR '' '' then (Indeterminate, uri, req)
      else if \<not> is_char (char_int c) \<or> is_ctl (char_int c) \<or> is_tspecial (char_int c)
      then (Bad, method_name, req)
      else (Indeterminate, method_name, req\<lparr>rq_method := rq_method req @ [c]\<rparr>))"
| "consume uri req c =
     (if c = CHR '' '' then (Indeterminate, http_version_h, req)
      else if is_ctl (char_int c) then (Bad, uri, req)
      else (Indeterminate, uri, req\<lparr>rq_uri := rq_uri req @ [c]\<rparr>))"
| "consume http_version_h req c =
     (if c = CHR ''H'' then (Indeterminate, http_version_t_1, req) else (Bad, http_version_h, req))"
| "consume http_version_t_1 req c =
     (if c = CHR ''T'' then (Indeterminate, http_version_t_2, req) else (Bad, http_version_t_1, req))"
| "consume http_version_t_2 req c =
     (if c = CHR ''T'' then (Indeterminate, http_version_p, req) else (Bad, http_version_t_2, req))"
| "consume http_version_p req c =
     (if c = CHR ''P'' then (Indeterminate, http_version_slash, req) else (Bad, http_version_p, req))"
| "consume http_version_slash req c =
     (if c = CHR ''/''
      then (Indeterminate, version_major_start,
            req\<lparr>http_version_major := 0, http_version_minor := 0\<rparr>)
      else (Bad, http_version_slash, req))"
| "consume version_major_start req c =
     (if is_digit (char_int c)
      then (Indeterminate, version_major,
            req\<lparr>http_version_major := add_digit (http_version_major req) c\<rparr>)
      else (Bad, version_major_start, req))"
| "consume version_major req c =
     (if c = CHR ''.'' then (Indeterminate, version_minor_start, req)
      else if is_digit (char_int c)
      then (Indeterminate, version_major,
            req\<lparr>http_version_major := add_digit (http_version_major req) c\<rparr>)
      else (Bad, version_major, req))"
| "consume version_minor_start req c =
     (if is_digit (char_int c)
      then (Indeterminate, version_minor,
            req\<lparr>http_version_minor := add_digit (http_version_minor req) c\<rparr>)
      else (Bad, version_minor_start, req))"
| "consume version_minor req c =
     (if c = CR then (Indeterminate, expecting_newline_1, req)
      else if is_digit (char_int c)
      then (Indeterminate, version_minor,
            req\<lparr>http_version_minor := add_digit (http_version_minor req) c\<rparr>)
      else (Bad, version_minor, req))"
| "consume expecting_newline_1 req c =
     (if c = LF then (Indeterminate, header_line_start, req) else (Bad, expecting_newline_1, req))"
| "consume st req c = consume_header st req c"

text \<open>
  The result, the input that is left (the returned iterator), and state and request after
  the call.
\<close>

fun parse :: "parser_state \<Rightarrow> request \<Rightarrow> string \<Rightarrow> result_type \<times> string \<times> parser_state \<times> request"
where
  "parse s req [] = (Indeterminate, [], s, req)"
| "parse s req (c # cs) =
     (case consume s req c of
        (Indeterminate, s', req') \<Rightarrow> parse s' req' cs
      | (res, s', req') \<Rightarrow> (res, cs, s', req'))"

text \<open>\<open>request_parser()\<close> and \<open>reset()\<close>; a request as it is constructed, with the two
  version numbers, which the constructor leaves unset, given.\<close>

definition parser_start :: parser_state where "parser_start = method_start"

definition new_request :: "cint \<Rightarrow> cint \<Rightarrow> request" where
  "new_request a b = \<lparr>rq_method = [], rq_uri = [], http_version_major = a,
     http_version_minor = b, rq_headers = []\<rparr>"

end
