(* ===== verification/Asio_Reply.thy ===== *)
theory Asio_Reply
  imports Asio_Request
begin

text \<open>
  The replies of the HTTP server (\<open>reply.hpp\<close>, \<open>reply.cpp\<close>): the status codes, the status
  lines, the stock bodies, and the buffers a reply is sent as. The \<open>default\<close> branches of the
  two switches are for numbers that are no enumerator; the program never stores one.
\<close>

datatype status_type =
  ok | created | accepted | no_content
  | multiple_choices | moved_permanently | moved_temporarily | not_modified
  | bad_request | unauthorized | forbidden | not_found
  | internal_server_error | not_implemented | bad_gateway | service_unavailable

record reply =
  rp_status :: status_type
  rp_headers :: "header list"
  rp_content :: string

primrec status_number :: "status_type \<Rightarrow> nat" where
  "status_number ok = 200"
| "status_number created = 201"
| "status_number accepted = 202"
| "status_number no_content = 204"
| "status_number multiple_choices = 300"
| "status_number moved_permanently = 301"
| "status_number moved_temporarily = 302"
| "status_number not_modified = 304"
| "status_number bad_request = 400"
| "status_number unauthorized = 401"
| "status_number forbidden = 403"
| "status_number not_found = 404"
| "status_number internal_server_error = 500"
| "status_number not_implemented = 501"
| "status_number bad_gateway = 502"
| "status_number service_unavailable = 503"

subsection \<open>Status lines\<close>

primrec status_line :: "status_type \<Rightarrow> string" where
  "status_line ok = ''HTTP/1.0 200 OK'' @ [CR, LF]"
| "status_line created = ''HTTP/1.0 201 Created'' @ [CR, LF]"
| "status_line accepted = ''HTTP/1.0 202 Accepted'' @ [CR, LF]"
| "status_line no_content = ''HTTP/1.0 204 No Content'' @ [CR, LF]"
| "status_line multiple_choices = ''HTTP/1.0 300 Multiple Choices'' @ [CR, LF]"
| "status_line moved_permanently = ''HTTP/1.0 301 Moved Permanently'' @ [CR, LF]"
| "status_line moved_temporarily = ''HTTP/1.0 302 Moved Temporarily'' @ [CR, LF]"
| "status_line not_modified = ''HTTP/1.0 304 Not Modified'' @ [CR, LF]"
| "status_line bad_request = ''HTTP/1.0 400 Bad Request'' @ [CR, LF]"
| "status_line unauthorized = ''HTTP/1.0 401 Unauthorized'' @ [CR, LF]"
| "status_line forbidden = ''HTTP/1.0 403 Forbidden'' @ [CR, LF]"
| "status_line not_found = ''HTTP/1.0 404 Not Found'' @ [CR, LF]"
| "status_line internal_server_error = ''HTTP/1.0 500 Internal Server Error'' @ [CR, LF]"
| "status_line not_implemented = ''HTTP/1.0 501 Not Implemented'' @ [CR, LF]"
| "status_line bad_gateway = ''HTTP/1.0 502 Bad Gateway'' @ [CR, LF]"
| "status_line service_unavailable = ''HTTP/1.0 503 Service Unavailable'' @ [CR, LF]"

subsection \<open>Buffers\<close>

definition name_value_separator :: string where "name_value_separator = [CHR '':'', CHR '' '']"
definition crlf :: string where "crlf = [CR, LF]"

text \<open>The sequence of buffers; \<open>async_write\<close> sends them one after another.\<close>

definition to_buffers :: "reply \<Rightarrow> string list" where
  "to_buffers r = [status_line (rp_status r)] @
     concat (map (\<lambda>h. [h_name h, name_value_separator, h_value h, crlf]) (rp_headers r)) @
     [crlf, rp_content r]"

subsection \<open>Stock replies\<close>

primrec stock_content :: "status_type \<Rightarrow> string" where
  "stock_content ok = []"
| "stock_content created =
     ''<html>'' @
     ''<head><title>Created</title></head>'' @
     ''<body><h1>201 Created</h1></body>'' @
     ''</html>''"
| "stock_content accepted =
     ''<html>'' @
     ''<head><title>Accepted</title></head>'' @
     ''<body><h1>202 Accepted</h1></body>'' @
     ''</html>''"
| "stock_content no_content =
     ''<html>'' @
     ''<head><title>No Content</title></head>'' @
     ''<body><h1>204 Content</h1></body>'' @
     ''</html>''"
| "stock_content multiple_choices =
     ''<html>'' @
     ''<head><title>Multiple Choices</title></head>'' @
     ''<body><h1>300 Multiple Choices</h1></body>'' @
     ''</html>''"
| "stock_content moved_permanently =
     ''<html>'' @
     ''<head><title>Moved Permanently</title></head>'' @
     ''<body><h1>301 Moved Permanently</h1></body>'' @
     ''</html>''"
| "stock_content moved_temporarily =
     ''<html>'' @
     ''<head><title>Moved Temporarily</title></head>'' @
     ''<body><h1>302 Moved Temporarily</h1></body>'' @
     ''</html>''"
| "stock_content not_modified =
     ''<html>'' @
     ''<head><title>Not Modified</title></head>'' @
     ''<body><h1>304 Not Modified</h1></body>'' @
     ''</html>''"
| "stock_content bad_request =
     ''<html>'' @
     ''<head><title>Bad Request</title></head>'' @
     ''<body><h1>400 Bad Request</h1></body>'' @
     ''</html>''"
| "stock_content unauthorized =
     ''<html>'' @
     ''<head><title>Unauthorized</title></head>'' @
     ''<body><h1>401 Unauthorized</h1></body>'' @
     ''</html>''"
| "stock_content forbidden =
     ''<html>'' @
     ''<head><title>Forbidden</title></head>'' @
     ''<body><h1>403 Forbidden</h1></body>'' @
     ''</html>''"
| "stock_content not_found =
     ''<html>'' @
     ''<head><title>Not Found</title></head>'' @
     ''<body><h1>404 Not Found</h1></body>'' @
     ''</html>''"
| "stock_content internal_server_error =
     ''<html>'' @
     ''<head><title>Internal Server Error</title></head>'' @
     ''<body><h1>500 Internal Server Error</h1></body>'' @
     ''</html>''"
| "stock_content not_implemented =
     ''<html>'' @
     ''<head><title>Not Implemented</title></head>'' @
     ''<body><h1>501 Not Implemented</h1></body>'' @
     ''</html>''"
| "stock_content bad_gateway =
     ''<html>'' @
     ''<head><title>Bad Gateway</title></head>'' @
     ''<body><h1>502 Bad Gateway</h1></body>'' @
     ''</html>''"
| "stock_content service_unavailable =
     ''<html>'' @
     ''<head><title>Service Unavailable</title></head>'' @
     ''<body><h1>503 Service Unavailable</h1></body>'' @
     ''</html>''"

definition stock_reply :: "status_type \<Rightarrow> reply" where
  "stock_reply s = \<lparr>rp_status = s,
     rp_headers = [\<lparr>h_name = ''Content-Length'', h_value = to_string (length (stock_content s))\<rparr>,
                   \<lparr>h_name = ''Content-Type'', h_value = ''text/html''\<rparr>],
     rp_content = stock_content s\<rparr>"

end
