(* ===== verification/Asio_Handler.thy ===== *)
theory Asio_Handler
  imports Asio_Reply Std_Extract
begin

text \<open>
  The request handler of the HTTP server (\<open>request_handler.cpp\<close>, \<open>mime_types.cpp\<close>), with
  the library operations it calls: \<open>is >> std::hex >> value\<close> on a string stream,
  \<open>find_last_of\<close>, \<open>c_str\<close> and the block-wise \<open>read\<close>. The files that can be opened are
  those of the record \<open>filesys\<close>.
\<close>

subsection \<open>Library operations\<close>

text \<open>
  Extraction of an \<open>int\<close> in base 16: leading white space is skipped, a sign and a prefix 0x
  are allowed, the digits end at the first other character, which stays in the stream; no
  digits is a failure. (The program extracts from two characters, so the value fits.)
\<close>

fun take_hex :: "int \<Rightarrow> string \<Rightarrow> int" where
  "take_hex v [] = v"
| "take_hex v (c # s) = (case hex_value c of None \<Rightarrow> v | Some d \<Rightarrow> take_hex (v * 16 + int d) s)"

definition hex_number :: "string \<Rightarrow> int option" where
  "hex_number s =
     (let t = (case s of z # x # t \<Rightarrow> if z = CHR ''0'' \<and> x \<in> {CHR ''x'', CHR ''X''} then t else s | _ \<Rightarrow> s)
      in case t of [] \<Rightarrow> None | c # _ \<Rightarrow> if hex_value c = None then None else Some (take_hex 0 t))"

definition extract_hex :: "string \<Rightarrow> int option" where
  "extract_hex s =
     (case dropWhile is_space s of
        [] \<Rightarrow> None
      | c # t \<Rightarrow> if c = CHR ''+'' then hex_number t
                else if c = CHR ''-'' then map_option uminus (hex_number t)
                else hex_number (c # t))"

text \<open>\<open>s.find_last_of(c)\<close> for one character; \<open>None\<close> is \<open>npos\<close>.\<close>

fun find_last :: "char \<Rightarrow> string \<Rightarrow> nat option" where
  "find_last c [] = None"
| "find_last c (x # s) =
     (case find_last c s of Some i \<Rightarrow> Some (Suc i) | None \<Rightarrow> if x = c then Some 0 else None)"

text \<open>The file a path names ends at its first NUL byte.\<close>

definition c_str :: "string \<Rightarrow> string" where
  "c_str s = takeWhile (\<lambda>c. c \<noteq> CHR 0x00) s"

subsection \<open>MIME types\<close>

definition mappings :: "(string \<times> string) list" where
  "mappings = [(''gif'', ''image/gif''), (''htm'', ''text/html''), (''html'', ''text/html''),
     (''jpg'', ''image/jpeg''), (''png'', ''image/png'')]"

definition extension_to_type :: "string \<Rightarrow> string" where
  "extension_to_type ext =
     (case find (\<lambda>m. fst m = ext) mappings of Some m \<Rightarrow> snd m | None \<Rightarrow> ''text/plain'')"

subsection \<open>URLs\<close>

text \<open>\<open>static_cast<char>\<close> of an \<open>int\<close> keeps the lowest eight bits.\<close>

function url_decode_from :: "string \<Rightarrow> string \<Rightarrow> bool \<times> string" where
  "url_decode_from [] out = (True, out)"
| "url_decode_from (c # cs) out =
     (if c = CHR ''%'' then
        (if 2 \<le> length cs then
           (case extract_hex (take 2 cs) of
              Some v \<Rightarrow> url_decode_from (drop 2 cs) (out @ [char_of v])
            | None \<Rightarrow> (False, out))
         else (False, out))
      else if c = CHR ''+'' then url_decode_from cs (out @ '' '')
      else url_decode_from cs (out @ [c]))"
  by pat_completeness auto
termination by (relation "measure (\<lambda>(s, _). length s)") auto

definition url_decode :: "string \<Rightarrow> bool \<times> string" where
  "url_decode inp = url_decode_from inp []"

subsection \<open>The handler\<close>

text \<open>\<open>while (is.read(buf, sizeof(buf)).gcount() > 0) rep.content.append(buf, is.gcount());\<close>\<close>

function append_blocks :: "istream \<Rightarrow> string \<Rightarrow> string" where
  "append_blocks i content =
     (let r = stream_read i 512
      in if snd r = [] then content else append_blocks (fst r) (content @ snd r))"
  by pat_completeness auto
termination
  by (relation "measure (\<lambda>(i, _). length (rest i))")
     (auto simp: stream_read_def split: if_splits)

declare append_blocks.simps [simp del]

definition file_extension :: "string \<Rightarrow> string" where
  "file_extension path =
     (case find_last (CHR ''.'') path of
        None \<Rightarrow> []
      | Some dot \<Rightarrow>
          (case find_last (CHR ''/'') path of
             None \<Rightarrow> []
           | Some slash \<Rightarrow> if slash < dot then drop (dot + 1) path else []))"

definition handle_request :: "filesys \<Rightarrow> string \<Rightarrow> request \<Rightarrow> reply \<Rightarrow> reply" where
  "handle_request fs doc_root req rep =
     (case url_decode (rq_uri req) of
        (False, _) \<Rightarrow> stock_reply bad_request
      | (True, request_path) \<Rightarrow>
          if request_path = [] \<or> hd request_path \<noteq> CHR ''/'' \<or> string_find request_path ''..'' \<noteq> None
          then stock_reply bad_request
          else
            let path = (if last request_path = CHR ''/'' then request_path @ ''index.html'' else request_path);
                extension = file_extension path;
                full_path = doc_root @ path
            in case readable fs (c_str full_path) of
                 None \<Rightarrow> stock_reply not_found
               | Some s \<Rightarrow>
                   let content = append_blocks (open_stream s) (rp_content rep)
                   in \<lparr>rp_status = ok,
                        rp_headers =
                          [\<lparr>h_name = ''Content-Length'', h_value = to_string (length content)\<rparr>,
                           \<lparr>h_name = ''Content-Type'', h_value = extension_to_type extension\<rparr>],
                        rp_content = content\<rparr>)"

end
