(* ===== verification/Asio_Server.thy ===== *)
theory Asio_Server
  imports Asio_Handler
begin

text \<open>
  The moving parts of the HTTP server: \<open>connection.cpp\<close>, \<open>connection_manager.cpp\<close>,
  \<open>server.cpp\<close> and \<open>main.cpp\<close>. One thread runs the completion handlers, so a step is one
  handler from start to end. Which pending operation completes next, with which error code and
  which bytes, is up to the network and to Asio: the step relation allows everything except what
  Asio rules out, namely an aborted operation of an open socket, and the success of an operation
  that was started on a closed socket.
\<close>

subsection \<open>State\<close>

datatype ec = Success | Operation_aborted | Other_error

datatype op = Read_op | Write_op

text \<open>
  A connection: the socket, the members of the class, the pending operation with whether the
  socket was open when it was started, and, for the statements below, the bytes received so far
  and the buffers given to \<open>async_write\<close>.
\<close>

record connection =
  cn_open :: bool
  cn_shutdown :: bool
  cn_request :: request
  cn_parser :: parser_state
  cn_reply :: reply
  cn_pending :: "(op \<times> bool) option"
  cn_received :: string
  cn_sent :: "string list option"

text \<open>Connections are numbered in the order they are accepted.\<close>

record http_server =
  acceptor_open :: bool
  accept_pending :: bool
  signal_pending :: bool
  connections :: "nat set"
  conn :: "nat \<Rightarrow> connection"
  accepted_so_far :: nat

definition on_conn :: "nat \<Rightarrow> (connection \<Rightarrow> connection) \<Rightarrow> http_server \<Rightarrow> http_server" where
  "on_conn i f s = s\<lparr>conn := (conn s)(i := f (conn s i))\<rparr>"

subsection \<open>Connection\<close>

text \<open>The members as constructed; version numbers and status are uninitialised.\<close>

definition new_connection :: "cint \<Rightarrow> cint \<Rightarrow> status_type \<Rightarrow> connection" where
  "new_connection a b st = \<lparr>cn_open = True, cn_shutdown = False, cn_request = new_request a b,
     cn_parser = parser_start, cn_reply = \<lparr>rp_status = st, rp_headers = [], rp_content = []\<rparr>,
     cn_pending = None, cn_received = [], cn_sent = None\<rparr>"

definition do_read :: "connection \<Rightarrow> connection" where
  "do_read c = c\<lparr>cn_pending := Some (Read_op, cn_open c)\<rparr>"

definition do_write :: "connection \<Rightarrow> connection" where
  "do_write c = c\<lparr>cn_pending := Some (Write_op, cn_open c), cn_sent := Some (to_buffers (cn_reply c))\<rparr>"

definition conn_stop :: "connection \<Rightarrow> connection" where
  "conn_stop c = c\<lparr>cn_open := False\<rparr>"

subsection \<open>Connection manager\<close>

definition manager_start :: "nat \<Rightarrow> http_server \<Rightarrow> http_server" where
  "manager_start i s = on_conn i do_read (s\<lparr>connections := insert i (connections s)\<rparr>)"

definition manager_stop :: "nat \<Rightarrow> http_server \<Rightarrow> http_server" where
  "manager_stop i s = on_conn i conn_stop (s\<lparr>connections := connections s - {i}\<rparr>)"

definition manager_stop_all :: "http_server \<Rightarrow> http_server" where
  "manager_stop_all s =
     s\<lparr>conn := (\<lambda>i. if i \<in> connections s then conn_stop (conn s i) else conn s i), connections := {}\<rparr>"

subsection \<open>Completion handlers\<close>

definition on_read :: "filesys \<Rightarrow> string \<Rightarrow> nat \<Rightarrow> ec \<Rightarrow> string \<Rightarrow> http_server \<Rightarrow> http_server" where
  "on_read fs doc_root i err bytes s0 =
     (let s = on_conn i (\<lambda>c. c\<lparr>cn_pending := None, cn_received := cn_received c @ bytes\<rparr>) s0;
          c = conn s i
      in if err = Success then
           (case parse (cn_parser c) (cn_request c) bytes of
              (Good, _, p, r) \<Rightarrow>
                on_conn i (\<lambda>c. do_write (c\<lparr>cn_parser := p, cn_request := r,
                  cn_reply := handle_request fs doc_root r (cn_reply c)\<rparr>)) s
            | (Bad, _, p, r) \<Rightarrow>
                on_conn i (\<lambda>c. do_write (c\<lparr>cn_parser := p, cn_request := r,
                  cn_reply := stock_reply bad_request\<rparr>)) s
            | (Indeterminate, _, p, r) \<Rightarrow>
                on_conn i (\<lambda>c. do_read (c\<lparr>cn_parser := p, cn_request := r\<rparr>)) s)
         else if err \<noteq> Operation_aborted then manager_stop i s
         else s)"

definition on_write :: "nat \<Rightarrow> ec \<Rightarrow> http_server \<Rightarrow> http_server" where
  "on_write i err s0 =
     (let s = on_conn i (\<lambda>c. c\<lparr>cn_pending := None\<rparr>) s0;
          s = (if err = Success then on_conn i (\<lambda>c. c\<lparr>cn_shutdown := True\<rparr>) s else s)
      in if err \<noteq> Operation_aborted then manager_stop i s else s)"

definition on_accept :: "cint \<Rightarrow> cint \<Rightarrow> status_type \<Rightarrow> ec \<Rightarrow> http_server \<Rightarrow> http_server" where
  "on_accept a b st err s0 =
     (let s = s0\<lparr>accept_pending := False\<rparr>
      in if \<not> acceptor_open s then s
         else
           let i = accepted_so_far s;
               s = (if err = Success
                    then manager_start i (on_conn i (\<lambda>_. new_connection a b st)
                           (s\<lparr>accepted_so_far := Suc i\<rparr>))
                    else s)
           in s\<lparr>accept_pending := True\<rparr>)"

definition on_signal :: "http_server \<Rightarrow> http_server" where
  "on_signal s = manager_stop_all (s\<lparr>signal_pending := False, acceptor_open := False\<rparr>)"

subsection \<open>Server\<close>

text \<open>After the constructor: \<open>do_await_stop()\<close>, the opened acceptor, \<open>do_accept()\<close>.\<close>

definition http_init :: "http_server \<Rightarrow> bool" where
  "http_init s \<longleftrightarrow> acceptor_open s \<and> accept_pending s \<and> signal_pending s \<and> connections s = {} \<and>
     accepted_so_far s = 0 \<and> (\<forall>i. cn_pending (conn s i) = None \<and> \<not> cn_open (conn s i) \<and> cn_sent (conn s i) = None)"

definition may_complete :: "connection \<Rightarrow> op \<Rightarrow> ec \<Rightarrow> bool" where
  "may_complete c p err \<longleftrightarrow>
     (\<exists>started_open. cn_pending c = Some (p, started_open) \<and>
        (err = Success \<longrightarrow> started_open) \<and> (err = Operation_aborted \<longrightarrow> \<not> cn_open c))"

inductive http_step :: "filesys \<Rightarrow> string \<Rightarrow> http_server \<Rightarrow> http_server \<Rightarrow> bool" for fs doc_root where
  read_done: "may_complete (conn s i) Read_op err \<Longrightarrow> (err \<noteq> Success \<Longrightarrow> bytes = []) \<Longrightarrow>
    length bytes \<le> 8192 \<Longrightarrow> http_step fs doc_root s (on_read fs doc_root i err bytes s)"
| write_done: "may_complete (conn s i) Write_op err \<Longrightarrow> http_step fs doc_root s (on_write i err s)"
| accept_done: "accept_pending s \<Longrightarrow> http_step fs doc_root s (on_accept a b st err s)"
| signal_done: "signal_pending s \<Longrightarrow> http_step fs doc_root s (on_signal s)"

inductive_cases http_stepE: "http_step fs doc_root s t"

inductive http_reachable :: "filesys \<Rightarrow> string \<Rightarrow> http_server \<Rightarrow> bool" for fs doc_root where
  boot: "http_init s \<Longrightarrow> http_reachable fs doc_root s"
| more: "http_reachable fs doc_root s \<Longrightarrow> http_step fs doc_root s t \<Longrightarrow> http_reachable fs doc_root t"

subsection \<open>main\<close>

text \<open>Exit status and error output; the exception server or \<open>run\<close> ends with is given.\<close>

definition http_main :: "nat \<Rightarrow> string option \<Rightarrow> nat \<times> string" where
  "http_main argc exception =
     (if argc \<noteq> 4
      then (1, ''Usage: http_server <address> <port> <doc_root>'' @ [LF] @
               ''  For IPv4, try:'' @ [LF] @
               ''    receiver 0.0.0.0 80 .'' @ [LF] @
               ''  For IPv6, try:'' @ [LF] @
               ''    receiver 0::0 80 .'' @ [LF])
      else (0, case exception of None \<Rightarrow> [] | Some w \<Rightarrow> ''exception: '' @ w @ [LF]))"

end
