(* ===== verification/Asio_Request_Correct.thy ===== *)
theory Asio_Request_Correct
  imports Asio_Request "HOL-Library.Sublist"
begin

text \<open>
  What the request parser accepts: every well-formed request as it is rendered, and nothing
  that leaves a malformed request behind; that the chunks a request arrives in do not matter;
  and that it stops at the first blank line.
\<close>

subsection \<open>Chunks\<close>

lemma parse_append_lemma:
  "parse s req (xs @ ys) =
     (case parse s req xs of
        (Indeterminate, _, s', req') \<Rightarrow> parse s' req' ys
      | (res, rest, s', req') \<Rightarrow> (res, rest @ ys, s', req'))"
  by (induction s req xs rule: parse.induct)
     (auto split: prod.splits result_type.splits)

subsection \<open>Well-formed requests and their text\<close>

definition token_char :: "char \<Rightarrow> bool" where
  "token_char c \<longleftrightarrow> is_char (char_int c) \<and> \<not> is_ctl (char_int c) \<and> \<not> is_tspecial (char_int c)"

definition text_char :: "char \<Rightarrow> bool" where
  "text_char c \<longleftrightarrow> \<not> is_ctl (char_int c)"

definition wf_header :: "header \<Rightarrow> bool" where
  "wf_header h \<longleftrightarrow> h_name h \<noteq> [] \<and> (\<forall>c \<in> set (h_name h). token_char c) \<and>
     (\<forall>c \<in> set (h_value h). text_char c)"

definition wf_request :: "request \<Rightarrow> bool" where
  "wf_request r \<longleftrightarrow> rq_method r \<noteq> [] \<and> (\<forall>c \<in> set (rq_method r). token_char c) \<and>
     (\<forall>c \<in> set (rq_uri r). text_char c \<and> c \<noteq> CHR '' '') \<and> (\<forall>h \<in> set (rq_headers r). wf_header h)"

definition render_header :: "header \<Rightarrow> string" where
  "render_header h = h_name h @ '': '' @ h_value h @ [CR, LF]"

definition render_request :: "request \<Rightarrow> string" where
  "render_request r = rq_method r @ '' '' @ rq_uri r @ '' HTTP/'' @
     to_string (unat (http_version_major r)) @ ''.'' @ to_string (unat (http_version_minor r)) @
     [CR, LF] @ concat (map render_header (rq_headers r)) @ [CR, LF]"

lemma char_int_of_code: "of_char c < (128::nat) \<Longrightarrow> char_int c = int (of_char c)"
  by (simp add: char_int_def Let_def)

lemma special_chars [simp]:
  "\<not> token_char (CHR '' '')" "\<not> token_char (CHR '':'')" "\<not> token_char CR" "\<not> token_char TAB"
  "\<not> text_char CR" "\<not> text_char LF" "\<not> is_digit (char_int (CHR ''.''))" "\<not> is_digit (char_int CR)"
  "\<not> is_digit (char_int LF)" "\<not> token_char LF"
  by code_simp+

lemma bad_token [simp]:
  "\<not> is_char (char_int c) \<or> is_ctl (char_int c) \<or> is_tspecial (char_int c) \<longleftrightarrow> \<not> token_char c"
  by (auto simp: token_char_def)

lemma text_char_not_ctl [simp]: "text_char c \<Longrightarrow> \<not> is_ctl (char_int c)"
  by (simp add: text_char_def)

lemma token_char_char [simp]:
  "token_char c \<Longrightarrow> is_char (char_int c)" "token_char c \<Longrightarrow> \<not> is_ctl (char_int c)"
  "token_char c \<Longrightarrow> \<not> is_tspecial (char_int c)"
  by (simp_all add: token_char_def del: bad_token)

subsection \<open>Decimal numbers\<close>

lemma digit_code: "n < 10 \<Longrightarrow> char_int (digit n) = 48 + int n"
  by (simp add: digit_def char_int_of_code)

lemma is_digit_digit [simp]: "n < 10 \<Longrightarrow> is_digit (char_int (digit n))"
  by (simp add: is_digit_def digit_code char_int_of_code)

lemma add_digit_digit [simp]: "n < 10 \<Longrightarrow> add_digit v (digit n) = v * 10 + word_of_nat n"
  by (simp add: add_digit_def digit_code char_int_of_code)

lemma to_string_digits: "c \<in> set (to_string n) \<Longrightarrow> is_digit (char_int c)"
  by (induction n rule: to_string.induct) (subst (asm) (2) to_string.simps, auto split: if_splits)

lemma to_string_not_Nil [simp]: "to_string n \<noteq> []"
  by (subst to_string.simps) simp

lemma fold_add_digit: "foldl add_digit 0 (to_string n) = word_of_nat n"
proof (induction n rule: to_string.induct)
  case (1 n)
  show ?case
  proof (cases "n < 10")
    case False
    then have "foldl add_digit 0 (to_string n) = word_of_nat (n div 10) * 10 + word_of_nat (n mod 10)"
      using 1 by (subst to_string.simps) simp
    also have "\<dots> = word_of_nat (n div 10 * 10 + n mod 10)"
      by (simp only: of_nat_add of_nat_mult of_nat_numeral)
    finally show ?thesis by simp
  qed (subst to_string.simps, simp)
qed

subsection \<open>Completeness\<close>

lemma parse_method:
  "(\<forall>c \<in> set xs. token_char c) \<Longrightarrow>
     parse method_name r (xs @ CHR '' '' # cs) = parse uri (r\<lparr>rq_method := rq_method r @ xs\<rparr>) cs"
proof (induction xs arbitrary: r)
  case (Cons x xs)
  then have "x \<noteq> CHR '' ''" by auto
  with Cons show ?case by simp
qed simp

lemma parse_uri:
  "(\<forall>c \<in> set xs. text_char c \<and> c \<noteq> CHR '' '') \<Longrightarrow>
     parse uri r (xs @ CHR '' '' # cs) = parse http_version_h (r\<lparr>rq_uri := rq_uri r @ xs\<rparr>) cs"
  by (induction xs arbitrary: r) simp_all

lemma parse_major:
  "(\<forall>c \<in> set xs. is_digit (char_int c)) \<Longrightarrow>
     parse version_major r (xs @ CHR ''.'' # cs) =
       parse version_minor_start (r\<lparr>http_version_major := foldl add_digit (http_version_major r) xs\<rparr>) cs"
proof (induction xs arbitrary: r)
  case (Cons x xs)
  then have "x \<noteq> CHR ''.''" by auto
  with Cons show ?case by simp
qed simp

lemma parse_minor:
  "(\<forall>c \<in> set xs. is_digit (char_int c)) \<Longrightarrow>
     parse version_minor r (xs @ CR # cs) =
       parse expecting_newline_1 (r\<lparr>http_version_minor := foldl add_digit (http_version_minor r) xs\<rparr>) cs"
proof (induction xs arbitrary: r)
  case (Cons x xs)
  then have "x \<noteq> CR" by auto
  with Cons show ?case by simp
qed simp

lemma parse_name:
  "(\<forall>c \<in> set xs. token_char c) \<Longrightarrow>
     parse header_name (r\<lparr>rq_headers := hs @ [\<lparr>h_name = n, h_value = v\<rparr>]\<rparr>) (xs @ CHR '':'' # cs) =
     parse space_before_header_value (r\<lparr>rq_headers := hs @ [\<lparr>h_name = n @ xs, h_value = v\<rparr>]\<rparr>) cs"
proof (induction xs arbitrary: n)
  case (Cons x xs)
  then have "x \<noteq> CHR '':''" by auto
  with Cons show ?case by (simp add: push_name_def)
qed simp

lemma parse_value:
  "(\<forall>c \<in> set xs. text_char c) \<Longrightarrow>
     parse header_value (r\<lparr>rq_headers := hs @ [\<lparr>h_name = n, h_value = v\<rparr>]\<rparr>) (xs @ CR # cs) =
     parse expecting_newline_2 (r\<lparr>rq_headers := hs @ [\<lparr>h_name = n, h_value = v @ xs\<rparr>]\<rparr>) cs"
proof (induction xs arbitrary: v)
  case (Cons x xs)
  then have "x \<noteq> CR" by auto
  with Cons show ?case by (simp add: push_value_def)
qed simp

lemma parse_header:
  assumes "wf_header h"
  shows "parse header_line_start (r\<lparr>rq_headers := hs\<rparr>) (render_header h @ cs) =
           parse header_line_start (r\<lparr>rq_headers := hs @ [h]\<rparr>) cs"
proof -
  from assms obtain x xs where n: "h_name h = x # xs" by (cases "h_name h") (auto simp: wf_header_def)
  with assms have x: "token_char x" "\<forall>c \<in> set xs. token_char c" "\<forall>c \<in> set (h_value h). text_char c"
    by (auto simp: wf_header_def)
  then have "x \<noteq> CR" "x \<noteq> CHR '' ''" "x \<noteq> TAB" by auto
  with x(1) have "parse header_line_start (r\<lparr>rq_headers := hs\<rparr>) (render_header h @ cs) =
      parse header_name (r\<lparr>rq_headers := hs @ [\<lparr>h_name = [x], h_value = []\<rparr>]\<rparr>)
        (xs @ CHR '':'' # CHR '' '' # h_value h @ CR # LF # cs)"
    by (simp add: render_header_def n push_name_def)
  also have "\<dots> = parse header_line_start
      (r\<lparr>rq_headers := hs @ [\<lparr>h_name = x # xs, h_value = h_value h\<rparr>]\<rparr>) cs"
    using parse_name [OF x(2)] parse_value [OF x(3)] by simp
  also have "\<lparr>h_name = x # xs, h_value = h_value h\<rparr> = h" using n by (cases h) simp
  finally show ?thesis .
qed

lemma parse_headers:
  "\<forall>h \<in> set hs. wf_header h \<Longrightarrow>
     parse header_line_start (r\<lparr>rq_headers := hs0\<rparr>) (concat (map render_header hs) @ cs) =
     parse header_line_start (r\<lparr>rq_headers := hs0 @ hs\<rparr>) cs"
  by (induction hs arbitrary: hs0) (simp_all add: parse_header)

lemma parse_start_digits:
  assumes "\<forall>c \<in> set xs. is_digit (char_int c)" and "xs \<noteq> []"
  shows "parse version_major_start r (xs @ CHR ''.'' # cs) =
       parse version_minor_start (r\<lparr>http_version_major := foldl add_digit (http_version_major r) xs\<rparr>) cs"
    and "parse version_minor_start r (xs @ CR # cs) =
       parse expecting_newline_1 (r\<lparr>http_version_minor := foldl add_digit (http_version_minor r) xs\<rparr>) cs"
  using assms by (cases xs; simp add: parse_major parse_minor)+

lemma parse_rendered:
  assumes "wf_request r"
  shows "parse parser_start (new_request a b) (render_request r @ rest) =
           (Good, rest, expecting_newline_3, r)"
proof -
  from assms obtain x xs where m: "rq_method r = x # xs" "token_char x" "\<forall>c \<in> set xs. token_char c"
    by (cases "rq_method r") (auto simp: wf_request_def)
  have u: "\<forall>c \<in> set (rq_uri r). text_char c \<and> c \<noteq> CHR '' ''"
    and hs: "\<forall>h \<in> set (rq_headers r). wf_header h"
    using assms by (auto simp: wf_request_def)
  have d: "\<forall>c \<in> set (to_string n). is_digit (char_int c)" for n using to_string_digits by blast
  let ?v = "\<lambda>w. to_string (unat (w :: cint))"
  let ?hs = "concat (map render_header (rq_headers r)) @ CR # LF # rest"
  let ?r0 = "\<lparr>rq_method = rq_method r, rq_uri = rq_uri r, http_version_major = 0,
              http_version_minor = 0, rq_headers = []\<rparr>"
  have "parse parser_start (new_request a b) (render_request r @ rest) =
      parse version_major_start ?r0
        (?v (http_version_major r) @ CHR ''.'' # ?v (http_version_minor r) @ CR # LF # ?hs)"
    using m parse_method [OF m(3)] parse_uri [OF u]
    by (simp add: parser_start_def new_request_def render_request_def)
  also have "\<dots> = parse header_line_start (r\<lparr>rq_headers := []\<rparr>) ?hs"
    by (cases r) (simp add: parse_start_digits [OF d] fold_add_digit)
  also have "\<dots> = parse header_line_start r (CR # LF # rest)"
    using parse_headers [OF hs, where r = r and ?hs0.0 = "[]"] by simp
  finally show ?thesis by simp
qed

subsection \<open>Soundness\<close>

definition parser_inv :: "parser_state \<Rightarrow> request \<Rightarrow> bool" where
  "parser_inv s r \<longleftrightarrow> (s \<noteq> method_start \<longrightarrow> rq_method r \<noteq> []) \<and> list_all token_char (rq_method r) \<and>
     list_all (\<lambda>c. text_char c \<and> c \<noteq> CHR '' '') (rq_uri r) \<and> list_all wf_header (rq_headers r) \<and>
     (s \<in> {header_lws, header_name, space_before_header_value, header_value} \<longrightarrow> rq_headers r \<noteq> [])"

lemma not_text_char [simp]: "is_ctl (char_int c) \<longleftrightarrow> \<not> text_char c"
  by (simp add: text_char_def)

lemma wf_push [simp]:
  assumes "list_all wf_header (rq_headers r)" and "rq_headers r \<noteq> []"
  shows "token_char c \<Longrightarrow> list_all wf_header (rq_headers (push_name c r))"
    and "text_char c \<Longrightarrow> list_all wf_header (rq_headers (push_value c r))"
  using assms
  by (cases "rq_headers r" rule: rev_cases; auto simp: push_name_def push_value_def wf_header_def)+

lemma push_other [simp]:
  "rq_method (push_name c r) = rq_method r" "rq_uri (push_name c r) = rq_uri r" "rq_headers (push_name c r) \<noteq> []"
  "rq_method (push_value c r) = rq_method r" "rq_uri (push_value c r) = rq_uri r" "rq_headers (push_value c r) \<noteq> []"
  by (simp_all add: push_name_def push_value_def)

lemma wf_push_new [simp]:
  assumes "list_all wf_header (rq_headers r)" and "token_char c"
  shows "list_all wf_header
    (rq_headers (push_name c (r\<lparr>rq_headers := rq_headers r @ [\<lparr>h_name = [], h_value = []\<rparr>]\<rparr>)))"
  using assms by (simp add: push_name_def wf_header_def)

lemma token_charI [simp]: "text_char c \<Longrightarrow> is_char (char_int c) \<Longrightarrow> \<not> is_tspecial (char_int c) \<Longrightarrow> token_char c"
  unfolding token_char_def text_char_def by blast

lemma consume_inv:
  "parser_inv s r \<Longrightarrow> consume s r c = (res, s', r') \<Longrightarrow> parser_inv s' r'"
  apply (cases s; simp add: parser_inv_def split: if_split_asm)
  apply (elim conjE; hypsubst; simp; fail)+
  done

lemma parse_inv:
  "parse s r cs = (res, rest, s', r') \<Longrightarrow> parser_inv s r \<Longrightarrow> parser_inv s' r'"
proof (induction s r cs rule: parse.induct)
  case (2 s r c cs)
  obtain x t u where e: "consume s r c = (x, t, u)" by (metis prod_cases3)
  with 2 show ?case using consume_inv [OF _ e] by (cases x) auto
qed simp

subsection \<open>The end of a request\<close>

lemma consume_Good: "consume s r c = (Good, s', r') \<longleftrightarrow> s = expecting_newline_3 \<and> c = LF \<and> s' = s \<and> r' = r"
  by (cases s) auto

lemma consume_step:
  assumes "consume s r c = (Indeterminate, s', r')"
  shows "s' \<in> {expecting_newline_1, expecting_newline_2, expecting_newline_3} \<longleftrightarrow> c = CR"
    and "s' = header_line_start \<longleftrightarrow> c = LF"
    and "s' = expecting_newline_3 \<longleftrightarrow> s = header_line_start \<and> c = CR"
    and "c = LF \<longrightarrow> s \<in> {expecting_newline_1, expecting_newline_2}"
proof -
  consider "c = CR" | "c = LF" | "c \<noteq> CR" "c \<noteq> LF" by blast
  then have "(s' \<in> {expecting_newline_1, expecting_newline_2, expecting_newline_3} \<longleftrightarrow> c = CR) \<and>
    (s' = header_line_start \<longleftrightarrow> c = LF) \<and> (s' = expecting_newline_3 \<longleftrightarrow> s = header_line_start \<and> c = CR) \<and>
    (c = LF \<longrightarrow> s \<in> {expecting_newline_1, expecting_newline_2})"
    using assms by cases (cases s; simp split: if_split_asm; elim conjE; hypsubst; simp; fail)+
  then show "s' \<in> {expecting_newline_1, expecting_newline_2, expecting_newline_3} \<longleftrightarrow> c = CR"
    and "s' = header_line_start \<longleftrightarrow> c = LF"
    and "s' = expecting_newline_3 \<longleftrightarrow> s = header_line_start \<and> c = CR"
    and "c = LF \<longrightarrow> s \<in> {expecting_newline_1, expecting_newline_2}" by blast+
qed

definition read_so_far :: "string \<Rightarrow> parser_state \<Rightarrow> bool" where
  "read_so_far p s \<longleftrightarrow>
     (suffix [CR] p \<longleftrightarrow> s \<in> {expecting_newline_1, expecting_newline_2, expecting_newline_3}) \<and>
     (suffix [CR, LF] p \<longleftrightarrow> s = header_line_start) \<and> (suffix [CR, LF, CR] p \<longleftrightarrow> s = expecting_newline_3) \<and>
     \<not> sublist [CR, LF, CR, LF] p"

lemma suffixes_of_end:
  "suffix [CR] (p @ [c]) \<longleftrightarrow> c = CR"
  "suffix [CR, LF] (p @ [c]) \<longleftrightarrow> c = LF \<and> suffix [CR] p"
  "suffix [CR, LF, CR] (p @ [c]) \<longleftrightarrow> c = CR \<and> suffix [CR, LF] p"
  "suffix [CR, LF, CR, LF] (p @ [c]) \<longleftrightarrow> c = LF \<and> suffix [CR, LF, CR] p"
  using snoc_suffix_snoc [of "[]" CR p c] snoc_suffix_snoc [of "[CR]" LF p c]
    snoc_suffix_snoc [of "[CR, LF]" CR p c] snoc_suffix_snoc [of "[CR, LF, CR]" LF p c] by auto

lemma consume_read_so_far:
  assumes "consume s r c = (Indeterminate, s', r')" and "read_so_far p s"
  shows "read_so_far (p @ [c]) s'"
  using assms(2) consume_step [OF assms(1)]
  unfolding read_so_far_def sublist_snoc suffixes_of_end by (elim conjE) (cases s; auto)

lemma parse_read_so_far:
  assumes "parse s r cs = (Good, rest, s', r')" and "read_so_far p s"
  shows "\<exists>q. cs = q @ rest \<and> suffix [CR, LF, CR, LF] (p @ q) \<and> \<not> sublist [CR, LF, CR, LF] (butlast (p @ q))"
  using assms
proof (induction s r cs arbitrary: p rule: parse.induct)
  case (2 s r c cs)
  obtain x t u where e: "consume s r c = (x, t, u)" by (metis prod_cases3)
  show ?case
  proof (cases x)
    case Good
    then have "s = expecting_newline_3" "c = LF" "cs = rest" using e 2(2) by (auto simp: consume_Good)
    then show ?thesis using 2(3)
      by (intro exI [of _ "[c]"]) (simp add: read_so_far_def suffixes_of_end butlast_append del: suffix_snoc)
  next
    case Indeterminate
    then obtain q where "cs = q @ rest" "suffix [CR, LF, CR, LF] (p @ c # q)"
      "\<not> sublist [CR, LF, CR, LF] (butlast (p @ c # q))"
      using 2(1) [OF e [symmetric] Indeterminate refl, of "p @ [c]"] 2(2,3) e consume_read_so_far by auto
    then show ?thesis by (intro exI [of _ "c # q"]) simp
  qed (use e 2(2) in simp)
qed simp

lemma read_nothing: "read_so_far [] parser_start"
  by (simp add: read_so_far_def parser_start_def)

lemma parser_inv_new: "parser_inv parser_start (new_request a b)"
  by (simp add: parser_inv_def parser_start_def new_request_def)

lemma parse_Good_state: "parse s r cs = (Good, rest, s', r') \<Longrightarrow> s' = expecting_newline_3"
proof (induction s r cs rule: parse.induct)
  case (2 s r c cs)
  obtain x t u where e: "consume s r c = (x, t, u)" by (metis prod_cases3)
  with 2 show ?case by (cases x) (auto simp: consume_Good)
qed simp

subsection \<open>Properties\<close>

text \<open>C16. Every well-formed request, written out in the usual form, is accepted and read back
  exactly: method, URI, the two version numbers (in decimal, below 2^32) and all headers in
  order, and the bytes after its blank line are left unread.\<close>

theorem parse_roundtrip:
  assumes "wf_request r"
  shows "parse parser_start (new_request a b) (render_request r @ rest) =
           (Good, rest, expecting_newline_3, r)"
  by (rule parse_rendered [OF assms])

definition sample_request :: request where
  "sample_request = \<lparr>rq_method = ''GET'', rq_uri = ''/a'', http_version_major = 1,
     http_version_minor = 0, rq_headers = [\<lparr>h_name = ''Host'', h_value = ''b c''\<rparr>]\<rparr>"

theorem parse_roundtrip_witness:
  "wf_request sample_request \<and> parse parser_start (new_request 7 8) (render_request sample_request @ ''x'') =
     (Good, ''x'', expecting_newline_3, sample_request)"
proof -
  have "wf_request sample_request" by code_simp
  with parse_roundtrip [OF this, of 7 8 "''x''"] show ?thesis by blast
qed

text \<open>C17. Whatever the input, an accepted request is well-formed: a non-empty method of token
  characters, a URI without blanks and control characters, headers with non-empty token names
  and no control character in a value. So \<open>wf_request\<close> is exactly what the parser lets through,
  and each accepted request survives being written out and parsed again.\<close>

theorem parse_accepts_wf:
  assumes "parse parser_start (new_request a b) cs = (Good, rest, s, r)"
  shows "wf_request r \<and>
    parse parser_start (new_request a b) (render_request r) = (Good, [], expecting_newline_3, r)"
proof -
  from assms have "s \<noteq> method_start" using parse_Good_state by fastforce
  moreover have "parser_inv s r" using parse_inv [OF assms parser_inv_new] .
  ultimately have "wf_request r" by (simp add: parser_inv_def wf_request_def list_all_iff)
  with parse_rendered [OF this, of a b "[]"] show ?thesis by simp
qed

theorem parse_accepts_wf_witness:
  "\<exists>rest s r. parse parser_start (new_request 7 8) (''GET /a HTTP/01.1'' @ [CR, LF, CR, LF, CR]) = (Good, rest, s, r) \<and>
     wf_request r \<and> parse parser_start (new_request 7 8) (render_request r) = (Good, [], expecting_newline_3, r)"
proof -
  have "parse parser_start (new_request 7 8) (''GET /a HTTP/01.1'' @ [CR, LF, CR, LF, CR]) =
      (Good, [CR], expecting_newline_3, sample_request\<lparr>rq_headers := [], http_version_minor := 1\<rparr>)"
    by code_simp
  with parse_accepts_wf [OF this] show ?thesis by blast
qed

text \<open>An accepted request ends with the first blank line of the input: the bytes consumed
  end with CR LF CR LF, that sequence occurs nowhere before, and what follows is the rest.\<close>

theorem parse_stops_at_blank_line:
  assumes "parse parser_start (new_request a b) cs = (Good, rest, s, r)"
  shows "\<exists>q. cs = q @ rest \<and> suffix [CR, LF, CR, LF] q \<and> \<not> sublist [CR, LF, CR, LF] (butlast q)"
  using parse_read_so_far [OF assms read_nothing] by simp

theorem parse_stops_at_blank_line_witness:
  "\<exists>q. ''GET / HTTP/1.1'' @ [CR, LF, CR, LF, CR] = q @ [CR] \<and> suffix [CR, LF, CR, LF] q \<and>
     \<not> sublist [CR, LF, CR, LF] (butlast q)"
proof -
  have "parse parser_start (new_request 7 8) (''GET / HTTP/1.1'' @ [CR, LF, CR, LF, CR]) =
      (Good, [CR], expecting_newline_3,
       sample_request\<lparr>rq_uri := ''/'', rq_headers := [], http_version_minor := 1\<rparr>)"
    by code_simp
  from parse_stops_at_blank_line [OF this] show ?thesis .
qed

end
