(* ===== verification/Asio_Handler_Correct.thy ===== *)
theory Asio_Handler_Correct
  imports Asio_Handler Asio_Request_Correct
begin

text \<open>
  What the request handler answers: percent-encoded text is decoded exactly, a file under the
  document root is served whole with its type, nothing outside the root is opened, and every
  reply is framed so that a client finds its headers and its body.
\<close>

subsection \<open>Decoding\<close>

definition hex_char :: "nat \<Rightarrow> char" where
  "hex_char d = (if d < 10 then char_of (48 + d) else char_of (55 + d))"

definition percent :: "char \<Rightarrow> string" where
  "percent c = [CHR ''%'', hex_char (of_char c div 16), hex_char (of_char c mod 16)]"

definition url_encode :: "(char \<Rightarrow> bool) \<Rightarrow> string \<Rightarrow> string" where
  "url_encode safe s = concat (map (\<lambda>c. if safe c then [c] else percent c) s)"

lemma hex_value_hex_char: "d < 16 \<Longrightarrow> hex_value (hex_char d) = Some d"
  by (auto simp: hex_value_def hex_char_def Let_def)

lemma not_hex: "hex_value (CHR ''+'') = None" "hex_value (CHR ''-'') = None" "hex_value (CHR ''x'') = None"
  "hex_value (CHR ''X'') = None" "is_space c \<Longrightarrow> hex_value c = None"
  by (auto simp: hex_value_def Let_def is_space_def)

lemma extract_hex_digits:
  assumes "hex_value a = Some m" and "hex_value b = Some n"
  shows "extract_hex [a, b] = Some (int m * 16 + int n)"
proof -
  have "\<not> is_space a" using assms(1) not_hex(5) [of a] by (cases "is_space a") simp_all
  moreover have "a \<noteq> CHR ''+''" "a \<noteq> CHR ''-''" using assms(1) not_hex(1,2) by (metis option.distinct(1))+
  moreover have "b \<noteq> CHR ''x''" "b \<noteq> CHR ''X''" using assms(2) not_hex(3,4) by (metis option.distinct(1))+
  ultimately show ?thesis using assms by (simp add: extract_hex_def hex_number_def)
qed

lemma extract_hex_percent: "extract_hex (tl (percent c)) = Some (of_char c)"
proof -
  have "(of_char c :: nat) div 16 < 16" using nat_of_char_less_256 [of c] by linarith
  then have "extract_hex (tl (percent c)) =
      Some (int (of_char c div 16) * 16 + int ((of_char c :: nat) mod 16))"
    unfolding percent_def list.sel by (intro extract_hex_digits hex_value_hex_char) simp_all
  also have "int (of_char c div 16) * 16 + int ((of_char c :: nat) mod 16) = int (of_char c)"
    using div_mult_mod_eq [of "of_char c :: nat" 16] by linarith
  finally show ?thesis by (simp only: of_nat_of_char)
qed

lemma url_decode_percent [simp]:
  "url_decode_from (percent c @ s) out = url_decode_from s (out @ [c])"
  using extract_hex_percent [of c] by (simp add: percent_def)

lemma url_decode_encode:
  assumes "\<And>c. safe c \<Longrightarrow> c \<noteq> CHR ''%'' \<and> c \<noteq> CHR ''+''"
  shows "url_decode_from (url_encode safe s @ t) out = url_decode_from t (out @ s)"
  by (induction s arbitrary: out) (auto simp: url_encode_def dest: assms)

subsection \<open>Files\<close>

lemma append_blocks_good: "good i \<Longrightarrow> append_blocks i s = s @ rest i"
proof (induction i s rule: append_blocks.induct)
  case (1 i s)
  show ?case
  proof (cases "512 \<le> length (rest i)")
    case True
    then have "rest i \<noteq> []" by auto
    from True have "append_blocks i s = append_blocks (i\<lparr>rest := drop 512 (rest i)\<rparr>) (s @ take 512 (rest i))"
      using 1(2) by (subst append_blocks.simps) (auto simp: stream_read_def Let_def)
    also have "\<dots> = (s @ take 512 (rest i)) @ drop 512 (rest i)"
      using 1 True \<open>rest i \<noteq> []\<close> by (simp add: stream_read_def good_def)
    finally show ?thesis by simp
  next
    case False
    have stop: "append_blocks (j\<lparr>failbit := True\<rparr>) u = u" for j u
      by (subst append_blocks.simps) (simp add: stream_read_def good_def)
    from False show ?thesis
      using 1(2) stop [of "i\<lparr>rest := [], eofbit := True\<rparr>"]
      by (subst append_blocks.simps) (simp add: stream_read_def Let_def)
  qed
qed

lemma append_blocks_open [simp]: "append_blocks (open_stream s) t = t @ s"
  by (simp add: append_blocks_good good_def open_stream_def)

lemma find_last_append:
  "find_last c (s @ t) = (case find_last c t of Some i \<Rightarrow> Some (length s + i) | None \<Rightarrow> find_last c s)"
  by (induction s) (auto split: option.splits)

lemma find_last_None: "find_last c s = None \<longleftrightarrow> c \<notin> set s"
  by (induction s) (auto split: option.splits)

lemma file_extension_path:
  assumes "CHR ''/'' \<notin> set n" and "CHR ''/'' \<notin> set e" and "CHR ''.'' \<notin> set e"
  shows "file_extension (d @ CHR ''/'' # n @ CHR ''.'' # e) = e"
proof -
  have "find_last (CHR ''.'') e = None" "find_last (CHR ''/'') n = None" "find_last (CHR ''/'') e = None"
    using assms by (simp_all add: find_last_None)
  then show ?thesis by (simp add: file_extension_def find_last_append)
qed

lemma c_str_no_NUL: "CHR 0x00 \<notin> set s \<Longrightarrow> c_str s = s" "CHR 0x00 \<notin> set s \<Longrightarrow> c_str (s @ CHR 0x00 # t) = s"
  by (auto simp: c_str_def takeWhile_append)

lemma no_dotdot_c_str: "\<not> sublist pat s \<Longrightarrow> \<not> sublist pat (c_str s)"
  unfolding c_str_def
  by (meson prefix_imp_sublist sublist_order.order_trans takeWhile_is_prefix)

definition new_reply :: "status_type \<Rightarrow> reply" where
  "new_reply s = \<lparr>rp_status = s, rp_headers = [], rp_content = []\<rparr>"

definition file_reply :: "string \<Rightarrow> string \<Rightarrow> reply" where
  "file_reply content type =
     \<lparr>rp_status = ok,
      rp_headers = [\<lparr>h_name = ''Content-Length'', h_value = to_string (length content)\<rparr>,
                    \<lparr>h_name = ''Content-Type'', h_value = type\<rparr>],
      rp_content = content\<rparr>"

lemma handle_request_file:
  assumes "url_decode (rq_uri req) = (True, p)" and "hd p = CHR ''/''" and "p \<noteq> []"
    and "\<not> sublist ''..'' p" and "last p \<noteq> CHR ''/''" and "readable fs (c_str (root @ p)) = Some s"
  shows "handle_request fs root req (new_reply st) = file_reply s (extension_to_type (file_extension p))"
  using assms by (simp add: handle_request_def string_find_None [symmetric] file_reply_def new_reply_def Let_def)

subsection \<open>Framing\<close>

lemma concat_to_buffers:
  "concat (to_buffers r) =
     status_line (rp_status r) @ concat (map render_header (rp_headers r)) @ [CR, LF] @ rp_content r"
proof -
  have "concat (concat (map (\<lambda>h. [h_name h, name_value_separator, h_value h, crlf]) hs)) =
      concat (map render_header hs)" for hs
    by (induction hs) (simp_all add: render_header_def name_value_separator_def crlf_def)
  then show ?thesis by (simp add: to_buffers_def crlf_def)
qed

lemma digit_is_text: "is_digit (char_int c) \<Longrightarrow> text_char c"
  by (auto simp: text_char_def is_digit_def is_ctl_def char_int_of_code simp del: not_text_char)

lemma find_in_set: "find P xs = Some x \<Longrightarrow> x \<in> set xs"
  by (auto simp: find_Some_iff)

lemma type_is_text: "list_all text_char (extension_to_type e)"
proof (cases "find (\<lambda>m. fst m = e) mappings")
  case (Some m)
  have "list_all (\<lambda>m. list_all text_char (snd m)) mappings" by code_simp
  then show ?thesis using find_in_set [OF Some] by (simp add: extension_to_type_def Some list_all_iff)
next
  case None
  have "list_all text_char ''text/plain''" by code_simp
  then show ?thesis by (simp only: extension_to_type_def None option.case)
qed

lemma header_names: "list_all token_char ''Content-Length''" "list_all token_char ''Content-Type''"
  "list_all text_char ''text/html''"
  by code_simp+

lemma wf_file_headers:
  assumes "\<forall>c \<in> set type. text_char c"
  shows "\<forall>h \<in> set (rp_headers (file_reply s type)). wf_header h"
  using assms header_names to_string_digits [THEN digit_is_text]
  by (auto simp: file_reply_def wf_header_def list_all_iff)

lemma wf_stock_headers: "\<forall>h \<in> set (rp_headers (stock_reply s)). wf_header h"
  using header_names to_string_digits [THEN digit_is_text]
  by (auto simp: stock_reply_def wf_header_def list_all_iff)

definition framed :: "reply \<Rightarrow> bool" where
  "framed r \<longleftrightarrow>
     (\<exists>t h. concat (to_buffers r) = status_line (rp_status r) @ t \<and>
        (\<forall>q. parse header_line_start (q\<lparr>rq_headers := []\<rparr>) t =
           (Good, rp_content r, expecting_newline_3, q\<lparr>rq_headers := rp_headers r\<rparr>)) \<and>
        rp_headers r = [\<lparr>h_name = ''Content-Length'', h_value = to_string (length (rp_content r))\<rparr>,
                        \<lparr>h_name = ''Content-Type'', h_value = h\<rparr>])"

lemma framedI:
  assumes "\<forall>h \<in> set (rp_headers r). wf_header h"
    and "rp_headers r = [\<lparr>h_name = ''Content-Length'', h_value = to_string (length (rp_content r))\<rparr>,
                         \<lparr>h_name = ''Content-Type'', h_value = h\<rparr>]"
  shows "framed r"
  unfolding framed_def
proof (intro exI conjI allI)
  show "concat (to_buffers r) =
      status_line (rp_status r) @ concat (map render_header (rp_headers r)) @ [CR, LF] @ rp_content r"
    by (rule concat_to_buffers)
  fix q :: request
  show "parse header_line_start (q\<lparr>rq_headers := []\<rparr>)
      (concat (map render_header (rp_headers r)) @ [CR, LF] @ rp_content r) =
      (Good, rp_content r, expecting_newline_3, q\<lparr>rq_headers := rp_headers r\<rparr>)"
    using parse_headers [OF assms(1), where r = q and ?hs0.0 = "[]"] by simp
qed (rule assms(2))

lemma no_dotdot_index:
  assumes "\<not> sublist ''..'' q" and "last q = CHR ''/''" and "q \<noteq> []"
  shows "\<not> sublist ''..'' (q @ ''index.html'')"
proof
  have n: "\<not> suffix xs q" if "xs \<noteq> []" "last xs = CHR ''.''" for xs
    using that assms(2) by (auto simp: suffix_def)
  assume "sublist ''..'' (q @ ''index.html'')"
  moreover have "\<not> sublist ''..'' ''index.html''" by (simp add: sublist_Cons_right)
  ultimately obtain xs ys where x: "''..'' = xs @ ys" "suffix xs q" "prefix ys ''index.html''"
    using assms(1) unfolding sublist_append by blast
  have "xs \<noteq> []" using x(1,3) by auto
  moreover have "last xs = CHR ''.''" using x(1) \<open>xs \<noteq> []\<close>
    by (metis Un_iff empty_iff empty_set insert_iff last_in_set list.simps(15) set_append)
  ultimately show False using n x(2) by blast
qed

lemma handle_request_cases:
  obtains s where "handle_request fs root req (new_reply st) = stock_reply s" "s \<in> {bad_request, not_found}"
    | p s e where "handle_request fs root req (new_reply st) = file_reply s (extension_to_type e)"
      "readable fs (c_str (root @ p)) = Some s" "hd p = CHR ''/''" "p \<noteq> []" "\<not> sublist ''..'' p"
proof -
  obtain b q where d: "url_decode (rq_uri req) = (b, q)" by fastforce
  let ?p = "if last q = CHR ''/'' then q @ ''index.html'' else q"
  show thesis
  proof (cases "b \<and> q \<noteq> [] \<and> hd q = CHR ''/'' \<and> \<not> sublist ''..'' q")
    case False
    then have "handle_request fs root req (new_reply st) = stock_reply bad_request"
      using d by (cases b) (simp_all add: handle_request_def string_find_None)
    then show ?thesis using that(1) by blast
  next
    case True
    then have 2: b "q \<noteq> []" "hd q = CHR ''/''" "\<not> sublist ''..'' q" by simp_all
    have n: "\<not> sublist ''..'' ?p" using 2 no_dotdot_index by simp
    show ?thesis
    proof (cases "readable fs (c_str (root @ ?p))")
      case None
      then have "handle_request fs root req (new_reply st) = stock_reply not_found"
        using d 2 by (simp add: handle_request_def string_find_None [symmetric] Let_def)
      then show ?thesis using that(1) by blast
    next
      case (Some s)
      then have "handle_request fs root req (new_reply st) = file_reply s (extension_to_type (file_extension ?p))"
        using d 2 by (simp add: handle_request_def string_find_None [symmetric] file_reply_def new_reply_def Let_def)
      then show ?thesis using that(2) Some n 2 by (cases "last q = CHR ''/''") auto
    qed
  qed
qed

subsection \<open>Properties\<close>

text \<open>Decoding undoes percent-encoding: whatever bytes a text has and whichever of them were
  left as they are (except percent and plus, which have a meaning of their own), the decoder
  succeeds with the text.\<close>

theorem url_decode_roundtrip:
  assumes "\<And>c. safe c \<Longrightarrow> c \<noteq> CHR ''%'' \<and> c \<noteq> CHR ''+''"
  shows "url_decode (url_encode safe s) = (True, s)"
  using url_decode_encode [OF assms, of safe s "[]" "[]"] by (simp add: url_decode_def)

definition lower_case :: "char \<Rightarrow> bool" where
  "lower_case c \<longleftrightarrow> c \<in> set ''abcdefghijklmnopqrstuvwxyz/.''"

lemma lower_case_safe: "lower_case c \<Longrightarrow> c \<noteq> CHR ''%'' \<and> c \<noteq> CHR ''+''"
  by (auto simp: lower_case_def)

theorem url_decode_roundtrip_witness:
  "url_encode lower_case ''/a b+%'' = ''/a%20b%2B%25'' \<and>
     url_decode (url_encode lower_case ''/a b+%'') = (True, ''/a b+%'')"
proof
  show "url_encode lower_case ''/a b+%'' = ''/a%20b%2B%25''" by code_simp
qed (rule url_decode_roundtrip [OF lower_case_safe])

text \<open>A file is served: when the decoded path starts with a slash, has no two dots in a row
  and no NUL byte, and the document root followed by it can be opened, the answer to the encoded
  path is the whole file with status 200, its length, and the type of the path's extension.\<close>

theorem handle_request_serves:
  assumes "\<And>c. safe c \<Longrightarrow> c \<noteq> CHR ''%'' \<and> c \<noteq> CHR ''+''"
    and "rq_uri req = url_encode safe (d @ CHR ''/'' # n @ CHR ''.'' # e)"
    and "hd (d @ ''/'') = CHR ''/''" and "\<not> sublist ''..'' (d @ CHR ''/'' # n @ CHR ''.'' # e)"
    and "CHR ''/'' \<notin> set n" "CHR ''/'' \<notin> set e" "CHR ''.'' \<notin> set e"
    and "CHR 0x00 \<notin> set (root @ d @ CHR ''/'' # n @ CHR ''.'' # e)"
    and "readable fs (root @ d @ CHR ''/'' # n @ CHR ''.'' # e) = Some s"
  shows "handle_request fs root req (new_reply st) = file_reply s (extension_to_type e)"
proof -
  let ?p = "d @ CHR ''/'' # n @ CHR ''.'' # e"
  have "url_decode (rq_uri req) = (True, ?p)"
    using url_decode_encode [OF assms(1), of safe ?p "[]" "[]"] assms(2) by (simp add: url_decode_def)
  moreover have "hd ?p = CHR ''/''" using assms(3) by (cases d) auto
  moreover have "last ?p \<noteq> CHR ''/''" using assms(6) by (cases e rule: rev_cases) auto
  moreover have "readable fs (c_str (root @ ?p)) = Some s" using assms(8,9) by (simp add: c_str_no_NUL)
  ultimately have "handle_request fs root req (new_reply st) = file_reply s (extension_to_type (file_extension ?p))"
    using assms(4) by (intro handle_request_file) simp_all
  then show ?thesis using file_extension_path [OF assms(5-7)] by simp
qed

definition www :: filesys where
  "www = \<lparr>readable = [''w/a b.html'' \<mapsto> ''<p>''], creatable = (\<lambda>_. False)\<rparr>"

definition uri_request :: "string \<Rightarrow> request" where
  "uri_request u = (new_request 1 0)\<lparr>rq_method := ''GET'', rq_uri := u\<rparr>"

theorem handle_request_serves_witness:
  "handle_request www ''w'' (uri_request (url_encode lower_case ''/a b.html'')) (new_reply ok) =
     file_reply ''<p>'' ''text/html''"
proof -
  have "readable www ''w/a b.html'' = Some ''<p>''" "\<not> sublist ''..'' ''/a b.html''"
    "extension_to_type ''html'' = ''text/html''" by code_simp+
  with handle_request_serves [OF lower_case_safe,
      where req = "uri_request (url_encode lower_case ''/a b.html'')" and d = "[]" and n = "''a b''"
        and e = "''html''" and root = "''w''" and fs = www and s = "''<p>''" and st = ok]
  show ?thesis by (simp add: uri_request_def)
qed

text \<open>C19. Nothing else is served: a reply with status 200 carries the content of the file named by
  the document root followed by a path that starts with a slash and has no two dots in a row,
  so no path climbs out of the root; and any other reply is one of two stock replies.\<close>

theorem handle_request_confined:
  "rp_status (handle_request fs root req (new_reply st)) = ok \<and>
     (\<exists>p. hd p = CHR ''/'' \<and> \<not> sublist ''..'' p \<and>
        readable fs (c_str (root @ p)) = Some (rp_content (handle_request fs root req (new_reply st)))) \<or>
   handle_request fs root req (new_reply st) \<in> {stock_reply bad_request, stock_reply not_found}"
proof (cases rule: handle_request_cases [of fs root req st])
  case (2 p s e)
  then show ?thesis by (intro disjI1) (auto simp: file_reply_def)
qed auto

text \<open>C15. Every reply of the handler is framed: after the status line a client that reads headers
  by the rules of the request parser finds exactly the two headers of the reply, no file content
  and no request can add one, then the blank line, and then as many bytes as Content-Length says.\<close>

theorem reply_framed: "framed (handle_request fs root req (new_reply st)) \<and> framed (stock_reply s)"
proof
  show stock: "framed (stock_reply s)" for s
    by (rule framedI [OF wf_stock_headers]) (simp add: stock_reply_def)
  show "framed (handle_request fs root req (new_reply st))"
  proof (cases rule: handle_request_cases [of fs root req st])
    case (2 p s e)
    have "framed (file_reply s (extension_to_type e))"
      by (rule framedI [OF wf_file_headers])
        (use type_is_text in \<open>auto simp: file_reply_def list_all_iff\<close>)
    then show ?thesis by (simp add: 2)
  qed (simp add: stock)
qed

text \<open>The path opened ends at an encoded NUL byte but the extension does not: a file is served
  with the type the client asks for, by adding percent-00, a dot and an extension.\<close>

theorem handle_request_nul:
  assumes "\<And>c. safe c \<Longrightarrow> c \<noteq> CHR ''%'' \<and> c \<noteq> CHR ''+''"
    and "rq_uri req = url_encode safe (d @ CHR ''/'' # n @ CHR 0x00 # CHR ''.'' # e)"
    and "hd (d @ ''/'') = CHR ''/''" and "\<not> sublist ''..'' (d @ CHR ''/'' # n @ CHR 0x00 # CHR ''.'' # e)"
    and "CHR ''/'' \<notin> set n" "CHR ''/'' \<notin> set e" "CHR ''.'' \<notin> set e"
    and "CHR 0x00 \<notin> set (root @ d @ CHR ''/'' # n)"
    and "readable fs (root @ d @ CHR ''/'' # n) = Some s"
  shows "handle_request fs root req (new_reply st) = file_reply s (extension_to_type e)"
proof -
  let ?p = "d @ CHR ''/'' # (n @ [CHR 0x00]) @ CHR ''.'' # e"
  have "url_decode (rq_uri req) = (True, ?p)"
    using url_decode_encode [OF assms(1), of safe ?p "[]" "[]"] assms(2) by (simp add: url_decode_def)
  moreover have "hd ?p = CHR ''/''" using assms(3) by (cases d) auto
  moreover have "last ?p \<noteq> CHR ''/''" using assms(6) by (cases e rule: rev_cases) auto
  moreover have "c_str (root @ ?p) = root @ d @ CHR ''/'' # n"
    using c_str_no_NUL(2) [OF assms(8), of "CHR ''.'' # e"] by simp
  ultimately have "handle_request fs root req (new_reply st) = file_reply s (extension_to_type (file_extension ?p))"
    using assms(4,9) by (intro handle_request_file) simp_all
  moreover have "file_extension ?p = e" by (rule file_extension_path) (use assms(5-7) in simp_all)
  ultimately show ?thesis by simp
qed

theorem handle_request_nul_witness:
  "handle_request www ''w'' (uri_request (url_encode lower_case (''/a b.html'' @ [CHR 0x00] @ ''.png'')))
     (new_reply ok) = file_reply ''<p>'' ''image/png''"
proof -
  have "readable www ''w/a b.html'' = Some ''<p>''" "extension_to_type ''png'' = ''image/png''"
    "\<not> sublist ''..'' (CHR ''/'' # ''a b.html'' @ CHR 0x00 # ''.png'')" by code_simp+
  with handle_request_nul [OF lower_case_safe,
      where req = "uri_request (url_encode lower_case (''/a b.html'' @ [CHR 0x00] @ ''.png''))" and d = "[]"
        and n = "''a b.html''" and e = "''png''" and root = "''w''" and fs = www and s = "''<p>''" and st = ok]
  show ?thesis by (simp add: uri_request_def)
qed

text \<open>The extraction of a number in base 16 takes more than two hexadecimal digits: a sign, a
  blank or one digit followed by anything.\<close>

lemma url_decode_lenient:
  "url_decode ''%+1'' = (True, [CHR 0x01])" "url_decode ''%-1'' = (True, [CHR 0xFF])"
  "url_decode ''% 1'' = (True, [CHR 0x01])" "url_decode ''%1g'' = (True, [CHR 0x01])"
  by code_simp+

end
