(* ===== verification/Asio_Server_Properties.thy ===== *)
theory Asio_Server_Properties
  imports Asio_Server Asio_Handler_Correct
begin

text \<open>
  The HTTP server as a machine of completion handlers: what a client is answered depends on the
  bytes it sent alone, the registry of connections is exact, and a signal stops everything.
\<close>

subsection \<open>What a client is answered\<close>

definition http_answer :: "filesys \<Rightarrow> string \<Rightarrow> string \<Rightarrow> string list option" where
  "http_answer fs doc_root input =
     (case parse parser_start (new_request 0 0) input of
        (Good, _, _, r) \<Rightarrow> Some (to_buffers (handle_request fs doc_root r (new_reply ok)))
      | (Bad, _, _, _) \<Rightarrow> Some (to_buffers (stock_reply bad_request))
      | _ \<Rightarrow> None)"

text \<open>The version numbers a request starts with make no difference.\<close>

definition strip :: "request \<Rightarrow> request" where
  "strip r = r\<lparr>http_version_major := 0, http_version_minor := 0\<rparr>"

lemma strip_eq:
  "strip r = strip q \<longleftrightarrow> rq_method r = rq_method q \<and> rq_uri r = rq_uri q \<and> rq_headers r = rq_headers q"
  by (cases r; cases q) (auto simp: strip_def)

definition same_step :: "result_type \<times> parser_state \<times> request \<Rightarrow> result_type \<times> parser_state \<times> request \<Rightarrow> bool" where
  "same_step x y \<longleftrightarrow> fst x = fst y \<and> fst (snd x) = fst (snd y) \<and> strip (snd (snd x)) = strip (snd (snd y))"

lemma same_step_pair: "same_step (a, b, r) (c, d, q) \<longleftrightarrow> a = c \<and> b = d \<and> strip r = strip q"
  by (simp add: same_step_def)

lemma consume_strip:
  assumes "rq_method r = rq_method q" "rq_uri r = rq_uri q" "rq_headers r = rq_headers q"
  shows "same_step (consume s r c) (consume s q c)"
  using assms by (cases s) (simp_all add: same_step_pair strip_eq push_name_def push_value_def)

lemma parse_strip:
  "strip r = strip q \<Longrightarrow> parse s r cs = (x, left, t, r') \<Longrightarrow> \<exists>q'. parse s q cs = (x, left, t, q') \<and> strip r' = strip q'"
proof (induction cs arbitrary: s r q)
  case (Cons c cs)
  obtain y t1 r1 where r: "consume s r c = (y, t1, r1)" by (metis prod_cases3)
  obtain q1 where q: "consume s q c = (y, t1, q1)" "strip r1 = strip q1"
    using consume_strip [of r q s c] Cons.prems(1) r
    by (cases "consume s q c") (auto simp: strip_eq same_step_pair)
  show ?case using Cons.IH [OF q(2)] Cons.prems(2) r q by (cases y) auto
qed auto

lemma rp_content_new [simp]: "rp_content (new_reply st) = []"
  by (simp add: new_reply_def)

lemma handle_request_strip:
  "strip r = strip q \<Longrightarrow> handle_request fs root r (new_reply st) = handle_request fs root q (new_reply ok)"
  by (simp only: strip_eq handle_request_def rp_content_new)

subsection \<open>Invariant\<close>

definition conn_inv :: "filesys \<Rightarrow> string \<Rightarrow> connection \<Rightarrow> bool" where
  "conn_inv fs root c \<longleftrightarrow>
     cn_sent c = http_answer fs root (cn_received c) \<and>
     (cn_sent c = None \<longrightarrow> (\<exists>st. cn_reply c = new_reply st) \<and>
        (\<exists>a b. parse parser_start (new_request a b) (cn_received c) = (Indeterminate, [], cn_parser c, cn_request c))) \<and>
     (\<forall>f. cn_pending c = Some (Write_op, f) \<longrightarrow> cn_sent c \<noteq> None) \<and>
     (\<forall>f. cn_pending c = Some (Read_op, f) \<longrightarrow> cn_sent c = None)"

definition http_inv :: "filesys \<Rightarrow> string \<Rightarrow> http_server \<Rightarrow> bool" where
  "http_inv fs root s \<longleftrightarrow>
     (\<forall>i < accepted_so_far s. conn_inv fs root (conn s i)) \<and>
     (\<forall>i. i \<in> connections s \<longleftrightarrow> cn_open (conn s i)) \<and>
     (\<forall>i. cn_open (conn s i) \<longrightarrow> cn_pending (conn s i) \<noteq> None) \<and>
     (\<forall>i. cn_pending (conn s i) \<noteq> None \<longrightarrow> i < accepted_so_far s) \<and>
     (acceptor_open s \<longleftrightarrow> signal_pending s) \<and> (acceptor_open s \<longrightarrow> accept_pending s) \<and>
     (\<not> acceptor_open s \<longrightarrow> connections s = {})"

lemma http_answer_Nil [simp]: "http_answer fs root [] = None"
  by (simp add: http_answer_def)

lemma conn_inv_new: "conn_inv fs root (do_read (new_connection a b st))"
  by (auto simp: conn_inv_def do_read_def new_connection_def new_reply_def)

lemma parse_Indeterminate_rest: "parse s r cs = (Indeterminate, left, t, q) \<Longrightarrow> left = []"
proof (induction s r cs rule: parse.induct)
  case (2 s r c cs)
  obtain x t u where e: "consume s r c = (x, t, u)" by (metis prod_cases3)
  with 2 show ?case by (cases x) auto
qed simp

lemma do_read_simps [simp]:
  "cn_open (do_read c) = cn_open c" "cn_pending (do_read c) = Some (Read_op, cn_open c)"
  "cn_open (new_connection a b st)"
  by (simp_all add: do_read_def new_connection_def)

text \<open>A read that succeeds, in all three outcomes of the parser.\<close>

definition read_conn :: "filesys \<Rightarrow> string \<Rightarrow> string \<Rightarrow> connection \<Rightarrow> connection" where
  "read_conn fs root bytes c0 =
     (let c = c0\<lparr>cn_pending := None, cn_received := cn_received c0 @ bytes\<rparr> in
      case parse (cn_parser c) (cn_request c) bytes of
        (Good, _, p, r) \<Rightarrow> do_write (c\<lparr>cn_parser := p, cn_request := r, cn_reply := handle_request fs root r (cn_reply c)\<rparr>)
      | (Bad, _, p, r) \<Rightarrow> do_write (c\<lparr>cn_parser := p, cn_request := r, cn_reply := stock_reply bad_request\<rparr>)
      | (Indeterminate, _, p, r) \<Rightarrow> do_read (c\<lparr>cn_parser := p, cn_request := r\<rparr>))"

lemma on_read_Success: "on_read fs root i Success bytes s = on_conn i (read_conn fs root bytes) s"
  by (auto simp: on_read_def read_conn_def on_conn_def Let_def split: prod.splits result_type.splits)

lemma http_answer_append:
  assumes "parse parser_start (new_request a b) input = (Indeterminate, [], p, r)"
  shows "http_answer fs root (input @ bytes) =
     (case parse p r bytes of
        (Good, _, _, q) \<Rightarrow> Some (to_buffers (handle_request fs root q (new_reply st)))
      | (Bad, _, _, _) \<Rightarrow> Some (to_buffers (stock_reply bad_request))
      | _ \<Rightarrow> None)"
proof -
  obtain x left t q where p: "parse parser_start (new_request a b) (input @ bytes) = (x, left, t, q)"
    by (metis prod_cases4)
  moreover have "strip (new_request a b) = strip (new_request 0 0)" by (simp add: strip_eq new_request_def)
  ultimately obtain q' where q: "parse parser_start (new_request 0 0) (input @ bytes) = (x, left, t, q')" "strip q = strip q'"
    using parse_strip by blast
  have "parse p r bytes = (x, left, t, q)" using p assms by (simp add: parse_append_lemma)
  with q(1) show ?thesis
    using handle_request_strip [OF q(2), of fs root st] by (cases x) (simp_all add: http_answer_def)
qed

lemma conn_inv_read:
  assumes "conn_inv fs root c" and "cn_pending c = Some (Read_op, f)"
  shows "conn_inv fs root (read_conn fs root bytes c)"
proof -
  obtain a b st where c: "cn_reply c = new_reply st" "cn_sent c = None"
    "parse parser_start (new_request a b) (cn_received c) = (Indeterminate, [], cn_parser c, cn_request c)"
    using assms by (auto simp: conn_inv_def)
  obtain x left t q where p: "parse (cn_parser c) (cn_request c) bytes = (x, left, t, q)"
    by (metis prod_cases4)
  have n: "parse parser_start (new_request a b) (cn_received c @ bytes) = (x, left, t, q)"
    using c(3) p by (simp add: parse_append_lemma)
  note a = http_answer_append [OF c(3), of fs root bytes st, unfolded p]
  show ?thesis
  proof (cases x)
    case Indeterminate
    then have "left = []" using p parse_Indeterminate_rest by blast
    with Indeterminate a n c(1,2) show ?thesis
      by (simp add: conn_inv_def read_conn_def do_read_def p) blast
  qed (use a c(1) in \<open>simp_all add: conn_inv_def read_conn_def do_write_def p Let_def\<close>)
qed

lemma read_conn_simps:
  shows read_conn_open [simp]: "cn_open (read_conn fs root bytes c) = cn_open c"
    and "\<exists>p. cn_pending (read_conn fs root bytes c) = Some (p, cn_open c)"
  by (auto simp: read_conn_def do_read_def do_write_def Let_def split: prod.split result_type.split)

lemma read_conn_pending: "cn_pending (read_conn fs root bytes c) \<noteq> None"
  using read_conn_simps(2) [of fs root bytes c] by force

lemma conn_on_conn [simp]: "conn (on_conn i f s) j = (if j = i then f (conn s i) else conn s j)"
  by (simp add: on_conn_def)

lemma on_conn_frame [simp]:
  "connections (on_conn i f s) = connections s" "accepted_so_far (on_conn i f s) = accepted_so_far s"
  "acceptor_open (on_conn i f s) = acceptor_open s" "accept_pending (on_conn i f s) = accept_pending s"
  "signal_pending (on_conn i f s) = signal_pending s"
  by (simp_all add: on_conn_def)

text \<open>A connection that is stopped, or whose pending operation is over, keeps its invariant.\<close>

lemma conn_inv_stop: "conn_inv fs root c \<Longrightarrow>
    conn_inv fs root (c\<lparr>cn_pending := None, cn_open := b, cn_shutdown := d\<rparr>)"
  by (auto simp: conn_inv_def)

lemma conn_inv_open [simp]: "conn_inv fs root (c\<lparr>cn_open := b\<rparr>) = conn_inv fs root c"
  by (simp add: conn_inv_def)

lemmas server_simps = manager_stop_def manager_start_def manager_stop_all_def conn_stop_def

definition finish :: "nat \<Rightarrow> bool \<Rightarrow> bool \<Rightarrow> http_server \<Rightarrow> http_server" where
  "finish i b d s = (on_conn i (\<lambda>c. c\<lparr>cn_pending := None, cn_open := b, cn_shutdown := d\<rparr>) s)
     \<lparr>connections := connections s - {i}\<rparr>"

lemma conn_update_same [simp]: "c\<lparr>cn_received := cn_received c\<rparr> = c" for c :: connection
  by simp

lemma on_read_fails:
  assumes "err \<noteq> Success" and "err = Operation_aborted \<Longrightarrow> \<not> cn_open (conn s i) \<and> i \<notin> connections s"
  shows "on_read fs root i err [] s = finish i False (cn_shutdown (conn s i)) s"
  using assms
  by (cases err; intro http_server.equality; auto simp: on_read_def finish_def server_simps Let_def fun_eq_iff
      intro!: connection.equality)

lemma on_write_over:
  assumes "err = Operation_aborted \<Longrightarrow> \<not> cn_open (conn s i) \<and> i \<notin> connections s"
  shows "on_write i err s = finish i False (cn_shutdown (conn s i) \<or> err = Success) s"
  using assms
  by (cases err; intro http_server.equality; auto simp: on_write_def finish_def server_simps Let_def fun_eq_iff
      intro!: connection.equality)

lemma http_inv_finish: "http_inv fs root s \<Longrightarrow> http_inv fs root (finish i False d s)"
  unfolding http_inv_def finish_def by (auto intro: conn_inv_stop)

lemma http_inv_step:
  assumes "http_inv fs root s" and "http_step fs root s t"
  shows "http_inv fs root t"
  using assms(2)
proof (cases rule: http_step.cases)
  case (read_done i err bytes)
  note c = assms(1) [unfolded http_inv_def]
  show ?thesis
  proof (cases "err = Success")
    case True
    obtain f where f: "cn_pending (conn s i) = Some (Read_op, f)" "i < accepted_so_far s"
      using read_done(2) c by (auto simp: may_complete_def)
    then have "conn_inv fs root (read_conn fs root bytes (conn s i))"
      using c by (intro conn_inv_read) auto
    then show ?thesis
      using c f True read_conn_simps(2) [of fs root bytes "conn s i"]
      by (auto simp: read_done(1) http_inv_def on_read_Success)
  next
    case False
    then have "t = finish i False (cn_shutdown (conn s i)) s"
      using read_done c by (auto simp: may_complete_def intro!: on_read_fails)
    then show ?thesis using http_inv_finish [OF assms(1)] by simp
  qed
next
  case (write_done i err)
  then have "t = finish i False (cn_shutdown (conn s i) \<or> err = Success) s"
    using assms(1) by (auto simp: may_complete_def http_inv_def intro!: on_write_over)
  then show ?thesis using http_inv_finish [OF assms(1)] by simp
next
  case (accept_done a b st err)
  then show ?thesis using assms(1) conn_inv_new [of fs root a b st]
    by (auto simp: http_inv_def on_accept_def server_simps less_Suc_eq Let_def)
next
  case signal_done
  then show ?thesis using assms(1)
    by (auto simp: http_inv_def on_signal_def server_simps)
qed

lemma http_inv_init: "http_init s \<Longrightarrow> http_inv fs root s"
  by (auto simp: http_init_def http_inv_def)

lemma reachable_inv: "http_reachable fs root s \<Longrightarrow> http_inv fs root s"
  by (induction rule: http_reachable.induct) (auto intro: http_inv_init http_inv_step)

subsection \<open>The end of a run\<close>

text \<open>How many more handlers of a connection can run once its socket is closed.\<close>

definition weight :: "connection \<Rightarrow> nat" where
  "weight c = (case cn_pending c of None \<Rightarrow> 0 | Some (_, started_open) \<Rightarrow> if started_open then 2 else 1)"

definition drain :: "http_server \<Rightarrow> nat" where
  "drain s = (\<Sum>i < accepted_so_far s. weight (conn s i)) + of_bool (accept_pending s)"

lemma drain_less:
  assumes "i < accepted_so_far s" and "weight (conn t i) < weight (conn s i)"
    and "\<And>j. j \<noteq> i \<Longrightarrow> conn t j = conn s j" and "accepted_so_far t = accepted_so_far s"
    and "accept_pending t = accept_pending s"
  shows "drain t < drain s"
proof -
  have "(\<Sum>j < accepted_so_far s. weight (conn t j)) < (\<Sum>j < accepted_so_far s. weight (conn s j))"
  proof (rule sum_strict_mono_ex1)
    show "\<forall>j \<in> {..< accepted_so_far s}. weight (conn t j) \<le> weight (conn s j)"
      using assms(2,3) by (metis less_imp_le order_refl)
  qed (use assms(1,2) in auto)
  then show ?thesis using assms(4,5) by (simp add: drain_def)
qed

lemma drain_le: "drain s \<le> 2 * accepted_so_far s + 1"
proof -
  have "weight c \<le> 2" for c by (auto simp: weight_def split: option.split)
  then have "(\<Sum>i < accepted_so_far s. weight (conn s i)) \<le> (\<Sum>i < accepted_so_far s. 2)"
    by (intro sum_mono)
  then show ?thesis by (simp add: drain_def)
qed

lemma finish_frame [simp]:
  "accepted_so_far (finish i b d s) = accepted_so_far s" "acceptor_open (finish i b d s) = acceptor_open s"
  "accept_pending (finish i b d s) = accept_pending s"
  "conn (finish i b d s) j =
     (if j = i then (conn s i)\<lparr>cn_pending := None, cn_open := b, cn_shutdown := d\<rparr> else conn s j)"
  by (simp_all add: finish_def)

lemma closed_step:
  assumes "http_inv fs root s" and "http_step fs root s t" and "\<not> acceptor_open s"
  shows "\<not> acceptor_open t \<and> accepted_so_far t = accepted_so_far s \<and> drain t < drain s"
proof -
  note c = assms(1) [unfolded http_inv_def]
  have closed: "\<not> cn_open (conn s i) \<and> i \<notin> connections s" for i using c assms(3) by auto
  have known: "i < accepted_so_far s" if "cn_pending (conn s i) = Some (p, f)" for i p f
    using c that by (metis option.distinct(1))
  have fin: "drain (finish i False d s) < drain s" if "cn_pending (conn s i) = Some (p, f)" for i p f d
    using known [OF that] that by (intro drain_less [of i]) (simp_all add: weight_def)
  show ?thesis
    using assms(2)
  proof (cases rule: http_step.cases)
    case (read_done i err bytes)
    then obtain f where f: "cn_pending (conn s i) = Some (Read_op, f)" "err = Success \<longrightarrow> f"
      by (auto simp: may_complete_def)
    show ?thesis
    proof (cases "err = Success")
      case True
      obtain q where "cn_pending (read_conn fs root bytes (conn s i)) = Some (q, False)"
        using read_conn_simps(2) [of fs root bytes "conn s i"] closed by auto
      then have "drain t < drain s"
        unfolding read_done(1) True on_read_Success
        using known [OF f(1)] f True by (intro drain_less [of i]) (simp_all add: weight_def)
      then show ?thesis using assms(3) by (simp add: read_done(1) True on_read_Success)
    next
      case False
      then have "t = finish i False (cn_shutdown (conn s i)) s"
        using read_done closed by (auto intro!: on_read_fails)
      then show ?thesis using fin [OF f(1)] assms(3) by simp
    qed
  next
    case (write_done i err)
    then obtain f where "cn_pending (conn s i) = Some (Write_op, f)" by (auto simp: may_complete_def)
    moreover have "t = finish i False (cn_shutdown (conn s i) \<or> err = Success) s"
      using write_done closed by (auto intro!: on_write_over)
    ultimately show ?thesis using fin assms(3) by simp
  next
    case (accept_done a b st err)
    then show ?thesis using assms(3) by (simp add: on_accept_def drain_def)
  next
    case signal_done
    then show ?thesis using c assms(3) by simp
  qed
qed

text \<open>A run of \<open>n\<close> handlers.\<close>

inductive http_run :: "filesys \<Rightarrow> string \<Rightarrow> nat \<Rightarrow> http_server \<Rightarrow> http_server \<Rightarrow> bool" for fs doc_root where
  none: "http_run fs doc_root 0 s s"
| next_one: "http_run fs doc_root n s t \<Longrightarrow> http_step fs doc_root t u \<Longrightarrow> http_run fs doc_root (Suc n) s u"

lemma closed_run:
  assumes "http_run fs root n s t" and "http_inv fs root s" and "\<not> acceptor_open s"
  shows "http_inv fs root t \<and> \<not> acceptor_open t \<and> accepted_so_far t = accepted_so_far s \<and>
    drain t + n \<le> drain s"
  using assms
proof (induction rule: http_run.induct)
  case (next_one n s t u)
  then have t: "http_inv fs root t" "\<not> acceptor_open t" "accepted_so_far t = accepted_so_far s"
    "drain t + n \<le> drain s" by auto
  then show ?case using closed_step [OF t(1) next_one(2) t(2)] http_inv_step [OF t(1) next_one(2)] by auto
qed simp

lemma pending_steps:
  assumes "cn_pending (conn s i) = Some (p, f)"
  shows "\<exists>t. http_step fs root s t"
proof (cases p)
  case Read_op
  then have "may_complete (conn s i) Read_op Other_error" using assms by (auto simp: may_complete_def)
  then have "http_step fs root s (on_read fs root i Other_error [] s)" by (rule http_step.read_done) simp_all
  then show ?thesis by blast
next
  case Write_op
  then have "may_complete (conn s i) Write_op Other_error" using assms by (auto simp: may_complete_def)
  then show ?thesis using http_step.write_done by blast
qed

subsection \<open>Properties\<close>

text \<open>C18. What a connection sends is a function of the bytes it has received, however they were cut
  into reads and whatever happened on other connections: nothing while the request is not
  complete, else the handler's reply to the request, or the stock reply 400.\<close>

theorem answer_determined:
  assumes "http_reachable fs root s" and "i < accepted_so_far s"
  shows "cn_sent (conn s i) = http_answer fs root (cn_received (conn s i))"
  using reachable_inv [OF assms(1)] assms(2) by (simp add: http_inv_def conn_inv_def)

definition booted :: http_server where
  "booted = \<lparr>acceptor_open = True, accept_pending = True, signal_pending = True, connections = {},
     conn = (\<lambda>_. (new_connection 0 0 ok)\<lparr>cn_open := False\<rparr>), accepted_so_far = 0\<rparr>"

definition one_client :: http_server where "one_client = on_accept 0 0 ok Success booted"

lemma one_client:
  "http_reachable fs root one_client" "accepted_so_far one_client = 1" "acceptor_open one_client"
  "conn one_client 0 = do_read (new_connection 0 0 ok)" "connections one_client = {0}" "signal_pending one_client"
proof -
  have "http_init booted" by (simp add: http_init_def booted_def new_connection_def)
  moreover have "http_step fs root booted one_client"
    unfolding one_client_def by (rule http_step.accept_done) (simp add: booted_def)
  ultimately show "http_reachable fs root one_client" by (rule http_reachable.more [OF http_reachable.boot])
qed (simp_all add: one_client_def booted_def on_accept_def server_simps)

theorem answer_determined_witness:
  "cn_sent (conn (on_read www ''w'' 0 Success ''?'' one_client) 0) = Some (to_buffers (stock_reply bad_request))"
proof -
  let ?t = "on_read www ''w'' 0 Success ''?'' one_client"
  have "may_complete (conn one_client 0) Read_op Success"
    by (auto simp: one_client may_complete_def)
  then have "http_reachable www ''w'' ?t"
    by (intro http_reachable.more [OF one_client(1)] http_step.read_done) simp_all
  moreover have "accepted_so_far ?t = 1" by (simp add: on_read_Success one_client)
  moreover have "cn_received (conn ?t 0) = ''?''"
    by (simp add: on_read_Success one_client read_conn_def do_read_def do_write_def new_connection_def Let_def
        split: prod.split result_type.split)
  moreover have "fst (parse parser_start (new_request 0 0) ''?'') = Bad" by code_simp
  ultimately show ?thesis
    using answer_determined [of www "''w''" ?t 0] by (auto simp: http_answer_def split: prod.splits)
qed

text \<open>C21. The registry is exact: a connection is registered exactly while its socket is open, and
  then one of its operations is pending, so none is forgotten; the acceptor is waiting for
  connections while it is open, and once it is closed nothing is registered.\<close>

theorem registry_exact:
  assumes "http_reachable fs root s"
  shows "(i \<in> connections s \<longleftrightarrow> cn_open (conn s i)) \<and> (cn_open (conn s i) \<longrightarrow> cn_pending (conn s i) \<noteq> None) \<and>
    (acceptor_open s \<longrightarrow> accept_pending s) \<and> (\<not> acceptor_open s \<longrightarrow> connections s = {})"
  using reachable_inv [OF assms] by (simp add: http_inv_def)

theorem registry_exact_witness:
  "acceptor_open one_client \<and> accept_pending one_client \<and> 0 \<in> connections one_client \<and>
   cn_open (conn one_client 0) \<and> cn_pending (conn one_client 0) \<noteq> None"
  using registry_exact [OF one_client(1) [of www "''w''"], of 0] one_client by simp

text \<open>C22. A signal ends the server: after it at most two handlers per connection and the accept
  handler run, no connection is accepted, and when no handler is left to run no operation is
  pending, so \<open>io_context::run\<close> returns.\<close>

theorem shutdown_terminates:
  assumes "http_reachable fs root s" and "\<not> acceptor_open s" and "http_run fs root n s t"
  shows "n \<le> 2 * accepted_so_far s + 1 \<and> accepted_so_far t = accepted_so_far s \<and>
    ((\<nexists>u. http_step fs root t u) \<longrightarrow>
       \<not> accept_pending t \<and> \<not> signal_pending t \<and> (\<forall>i. cn_pending (conn t i) = None))"
proof (intro conjI impI allI)
  note r = closed_run [OF assms(3) reachable_inv [OF assms(1)] assms(2)]
  show "n \<le> 2 * accepted_so_far s + 1" using r drain_le [of s] by simp
  show "accepted_so_far t = accepted_so_far s" using r by simp
  assume stuck: "\<nexists>u. http_step fs root t u"
  show "\<not> accept_pending t" and "\<not> signal_pending t" using stuck http_step.accept_done http_step.signal_done by blast+
  show "cn_pending (conn t i) = None" for i using stuck pending_steps [of t i] by (cases "cn_pending (conn t i)") (simp, metis prod.exhaust)
qed

theorem shutdown_terminates_witness:
  "\<exists>t. http_run www ''w'' 1 (on_signal one_client) t \<and> accepted_so_far t = 1 \<and> (1 :: nat) \<le> 2 * 1 + 1"
proof -
  let ?s = "on_signal one_client" and ?t = "on_read www ''w'' 0 Operation_aborted [] (on_signal one_client)"
  have "http_step www ''w'' one_client ?s" by (rule http_step.signal_done) (simp add: one_client)
  then have r: "http_reachable www ''w'' ?s" by (rule http_reachable.more [OF one_client(1)])
  have s: "\<not> acceptor_open ?s" "accepted_so_far ?s = 1"
    by (simp_all add: on_signal_def server_simps one_client)
  have "may_complete (conn ?s 0) Read_op Operation_aborted"
    by (auto simp: on_signal_def server_simps one_client may_complete_def)
  then have "http_step www ''w'' ?s ?t" by (rule http_step.read_done) simp_all
  then have "http_run www ''w'' 1 ?s ?t" using http_run.next_one [OF http_run.none] by simp
  with shutdown_terminates [OF r s(1) this] s(2) show ?thesis by auto
qed

end
