(* ===== verification/Http_Client_Properties.thy ===== *)
theory Http_Client_Properties
  imports Http_Client Asio_Server_Properties
begin

text \<open>
  The HTTP clients and the HTTP server together: the server accepts what the clients send, and both clients print its reply, in
  whatever pieces it comes. A reply is its status line, lines of headers, a blank line and the content.
\<close>

subsection \<open>Delimiters\<close>

definition header_text :: "string list \<Rightarrow> string" where
  "header_text ls = concat (map (\<lambda>l. l @ eol) ls)"

definition header_line :: "string \<Rightarrow> bool" where
  "header_line l \<longleftrightarrow> l \<noteq> [] \<and> CHR 0x0D \<notin> set l \<and> NL \<notin> set l"

lemma longer_prefix:
  assumes "prefix r (a @ t)" "\<not> length r < length a"
  obtains t' where "r = a @ t'"
  using prefix_length_prefix [of a "a @ t" r] assms that by (auto simp: prefix_def)

lemma no_eol: "NL \<notin> set r \<Longrightarrow> string_find r eol = None"
  by (auto simp: string_find_None dest: set_mono_sublist)

lemma eol_found: "string_find (l @ eol @ r) eol \<noteq> None"
  by (simp only: string_find_None sublist_appendI not_not)

lemma blank_found: "string_find (header_text ls @ eol @ r) (eol @ eol) \<noteq> None" if "ls \<noteq> []"
proof -
  have "header_text ls = header_text (butlast ls) @ last ls @ eol"
    using that by (cases ls rule: rev_cases) (auto simp: header_text_def)
  then have "header_text ls @ eol @ r = (header_text (butlast ls) @ last ls) @ (eol @ eol) @ r" by simp
  then show ?thesis by (metis string_find_None sublist_appendI)
qed

lemma strict_prefix_of_line:
  assumes "length r < length (l @ eol)" "prefix r (l @ eol @ t)" "NL \<notin> set l"
  shows "NL \<notin> set r"
proof -
  have "prefix r (l @ [CHR 0x0D])"
    using assms(1,2) prefix_length_prefix [of r "l @ eol @ t" "l @ [CHR 0x0D]"] by simp
  then show ?thesis using assms(3) by (auto dest: set_mono_prefix)
qed

lemma header_text_Cons: "header_text (l # ls) = l @ eol @ header_text ls"
  by (simp add: header_text_def)

lemma two_split: "[a, b] = x @ y \<Longrightarrow> (x = [] \<and> y = [a, b]) \<or> (x = [a] \<and> y = [b]) \<or> (x = [a, b] \<and> y = [])"
  by (cases x; cases "tl x") auto

lemma header_text_no_CR:
  assumes "\<forall>l \<in> set ls. header_line l"
  shows "\<not> sublist [NL, CHR 0x0D] (header_text ls)"
  using assms
proof (induction ls)
  case Nil
  then show ?case by (simp add: header_text_def)
next
  case (Cons l ls)
  have l: "NL \<notin> set l" "l \<noteq> []" using Cons.prems by (auto simp: header_line_def)
  have start: "\<not> prefix [CHR 0x0D] (header_text ls)"
    using Cons.prems by (cases ls) (auto simp: header_text_def header_line_def prefix_Cons Cons_eq_append_conv neq_Nil_conv)
  have "\<not> sublist [NL, CHR 0x0D] ((l @ [CHR 0x0D]) @ [NL])"
  proof
    assume "sublist [NL, CHR 0x0D] ((l @ [CHR 0x0D]) @ [NL])"
    then obtain p q where e: "(l @ [CHR 0x0D]) @ [NL] = p @ [NL, CHR 0x0D] @ q" by (auto simp: sublist_def)
    then have "NL \<in> set (butlast ((l @ [CHR 0x0D]) @ [NL]))" by (cases q rule: rev_cases) (auto simp: butlast_append)
    then show False using l by (simp add: butlast_append)
  qed
  then have front: "\<not> sublist [NL, CHR 0x0D] (l @ eol)" by simp
  show ?case
  proof
    assume "sublist [NL, CHR 0x0D] (header_text (l # ls))"
    then have "sublist [NL, CHR 0x0D] ((l @ eol) @ header_text ls)" by (simp add: header_text_Cons)
    note parts = iffD1 [OF sublist_append this]
    have tail: "\<not> sublist [NL, CHR 0x0D] (header_text ls)" using Cons.IH Cons.prems by simp
    obtain x y where xy: "[NL, CHR 0x0D] = x @ y" "suffix x (l @ eol)" "prefix y (header_text ls)"
      using parts front tail by blast
    consider "x = []" "y = [NL, CHR 0x0D]" | "x = [NL]" "y = [CHR 0x0D]" | "x = [NL, CHR 0x0D]" "y = []"
      using two_split [OF xy(1)] by blast
    then show False
    proof cases
      case 1
      then show False using xy tail prefix_imp_sublist by blast
    next
      case 2
      then show False using xy start by simp
    next
      case 3
      then show False using xy front suffix_imp_sublist by blast
    qed
  qed
qed

lemma blank_not_found:
  assumes "\<forall>l \<in> set ls. header_line l" "length r < length (header_text ls @ eol)" "prefix r (header_text ls @ eol @ t)"
  shows "string_find r (eol @ eol) = None"
proof -
  have p: "prefix r (header_text ls @ [CHR 0x0D])"
    using assms(2,3) prefix_length_prefix [of r "header_text ls @ eol @ t" "header_text ls @ [CHR 0x0D]"] by simp
  have "\<not> sublist (eol @ eol) (header_text ls @ [CHR 0x0D])"
  proof
    assume "sublist (eol @ eol) (header_text ls @ [CHR 0x0D])"
    then obtain a b where e: "header_text ls @ [CHR 0x0D] = a @ (eol @ eol) @ b" by (auto simp: sublist_def)
    then have "b \<noteq> []" by auto
    then obtain b' where "b = b' @ [CHR 0x0D]" using e by (metis append_butlast_last_id last_append last_snoc append_is_Nil_conv)
    then have "header_text ls = (a @ [CHR 0x0D]) @ [NL, CHR 0x0D] @ ([NL] @ b')" using e by simp
    then show False using header_text_no_CR [OF assms(1)] by (metis sublist_appendI)
  qed
  then show ?thesis using p by (meson prefix_imp_sublist string_find_None sublist_order.order_trans)
qed

subsection \<open>Reading status line and headers\<close>

lemma read_status_line_server: "read_status_line (open_stream (status_line st @ r)) u = (open_stream r, ''HTTP/1.0'', status_number st)"
  by (cases st)
    (simp_all add: read_status_line_def extract_word_def sentry_def good_def open_stream_def is_space_def extract_unsigned_def
      starts_with_digit_def base_digit_def hex_value_def getline_def Let_def)

lemma header_loop_text:
  assumes "\<forall>l \<in> set ls. header_line l"
  shows "header_loop (open_stream (header_text ls @ eol @ b)) out = (open_stream b, out @ header_text ls)"
  using assms
proof (induction ls arbitrary: out)
  case Nil
  have "getline (open_stream (eol @ b)) [] = (open_stream b, [CHR 0x0D])"
    using getline_line [of "open_stream (eol @ b)" "[CHR 0x0D]" b] by (simp add: open_stream_def good_def)
  then show ?case by (subst header_loop.simps) (simp add: header_text_def open_stream_def)
next
  case (Cons l ls)
  have l: "l \<noteq> []" "NL \<notin> set (l @ [CHR 0x0D])" using Cons.prems by (auto simp: header_line_def)
  have "getline (open_stream (header_text (l # ls) @ eol @ b)) [] = (open_stream (header_text ls @ eol @ b), l @ [CHR 0x0D])"
    using getline_line [of "open_stream (header_text (l # ls) @ eol @ b)" "l @ [CHR 0x0D]" "header_text ls @ eol @ b"] l
    by (simp add: open_stream_def good_def header_text_Cons)
  then have "header_loop (open_stream (header_text (l # ls) @ eol @ b)) out =
      header_loop (open_stream (header_text ls @ eol @ b)) (out @ l @ eol)"
    using l by (subst header_loop.simps) (simp add: open_stream_def)
  then show ?case using Cons by (simp add: header_text_Cons)
qed

subsection \<open>The asynchronous client\<close>

text \<open>A response: the status, the lines of the headers, the content; and the client that has received a part of it.\<close>

definition response_text :: "status_type \<Rightarrow> string list \<Rightarrow> string \<Rightarrow> string" where
  "response_text st ls b = status_line st @ header_text ls @ eol @ b"

definition printed_response :: "status_type \<Rightarrow> string list \<Rightarrow> string \<Rightarrow> string" where
  "printed_response st ls b =
     (if st = ok then header_text ls @ [NL] @ b
      else ''Response returned with status code '' @ to_string (status_number st) @ [NL])"

definition after_headers :: "string list \<Rightarrow> string \<Rightarrow> http_client \<Rightarrow> http_client" where
  "after_headers ls h c =
     (if length h < length (header_text ls @ eol) then c\<lparr>fetch_pending := Some Reading_headers, response_buf := h\<rparr>
      else c\<lparr>fetch_pending := Some Reading_content, response_buf := [],
             stdout := stdout c @ header_text ls @ [NL] @ drop (length (header_text ls @ eol)) h\<rparr>)"

definition after_bytes :: "status_type \<Rightarrow> string list \<Rightarrow> string \<Rightarrow> http_client \<Rightarrow> http_client" where
  "after_bytes st ls r c =
     (if length r < length (status_line st) then c\<lparr>fetch_pending := Some Reading_status_line, response_buf := r\<rparr>
      else if st = ok then after_headers ls (drop (length (status_line st)) r) c
      else c\<lparr>fetch_pending := None, response_buf := drop (length (status_line st)) r,
             stdout := stdout c @ printed_response st ls []\<rparr>)"

lemma status_lines: "\<exists>l. status_line st = l @ eol \<and> NL \<notin> set l"
proof (intro exI conjI)
  show "status_line st = butlast (butlast (status_line st)) @ eol" by (cases st) simp_all
  show "NL \<notin> set (butlast (butlast (status_line st)))" by (cases st) simp_all
qed

lemma status_ok: "status_number st = 200 \<longleftrightarrow> st = ok"
  by (cases st) simp_all

lemma open_stream_simps [simp]: "rest (open_stream s) = s" "failbit (open_stream s) = False"
  by (simp_all add: open_stream_def)

lemma handle_status_server:
  "handle_read_status_line u None (c\<lparr>response_buf := status_line st @ h\<rparr>) =
     (if st = ok then start_op Reading_headers (c\<lparr>response_buf := h\<rparr>)
      else say (printed_response st ls []) (c\<lparr>response_buf := h\<rparr>))"
  using status_ok [of st]
  by (auto simp: handle_read_status_line_def read_status_line_server printed_response_def Let_def simp del: status_line.simps)

lemma handle_headers_server:
  assumes "\<forall>l \<in> set ls. header_line l"
  shows "handle_read_headers None (c\<lparr>response_buf := header_text ls @ eol @ b\<rparr>) =
    c\<lparr>fetch_pending := Some Reading_content, response_buf := [], stdout := stdout c @ header_text ls @ [NL] @ b\<rparr>"
  using header_loop_text [OF assms, of b "[]"]
  by (cases b) (simp_all add: handle_read_headers_def Let_def say_def say_response_def start_op_def)

lemma response_then_pending:
  "c\<lparr>response_buf := h, fetch_pending := p\<rparr> = c\<lparr>fetch_pending := p, response_buf := h\<rparr>"
  by simp

lemma headers_ready:
  assumes "\<forall>l \<in> set ls. header_line l" "ls \<noteq> []" "prefix h (header_text ls @ eol @ b)"
  shows "read_until_done u (c\<lparr>fetch_pending := Some Reading_headers, response_buf := h\<rparr>) = after_headers ls h c"
proof (cases "length h < length (header_text ls @ eol)")
  case True
  then have "string_find h (eol @ eol) = None" using blank_not_found [OF assms(1) _ assms(3)] by blast
  then show ?thesis using True by (simp add: read_until_done_def after_headers_def)
next
  case False
  then obtain b' where h: "h = header_text ls @ eol @ b'" using assms(3) longer_prefix [of h "header_text ls @ eol" b] by auto
  have "read_until_done u (c\<lparr>fetch_pending := Some Reading_headers, response_buf := h\<rparr>) =
      handle_read_headers None ((c\<lparr>fetch_pending := None\<rparr>)\<lparr>response_buf := h\<rparr>)"
    using blank_found [OF assms(2), of b', folded h] by (simp add: read_until_done_def response_then_pending)
  also have "\<dots> = after_headers ls h c"
    unfolding h handle_headers_server [OF assms(1)] using False by (simp add: after_headers_def h)
  finally show ?thesis .
qed

lemma status_ready:
  assumes "\<forall>l \<in> set ls. header_line l" "ls \<noteq> []" "prefix r (response_text st ls b)"
  shows "read_until_done u (read_until_done u (c\<lparr>fetch_pending := Some Reading_status_line, response_buf := r\<rparr>)) = after_bytes st ls r c"
proof -
  obtain l where l: "status_line st = l @ eol" "NL \<notin> set l" using status_lines by blast
  show ?thesis
  proof (cases "length r < length (status_line st)")
    case True
    then have "NL \<notin> set r" using strict_prefix_of_line [of r l "header_text ls @ eol @ b"] assms(3) l by (simp add: response_text_def)
    then show ?thesis using True by (simp add: read_until_done_def after_bytes_def no_eol)
  next
    case False
    then obtain h where r: "r = status_line st @ h" using assms(3) longer_prefix unfolding response_text_def by blast
    have h: "prefix h (header_text ls @ eol @ b)" using assms(3) by (simp add: r response_text_def)
    have "read_until_done u (c\<lparr>fetch_pending := Some Reading_status_line, response_buf := r\<rparr>) =
        handle_read_status_line u None ((c\<lparr>fetch_pending := None\<rparr>)\<lparr>response_buf := status_line st @ h\<rparr>)"
      using eol_found [of l h] by (simp add: read_until_done_def r l response_then_pending)
    then have step: "read_until_done u (c\<lparr>fetch_pending := Some Reading_status_line, response_buf := r\<rparr>) =
        (if st = ok then c\<lparr>fetch_pending := Some Reading_headers, response_buf := h\<rparr>
         else c\<lparr>fetch_pending := None, response_buf := h, stdout := stdout c @ printed_response st ls []\<rparr>)"
      unfolding handle_status_server [where ls = ls] by (simp add: start_op_def say_def)
    show ?thesis
    proof (cases "st = ok")
      case True
      then show ?thesis using step headers_ready [OF assms(1,2) h, of u c] by (simp add: r after_bytes_def)
    next
      case False
      then show ?thesis using step by (simp add: r after_bytes_def read_until_done_def)
    qed
  qed
qed

text \<open>Every further piece brings the client to where it would be after all the bytes at once.\<close>

lemma after_headers_more:
  assumes "\<forall>l \<in> set ls. header_line l" "ls \<noteq> []" "prefix (h @ p) (header_text ls @ eol @ b)"
  shows "fetch_step u (Arrived p) (after_headers ls h c) = after_headers ls (h @ p) c"
proof (cases "length h < length (header_text ls @ eol)")
  case True
  have "read_until_done u ((c\<lparr>fetch_pending := Some Reading_headers, response_buf := h\<rparr>)\<lparr>response_buf := h @ p\<rparr>) = after_headers ls (h @ p) c"
    using headers_ready [OF assms, of u c] by simp
  then show ?thesis using True by (simp add: after_headers_def)
next
  case False
  then show ?thesis by (simp add: after_headers_def handle_read_content_def say_response_def say_def start_op_def)
qed

text \<open>A client that has given up does not take the pieces that are still coming.\<close>

definition reached :: "status_type \<Rightarrow> string list \<Rightarrow> string \<Rightarrow> http_client \<Rightarrow> http_client \<Rightarrow> bool" where
  "reached st ls r c d \<longleftrightarrow>
     d = after_bytes st ls r c \<or>
     (st \<noteq> ok \<and> length (status_line st) \<le> length r \<and> (\<exists>x. d = (after_bytes st ls r c)\<lparr>response_buf := x\<rparr>))"

lemma reached_more:
  assumes "\<forall>l \<in> set ls. header_line l" "ls \<noteq> []" "prefix (r @ p) (response_text st ls b)" "reached st ls r c d"
  shows "reached st ls (r @ p) c (fetch_step u (Arrived p) d)"
proof (cases "length r < length (status_line st)")
  case True
  have "read_until_done u (read_until_done u ((c\<lparr>fetch_pending := Some Reading_status_line, response_buf := r\<rparr>)\<lparr>response_buf := r @ p\<rparr>)) =
      after_bytes st ls (r @ p) c"
    using status_ready [OF assms(1-3), of u c] by simp
  then show ?thesis using True assms(4) by (auto simp: reached_def after_bytes_def)
next
  case False
  have "prefix r (status_line st @ header_text ls @ eol @ b)"
    using assms(3) append_prefixD unfolding response_text_def by blast
  then obtain h where r: "r = status_line st @ h" using False longer_prefix by blast
  have h: "prefix (h @ p) (header_text ls @ eol @ b)" using assms(3) by (simp add: r response_text_def)
  show ?thesis
  proof (cases "st = ok")
    case True
    then have "after_bytes st ls (r @ x) c = after_headers ls (h @ x) c" for x by (simp add: after_bytes_def r)
    then show ?thesis
      using after_headers_more [OF assms(1,2) h, of u c] assms(4) True unfolding reached_def
      by (metis append_Nil2)
  next
    case False
    have "d = (after_bytes st ls r c)\<lparr>response_buf := response_buf d\<rparr>"
      using assms(4) by (auto simp: reached_def)
    moreover have e: "(after_bytes st ls r c)\<lparr>response_buf := x\<rparr> = (after_bytes st ls (r @ p) c)\<lparr>response_buf := x\<rparr>" for x
      using False by (simp add: after_bytes_def r)
    moreover have "fetch_pending ((after_bytes st ls r c)\<lparr>response_buf := x\<rparr>) = None" for x
      using False by (simp add: after_bytes_def r)
    ultimately have d: "d = (after_bytes st ls (r @ p) c)\<lparr>response_buf := response_buf d\<rparr>" "fetch_pending d = None"
      by metis+
    then have "fetch_step u (Arrived p) d = d" by simp
    then show ?thesis using False d(1) unfolding reached_def r by auto
  qed
qed

lemma after_all_pieces:
  assumes "\<forall>l \<in> set ls. header_line l" "ls \<noteq> []" "r @ concat ps = response_text st ls b" "reached st ls r c d"
  shows "reached st ls (response_text st ls b) c (fold (fetch_step u) (map Arrived ps) d)"
  using assms(3,4)
proof (induction ps arbitrary: r d)
  case (Cons p ps)
  have "prefix (r @ p) (response_text st ls b)" using Cons.prems by (metis append_assoc concat.simps(2) prefixI)
  note next_state = reached_more [OF assms(1,2) this Cons.prems(2), of u]
  have "(r @ p) @ concat ps = response_text st ls b" using Cons.prems by simp
  from Cons.IH [OF this next_state] show ?case by (simp only: list.map fold_simps)
qed simp

lemma fetch_response:
  assumes "\<forall>l \<in> set ls. header_line l" "ls \<noteq> []" "concat ps = response_text st ls b"
    and d_def: "d = fetch_run u ([Resolved None, Connected None, Written None] @ map Arrived ps @ [Ended End_of_file]) (new_http_client server path)"
  shows "fetch_pending d = None" "request_sent d = request_text server path" "stdout d = printed_response st ls b"
proof -
  define c where "c = \<lparr>fetch_pending = Some Reading_status_line, request_buf = [], response_buf = [], request_sent = request_text server path, stdout = []\<rparr>"
  have "fetch_run u [Resolved None, Connected None, Written None] (new_http_client server path) = c"
    by (simp add: fetch_run_def new_http_client_def handle_resolve_def handle_http_connect_def handle_write_request_def start_op_def c_def)
  then have d: "d = fetch_step u (Ended End_of_file) (fold (fetch_step u) (map Arrived ps) c)"
    by (simp add: d_def fetch_run_def)
  have "reached st ls [] c c" by (cases st) (simp_all add: reached_def after_bytes_def c_def)
  from after_all_pieces [OF assms(1,2) _ this, of ps b u] assms(3)
  have "reached st ls (response_text st ls b) c (fold (fetch_step u) (map Arrived ps) c)" by simp
  then show "fetch_pending d = None" "request_sent d = request_text server path" "stdout d = printed_response st ls b"
    by (auto simp: d reached_def after_bytes_def after_headers_def response_text_def handle_read_content_def printed_response_def c_def)
qed

subsection \<open>The synchronous client\<close>

lemma until_found:
  assumes "buf @ concat ps = pre @ delim @ t"
    and "\<And>r. length r < length (pre @ delim) \<Longrightarrow> prefix r (pre @ delim @ t) \<Longrightarrow> string_find r delim = None"
  obtains t' ps' where "sync_read_until delim buf ps = (pre @ delim @ t', ps', True)" "t' @ concat ps' = t"
  using assms(1)
proof (induction ps arbitrary: buf thesis)
  case Nil
  have "string_find (pre @ delim @ t) delim \<noteq> None" by (simp only: string_find_None sublist_appendI not_not)
  then show ?case using Nil by simp
next
  case (Cons p ps)
  show ?case
  proof (cases "string_find buf delim = None")
    case True
    have "(buf @ p) @ concat ps = pre @ delim @ t" using Cons.prems by simp
    from Cons.IH [OF _ this] obtain t' ps' where
      "sync_read_until delim (buf @ p) ps = (pre @ delim @ t', ps', True)" "t' @ concat ps' = t" by blast
    then show ?thesis using Cons.prems(1) True by simp
  next
    case False
    have pb: "prefix buf (pre @ delim @ t)" by (rule prefixI [OF Cons.prems(2) [symmetric]])
    have "\<not> length buf < length (pre @ delim)"
    proof
      assume "length buf < length (pre @ delim)"
      from assms(2) [OF this pb] False show False by contradiction
    qed
    then obtain t' where buf: "buf = pre @ delim @ t'"
      using longer_prefix [of buf "pre @ delim" t] pb by auto
    then have "sync_read_until delim buf (p # ps) = (pre @ delim @ t', p # ps, True)" using False by simp
    then show ?thesis using Cons.prems buf by simp
  qed
qed

lemma sync_response:
  assumes "\<forall>l \<in> set ls. header_line l" "ls \<noteq> []" "concat ps = response_text st ls b"
  shows "sync_exchange what u (ps, End_of_file) = (if st = ok then 0 else 1, printed_response st ls b)"
proof -
  obtain l where l: "status_line st = l @ eol" "NL \<notin> set l" using status_lines by blast
  have none: "string_find r eol = None" if "length r < length (l @ eol)" "prefix r (l @ eol @ header_text ls @ eol @ b)" for r
    using strict_prefix_of_line [OF that l(2)] by (rule no_eol)
  have "[] @ concat ps = l @ eol @ header_text ls @ eol @ b" using assms(3) l by (simp add: response_text_def)
  from until_found [OF this none] obtain h ps' where "sync_read_until eol [] ps = (l @ eol @ h, ps', True)"
    and h2: "h @ concat ps' = header_text ls @ eol @ b" by blast
  then have h: "sync_read_until eol [] ps = (status_line st @ h, ps', True)" by (simp add: l)
  show ?thesis
  proof (cases "st = ok")
    case False
    then show ?thesis
      using h read_status_line_server [of st h u] status_ok [of st] by (auto simp: sync_exchange_def printed_response_def)
  next
    case True
    obtain ls' k where ls: "header_text ls = header_text ls' @ k @ eol" 
      using assms(2) by (cases ls rule: rev_cases) (auto simp: header_text_def)
    have whole: "header_text ls @ eol @ b = (header_text ls' @ k) @ (eol @ eol) @ b" by (simp add: ls)
    have none: "string_find r (eol @ eol) = None"
      if "length r < length ((header_text ls' @ k) @ (eol @ eol))" "prefix r ((header_text ls' @ k) @ (eol @ eol) @ b)" for r
      using that blank_not_found [OF assms(1), of r b] unfolding whole [symmetric] by (simp add: ls)
    have "h @ concat ps' = (header_text ls' @ k) @ (eol @ eol) @ b" using h2 whole by simp
    from until_found [OF this none] obtain b' ps'' where
      "sync_read_until (eol @ eol) h ps' = ((header_text ls' @ k) @ (eol @ eol) @ b', ps'', True)" and b2: "b' @ concat ps'' = b"
      by blast
    then have b: "sync_read_until (eol @ eol) h ps' = (header_text ls @ eol @ b', ps'', True)" by (simp add: ls)
    have stream: "(open_stream h)\<lparr>rest := x\<rparr> = open_stream x" for x by (simp add: open_stream_def)
    show ?thesis
      unfolding sync_exchange_def printed_response_def fst_conv snd_conv h b2 [symmetric]
      by (simp only: Let_def prod.case read_status_line_server open_stream_simps stream b header_loop_text [OF assms(1)] status_ok True
          refl if_True if_False simp_thms) simp
  qed
qed

subsection \<open>Clients and server together\<close>

definition fetch_request :: "string \<Rightarrow> string \<Rightarrow> request" where
  "fetch_request server path = \<lparr>rq_method = ''GET'', rq_uri = path, http_version_major = 1, http_version_minor = 0,
     rq_headers = [\<lparr>h_name = ''Host'', h_value = server\<rparr>, \<lparr>h_name = ''Accept'', h_value = ''*/*''\<rparr>,
                   \<lparr>h_name = ''Connection'', h_value = ''close''\<rparr>]\<rparr>"

lemma request_text_rendered: "request_text server path = render_request (fetch_request server path)"
proof -
  have "to_string 1 = ''1''" "to_string 0 = ''0''" by code_simp+
  then show ?thesis by (simp add: request_text_def render_request_def fetch_request_def render_header_def)
qed

lemma wf_fetch_request:
  assumes "\<forall>c \<in> set path. text_char c \<and> c \<noteq> CHR '' ''" "\<forall>c \<in> set server. text_char c"
  shows "wf_request (fetch_request server path)"
proof -
  have "list_all token_char ''GET''" "list_all token_char ''Host''" "list_all token_char ''Accept''" "list_all token_char ''Connection''"
    "list_all text_char ''*/*''" "list_all text_char ''close''"
    by code_simp+
  then show ?thesis using assms by (simp add: wf_request_def fetch_request_def wf_header_def list_all_iff)
qed

lemma fetch_request_answer:
  assumes "\<forall>c \<in> set path. text_char c \<and> c \<noteq> CHR '' ''" "\<forall>c \<in> set server. text_char c"
  shows "http_answer fs root (request_text server path) =
    Some (to_buffers (handle_request fs root (fetch_request server path) (new_reply ok)))"
  using parse_rendered [OF wf_fetch_request [OF assms], of 0 0 "[]"] by (simp add: http_answer_def request_text_rendered)

definition header_lines :: "reply \<Rightarrow> string list" where
  "header_lines rep = map (\<lambda>h. h_name h @ name_value_separator @ h_value h) (rp_headers rep)"

definition shown_reply :: "reply \<Rightarrow> string" where
  "shown_reply rep = printed_response (rp_status rep) (header_lines rep) (rp_content rep)"

lemma reply_text: "concat (to_buffers rep) = response_text (rp_status rep) (header_lines rep) (rp_content rep)"
proof -
  have "render_header = (\<lambda>h. h_name h @ CHR '':'' # CHR '' '' # h_value h @ eol)" by (rule ext) (simp add: render_header_def)
  then show ?thesis
    unfolding concat_to_buffers response_text_def header_text_def header_lines_def by (simp add: name_value_separator_def comp_def)
qed

lemma wf_header_line: "wf_header h \<Longrightarrow> header_line (h_name h @ name_value_separator @ h_value h)"
proof -
  have ctl: "\<not> text_char (CHR 0x0D)" "\<not> text_char NL" "\<not> token_char (CHR 0x0D)" "\<not> token_char NL" by code_simp+
  show "wf_header h \<Longrightarrow> header_line (h_name h @ name_value_separator @ h_value h)"
    using ctl by (auto simp: wf_header_def header_line_def name_value_separator_def)
qed

lemma reply_lines:
  fixes fs root req st
  defines "rep \<equiv> handle_request fs root req (new_reply st)"
  shows "\<forall>l \<in> set (header_lines rep). header_line l" "header_lines rep \<noteq> []"
proof -
  have "(\<forall>h \<in> set (rp_headers rep). wf_header h) \<and> rp_headers rep \<noteq> []"
    unfolding rep_def
  proof (cases rule: handle_request_cases [of fs root req st])
    case (1 s)
    then show "(\<forall>h \<in> set (rp_headers (handle_request fs root req (new_reply st))). wf_header h) \<and>
        rp_headers (handle_request fs root req (new_reply st)) \<noteq> []"
      using wf_stock_headers by (simp add: stock_reply_def)
  next
    case 2
    then show "(\<forall>h \<in> set (rp_headers (handle_request fs root req (new_reply st))). wf_header h) \<and>
        rp_headers (handle_request fs root req (new_reply st)) \<noteq> []"
      using wf_file_headers type_is_text by (auto simp: file_reply_def list_all_iff)
  qed
  then show "\<forall>l \<in> set (header_lines rep). header_line l" "header_lines rep \<noteq> []"
    using wf_header_line by (auto simp: header_lines_def)
qed

abbreviation fetched :: "string list \<Rightarrow> fetch_event list" where
  "fetched ps \<equiv> [Resolved None, Connected None, Written None] @ map Arrived ps @ [Ended End_of_file]"

text \<open>C20. The HTTP clients and the HTTP server fit together. The server accepts the request of either client, and when its reply
  comes in pieces, however cut, and the connection ends then, both clients print the same: of a reply with status 200 the headers,
  a blank line and the content, unchanged, of any other its status.\<close>

theorem clients_fetch:
  assumes "\<forall>c \<in> set path. text_char c \<and> c \<noteq> CHR '' ''" "\<forall>c \<in> set server. text_char c"
    and "rep = handle_request fs root (fetch_request server path) (new_reply ok)" "concat ps = concat (to_buffers rep)"
  shows "http_answer fs root (request_text server path) = Some (to_buffers rep) \<and>
    async_client_main u [prog, server, path] (fetched ps) = (0, shown_reply rep) \<and>
    sync_client_main what u [prog, server, path] (Inr (ps, End_of_file)) = (if rp_status rep = ok then 0 else 1, shown_reply rep)"
proof (intro conjI)
  show "http_answer fs root (request_text server path) = Some (to_buffers rep)"
    using fetch_request_answer [OF assms(1,2)] assms(3) by simp
  have lines: "\<forall>l \<in> set (header_lines rep). header_line l" "header_lines rep \<noteq> []"
    unfolding assms(3) by (rule reply_lines)+
  have response: "concat ps = response_text (rp_status rep) (header_lines rep) (rp_content rep)"
    using assms(4) reply_text by simp
  show "async_client_main u [prog, server, path] (fetched ps) = (0, shown_reply rep)"
    using fetch_response(3) [OF lines response refl, of u server path] by (simp add: async_client_main_def shown_reply_def)
  show "sync_client_main what u [prog, server, path] (Inr (ps, End_of_file)) = (if rp_status rep = ok then 0 else 1, shown_reply rep)"
    using sync_response [OF lines response, of what u] by (simp add: sync_client_main_def shown_reply_def)
qed

definition www_reply :: reply where
  "www_reply = handle_request www ''w'' (fetch_request ''h'' ''/a%20b.html'') (new_reply ok)"

theorem clients_fetch_witness:
  "async_client_main 7 [''c'', ''h'', ''/a%20b.html''] (fetched (map (\<lambda>c. [c]) (concat (to_buffers www_reply)))) =
     (0, ''Content-Length: 3'' @ eol @ ''Content-Type: text/html'' @ eol @ [NL] @ ''<p>'')"
proof -
  have "list_all (\<lambda>c. text_char c \<and> c \<noteq> CHR '' '') ''/a%20b.html''" "list_all text_char ''h''" by code_simp+
  moreover have "shown_reply www_reply = ''Content-Length: 3'' @ eol @ ''Content-Type: text/html'' @ eol @ [NL] @ ''<p>''"
    by code_simp
  moreover have "concat (map (\<lambda>c. [c]) s) = s" for s :: string by (induction s) simp_all
  ultimately show ?thesis
    using clients_fetch [of "''/a%20b.html''" "''h''" www_reply www "''w''" "map (\<lambda>c. [c]) (concat (to_buffers www_reply))" 7 "''c''" error_message]
    by (simp add: list_all_iff www_reply_def [symmetric] del: concat_map_singleton)
qed

text \<open>A response without headers is lost: after the status line the clients wait for two ends of line, of which one is gone with the
  status line.\<close>

lemma fetch_without_headers:
  assumes "string_find (eol @ b) (eol @ eol) = None"
  shows "stdout (fetch_run u (fetched [status_line ok @ eol @ b]) (new_http_client server path)) = ''Error: asio.misc:2'' @ [NL]"
proof -
  define c where "c = \<lparr>fetch_pending = Some Reading_status_line, request_buf = [], response_buf = [], request_sent = request_text server path, stdout = []\<rparr>"
  have c: "fetch_run u [Resolved None, Connected None, Written None] (new_http_client server path) = c"
    by (simp add: fetch_run_def new_http_client_def handle_resolve_def handle_http_connect_def handle_write_request_def start_op_def c_def)
  obtain l where l: "status_line ok = l @ eol" "NL \<notin> set l" using status_lines by blast
  have "read_until_done u (c\<lparr>response_buf := status_line ok @ eol @ b\<rparr>) =
      handle_read_status_line u None ((c\<lparr>fetch_pending := None\<rparr>)\<lparr>response_buf := status_line ok @ (eol @ b)\<rparr>)"
    using eol_found [of l "eol @ b"] by (simp add: read_until_done_def l c_def response_then_pending del: status_line.simps)
  also have "\<dots> = c\<lparr>fetch_pending := Some Reading_headers, response_buf := eol @ b\<rparr>"
    unfolding handle_status_server [where ls = "[]"] by (simp add: start_op_def)
  finally have "fetch_step u (Arrived (status_line ok @ eol @ b)) c = c\<lparr>fetch_pending := Some Reading_headers, response_buf := eol @ b\<rparr>"
    using assms by (simp add: c_def read_until_done_def del: status_line.simps)
  then show ?thesis
    using c by (simp add: fetch_run_def handle_read_headers_def say_error_def say_def c_def del: status_line.simps fetch_step.simps(4))
qed

end
