(* ===== verification/Chat_Message.thy ===== *)
theory Chat_Message
  imports Std_Strings Std_Streams Logging
begin

text \<open>
  The messages of the chat example (\<open>boost_asio/example/cpp11/chat/chat_message.hpp\<close>): a fixed
  array whose first four bytes are the length of the body in decimal, and that length.
\<close>

subsection \<open>Library operations\<close>

text \<open>\<open>sprintf\<close> with the format \<open>%4d\<close>, of a number that is not negative.\<close>

definition sprintf_4d :: "nat \<Rightarrow> string" where
  "sprintf_4d n = replicate (4 - length (to_string n)) (CHR '' '') @ to_string n"

text \<open>\<open>strncat\<close> onto an empty string copies up to a NUL byte.\<close>

definition strncat :: "string \<Rightarrow> nat \<Rightarrow> string" where
  "strncat s n = takeWhile (\<lambda>c. c \<noteq> CHR 0x00) (take n s)"

subsection \<open>Messages\<close>

definition header_length :: nat where "header_length = 4"
definition max_body_length :: nat where "max_body_length = 512"

record chat_message =
  msg_data :: string
  msg_body_length :: nat

text \<open>A message as constructed; the array is not initialised.\<close>

definition new_message :: "string \<Rightarrow> chat_message" where
  "new_message garbage = \<lparr>msg_data = garbage, msg_body_length = 0\<rparr>"

definition msg_length :: "chat_message \<Rightarrow> nat" where
  "msg_length m = header_length + msg_body_length m"

text \<open>The bytes from \<open>body()\<close> on, \<open>body_length()\<close> of them, and those given to \<open>async_write\<close>.\<close>

definition msg_body :: "chat_message \<Rightarrow> string" where
  "msg_body m = take (msg_body_length m) (drop header_length (msg_data m))"

definition wire :: "chat_message \<Rightarrow> string" where
  "wire m = take (msg_length m) (msg_data m)"

definition put_header :: "string \<Rightarrow> chat_message \<Rightarrow> chat_message" where
  "put_header bytes m = m\<lparr>msg_data := overwrite 0 bytes (msg_data m)\<rparr>"

definition put_body :: "string \<Rightarrow> chat_message \<Rightarrow> chat_message" where
  "put_body bytes m = m\<lparr>msg_data := overwrite header_length bytes (msg_data m)\<rparr>"

definition set_body_length :: "nat \<Rightarrow> chat_message \<Rightarrow> chat_message" where
  "set_body_length n m =
     m\<lparr>msg_body_length := (if n > max_body_length then max_body_length else n)\<rparr>"

text \<open>A negative length becomes a huge \<open>size_t\<close> and is refused with the others.\<close>

definition decode_header :: "chat_message \<Rightarrow> bool \<times> chat_message" where
  "decode_header m =
     (let header = strncat (msg_data m) header_length;
          n = nat (atoi header mod 2 ^ 64)
      in if n > max_body_length then (False, m\<lparr>msg_body_length := 0\<rparr>)
         else (True, m\<lparr>msg_body_length := n\<rparr>))"

definition encode_header :: "chat_message \<Rightarrow> chat_message" where
  "encode_header m = put_header (take header_length (sprintf_4d (msg_body_length m))) m"

text \<open>Properties of messages every operation keeps: the array keeps its size, the body fits.\<close>

definition msg_ok :: "chat_message \<Rightarrow> bool" where
  "msg_ok m \<longleftrightarrow> length (msg_data m) = header_length + max_body_length \<and> msg_body_length m \<le> max_body_length"

definition decodable :: "chat_message \<Rightarrow> bool" where
  "decodable m \<longleftrightarrow> msg_ok m \<and> decode_header m = (True, m)"

lemmas msg_consts = header_length_def max_body_length_def

lemma msg_ok_simps [simp]:
  "msg_ok m \<Longrightarrow> length b \<le> header_length \<Longrightarrow> msg_ok (put_header b m)"
  "msg_ok m \<Longrightarrow> length b \<le> max_body_length \<Longrightarrow> msg_ok (put_body b m)"
  "msg_ok m \<Longrightarrow> msg_ok (set_body_length n m)"
  "msg_ok m \<Longrightarrow> msg_ok (snd (decode_header m))"
  "msg_ok m \<Longrightarrow> msg_ok (encode_header m)"
  by (simp_all add: msg_ok_def put_header_def put_body_def set_body_length_def decode_header_def
      encode_header_def msg_consts Let_def)

lemma msg_data_ops [simp]:
  "msg_data (set_body_length n m) = msg_data m" "msg_body_length (put_header b m) = msg_body_length m"
  "msg_body_length (put_body b m) = msg_body_length m" "msg_data (snd (decode_header m)) = msg_data m"
  "msg_body_length (encode_header m) = msg_body_length m"
  by (simp_all add: set_body_length_def put_header_def put_body_def decode_header_def encode_header_def Let_def)

lemma body_put_header [simp]:
  "length b = header_length \<Longrightarrow> msg_body (put_header b m) = msg_body m"
  by (simp add: msg_body_def put_header_def overwrite_def msg_consts)

lemma decode_header_cong:
  "take header_length (msg_data m) = take header_length (msg_data n) \<Longrightarrow>
     fst (decode_header m) = fst (decode_header n) \<and>
     msg_body_length (snd (decode_header m)) = msg_body_length (snd (decode_header n))"
  by (simp add: decode_header_def strncat_def Let_def)

subsection \<open>The header is read back\<close>

lemma take_digits_append:
  "(\<forall>c \<in> set s. digit_value c \<noteq> None) \<Longrightarrow> take_digits v (s @ t) = take_digits (take_digits v s) t"
  by (induction s arbitrary: v) (auto split: option.splits)

lemma digit_value_digit [simp]: "n < 10 \<Longrightarrow> digit_value (digit n) = Some n"
  by (simp add: digit_value_def digit_def)

lemma digits_of_to_string: "c \<in> set (to_string n) \<Longrightarrow> digit_value c \<noteq> None"
  by (induction n rule: to_string.induct) (subst (asm) (2) to_string.simps, auto split: if_splits)

lemma take_digits_to_string: "take_digits 0 (to_string n) = int n"
proof (induction n rule: to_string.induct)
  case (1 n)
  show ?case
  proof (cases "n < 10")
    case False
    then have "take_digits 0 (to_string n) = int (n div 10) * 10 + int (n mod 10)"
      using 1 by (subst to_string.simps) (simp add: take_digits_append digits_of_to_string)
    also have "\<dots> = int n" using div_mult_mod_eq [of n 10] by linarith
    finally show ?thesis .
  qed (subst to_string.simps, simp)
qed

lemma length_to_string_512: "n \<le> 512 \<Longrightarrow> 0 < length (to_string n) \<and> length (to_string n) \<le> 3"
proof -
  assume n: "n \<le> 512"
  have one: "k < 10 \<Longrightarrow> length (to_string k) = 1" for k by (subst to_string.simps) simp
  then have two: "k < 100 \<Longrightarrow> 0 < length (to_string k) \<and> length (to_string k) \<le> 2" for k
    by (cases "k < 10") (subst to_string.simps, simp)+
  from n have "n div 10 < 100" by simp
  with two [of "n div 10"] one [of n] show ?thesis
    by (cases "n < 10") (simp, subst (1 2) to_string.simps, simp)
qed

lemma digit_not_space: "digit_value c \<noteq> None \<Longrightarrow> \<not> is_space c \<and> c \<noteq> CHR ''+'' \<and> c \<noteq> CHR ''-'' \<and> c \<noteq> CHR 0x00"
  by (auto simp: digit_value_def is_space_def Let_def)

lemma atoi_padded: "atoi (replicate k (CHR '' '') @ to_string n) = int n"
proof -
  obtain c s where c: "to_string n = c # s" by (cases "to_string n") (use to_string.simps [of n] in \<open>auto split: if_splits\<close>)
  then have "digit_value c \<noteq> None" using digits_of_to_string [of c n] by simp
  then have d: "\<not> is_space c" "c \<noteq> CHR ''+''" "c \<noteq> CHR ''-''" using digit_not_space by blast+
  have "dropWhile is_space (replicate k (CHR '' '') @ to_string n) = c # s"
    using d(1) c by (induction k) (simp_all add: is_space_def)
  then have "atoi (replicate k (CHR '' '') @ to_string n) = take_digits 0 (to_string n)"
    using d c by (simp add: atoi_def)
  then show ?thesis by (simp add: take_digits_to_string)
qed

lemma encode_header_data:
  assumes "msg_ok m"
  shows "take header_length (msg_data (encode_header m)) = sprintf_4d (msg_body_length m)"
    and "length (sprintf_4d (msg_body_length m)) = 4"
proof -
  show l: "length (sprintf_4d (msg_body_length m)) = 4"
    using assms length_to_string_512 [of "msg_body_length m"]
    by (auto simp: msg_ok_def msg_consts sprintf_4d_def)
  then show "take header_length (msg_data (encode_header m)) = sprintf_4d (msg_body_length m)"
    using assms by (simp add: encode_header_def put_header_def overwrite_def msg_consts)
qed

lemma decode_encoded:
  assumes "msg_ok m"
  shows "decode_header (encode_header m) = (True, encode_header m)"
proof -
  let ?n = "msg_body_length m"
  note e = encode_header_data [OF assms]
  have "\<forall>c \<in> set (sprintf_4d ?n). c \<noteq> CHR 0x00"
    using digits_of_to_string digit_not_space by (auto simp: sprintf_4d_def)
  then have "strncat (msg_data (encode_header m)) header_length = sprintf_4d ?n"
    unfolding strncat_def e(1) by (simp add: takeWhile_eq_all_conv)
  then have "atoi (strncat (msg_data (encode_header m)) header_length) = int ?n"
    by (simp add: sprintf_4d_def atoi_padded)
  moreover have "int ?n mod 2 ^ 64 = int ?n" using assms by (simp add: msg_ok_def msg_consts)
  ultimately show ?thesis using assms
    by (simp add: decode_header_def msg_ok_def Let_def encode_header_def put_header_def)
qed

end
