(* ===== verification/Chat_Client.thy ===== *)
theory Chat_Client
  imports Chat_Message Std_Streams
begin

text \<open>
  The chat client (\<open>chat_client.cpp\<close>): its handlers, which run in one thread, and the loop of
  \<open>main\<close> that turns lines of the standard input into messages.
\<close>

subsection \<open>State\<close>

datatype client_reading = Client_header | Client_body | Client_idle

text \<open>The last field collects the messages whose write has succeeded.\<close>

record chat_client =
  cc_open :: bool
  cc_read_msg :: chat_message
  cc_write_msgs :: "chat_message list"
  cc_reading :: client_reading
  cc_writing :: bool
  cc_output :: string
  cc_written :: "chat_message list"

definition new_client :: "string \<Rightarrow> chat_client" where
  "new_client garbage = \<lparr>cc_open = True, cc_read_msg = new_message garbage, cc_write_msgs = [],
     cc_reading = Client_idle, cc_writing = False, cc_output = [], cc_written = []\<rparr>"

subsection \<open>Handlers\<close>

definition client_do_write :: "chat_client \<Rightarrow> chat_client" where
  "client_do_write c = c\<lparr>cc_writing := True\<rparr>"

text \<open>The bodies of the handlers \<open>write\<close> and \<open>close\<close> post.\<close>

definition client_write :: "chat_message \<Rightarrow> chat_client \<Rightarrow> chat_client" where
  "client_write msg c =
     (let write_in_progress = cc_write_msgs c \<noteq> [];
          c = c\<lparr>cc_write_msgs := cc_write_msgs c @ [msg]\<rparr>
      in if \<not> write_in_progress then client_do_write c else c)"

definition client_close :: "chat_client \<Rightarrow> chat_client" where
  "client_close c = c\<lparr>cc_open := False\<rparr>"

definition client_read_header :: "chat_client \<Rightarrow> chat_client" where
  "client_read_header c = c\<lparr>cc_reading := Client_header\<rparr>"

definition on_connect :: "bool \<Rightarrow> chat_client \<Rightarrow> chat_client" where
  "on_connect error c = (if \<not> error then client_read_header c else c)"

definition on_client_header :: "bool \<Rightarrow> string \<Rightarrow> chat_client \<Rightarrow> chat_client" where
  "on_client_header error bytes c0 =
     (let c = c0\<lparr>cc_reading := Client_idle, cc_read_msg := put_header bytes (cc_read_msg c0)\<rparr>;
          d = decode_header (cc_read_msg c)
      in if error then client_close c
         else if fst d then c\<lparr>cc_read_msg := snd d, cc_reading := Client_body\<rparr>
         else client_close (c\<lparr>cc_read_msg := snd d\<rparr>))"

definition on_client_body :: "bool \<Rightarrow> string \<Rightarrow> chat_client \<Rightarrow> chat_client" where
  "on_client_body error bytes c0 =
     (let c = c0\<lparr>cc_reading := Client_idle, cc_read_msg := put_body bytes (cc_read_msg c0)\<rparr>
      in if \<not> error
         then client_read_header (c\<lparr>cc_output := cc_output c @ msg_body (cc_read_msg c) @ [NL]\<rparr>)
         else client_close c)"

definition on_client_written :: "bool \<Rightarrow> chat_client \<Rightarrow> chat_client" where
  "on_client_written error c0 =
     (let c = c0\<lparr>cc_writing := False\<rparr>
      in if \<not> error
         then let c = c\<lparr>cc_write_msgs := tl (cc_write_msgs c), cc_written := cc_written c @ [hd (cc_write_msgs c)]\<rparr>
              in if cc_write_msgs c \<noteq> [] then client_do_write c else c
         else client_close c)"

text \<open>
  The reading handlers run on a stream of bytes, as long as it has all the bytes the pending
  \<open>async_read\<close> asks for.
\<close>

function client_receive :: "chat_client \<Rightarrow> string \<Rightarrow> chat_client" where
  "client_receive c input =
     (if cc_reading c = Client_header \<and> header_length \<le> length input
      then
        let c = on_client_header False (take header_length input) c;
            input = drop header_length input;
            n = msg_body_length (cc_read_msg c)
        in if cc_reading c = Client_body \<and> n \<le> length input
           then client_receive (on_client_body False (take n input) c) (drop n input)
           else c
      else c)"
  by pat_completeness auto
termination by (relation "measure (\<lambda>(_, s). length s)") (auto simp: header_length_def)

declare client_receive.simps [simp del]

subsection \<open>main\<close>

text \<open>
  The message made of a line: its bytes before a NUL, in an array that is not initialised.
\<close>

definition message_of :: "string \<Rightarrow> string \<Rightarrow> chat_message" where
  "message_of garbage line =
     (let s = takeWhile (\<lambda>c. c \<noteq> CHR 0x00) line;
          m = set_body_length (length s) (new_message garbage);
          m = put_body (take (msg_body_length m) s) m
      in encode_header m)"

text \<open>\<open>std::cin.getline(line, 513)\<close> fails on a line with more than 512 characters.\<close>

definition client_messages :: "string \<Rightarrow> string \<Rightarrow> chat_message list" where
  "client_messages garbage stdin =
     map (message_of garbage) (takeWhile (\<lambda>l. length l \<le> max_body_length) (lines_of stdin))"

text \<open>Exit status, error output, and the messages handed to \<open>write\<close> before \<open>close\<close>.\<close>

definition chat_client_main ::
  "nat \<Rightarrow> string option \<Rightarrow> string \<Rightarrow> string \<Rightarrow> nat \<times> string \<times> chat_message list" where
  "chat_client_main argc exception garbage stdin =
     (if argc \<noteq> 3 then (1, ''Usage: chat_client <host> <port>'' @ [NL], [])
      else case exception of
             Some w \<Rightarrow> (0, ''Exception: '' @ w @ [NL], [])
           | None \<Rightarrow> (0, [], client_messages garbage stdin))"

end
