(* ===== verification/Chat_Posix.thy ===== *)
theory Chat_Posix
  imports Chat_Client
begin

text \<open>
  The chat client that reads the standard input and writes the standard output asynchronously
  (\<open>posix_chat_client.cpp\<close>). Two chains of operations run beside each other: header, body and output of
  a message received; line and message of what the user types.
\<close>

subsection \<open>State\<close>

datatype net_operation = Net_header | Net_body | Net_output | Net_idle

datatype user_operation = User_input | User_message | User_idle

text \<open>
  The members and the pending operation of each chain; and, for the statements, the bytes read from the
  standard input and the messages handed to \<open>async_write\<close>, with whether a newline ended the line.
\<close>

record posix_client =
  pc_open :: bool
  pc_read_msg :: chat_message
  pc_write_msg :: chat_message
  pc_input_buffer :: string
  pc_net :: net_operation
  pc_user :: user_operation
  pc_output :: string
  pc_input :: string
  pc_messages :: "(chat_message \<times> bool) list"

definition new_posix_client :: "string \<Rightarrow> string \<Rightarrow> posix_client" where
  "new_posix_client garbage garbage' = \<lparr>pc_open = True, pc_read_msg = new_message garbage,
     pc_write_msg = new_message garbage', pc_input_buffer = [], pc_net = Net_idle, pc_user = User_idle,
     pc_output = [], pc_input = [], pc_messages = []\<rparr>"

subsection \<open>Operations\<close>

definition posix_close :: "posix_client \<Rightarrow> posix_client" where
  "posix_close c = c\<lparr>pc_open := False\<rparr>"

definition posix_read_header :: "posix_client \<Rightarrow> posix_client" where
  "posix_read_header c = c\<lparr>pc_net := Net_header\<rparr>"

definition posix_read_body :: "posix_client \<Rightarrow> posix_client" where
  "posix_read_body c = c\<lparr>pc_net := Net_body\<rparr>"

definition posix_write_output :: "posix_client \<Rightarrow> posix_client" where
  "posix_write_output c = c\<lparr>pc_net := Net_output\<rparr>"

definition posix_read_input :: "posix_client \<Rightarrow> posix_client" where
  "posix_read_input c = c\<lparr>pc_user := User_input\<rparr>"

definition posix_write_message :: "bool \<Rightarrow> posix_client \<Rightarrow> posix_client" where
  "posix_write_message ended c =
     c\<lparr>pc_user := User_message, pc_messages := pc_messages c @ [(pc_write_msg c, ended)]\<rparr>"

subsection \<open>Completion handlers\<close>

definition on_posix_connect :: "bool \<Rightarrow> posix_client \<Rightarrow> posix_client" where
  "on_posix_connect error c = (if \<not> error then posix_read_input (posix_read_header c) else c)"

definition on_posix_header :: "bool \<Rightarrow> string \<Rightarrow> posix_client \<Rightarrow> posix_client" where
  "on_posix_header error bytes c0 =
     (let c = c0\<lparr>pc_net := Net_idle, pc_read_msg := put_header bytes (pc_read_msg c0)\<rparr>;
          d = decode_header (pc_read_msg c)
      in if error then posix_close c
         else if fst d then posix_read_body (c\<lparr>pc_read_msg := snd d\<rparr>)
         else posix_close (c\<lparr>pc_read_msg := snd d\<rparr>))"

definition on_posix_body :: "bool \<Rightarrow> string \<Rightarrow> posix_client \<Rightarrow> posix_client" where
  "on_posix_body error bytes c0 =
     (let c = c0\<lparr>pc_net := Net_idle, pc_read_msg := put_body bytes (pc_read_msg c0)\<rparr>
      in if \<not> error then posix_write_output c else posix_close c)"

text \<open>A successful write has put out the body and the newline.\<close>

definition on_posix_output :: "bool \<Rightarrow> posix_client \<Rightarrow> posix_client" where
  "on_posix_output error c0 =
     (let c = c0\<lparr>pc_net := Net_idle\<rparr>
      in if \<not> error
         then posix_read_header (c\<lparr>pc_output := pc_output c @ msg_body (pc_read_msg c) @ [NL]\<rparr>)
         else posix_close c)"

text \<open>
  What \<open>async_read_until\<close> reports of a \<open>streambuf\<close> of at most 512 bytes: a line of \<open>n\<close> bytes with its
  newline, \<open>not_found\<close> when the buffer is full, or another error. It has appended \<open>bytes\<close>.
\<close>

datatype input_result = Line nat | Not_found | Input_error

definition on_posix_input :: "input_result \<Rightarrow> string \<Rightarrow> posix_client \<Rightarrow> posix_client" where
  "on_posix_input result bytes c0 =
     (let c = c0\<lparr>pc_user := User_idle, pc_input_buffer := pc_input_buffer c0 @ bytes, pc_input := pc_input c0 @ bytes\<rparr>;
          b = pc_input_buffer c
      in case result of
           Line n \<Rightarrow>
             let m = put_body (take (n - 1) b) (set_body_length (n - 1) (pc_write_msg c));
                 c = c\<lparr>pc_write_msg := encode_header m, pc_input_buffer := drop 1 (drop (n - 1) b)\<rparr>
             in posix_write_message True c
         | Not_found \<Rightarrow>
             let m = put_body b (set_body_length (length b) (pc_write_msg c));
                 c = c\<lparr>pc_write_msg := encode_header m, pc_input_buffer := []\<rparr>
             in posix_write_message False c
         | Input_error \<Rightarrow> posix_close c)"

definition on_posix_written :: "bool \<Rightarrow> posix_client \<Rightarrow> posix_client" where
  "on_posix_written error c0 =
     (let c = c0\<lparr>pc_user := User_idle\<rparr>
      in if \<not> error then posix_read_input c else posix_close c)"

subsection \<open>Steps\<close>

fun input_event :: "string \<Rightarrow> input_result \<Rightarrow> bool" where
  "input_event b (Line n) \<longleftrightarrow> NL \<in> set b \<and> length b \<le> max_body_length \<and> n = Suc (length (takeWhile (\<lambda>x. x \<noteq> NL) b))"
| "input_event b Not_found \<longleftrightarrow> NL \<notin> set b \<and> length b = max_body_length"
| "input_event b Input_error \<longleftrightarrow> length b \<le> max_body_length"

inductive posix_step :: "posix_client \<Rightarrow> posix_client \<Rightarrow> bool" where
  px_header: "pc_net c = Net_header \<Longrightarrow>
    (if error then length bytes \<le> header_length else length bytes = header_length) \<Longrightarrow>
    posix_step c (on_posix_header error bytes c)"
| px_body: "pc_net c = Net_body \<Longrightarrow>
    (if error then length bytes \<le> msg_body_length (pc_read_msg c) else length bytes = msg_body_length (pc_read_msg c)) \<Longrightarrow>
    posix_step c (on_posix_body error bytes c)"
| px_output: "pc_net c = Net_output \<Longrightarrow> posix_step c (on_posix_output error c)"
| px_input: "pc_user c = User_input \<Longrightarrow> input_event (pc_input_buffer c @ bytes) result \<Longrightarrow>
    posix_step c (on_posix_input result bytes c)"
| px_written: "pc_user c = User_message \<Longrightarrow> posix_step c (on_posix_written error c)"

inductive posix_reachable :: "posix_client \<Rightarrow> bool" where
  px_connected: "length g = header_length + max_body_length \<Longrightarrow> length g' = header_length + max_body_length \<Longrightarrow>
    posix_reachable (on_posix_connect error (new_posix_client g g'))"
| px_more: "posix_reachable c \<Longrightarrow> posix_step c d \<Longrightarrow> posix_reachable d"

text \<open>
  The chain that reads from the socket, on a stream of bytes and with an output that does not fail.
\<close>

function posix_receive :: "posix_client \<Rightarrow> string \<Rightarrow> posix_client" where
  "posix_receive c input =
     (if pc_net c = Net_header \<and> header_length \<le> length input
      then
        let c = on_posix_header False (take header_length input) c;
            input = drop header_length input;
            n = msg_body_length (pc_read_msg c)
        in if pc_net c = Net_body \<and> n \<le> length input
           then posix_receive (on_posix_output False (on_posix_body False (take n input) c)) (drop n input)
           else c
      else c)"
  by pat_completeness auto
termination by (relation "measure (\<lambda>(_, s). length s)") (auto simp: header_length_def)

declare posix_receive.simps [simp del]

subsection \<open>main\<close>

definition posix_main :: "nat \<Rightarrow> string option \<Rightarrow> nat \<times> string" where
  "posix_main argc exception =
     (if argc \<noteq> 3 then (1, ''Usage: posix_chat_client <host> <port>'' @ [NL])
      else (0, case exception of None \<Rightarrow> [] | Some w \<Rightarrow> ''Exception: '' @ w @ [NL]))"

end
