(* ===== verification/Chat_Room.thy ===== *)
theory Chat_Room
  imports Chat_Message
begin

text \<open>
  The chat server (\<open>chat_server.cpp\<close>): the room, the sessions of the clients, and their
  completion handlers, which one thread runs one after another. The abstract class
  \<open>chat_participant\<close> is the locale \<open>message_sink\<close>; a session provides it.
\<close>

subsection \<open>State\<close>

datatype reading = Reading_header | Reading_body | Not_reading

text \<open>
  A session with its members and pending operations, and, for the statements below, all messages
  it was asked to deliver and those whose write has succeeded.
\<close>

record chat_session =
  read_msg :: chat_message
  write_msgs :: "chat_message list"
  cs_reading :: reading
  cs_writing :: bool
  cs_delivered :: "chat_message list"
  cs_sent :: "chat_message list"

record chat_state =
  participants :: "nat set"
  recent_msgs :: "chat_message list"
  session :: "nat \<Rightarrow> chat_session"
  sessions_so_far :: nat
  history :: "chat_message list" \<comment> \<open>all messages the room was asked to deliver\<close>

definition max_recent_msgs :: nat where "max_recent_msgs = 100"

definition on_session :: "nat \<Rightarrow> (chat_session \<Rightarrow> chat_session) \<Rightarrow> chat_state \<Rightarrow> chat_state" where
  "on_session i f s = s\<lparr>session := (session s)(i := f (session s i))\<rparr>"

subsection \<open>Session\<close>

definition session_do_write :: "chat_session \<Rightarrow> chat_session" where
  "session_do_write p = p\<lparr>cs_writing := True\<rparr>"

definition session_deliver :: "chat_message \<Rightarrow> chat_session \<Rightarrow> chat_session" where
  "session_deliver m p =
     (let write_in_progress = write_msgs p \<noteq> [];
          p = p\<lparr>write_msgs := write_msgs p @ [m], cs_delivered := cs_delivered p @ [m]\<rparr>
      in if \<not> write_in_progress then session_do_write p else p)"

interpretation session_participant: message_sink session_deliver cs_delivered
  by unfold_locales (simp add: session_deliver_def session_do_write_def Let_def)

definition do_read_header :: "chat_session \<Rightarrow> chat_session" where
  "do_read_header p = p\<lparr>cs_reading := Reading_header\<rparr>"

definition do_read_body :: "chat_session \<Rightarrow> chat_session" where
  "do_read_body p = p\<lparr>cs_reading := Reading_body\<rparr>"

definition new_session :: "string \<Rightarrow> chat_session" where
  "new_session garbage = \<lparr>read_msg = new_message garbage, write_msgs = [], cs_reading = Not_reading,
     cs_writing = False, cs_delivered = [], cs_sent = []\<rparr>"

subsection \<open>Room\<close>

definition room_join :: "nat \<Rightarrow> chat_state \<Rightarrow> chat_state" where
  "room_join i s =
     (let s = s\<lparr>participants := insert i (participants s)\<rparr>
      in on_session i (fold session_deliver (recent_msgs s)) s)"

definition room_leave :: "nat \<Rightarrow> chat_state \<Rightarrow> chat_state" where
  "room_leave i s = s\<lparr>participants := participants s - {i}\<rparr>"

function trim :: "chat_message list \<Rightarrow> chat_message list" where
  "trim ms = (if length ms > max_recent_msgs then trim (tl ms) else ms)"
  by pat_completeness auto
termination by (relation "measure length") (auto simp: max_recent_msgs_def)

declare trim.simps [simp del]

text \<open>The order in which the set of pointers is traversed makes no difference.\<close>

definition room_deliver :: "chat_message \<Rightarrow> chat_state \<Rightarrow> chat_state" where
  "room_deliver m s =
     s\<lparr>recent_msgs := trim (recent_msgs s @ [m]), history := history s @ [m],
       session := (\<lambda>i. if i \<in> participants s then session_deliver m (session s i) else session s i)\<rparr>"

subsection \<open>Completion handlers\<close>

text \<open>\<open>error\<close> says whether the operation failed; else it has read all the bytes asked for.\<close>

definition on_header :: "nat \<Rightarrow> bool \<Rightarrow> string \<Rightarrow> chat_state \<Rightarrow> chat_state" where
  "on_header i error bytes s0 =
     (let s = on_session i (\<lambda>p. p\<lparr>cs_reading := Not_reading, read_msg := put_header bytes (read_msg p)\<rparr>) s0;
          d = decode_header (read_msg (session s i))
      in if error then room_leave i s
         else
           let s = on_session i (\<lambda>p. p\<lparr>read_msg := snd d\<rparr>) s
           in if fst d then on_session i do_read_body s else room_leave i s)"

definition on_body :: "nat \<Rightarrow> bool \<Rightarrow> string \<Rightarrow> chat_state \<Rightarrow> chat_state" where
  "on_body i error bytes s0 =
     (let s = on_session i (\<lambda>p. p\<lparr>cs_reading := Not_reading, read_msg := put_body bytes (read_msg p)\<rparr>) s0
      in if \<not> error
         then on_session i do_read_header (room_deliver (read_msg (session s i)) s)
         else room_leave i s)"

definition on_written :: "nat \<Rightarrow> bool \<Rightarrow> chat_state \<Rightarrow> chat_state" where
  "on_written i error s0 =
     (let s = on_session i (\<lambda>p. p\<lparr>cs_writing := False\<rparr>) s0
      in if \<not> error
         then on_session i (\<lambda>p.
                let p = p\<lparr>write_msgs := tl (write_msgs p), cs_sent := cs_sent p @ [hd (write_msgs p)]\<rparr>
                in if write_msgs p \<noteq> [] then session_do_write p else p) s
         else room_leave i s)"

definition on_chat_accept :: "bool \<Rightarrow> string \<Rightarrow> chat_state \<Rightarrow> chat_state" where
  "on_chat_accept error garbage s =
     (if \<not> error
      then let i = sessions_so_far s;
               s = on_session i (\<lambda>_. new_session garbage) (s\<lparr>sessions_so_far := Suc i\<rparr>)
           in on_session i do_read_header (room_join i s)
      else s)"

definition chat_init :: "chat_state \<Rightarrow> bool" where
  "chat_init s \<longleftrightarrow> participants s = {} \<and> recent_msgs s = [] \<and> history s = [] \<and> sessions_so_far s = 0 \<and>
     (\<forall>i. cs_reading (session s i) = Not_reading \<and> \<not> cs_writing (session s i))"

inductive chat_step :: "chat_state \<Rightarrow> chat_state \<Rightarrow> bool" where
  header: "cs_reading (session s i) = Reading_header \<Longrightarrow>
    (if error then length bytes \<le> header_length else length bytes = header_length) \<Longrightarrow>
    chat_step s (on_header i error bytes s)"
| body: "cs_reading (session s i) = Reading_body \<Longrightarrow>
    (if error then length bytes \<le> msg_body_length (read_msg (session s i))
     else length bytes = msg_body_length (read_msg (session s i))) \<Longrightarrow>
    chat_step s (on_body i error bytes s)"
| written: "cs_writing (session s i) \<Longrightarrow> chat_step s (on_written i error s)"
| accepted: "length garbage = header_length + max_body_length \<Longrightarrow> chat_step s (on_chat_accept error garbage s)"

inductive chat_reachable :: "chat_state \<Rightarrow> bool" where
  chat_boot: "chat_init s \<Longrightarrow> chat_reachable s"
| chat_more: "chat_reachable s \<Longrightarrow> chat_step s t \<Longrightarrow> chat_reachable t"

subsection \<open>main\<close>

text \<open>
  Exit status, error output, and the ports servers are asked for; an exception while the servers
  are made or run is given by its text.
\<close>

definition chat_server_main :: "string list \<Rightarrow> string option \<Rightarrow> nat \<times> string \<times> int list" where
  "chat_server_main argv exception =
     (if length argv < 2 then (1, ''Usage: chat_server <port> [<port> ...]'' @ [CHR 0x0A], [])
      else (0, case exception of None \<Rightarrow> [] | Some w \<Rightarrow> ''Exception: '' @ w @ [CHR 0x0A],
            map (\<lambda>a. atoi a mod 2 ^ 16) (tl argv)))"

end
