(* ===== verification/Chat_Properties.thy ===== *)
theory Chat_Properties
  imports Chat_Room Chat_Client "HOL-Library.Sublist"
begin

text \<open>
  The chat example: lines survive the way from one client to another, every participant gets
  the messages of the room in one order, and all buffers stay within their bounds.
\<close>

subsection \<open>From a line to a message and back\<close>

lemma message_of_ok: "length g = header_length + max_body_length \<Longrightarrow> msg_ok (message_of g l)"
proof -
  assume "length g = header_length + max_body_length"
  then have "msg_ok (new_message g)" by (simp add: msg_ok_def new_message_def)
  then show ?thesis unfolding message_of_def Let_def
    by (intro msg_ok_simps) (auto simp: set_body_length_def min_def)
qed

lemma body_put_body: "msg_ok r \<Longrightarrow> length b = msg_body_length r \<Longrightarrow> msg_body (put_body b r) = b"
  by (simp add: msg_body_def put_body_def drop_overwrite msg_ok_def)

lemma wire_split: "msg_ok m \<Longrightarrow> wire m = take header_length (msg_data m) @ msg_body m"
  by (simp add: wire_def msg_length_def msg_body_def take_add)

lemma message_of_body:
  assumes "length g = header_length + max_body_length" and "length l \<le> max_body_length" and "CHR 0x00 \<notin> set l"
  shows "msg_body (message_of g l) = l" and "decodable (message_of g l)"
proof -
  have t: "takeWhile (\<lambda>c. c \<noteq> CHR 0x00) l = l" using assms(3) by (auto simp: takeWhile_eq_all_conv)
  let ?m = "put_body l (set_body_length (length l) (new_message g))"
  have m: "message_of g l = encode_header ?m" "msg_body_length ?m = length l"
    using assms(2) by (simp_all add: message_of_def t Let_def set_body_length_def)
  have ok: "msg_ok (new_message g)" using assms(1) by (simp add: msg_ok_def new_message_def)
  have "length (sprintf_4d (length l)) = 4" using encode_header_data(2) [of ?m] ok assms(2) m by simp
  then have "msg_body (encode_header ?m) = msg_body ?m"
    unfolding encode_header_def m(2) by (intro body_put_header) (simp add: msg_consts)
  also have "msg_body ?m = l"
    using assms(1,2) by (simp add: msg_body_def m(2) put_body_def set_body_length_def new_message_def drop_overwrite)
  finally show "msg_body (message_of g l) = l" by (simp add: m)
  show "decodable (message_of g l)"
    using ok assms(2) unfolding decodable_def m(1) by (simp add: decode_encoded)
qed

lemma decodable_header:
  assumes "decodable m" and "msg_ok r"
  shows "decode_header (put_header (take header_length (msg_data m)) r) =
    (True, (put_header (take header_length (msg_data m)) r)\<lparr>msg_body_length := msg_body_length m\<rparr>)"
proof -
  let ?r = "put_header (take header_length (msg_data m)) r"
  have "take header_length (msg_data ?r) = take header_length (msg_data m)"
    using assms by (simp add: put_header_def overwrite_def decodable_def msg_ok_def)
  from decode_header_cong [OF this] assms(1)
  have "fst (decode_header ?r)" "msg_body_length (snd (decode_header ?r)) = msg_body_length m"
    by (simp_all add: decodable_def)
  then show ?thesis by (auto simp: decode_header_def Let_def split: if_splits)
qed

lemma client_receive_one:
  assumes "decodable m" and "cc_reading c = Client_header" and "msg_ok (cc_read_msg c)"
  shows "\<exists>c'. client_receive c (wire m @ input) = client_receive c' input \<and> cc_reading c' = Client_header \<and>
    msg_ok (cc_read_msg c') \<and> cc_output c' = cc_output c @ msg_body m @ [NL]"
proof -
  have ok: "msg_ok m" using assms(1) by (simp add: decodable_def)
  let ?h = "take header_length (msg_data m)" and ?n = "msg_body_length m"
  have lens: "length ?h = header_length" "length (msg_body m) = ?n" "?n \<le> max_body_length"
    using ok by (simp_all add: msg_ok_def msg_body_def)
  define r where "r = (put_header ?h (cc_read_msg c))\<lparr>msg_body_length := ?n\<rparr>"
  define c1 where "c1 = c\<lparr>cc_reading := Client_body, cc_read_msg := r\<rparr>"
  have h: "on_client_header False ?h c = c1"
    using decodable_header [OF assms(1,3)] by (simp add: on_client_header_def c1_def r_def Let_def)
  define c2 where "c2 = on_client_body False (msg_body m) c1"
  have r: "msg_ok r" "msg_body_length r = ?n"
    using assms(3) lens msg_ok_simps(1) [OF assms(3), of ?h] by (simp_all add: r_def msg_ok_def)
  have b: "msg_body (put_body (msg_body m) r) = msg_body m"
    using r lens by (intro body_put_body) simp_all
  have "client_receive c (wire m @ input) = client_receive c2 input"
    using assms(2) lens r h
    by (subst client_receive.simps) (simp add: wire_split [OF ok] Let_def c1_def c2_def)
  moreover have "cc_reading c2 = Client_header" "cc_output c2 = cc_output c @ msg_body m @ [NL]" "msg_ok (cc_read_msg c2)"
    using b r lens by (simp_all add: c2_def c1_def on_client_body_def client_read_header_def Let_def)
  ultimately show ?thesis by blast
qed

lemma client_receive_all:
  assumes "\<forall>m \<in> set ms. decodable m" and "cc_reading c = Client_header" and "msg_ok (cc_read_msg c)"
  shows "cc_output (client_receive c (concat (map wire ms))) =
    cc_output c @ concat (map (\<lambda>m. msg_body m @ [NL]) ms)"
  using assms
proof (induction ms arbitrary: c)
  case Nil
  then show ?case by (subst client_receive.simps) (simp add: header_length_def)
next
  case (Cons m ms)
  obtain c' where c': "client_receive c (wire m @ concat (map wire ms)) = client_receive c' (concat (map wire ms))"
    "cc_reading c' = Client_header" "msg_ok (cc_read_msg c')" "cc_output c' = cc_output c @ msg_body m @ [NL]"
    using client_receive_one [of m c "concat (map wire ms)"] Cons.prems by auto
  then show ?case using Cons.IH [of c'] Cons.prems(1) by simp
qed

subsection \<open>Messages in the room\<close>

lemma decodable_put_body:
  assumes "decodable m" and "length b = msg_body_length m"
  shows "decodable (put_body b m)"
proof -
  have ok: "msg_ok m" "msg_body_length m \<le> max_body_length" using assms(1) by (auto simp: decodable_def msg_ok_def)
  have "take header_length (msg_data (put_body b m)) = take header_length (msg_data m)"
    using ok by (simp add: put_body_def overwrite_def msg_ok_def)
  from decode_header_cong [OF this] assms(1)
  have "fst (decode_header (put_body b m))"
    "msg_body_length (snd (decode_header (put_body b m))) = msg_body_length (put_body b m)"
    by (simp_all add: decodable_def)
  then have "decode_header (put_body b m) = (True, put_body b m)"
    by (auto simp: decode_header_def Let_def split: if_splits)
  then show ?thesis using ok assms(2) by (simp add: decodable_def)
qed

lemma decodable_decoded:
  assumes "msg_ok m" and "fst (decode_header m)"
  shows "decodable (snd (decode_header m))"
  using assms by (auto simp: decodable_def decode_header_def msg_ok_def Let_def split: if_splits)

lemma trim_drop: "trim ms = drop (length ms - max_recent_msgs) ms"
proof (induction ms rule: trim.induct)
  case (1 ms)
  show ?case
  proof (cases "length ms > max_recent_msgs")
    case True
    then have "trim ms = drop (length (tl ms) - max_recent_msgs) (tl ms)"
      using 1 by (subst trim.simps) simp
    also have "\<dots> = drop (Suc (length (tl ms) - max_recent_msgs)) ms" by (simp add: drop_Suc)
    also have "Suc (length (tl ms) - max_recent_msgs) = length ms - max_recent_msgs" using True by simp
    finally show ?thesis .
  qed (subst trim.simps, simp)
qed

lemma trim_recent:
  assumes "r = drop (length h - max_recent_msgs) h"
  shows "trim (r @ [m]) = drop (length (h @ [m]) - max_recent_msgs) (h @ [m])"
  using assms by (cases "length h \<le> max_recent_msgs") (auto simp: trim_drop Suc_diff_le)

subsection \<open>Invariant\<close>

definition session_ok :: "chat_session \<Rightarrow> bool" where
  "session_ok p \<longleftrightarrow> msg_ok (read_msg p) \<and> (cs_reading p = Reading_body \<longrightarrow> decodable (read_msg p)) \<and>
     cs_delivered p = cs_sent p @ write_msgs p \<and> (cs_writing p \<longrightarrow> write_msgs p \<noteq> [])"

definition member_ok :: "chat_message list \<Rightarrow> chat_session \<Rightarrow> bool" where
  "member_ok h p \<longleftrightarrow> (cs_writing p \<longleftrightarrow> write_msgs p \<noteq> []) \<and> (\<exists>k \<le> length h. cs_delivered p = drop k h)"

definition chat_inv :: "chat_state \<Rightarrow> bool" where
  "chat_inv s \<longleftrightarrow>
     recent_msgs s = drop (length (history s) - max_recent_msgs) (history s) \<and>
     (\<forall>m \<in> set (history s). decodable m) \<and>
     (\<forall>i < sessions_so_far s. session_ok (session s i)) \<and>
     (\<forall>i \<in> participants s. i < sessions_so_far s \<and> member_ok (history s) (session s i)) \<and>
     (\<forall>i. cs_reading (session s i) \<noteq> Not_reading \<or> cs_writing (session s i) \<longrightarrow> i < sessions_so_far s)"

lemma session_on_session [simp]:
  "session (on_session i f s) j = (if j = i then f (session s i) else session s j)"
  by (simp add: on_session_def)

lemma on_session_frame [simp]:
  "participants (on_session i f s) = participants s" "recent_msgs (on_session i f s) = recent_msgs s"
  "sessions_so_far (on_session i f s) = sessions_so_far s" "history (on_session i f s) = history s"
  by (simp_all add: on_session_def)

lemma room_leave_simps [simp]:
  "session (room_leave i s) = session s" "participants (room_leave i s) = participants s - {i}"
  "recent_msgs (room_leave i s) = recent_msgs s" "sessions_so_far (room_leave i s) = sessions_so_far s"
  "history (room_leave i s) = history s"
  by (simp_all add: room_leave_def)

lemma session_deliver_simps [simp]:
  "cs_delivered (session_deliver m p) = cs_delivered p @ [m]" "write_msgs (session_deliver m p) = write_msgs p @ [m]"
  "cs_sent (session_deliver m p) = cs_sent p" "read_msg (session_deliver m p) = read_msg p"
  "cs_reading (session_deliver m p) = cs_reading p"
  "cs_writing (session_deliver m p) = (write_msgs p = [] \<or> cs_writing p)"
  by (simp_all add: session_deliver_def session_do_write_def Let_def)

lemma session_ok_deliver [simp]: "session_ok p \<Longrightarrow> session_ok (session_deliver m p)"
  by (simp add: session_ok_def)

lemma member_ok_deliver:
  assumes "member_ok h p"
  shows "member_ok (h @ [m]) (session_deliver m p)"
proof -
  obtain k where "k \<le> length h" "cs_delivered p = drop k h" using assms by (auto simp: member_ok_def)
  then have "k \<le> length (h @ [m])" "cs_delivered (session_deliver m p) = drop k (h @ [m])"
    using session_participant.keeps_up [of p k h m] by simp_all
  then have "\<exists>k \<le> length (h @ [m]). cs_delivered (session_deliver m p) = drop k (h @ [m])" by blast
  then show ?thesis using assms unfolding member_ok_def by simp
qed

definition busy_ok :: "chat_session \<Rightarrow> bool" where
  "busy_ok p \<longleftrightarrow> cs_writing p = (write_msgs p \<noteq> [])"

lemma busy_ok_deliver [simp]: "busy_ok p \<Longrightarrow> busy_ok (session_deliver m p)"
  by (auto simp: busy_ok_def)

lemma fold_session_ok: "session_ok p \<Longrightarrow> session_ok (fold session_deliver ms p)"
proof (induction ms arbitrary: p)
  case (Cons m ms)
  then show ?case using session_ok_deliver [OF Cons.prems] by simp
qed simp

lemma fold_busy_ok: "busy_ok p \<Longrightarrow> busy_ok (fold session_deliver ms p)"
proof (induction ms arbitrary: p)
  case (Cons m ms)
  then show ?case using busy_ok_deliver [OF Cons.prems] by simp
qed simp

lemma session_ok_new: "length g = header_length + max_body_length \<Longrightarrow> session_ok (new_session g)"
  by (simp add: session_ok_def new_session_def new_message_def msg_ok_def)

lemma on_session_twice [simp]: "on_session i f (on_session i g s) = on_session i (f \<circ> g) s"
  by (simp add: on_session_def)

text \<open>One session changes.\<close>

lemma chat_inv_update:
  assumes "chat_inv s" and "i < sessions_so_far s" and "session_ok (session s i) \<Longrightarrow> session_ok (f (session s i))"
    and "\<And>h. i \<in> participants s \<Longrightarrow> member_ok h (session s i) \<Longrightarrow> member_ok h (f (session s i))"
  shows "chat_inv (on_session i f s)"
  using assms by (auto simp: chat_inv_def)

lemma member_ok_read [simp]:
  "member_ok h (p\<lparr>read_msg := m\<rparr>) = member_ok h p" "member_ok h (p\<lparr>cs_reading := r\<rparr>) = member_ok h p"
  by (simp_all add: member_ok_def)

lemma chat_inv_leave [simp]: "chat_inv s \<Longrightarrow> chat_inv (room_leave i s)"
  by (auto simp: chat_inv_def)

lemma chat_inv_room_deliver:
  assumes "chat_inv s" and "decodable m"
  shows "chat_inv (room_deliver m s)"
  using assms trim_recent [of "recent_msgs s" "history s" m]
  by (auto simp: chat_inv_def room_deliver_def member_ok_deliver split: if_splits)

lemma chat_inv_header:
  assumes "chat_inv s" and "cs_reading (session s i) = Reading_header" and "length bytes \<le> header_length"
  shows "chat_inv (on_header i error bytes s)"
proof -
  have i: "i < sessions_so_far s" using assms(1,2) by (auto simp: chat_inv_def)
  let ?d = "decode_header (put_header bytes (read_msg (session s i)))"
  have m: "msg_ok (read_msg (session s i))" using assms(1) i by (auto simp: chat_inv_def session_ok_def)
  then have d: "fst ?d \<Longrightarrow> decodable (snd ?d)" using assms(3) by (simp add: decodable_decoded)
  show ?thesis
    unfolding on_header_def Let_def on_session_twice
    using i m d assms(3)
    by (auto intro!: chat_inv_leave chat_inv_update [OF assms(1)] simp: session_ok_def do_read_body_def)
qed

lemma chat_inv_body:
  assumes "chat_inv s" and "cs_reading (session s i) = Reading_body"
    and "if error then length bytes \<le> msg_body_length (read_msg (session s i))
         else length bytes = msg_body_length (read_msg (session s i))"
  shows "chat_inv (on_body i error bytes s)"
proof -
  have i: "i < sessions_so_far s" using assms(1,2) by (auto simp: chat_inv_def)
  let ?m = "put_body bytes (read_msg (session s i))"
  let ?s = "on_session i (\<lambda>p. p\<lparr>cs_reading := Not_reading, read_msg := put_body bytes (read_msg p)\<rparr>) s"
  have r: "decodable (read_msg (session s i))" "msg_ok (read_msg (session s i))"
    using assms(1,2) i by (auto simp: chat_inv_def session_ok_def)
  then have m: "msg_ok ?m"
    using assms(3) by (intro msg_ok_simps) (auto simp: msg_ok_def split: if_splits)
  have s: "chat_inv ?s" using i m by (intro chat_inv_update [OF assms(1)]) (simp_all add: session_ok_def)
  show ?thesis
  proof (cases error)
    case False
    then have "decodable ?m" using decodable_put_body r(1) assms(3) by simp
    then have d: "chat_inv (room_deliver ?m ?s)" using chat_inv_room_deliver s by blast
    have "chat_inv (on_session i do_read_header (room_deliver ?m ?s))"
      using i by (intro chat_inv_update [OF d]) (simp_all add: room_deliver_def session_ok_def do_read_header_def)
    then show ?thesis using False by (simp add: on_body_def Let_def)
  qed (simp add: on_body_def Let_def s)
qed

lemma chat_inv_written:
  assumes "chat_inv s" and "cs_writing (session s i)"
  shows "chat_inv (on_written i error s)"
proof -
  have i: "i < sessions_so_far s" using assms by (auto simp: chat_inv_def)
  obtain m ms where w: "write_msgs (session s i) = m # ms"
    using assms i by (cases "write_msgs (session s i)") (auto simp: chat_inv_def session_ok_def)
  show ?thesis
  proof (cases error)
    case True
    have "chat_inv (room_leave i (on_session i (\<lambda>p. p\<lparr>cs_writing := False\<rparr>) s))"
      using assms by (auto simp: chat_inv_def session_ok_def)
    then show ?thesis using True by (simp add: on_written_def Let_def)
  next
    case False
    then show ?thesis unfolding on_written_def Let_def on_session_twice
      using i w assms(2)
      by (auto intro!: chat_inv_update [OF assms(1)] simp: session_ok_def member_ok_def session_do_write_def)
  qed
qed

lemma chat_inv_accept:
  assumes "chat_inv s" and "length g = header_length + max_body_length"
  shows "chat_inv (on_chat_accept error g s)"
proof (cases error)
  case False
  let ?p = "do_read_header (fold session_deliver (recent_msgs s) (new_session g))"
  have n: "session_ok (new_session g)" by (rule session_ok_new [OF assms(2)])
  have w: "busy_ok (fold session_deliver (recent_msgs s) (new_session g))"
    by (rule fold_busy_ok) (simp add: new_session_def busy_ok_def)
  have ok: "session_ok ?p" using fold_session_ok [OF n] by (simp add: session_ok_def do_read_header_def)
  have "cs_delivered ?p = recent_msgs s"
    using session_participant.taken_all [of "recent_msgs s" "new_session g"]
    by (simp add: do_read_header_def new_session_def)
  moreover have "recent_msgs s = drop (length (history s) - max_recent_msgs) (history s)"
    using assms(1) by (simp add: chat_inv_def)
  ultimately have "\<exists>k \<le> length (history s). cs_delivered ?p = drop k (history s)"
    by (metis diff_le_self)
  then have mem: "member_ok (history s) ?p"
    using w by (simp add: member_ok_def do_read_header_def busy_ok_def)
  show ?thesis using assms(1) ok mem False
    by (auto simp: on_chat_accept_def room_join_def chat_inv_def on_session_def less_Suc_eq Let_def)
qed (simp add: on_chat_accept_def assms)

lemma chat_inv_step: "chat_step s t \<Longrightarrow> chat_inv s \<Longrightarrow> chat_inv t"
  by (cases rule: chat_step.cases)
    (auto intro!: chat_inv_header chat_inv_body chat_inv_written chat_inv_accept split: if_splits)

lemma chat_reachable_inv: "chat_reachable s \<Longrightarrow> chat_inv s"
  by (induction rule: chat_reachable.induct) (auto simp: chat_init_def chat_inv_def dest: chat_inv_step)

subsection \<open>Properties\<close>

text \<open>What is typed into one client is what another prints: the messages made of the lines of
  the input, sent one after another as bytes, leave in a client that receives them exactly those
  lines, provided no line is longer than 512 characters or has a NUL byte.\<close>

theorem chat_lines:
  assumes "length g = header_length + max_body_length"
    and "\<forall>l \<in> set (lines_of stdin). length l \<le> max_body_length \<and> CHR 0x00 \<notin> set l"
    and "cc_reading c = Client_header" and "msg_ok (cc_read_msg c)"
  shows "cc_output (client_receive c (concat (map wire (client_messages g stdin)))) =
    cc_output c @ concat (map (\<lambda>l. l @ [NL]) (lines_of stdin))"
proof -
  have ms: "client_messages g stdin = map (message_of g) (lines_of stdin)"
    unfolding client_messages_def
    by (rule arg_cong [where f = "map _"], rule iffD2 [OF takeWhile_eq_all_conv]) (use assms(2) in blast)
  have "\<forall>m \<in> set (client_messages g stdin). decodable m"
    using assms(2) message_of_body(2) [OF assms(1)] by (auto simp: ms)
  from client_receive_all [OF this assms(3,4)]
  have "cc_output (client_receive c (concat (map wire (client_messages g stdin)))) =
    cc_output c @ concat (map (\<lambda>l. msg_body (message_of g l) @ [NL]) (lines_of stdin))"
    by (simp add: ms comp_def)
  also have "map (\<lambda>l. msg_body (message_of g l) @ [NL]) (lines_of stdin) = map (\<lambda>l. l @ [NL]) (lines_of stdin)"
    using assms(2) message_of_body(1) [OF assms(1)] by simp
  finally show ?thesis .
qed

definition zeros :: string where "zeros = replicate 516 (CHR 0x00)"

lemma zeros: "length zeros = header_length + max_body_length"
  by (simp add: zeros_def msg_consts)

theorem chat_lines_witness:
  "cc_output (client_receive (on_connect False (new_client zeros))
      (concat (map wire (client_messages zeros ''hi'')))) = ''hi'' @ [NL]"
proof -
  have l: "lines_of ''hi'' = [''hi'']" by (rule lines_of_last) simp_all
  have "msg_ok (cc_read_msg (on_connect False (new_client zeros)))"
    using zeros by (simp add: on_connect_def client_read_header_def new_client_def new_message_def msg_ok_def)
  from chat_lines [OF zeros _ _ this, of "''hi''"] show ?thesis
    by (simp add: l on_connect_def client_read_header_def new_client_def max_body_length_def)
qed

text \<open>C23. All participants get the messages of the room in the room's order and without gaps: what a
  participant has been sent, followed by what is queued for it, is the end of the room's history
  from some point on, and a write is pending exactly while something is queued.\<close>

theorem chat_order:
  assumes "chat_reachable s" and "i \<in> participants s"
  shows "(\<exists>k \<le> length (history s). cs_sent (session s i) @ write_msgs (session s i) = drop k (history s)) \<and>
    (cs_writing (session s i) \<longleftrightarrow> write_msgs (session s i) \<noteq> [])"
proof -
  have "member_ok (history s) (session s i)" "session_ok (session s i)"
    using chat_reachable_inv [OF assms(1)] assms(2) by (auto simp: chat_inv_def)
  then show ?thesis by (simp add: member_ok_def session_ok_def)
qed

definition chat_started :: chat_state where
  "chat_started = \<lparr>participants = {}, recent_msgs = [], session = (\<lambda>_. new_session zeros), sessions_so_far = 0,
     history = []\<rparr>"

lemma chat_one: "chat_reachable (on_chat_accept False zeros chat_started)"
  by (rule chat_more [OF chat_boot accepted])
    (simp_all add: zeros chat_init_def chat_started_def new_session_def)

lemma chat_one_simps: "participants (on_chat_accept False zeros chat_started) = {0}"
  "sessions_so_far (on_chat_accept False zeros chat_started) = 1"
  by (simp_all add: on_chat_accept_def chat_started_def room_join_def Let_def)

theorem chat_order_witness:
  "\<exists>s :: chat_state. 0 \<in> participants s \<and>
    (\<exists>k \<le> length (history s). cs_sent (session s 0) @ write_msgs (session s 0) = drop k (history s)) \<and>
    (cs_writing (session s 0) \<longleftrightarrow> write_msgs (session s 0) \<noteq> [])"
  using chat_order [OF chat_one, of 0] by (intro exI [of _ "on_chat_accept False zeros chat_started"]) (simp add: chat_one_simps)

text \<open>The data of the chat server keeps its shape: the room remembers the last 100 messages of its
  history, no array is ever written past its 516 bytes, every message passed on has a header
  that says its length, which is at most 512, and no handler takes a message from an empty queue.\<close>

theorem chat_bounds:
  assumes "chat_reachable s"
  shows "recent_msgs s = drop (length (history s) - 100) (history s) \<and>
    (\<forall>m \<in> set (history s). length (msg_data m) = 516 \<and> msg_body_length m \<le> 512 \<and> decode_header m = (True, m)) \<and>
    (\<forall>i < sessions_so_far s. length (msg_data (read_msg (session s i))) = 516 \<and>
       (cs_writing (session s i) \<longrightarrow> write_msgs (session s i) \<noteq> []))"
  using chat_reachable_inv [OF assms]
  by (auto simp: chat_inv_def decodable_def msg_ok_def session_ok_def msg_consts max_recent_msgs_def)

theorem chat_bounds_witness:
  "recent_msgs (on_chat_accept False zeros chat_started) =
     drop (length (history (on_chat_accept False zeros chat_started)) - 100)
       (history (on_chat_accept False zeros chat_started)) \<and>
   length (msg_data (read_msg (session (on_chat_accept False zeros chat_started) 0))) = 516"
  using chat_bounds [OF chat_one] by (simp add: chat_one_simps)

end
