(* ===== verification/Chat_Posix_Properties.thy ===== *)
theory Chat_Posix_Properties
  imports Chat_Posix Chat_Properties
begin

text \<open>
  The chat client for POSIX descriptors: it prints what the other client prints, and nothing of what is
  typed is lost before the end of the input, although long lines are split.
\<close>

subsection \<open>The two clients print the same\<close>

definition same_reading :: "posix_client \<Rightarrow> chat_client \<Rightarrow> bool" where
  "same_reading p c \<longleftrightarrow> pc_read_msg p = cc_read_msg c \<and> pc_output p = cc_output c \<and> pc_open p = cc_open c \<and>
     (pc_net p = Net_header \<longleftrightarrow> cc_reading c = Client_header) \<and> (pc_net p = Net_body \<longleftrightarrow> cc_reading c = Client_body)"

lemma same_header:
  assumes "same_reading p c"
  shows "same_reading (on_posix_header error b p) (on_client_header error b c)"
  using assms
  by (simp add: same_reading_def on_posix_header_def on_client_header_def posix_read_body_def posix_close_def
      client_close_def Let_def)

lemma same_body:
  assumes "same_reading p c"
  shows "same_reading (on_posix_output False (on_posix_body False b p)) (on_client_body False b c)"
  using assms
  by (simp add: same_reading_def on_posix_output_def on_posix_body_def on_client_body_def posix_read_header_def
      posix_write_output_def client_read_header_def Let_def)

lemma same_receive:
  assumes "same_reading p c"
  shows "same_reading (posix_receive p input) (client_receive c input)"
  using assms
proof (induction p input arbitrary: c rule: posix_receive.induct)
  case (1 p input)
  let ?p = "on_posix_header False (take header_length input) p" and ?c = "on_client_header False (take header_length input) c"
  have h: "same_reading ?p ?c" using same_header [OF 1(2)] .
  then have n: "msg_body_length (pc_read_msg ?p) = msg_body_length (cc_read_msg ?c)"
    "pc_net ?p = Net_body \<longleftrightarrow> cc_reading ?c = Client_body" by (simp_all add: same_reading_def)
  show ?case
  proof (cases "pc_net p = Net_header \<and> header_length \<le> length input")
    case True
    then have t: "cc_reading c = Client_header \<and> header_length \<le> length input" using 1(2) by (simp add: same_reading_def)
    show ?thesis
    proof (cases "pc_net ?p = Net_body \<and> msg_body_length (pc_read_msg ?p) \<le> length (drop header_length input)")
      case b: True
      note ih = 1(1) [OF True refl refl refl b same_body [OF h]]
      show ?thesis
        by (subst posix_receive.simps, subst client_receive.simps) (use True t b n ih in \<open>simp add: Let_def\<close>)
    next
      case b: False
      show ?thesis
        by (subst posix_receive.simps, subst client_receive.simps) (use True t b n h in \<open>auto simp: Let_def\<close>)
    qed
  next
    case False
    then show ?thesis using 1(2)
      by (subst posix_receive.simps, subst client_receive.simps) (auto simp: same_reading_def)
  qed
qed


text \<open>Connected to the same server, the two chat clients print the same for the same bytes, and both or neither
  close the connection.\<close>

theorem posix_prints_same:
  "pc_output (posix_receive (on_posix_connect error (new_posix_client g g')) input) =
     cc_output (client_receive (on_connect error (new_client g)) input) \<and>
   pc_open (posix_receive (on_posix_connect error (new_posix_client g g')) input) =
     cc_open (client_receive (on_connect error (new_client g)) input)"
proof -
  have "same_reading (on_posix_connect error (new_posix_client g g')) (on_connect error (new_client g))"
    by (simp add: same_reading_def on_posix_connect_def on_connect_def posix_read_input_def posix_read_header_def
        client_read_header_def new_posix_client_def new_client_def)
  from same_receive [OF this, of input] show ?thesis by (simp add: same_reading_def)
qed

subsection \<open>Nothing typed is lost\<close>

lemma encoded:
  assumes "msg_ok m"
  shows "msg_body (encode_header m) = msg_body m" and "decodable (encode_header m)"
proof -
  have "length (sprintf_4d (msg_body_length m)) = 4" using encode_header_data(2) [OF assms] .
  then show "msg_body (encode_header m) = msg_body m"
    unfolding encode_header_def by (intro body_put_header) (simp add: msg_consts)
  show "decodable (encode_header m)" using assms by (simp add: decodable_def decode_encoded)
qed

definition typed :: "chat_message \<times> bool \<Rightarrow> string" where
  "typed x = msg_body (fst x) @ (if snd x then [NL] else [])"

definition posix_inv :: "posix_client \<Rightarrow> bool" where
  "posix_inv c \<longleftrightarrow> msg_ok (pc_read_msg c) \<and> msg_ok (pc_write_msg c) \<and>
     (pc_net c = Net_body \<or> pc_net c = Net_output \<longrightarrow> decodable (pc_read_msg c)) \<and>
     length (pc_input_buffer c) \<le> max_body_length \<and> concat (map typed (pc_messages c)) @ pc_input_buffer c = pc_input c \<and>
     (\<forall>x \<in> set (pc_messages c). decodable (fst x) \<and> NL \<notin> set (msg_body (fst x)) \<and>
        (\<not> snd x \<longrightarrow> length (msg_body (fst x)) = max_body_length)) \<and>
     (pc_user c = User_message \<longrightarrow> pc_messages c \<noteq> [] \<and> fst (last (pc_messages c)) = pc_write_msg c)"

text \<open>A message made of the buffer has it as its body.\<close>

lemma message_made:
  assumes "msg_ok w" and "length b \<le> max_body_length"
  shows "msg_body (encode_header (put_body b (set_body_length (length b) w))) = b"
    and "decodable (encode_header (put_body b (set_body_length (length b) w)))"
proof -
  have l: "msg_body_length (set_body_length (length b) w) = length b" using assms(2) by (simp add: set_body_length_def)
  have ok: "msg_ok (put_body b (set_body_length (length b) w))" using assms by simp
  have "msg_body (put_body b (set_body_length (length b) w)) = b"
    using assms(1) l by (intro body_put_body) simp_all
  then show "msg_body (encode_header (put_body b (set_body_length (length b) w))) = b" using encoded(1) [OF ok] by simp
  show "decodable (encode_header (put_body b (set_body_length (length b) w)))" by (rule encoded(2) [OF ok])
qed

lemma posix_inv_input:
  assumes "posix_inv c" and "input_event (pc_input_buffer c @ bytes) result"
  shows "posix_inv (on_posix_input result bytes c)"
proof -
  let ?b = "pc_input_buffer c @ bytes" and ?w = "pc_write_msg c"
  have w: "msg_ok ?w" using assms(1) by (simp add: posix_inv_def)
  have i: "concat (map typed (pc_messages c)) @ ?b = pc_input c @ bytes" using assms(1) by (simp add: posix_inv_def)
  show ?thesis
  proof (cases result)
    case (Line n)
    define l where "l = takeWhile (\<lambda>x. x \<noteq> NL) ?b"
    have n: "n = Suc (length l)" and len: "length ?b \<le> max_body_length" and nl: "NL \<in> set ?b"
      using assms(2) Line by (simp_all add: l_def)
    have b: "?b = l @ NL # drop (Suc (length l)) ?b" unfolding l_def by (rule first_line [OF nl])
    have t: "take (length l) ?b = l" by (subst b) simp
    have d: "drop 1 (drop (length l) ?b) = drop (Suc (length l)) ?b" by (simp del: drop_append)
    have ll: "length l \<le> max_body_length" using len length_takeWhile_le [of "\<lambda>x. x \<noteq> NL" ?b] unfolding l_def by linarith
    have no: "NL \<notin> set l" unfolding l_def by (auto dest: set_takeWhileD)
    let ?m = "encode_header (put_body l (set_body_length (length l) ?w))"
    have m: "msg_body ?m = l" "decodable ?m" using message_made [OF w ll] by simp_all
    have "on_posix_input result bytes c = c\<lparr>pc_user := User_message, pc_input := pc_input c @ bytes, pc_write_msg := ?m,
        pc_input_buffer := drop (Suc (length l)) ?b, pc_messages := pc_messages c @ [(?m, True)]\<rparr>"
      unfolding on_posix_input_def Line n posix_write_message_def Let_def
      by (simp add: t d del: take_append drop_append take_eq_Nil take_eq_Nil2)
    moreover have "concat (map typed (pc_messages c @ [(?m, True)])) @ drop (Suc (length l)) ?b = pc_input c @ bytes"
      using i b m(1) by (simp add: typed_def del: drop_append)
    moreover have "length (drop (Suc (length l)) ?b) \<le> max_body_length" using len by simp
    moreover have "msg_ok ?m" using m(2) by (simp add: decodable_def)
    ultimately show ?thesis using assms(1) m no
      by (simp add: posix_inv_def del: drop_append length_drop map_append concat_append)
  next
    case Not_found
    have len: "length ?b = max_body_length" and no: "NL \<notin> set ?b" using assms(2) Not_found by simp_all
    let ?m = "encode_header (put_body ?b (set_body_length (length ?b) ?w))"
    have m: "msg_body ?m = ?b" "decodable ?m" by (rule message_made [OF w], use len in simp)+
    have "on_posix_input result bytes c = c\<lparr>pc_user := User_message, pc_input := pc_input c @ bytes, pc_write_msg := ?m,
        pc_input_buffer := [], pc_messages := pc_messages c @ [(?m, False)]\<rparr>"
      unfolding on_posix_input_def Not_found posix_write_message_def Let_def by simp
    moreover have "concat (map typed (pc_messages c @ [(?m, False)])) @ [] = pc_input c @ bytes"
      using i m(1) by (simp add: typed_def)
    moreover have "msg_ok ?m" using m(2) by (simp add: decodable_def)
    ultimately show ?thesis using assms(1) m no len
      by (simp add: posix_inv_def del: map_append concat_append append_Nil2)
  next
    case Input_error
    then show ?thesis using assms i by (simp add: posix_inv_def on_posix_input_def posix_close_def Let_def)
  qed
qed

lemma posix_inv_net:
  assumes "posix_inv c"
  shows "pc_net c = Net_header \<Longrightarrow> length bytes \<le> header_length \<Longrightarrow> posix_inv (on_posix_header error bytes c)"
    and "pc_net c = Net_body \<Longrightarrow> (if error then length bytes \<le> msg_body_length (pc_read_msg c)
        else length bytes = msg_body_length (pc_read_msg c)) \<Longrightarrow> posix_inv (on_posix_body error bytes c)"
    and "posix_inv (on_posix_output error c)" and "posix_inv (on_posix_written error c)"
proof -
  have ok: "msg_ok (pc_read_msg c)" using assms by (simp add: posix_inv_def)
  show "posix_inv (on_posix_header error bytes c)" if "length bytes \<le> header_length"
    using assms that decodable_decoded [of "put_header bytes (pc_read_msg c)"]
    by (simp add: posix_inv_def on_posix_header_def posix_read_body_def posix_close_def Let_def)
  show "posix_inv (on_posix_body error bytes c)" if "pc_net c = Net_body"
    and l: "if error then length bytes \<le> msg_body_length (pc_read_msg c) else length bytes = msg_body_length (pc_read_msg c)"
  proof -
    have d: "decodable (pc_read_msg c)" using assms that(1) by (simp add: posix_inv_def)
    have "length bytes \<le> max_body_length" using l ok by (auto simp: msg_ok_def split: if_splits)
    then have "msg_ok (put_body bytes (pc_read_msg c))" using ok by simp
    then show ?thesis using assms l decodable_put_body [OF d, of bytes]
      by (cases error) (simp_all add: posix_inv_def on_posix_body_def posix_write_output_def posix_close_def Let_def)
  qed
  show "posix_inv (on_posix_output error c)" "posix_inv (on_posix_written error c)"
    using assms by (simp_all add: posix_inv_def on_posix_output_def on_posix_written_def posix_read_header_def
      posix_read_input_def posix_close_def Let_def)
qed

lemma posix_reachable_inv: "posix_reachable c \<Longrightarrow> posix_inv c"
proof (induction rule: posix_reachable.induct)
  case (px_connected g g' error)
  then show ?case
    by (simp add: posix_inv_def on_posix_connect_def new_posix_client_def new_message_def msg_ok_def
        posix_read_header_def posix_read_input_def)
next
  case (px_more c d)
  from px_more(2) px_more(3) show ?case
    by cases (auto intro!: posix_inv_net posix_inv_input split: if_splits)
qed

text \<open>Whatever pieces the standard input arrives in, the messages the client sends, with a newline for each line
  ended, followed by what is still in its buffer, are exactly the input so far; every message is
  one a receiver decodes, contains no newline, and is 512 bytes long when it is not the end of a line.\<close>

theorem posix_nothing_lost:
  assumes "posix_reachable c"
  shows "concat (map typed (pc_messages c)) @ pc_input_buffer c = pc_input c \<and>
    (\<forall>x \<in> set (pc_messages c). decodable (fst x) \<and> NL \<notin> set (msg_body (fst x)) \<and>
       (\<not> snd x \<longrightarrow> length (msg_body (fst x)) = max_body_length))"
  using posix_reachable_inv [OF assms] by (simp add: posix_inv_def)

theorem posix_nothing_lost_witness:
  "concat (map typed (pc_messages (on_posix_input (Line 3) (''hi'' @ [NL] @ ''y'') (on_posix_connect False (new_posix_client zeros zeros))))) @ ''y'' = (''hi'' @ [NL] @ ''y'')"
proof -
  let ?c = "on_posix_connect False (new_posix_client zeros zeros)" and ?d = "on_posix_input (Line 3) (''hi'' @ [NL] @ ''y'') (on_posix_connect False (new_posix_client zeros zeros))"
  have "posix_step ?c ?d"
    by (rule px_input) (simp_all add: on_posix_connect_def posix_read_input_def posix_read_header_def new_posix_client_def max_body_length_def)
  then have "posix_reachable ?d" using px_connected [OF zeros zeros] px_more by blast
  moreover have "pc_input_buffer ?d = ''y''" "pc_input ?d = (''hi'' @ [NL] @ ''y'')"
    by (simp_all add: on_posix_input_def on_posix_connect_def posix_read_input_def posix_read_header_def
      new_posix_client_def posix_write_message_def Let_def)
  ultimately show ?thesis using posix_nothing_lost [of ?d] by simp
qed

end
