(* ===== verification/Fork_Join.thy ===== *)
theory Fork_Join
  imports Std_Strings
begin

text \<open>
  The fork-join pool and the sort that runs on it (\<open>boost_asio/example/cpp11/executors/fork_join.cpp\<close>):
  a queue of functions, worker threads, and joins that lend their thread to the queue while they wait.
  Everything a thread does between two waits or calls with the mutex held is one step. The functions
  queued are calls of \<open>fork_join_sort\<close>, which do not throw.
\<close>

subsection \<open>Calls\<close>

text \<open>
  A call of \<open>fork_join_sort\<close> is named by the halves that lead to it from the call in \<open>main\<close>, the last one first
  (\<open>True\<close> is the second half). The name gives its \<open>begin\<close> and \<open>end\<close>, and also names the \<open>fork_executor\<close>, and
  so the work count, it creates.
\<close>

type_synonym call = "bool list"

fun range_of :: "nat \<Rightarrow> call \<Rightarrow> nat \<times> nat" where
  "range_of len [] = (0, len)"
| "range_of len (second # c) =
     (let (b, e) = range_of len c; n = e - b in if second then (b + n div 2, e) else (b, b + n div 2))"

definition cutoff :: nat where "cutoff = 32768"

definition big :: "nat \<Rightarrow> call \<Rightarrow> bool" where
  "big len c \<longleftrightarrow> (let (b, e) = range_of len c in e - b > cutoff)"

text \<open>Where a call is: before its first statement, before its first or second \<open>execute\<close>, in the join of the guard, before
  \<open>inplace_merge\<close>, at its end.\<close>

datatype pc = Enter | Fork bool | Join | Merge | Returned

subsection \<open>State\<close>

text \<open>For the statements: what has become of each call, and when it was started.\<close>

datatype phase = Fresh | Queued | Active nat pc | Done

text \<open>
  Thread 0 is the main thread, threads 1 to \<open>n\<close> are those of the pool. A thread runs the call on top of its
  stack; a pool thread with an empty stack is in its loop. \<open>waiting\<close> are the threads blocked in
  \<open>condition_.wait\<close>.
\<close>

record 'a pool =
  queue :: "call list"
  use_count :: nat
  work_count :: "call \<Rightarrow> nat"
  stacks :: "nat \<Rightarrow> (call \<times> pc) list"
  waiting :: "nat set"
  ended :: "nat set"
  vec :: "'a list"
  phases :: "call \<Rightarrow> phase"
  birth :: "call \<Rightarrow> nat"
  clock :: nat

definition pool_start :: "'a list \<Rightarrow> 'a pool" where
  "pool_start xs = \<lparr>queue = [], use_count = 1, work_count = (\<lambda>_. 0),
     stacks = (\<lambda>t. if t = 0 then [([], Enter)] else []), waiting = {}, ended = {}, vec = xs,
     phases = (\<lambda>c. if c = [] then Active 0 Enter else Fresh), birth = (\<lambda>_. 0), clock = 1\<rparr>"

definition start_call :: "nat \<Rightarrow> call \<Rightarrow> 'a pool \<Rightarrow> 'a pool" where
  "start_call t c s = s\<lparr>stacks := (stacks s)(t := (c, Enter) # stacks s t),
     phases := (phases s)(c := Active t Enter), birth := (birth s)(c := clock s), clock := Suc (clock s)\<rparr>"

definition set_pc :: "nat \<Rightarrow> pc \<Rightarrow> 'a pool \<Rightarrow> 'a pool" where
  "set_pc t pc s = (let c = fst (hd (stacks s t)) in
     s\<lparr>stacks := (stacks s)(t := (c, pc) # tl (stacks s t)), phases := (phases s)(c := Active t pc)\<rparr>)"

subsection \<open>fork_join_pool\<close>

definition notify_one :: "nat option \<Rightarrow> 'a pool \<Rightarrow> 'a pool" where
  "notify_one w s = s\<lparr>waiting := waiting s - (case w of None \<Rightarrow> {} | Some u \<Rightarrow> {u})\<rparr>"

definition notify_all :: "'a pool \<Rightarrow> 'a pool" where
  "notify_all s = s\<lparr>waiting := {}\<rparr>"

definition condition_wait :: "nat \<Rightarrow> 'a pool \<Rightarrow> 'a pool" where
  "condition_wait t s = s\<lparr>waiting := insert t (waiting s)\<rparr>"

definition do_work_started :: "call \<Rightarrow> 'a pool \<Rightarrow> 'a pool" where
  "do_work_started g s =
     (let s = s\<lparr>work_count := (work_count s)(g := Suc (work_count s g))\<rparr>
      in if work_count s g = 1 then s\<lparr>use_count := Suc (use_count s)\<rparr> else s)"

definition do_work_finished :: "call \<Rightarrow> 'a pool \<Rightarrow> 'a pool" where
  "do_work_finished g s =
     (let s = s\<lparr>work_count := (work_count s)(g := work_count s g - 1)\<rparr>
      in if work_count s g = 0 then notify_all (s\<lparr>use_count := use_count s - 1\<rparr>) else s)"

definition execute_next :: "nat \<Rightarrow> 'a pool \<Rightarrow> bool \<times> 'a pool" where
  "execute_next t s =
     (case queue s of [] \<Rightarrow> (False, s) | c # q \<Rightarrow> (True, start_call t c (s\<lparr>queue := q\<rparr>)))"

text \<open>\<open>w\<close> is the thread \<open>notify_one\<close> chooses to wake.\<close>

definition do_execute :: "nat \<Rightarrow> nat \<Rightarrow> nat option \<Rightarrow> call \<Rightarrow> call \<Rightarrow> 'a pool \<Rightarrow> 'a pool" where
  "do_execute thread_count t w c g s =
     (if length (queue s) > thread_count * 16
      then start_call t c (do_work_started g s)
      else notify_one w (do_work_started g (s\<lparr>queue := queue s @ [c], phases := (phases s)(c := Queued)\<rparr>)))"

definition worker_loop :: "nat \<Rightarrow> 'a pool \<Rightarrow> 'a pool" where
  "worker_loop t s =
     (if use_count s > 0
      then let (executed, s') = execute_next t s in if \<not> executed then condition_wait t s' else s'
      else s\<lparr>ended := insert t (ended s)\<rparr>)"

definition stop_threads :: "'a pool \<Rightarrow> 'a pool" where
  "stop_threads s = notify_all (s\<lparr>use_count := use_count s - 1\<rparr>)"

subsection \<open>fork_executor\<close>

definition join :: "nat \<Rightarrow> call \<Rightarrow> 'a pool \<Rightarrow> 'a pool" where
  "join t g s =
     (if work_count s g > 0
      then let (executed, s') = execute_next t s in if \<not> executed then condition_wait t s' else s'
      else set_pc t Merge s)"

subsection \<open>fork_join_sort\<close>

definition slice :: "nat \<times> nat \<Rightarrow> 'a list \<Rightarrow> 'a list" where
  "slice r xs = take (snd r - fst r) (drop (fst r) xs)"

definition put_slice :: "nat \<times> nat \<Rightarrow> 'a list \<Rightarrow> 'a list \<Rightarrow> 'a list" where
  "put_slice r ys xs = take (fst r) xs @ ys @ drop (snd r) xs"

text \<open>\<open>std::inplace_merge\<close> of two sorted ranges: stable.\<close>

fun merge :: "'a::linorder list \<Rightarrow> 'a list \<Rightarrow> 'a list" where
  "merge [] ys = ys"
| "merge (x # xs) [] = x # xs"
| "merge (x # xs) (y # ys) = (if y < x then y # merge (x # xs) ys else x # merge xs (y # ys))"

definition inplace_merge :: "nat \<Rightarrow> call \<Rightarrow> 'a::linorder list \<Rightarrow> 'a list" where
  "inplace_merge len c xs = put_slice (range_of len c)
     (merge (slice (range_of len (False # c)) xs) (slice (range_of len (True # c)) xs)) xs"

text \<open>One step of the call on top of the stack of thread \<open>t\<close>; its end is also that of \<open>execute\<close> for a queued one.\<close>

definition fork_join_sort :: "nat \<Rightarrow> nat \<Rightarrow> nat option \<Rightarrow> call \<Rightarrow> pc \<Rightarrow> 'a::linorder pool \<Rightarrow> 'a pool" where
  "fork_join_sort thread_count t w c pc s =
     (let len = length (vec s)
      in case pc of
           Enter \<Rightarrow>
             if big len c then set_pc t (Fork False) (s\<lparr>work_count := (work_count s)(c := 0)\<rparr>)
             else set_pc t Returned (s\<lparr>vec := put_slice (range_of len c) (sort (slice (range_of len c) (vec s))) (vec s)\<rparr>)
         | Fork second \<Rightarrow>
             do_execute thread_count t w (second # c) c (set_pc t (if second then Join else Fork True) s)
         | Join \<Rightarrow> join t c s
         | Merge \<Rightarrow> set_pc t Returned (s\<lparr>vec := inplace_merge len c (vec s)\<rparr>)
         | Returned \<Rightarrow>
             let s = s\<lparr>stacks := (stacks s)(t := tl (stacks s t)), phases := (phases s)(c := Done)\<rparr>
             in if c = [] then s else do_work_finished (tl c) s)"

subsection \<open>Steps\<close>

definition thread_step :: "nat \<Rightarrow> nat \<Rightarrow> nat option \<Rightarrow> 'a::linorder pool \<Rightarrow> 'a pool" where
  "thread_step thread_count t w s =
     (case stacks s t of
        (c, pc) # _ \<Rightarrow> fork_join_sort thread_count t w c pc s
      | [] \<Rightarrow> if t = 0 then (stop_threads s)\<lparr>ended := insert 0 (ended s)\<rparr> else worker_loop t s)"

definition may_wake :: "nat option \<Rightarrow> 'a pool \<Rightarrow> bool" where
  "may_wake w s \<longleftrightarrow> (case w of None \<Rightarrow> waiting s = {} | Some u \<Rightarrow> u \<in> waiting s)"

text \<open>A thread that runs takes a step; a thread that waits may wake up for no reason.\<close>

inductive pool_step :: "nat \<Rightarrow> 'a::linorder pool \<Rightarrow> 'a pool \<Rightarrow> bool" for thread_count where
  runs: "t \<le> thread_count \<Longrightarrow> t \<notin> ended s \<Longrightarrow> t \<notin> waiting s \<Longrightarrow> may_wake w s \<Longrightarrow>
    pool_step thread_count s (thread_step thread_count t w s)"
| wakes: "t \<in> waiting s \<Longrightarrow> pool_step thread_count s (s\<lparr>waiting := waiting s - {t}\<rparr>)"

inductive pool_reachable :: "nat \<Rightarrow> 'a::linorder list \<Rightarrow> 'a pool \<Rightarrow> bool" for thread_count xs where
  pool_boot: "pool_reachable thread_count xs (pool_start xs)"
| pool_more: "pool_reachable thread_count xs s \<Longrightarrow> pool_step thread_count s u \<Longrightarrow> pool_reachable thread_count xs u"

subsection \<open>main\<close>

text \<open>
  The numbers are doubles in the code, but whole ones. \<open>shuffle\<close> is \<open>std::shuffle\<close> with the generator; a
  negative size is a huge \<open>size_t\<close>, which the vector refuses.
\<close>

datatype fork_join_outcome = Usage string | Length_error | Sorting "nat pool"

definition fork_join_main :: "string list \<Rightarrow> (nat list \<Rightarrow> nat list) \<Rightarrow> fork_join_outcome" where
  "fork_join_main argv shuffle =
     (if length argv \<noteq> 2 then Usage (''Usage: fork_join <size>'' @ [CHR 0x0A])
      else if atoi (argv ! 1) < 0 then Length_error
      else Sorting (pool_start (shuffle [0..<nat (atoi (argv ! 1))])))"

end
