(* ===== verification/Fork_Join_Correct.thy ===== *)
theory Fork_Join_Correct
  imports Fork_Join "HOL-Library.Sublist"
begin

text \<open>
  The invariant of the fork-join pool, in six parts: the tree of calls; queue and stacks hold exactly the
  calls that are queued and active; the two kinds of counts are right; waiting threads have reason to
  wait; a call is younger than the call that made it and than those below it on its stack; and the
  ranges of finished calls are sorted.
\<close>

subsection \<open>Tree of calls\<close>

definition live :: "phase \<Rightarrow> bool" where
  "live ph \<longleftrightarrow> ph = Queued \<or> (\<exists>t pc. ph = Active t pc)"

lemma live_simps [simp]: "live Queued" "live (Active t pc)" "\<not> live Fresh" "\<not> live Done"
  by (simp_all add: live_def)

definition none :: "phase \<Rightarrow> phase \<Rightarrow> bool" where "none a b \<longleftrightarrow> a = Fresh \<and> b = Fresh"
definition both :: "phase \<Rightarrow> phase \<Rightarrow> bool" where "both a b \<longleftrightarrow> a = Done \<and> b = Done"

text \<open>What the phase of a call says of its two halves.\<close>

fun kids_ok :: "phase \<Rightarrow> phase \<Rightarrow> phase \<Rightarrow> bool" where
  "kids_ok Fresh a b = none a b"
| "kids_ok Queued a b = none a b"
| "kids_ok (Active t Enter) a b = none a b"
| "kids_ok (Active t (Fork second)) a b = (if second then a \<noteq> Fresh \<and> b = Fresh else none a b)"
| "kids_ok (Active t Join) a b = (a \<noteq> Fresh \<and> b \<noteq> Fresh)"
| "kids_ok (Active t Merge) a b = both a b"
| "kids_ok (Active t Returned) a b = (none a b \<or> both a b)"
| "kids_ok Done a b = (none a b \<or> both a b)"

lemmas pair_defs = none_def both_def

definition tree :: "(call \<Rightarrow> phase) \<Rightarrow> bool" where
  "tree ph \<longleftrightarrow> (\<forall>c. kids_ok (ph c) (ph (False # c)) (ph (True # c)))"

lemma treeD: "tree ph \<Longrightarrow> kids_ok (ph c) (ph (False # c)) (ph (True # c))"
  by (simp add: tree_def)

text \<open>Of a live half its call only knows that it was started; it may as well be done.\<close>

lemma kids_live:
  assumes "live a" and "live a' \<or> a' = Done"
  shows "kids_ok P a b \<Longrightarrow> kids_ok P a' b" and "kids_ok P b a \<Longrightarrow> kids_ok P b a'"
proof -
  have n: "a \<noteq> Fresh" "a \<noteq> Done" "a' \<noteq> Fresh" using assms by auto
  show "kids_ok P a b \<Longrightarrow> kids_ok P a' b"
    using n by (cases "(P, a, b)" rule: kids_ok.cases) (auto simp: pair_defs split: if_splits)
  show "kids_ok P b a \<Longrightarrow> kids_ok P b a'"
    using n by (cases "(P, b, a)" rule: kids_ok.cases) (auto simp: pair_defs split: if_splits)
qed

lemma parent_waits:
  assumes "tree ph" and "live (ph (d # p))"
  shows "\<exists>t pc. ph p = Active t pc \<and> (pc = Fork True \<or> pc = Join)"
proof -
  have n: "ph (d # p) \<noteq> Fresh" "ph (d # p) \<noteq> Done" using assms(2) by auto
  show ?thesis using treeD [OF assms(1), of p] n
    by (cases "(ph p, ph (False # p), ph (True # p))" rule: kids_ok.cases; cases d) (auto simp: pair_defs split: if_splits)
qed

text \<open>A call changes its phase; the call that made it must allow this.\<close>

lemma tree_upd:
  assumes "tree ph" and "kids_ok v (ph (False # c)) (ph (True # c))"
    and "\<And>p. c = False # p \<Longrightarrow> kids_ok (ph p) v (ph (True # p))"
    and "\<And>p. c = True # p \<Longrightarrow> kids_ok (ph p) (ph (False # p)) v"
  shows "tree (ph(c := v))"
  unfolding tree_def
proof
  fix x
  show "kids_ok ((ph(c := v)) x) ((ph(c := v)) (False # x)) ((ph(c := v)) (True # x))"
    using treeD [OF assms(1), of x] assms(2-4) by (cases "x = c") auto
qed

lemma tree_fork:
  assumes "tree ph" and "ph p = Active t (Fork d)" and "live v" and "kids_ok v Fresh Fresh"
  shows "tree (ph(p := Active t (if d then Join else Fork True), d # p := v))" and "ph (d # p) = Fresh"
proof -
  have p: "kids_ok (Active t (Fork d)) (ph (False # p)) (ph (True # p))" using treeD [OF assms(1), of p] assms(2) by simp
  then show f: "ph (d # p) = Fresh" by (cases d) (auto simp: none_def)
  have kids: "ph (False # d # p) = Fresh" "ph (True # d # p) = Fresh"
    using treeD [OF assms(1), of "d # p"] f by (auto simp: none_def)
  have "v \<noteq> Fresh" using assms(3) by auto
  have l: "live (ph p)" "live (Active t pc) \<or> Active t pc = Done" for pc using assms(2) by simp_all
  show "tree (ph(p := Active t (if d then Join else Fork True), d # p := v))"
    unfolding tree_def
  proof
    fix x
    let ?f = "ph(p := Active t (if d then Join else Fork True), d # p := v)"
    consider "x = d # p" | "x = p" | e where "p = e # x" | "x \<noteq> d # p" "x \<noteq> p" "\<forall>e. p \<noteq> e # x" by blast
    then show "kids_ok (?f x) (?f (False # x)) (?f (True # x))"
    proof cases
      case 1
      then show ?thesis using assms(4) kids by simp
    next
      case 2
      then show ?thesis using p \<open>v \<noteq> Fresh\<close> by (cases d) (auto simp: none_def)
    next
      case 3
      have "kids_ok (ph x) (ph (False # x)) (ph (True # x))" by (rule treeD [OF assms(1)])
      then show ?thesis using 3 kids_live [OF l] by (cases e) auto
    next
      case 4
      then show ?thesis using treeD [OF assms(1), of x] by auto
    qed
  qed
qed

lemma fresh_below: "tree ph \<Longrightarrow> ph c = Fresh \<Longrightarrow> ph (p @ c) = Fresh"
proof (induction p)
  case (Cons d p)
  then show ?case using treeD [of ph "p @ c"] by (cases d) (auto simp: none_def)
qed simp

text \<open>All calls above a live one are active, at a fork or join.\<close>

lemma live_above: "tree ph \<Longrightarrow> live (ph (p @ c)) \<Longrightarrow> p \<noteq> [] \<Longrightarrow>
    \<exists>t pc. ph c = Active t pc \<and> (pc = Fork True \<or> pc = Join)"
proof (induction p)
  case (Cons d p)
  then have "\<exists>t pc. ph (p @ c) = Active t pc \<and> (pc = Fork True \<or> pc = Join)" using parent_waits [of ph d "p @ c"] by simp
  then show ?case using Cons by (cases "p = []") auto
qed simp

subsection \<open>Queue and stacks\<close>

definition link :: "nat \<Rightarrow> call list \<Rightarrow> (nat \<Rightarrow> (call \<times> pc) list) \<Rightarrow> (call \<Rightarrow> phase) \<Rightarrow> bool" where
  "link n q st ph \<longleftrightarrow> distinct q \<and> (\<forall>c. c \<in> set q \<longleftrightarrow> ph c = Queued) \<and>
     (\<forall>t c pc. (c, pc) \<in> set (st t) \<longleftrightarrow> ph c = Active t pc) \<and> (\<forall>t. distinct (map fst (st t))) \<and>
     (\<forall>t > n. st t = []) \<and> finite {c. ph c \<noteq> Fresh}"

lemma linkD:
  assumes "link n q st ph"
  shows "c \<in> set q \<longleftrightarrow> ph c = Queued" and "(c, pc) \<in> set (st t) \<longleftrightarrow> ph c = Active t pc" and "distinct (map fst (st t))"
    and "st t = (c, pc) # fs \<Longrightarrow> ph c = Active t pc" and "st t \<noteq> [] \<Longrightarrow> t \<le> n"
  using assms unfolding link_def by (blast, blast, blast, metis list.set_intros(1), metis not_le)

lemma finite_upd: "finite {c. ph c \<noteq> Fresh} \<Longrightarrow> finite {x. (ph(c := v)) x \<noteq> Fresh}"
  by (rule finite_subset [of _ "insert c {c. ph c \<noteq> Fresh}"]) auto

lemma linkI:
  assumes "distinct q" and "\<And>c. c \<in> set q \<longleftrightarrow> ph c = Queued" and "\<And>t c pc. (c, pc) \<in> set (st t) \<longleftrightarrow> ph c = Active t pc"
    and "\<And>t. distinct (map fst (st t))" and "\<And>t. n < t \<Longrightarrow> st t = []" and "finite {c. ph c \<noteq> Fresh}"
  shows "link n q st ph"
  unfolding link_def by (intro conjI allI impI assms)

text \<open>One stack and the phase of one call change together.\<close>

lemma link_change:
  assumes "link n q st ph" and "t \<le> n" and "distinct q'" and "\<And>x. x \<in> set q' \<longleftrightarrow> (ph(c := v)) x = Queued"
    and "\<And>x y. (x, y) \<in> set fs \<longleftrightarrow> (ph(c := v)) x = Active t y" and "distinct (map fst fs)"
    and "\<And>u y. u \<noteq> t \<Longrightarrow> v \<noteq> Active u y" and "\<And>u y. u \<noteq> t \<Longrightarrow> ph c \<noteq> Active u y"
  shows "link n q' (st(t := fs)) (ph(c := v))"
proof (rule linkI)
  note l = linkD [OF assms(1)]
  show "(x, y) \<in> set ((st(t := fs)) u) \<longleftrightarrow> (ph(c := v)) x = Active u y" for u x y
  proof (cases "u = t")
    case True
    then show ?thesis using assms(5) by simp
  next
    case False
    then show ?thesis using assms(7,8) l(2) [of x y u] by auto
  qed
  show "distinct (map fst ((st(t := fs)) u))" for u using assms(6) l(3) by simp
  show "(st(t := fs)) u = []" if "n < u" for u using that assms(2) l(5) [of u] by auto
  show "finite {x. (ph(c := v)) x \<noteq> Fresh}" using assms(1) unfolding link_def by (intro finite_upd) blast
qed (use assms(3,4) in blast)+

lemma link_q: "link n q st ph \<Longrightarrow> distinct q"
  unfolding link_def by blast

lemma link_top:
  assumes "link n q st ph" and "st t = (c, pc) # fs"
  shows "link n q (st(t := (c, pc') # fs)) (ph(c := Active t pc'))"
proof -
  note l = linkD [OF assms(1)]
  have c: "ph c = Active t pc" "t \<le> n" using l(4) [OF assms(2)] l(5) [of t] assms(2) by auto
  have fs: "c \<notin> fst ` set fs" "distinct (map fst fs)" using l(3) [of t] assms(2) by auto
  show ?thesis
  proof (rule link_change [OF assms(1) c(2) link_q [OF assms(1)]])
    show "(x, y) \<in> set ((c, pc') # fs) \<longleftrightarrow> (ph(c := Active t pc')) x = Active t y" for x y
      using l(2) [of x y t] assms(2) fs(1) by force
  qed (use l(1) c fs in auto)
qed

lemma link_pop:
  assumes "link n q st ph" and "st t = (c, pc) # fs"
  shows "link n q (st(t := fs)) (ph(c := Done))"
proof -
  note l = linkD [OF assms(1)]
  have c: "ph c = Active t pc" "t \<le> n" using l(4) [OF assms(2)] l(5) [of t] assms(2) by auto
  have fs: "c \<notin> fst ` set fs" "distinct (map fst fs)" using l(3) [of t] assms(2) by auto
  show ?thesis
  proof (rule link_change [OF assms(1) c(2) link_q [OF assms(1)]])
    show "(x, y) \<in> set fs \<longleftrightarrow> (ph(c := Done)) x = Active t y" for x y
      using l(2) [of x y t] assms(2) fs(1) by force
  qed (use l(1) c fs in auto)
qed

lemma link_push:
  assumes "link n q st ph" and "\<And>u pc. ph c \<noteq> Active u pc" and "t \<le> n" and "distinct q'" and "set q' = set q - {c}"
  shows "link n q' (st(t := (c, pc) # st t)) (ph(c := Active t pc))"
proof -
  note l = linkD [OF assms(1)]
  have no: "c \<notin> fst ` set (st u)" for u using l(2) [of c _ u] assms(2) by force
  show ?thesis
  proof (rule link_change [OF assms(1,3,4)])
    show "(x, y) \<in> set ((c, pc) # st t) \<longleftrightarrow> (ph(c := Active t pc)) x = Active t y" for x y
      using l(2) [of x y t] no [of t] by force
  qed (use l(1,3) no assms(2,5) in auto)
qed

lemma link_enqueue:
  assumes "link n q st ph" and "\<not> live (ph c)"
  shows "link n (q @ [c]) st (ph(c := Queued))"
proof (rule linkI)
  note l = linkD [OF assms(1)]
  show "distinct (q @ [c])" using link_q [OF assms(1)] l(1) [of c] assms(2) by auto
  show "x \<in> set (q @ [c]) \<longleftrightarrow> (ph(c := Queued)) x = Queued" for x using l(1) by auto
  show "(x, y) \<in> set (st u) \<longleftrightarrow> (ph(c := Queued)) x = Active u y" for u x y using l(2) assms(2) by auto
  show "distinct (map fst (st u))" for u by (rule l(3))
  show "st u = []" if "n < u" for u using that l(5) [of u] by auto
  show "finite {x. (ph(c := Queued)) x \<noteq> Fresh}" using assms(1) unfolding link_def by (intro finite_upd) blast
qed

subsection \<open>Counts\<close>

definition counts :: "nat set \<Rightarrow> (call \<Rightarrow> nat) \<Rightarrow> nat \<Rightarrow> (call \<Rightarrow> phase) \<Rightarrow> bool" where
  "counts en wc uc ph \<longleftrightarrow>
     (\<forall>p. wc p = of_bool (live (ph (False # p))) + of_bool (live (ph (True # p)))) \<and>
     finite {p. 0 < wc p} \<and> uc = of_bool (0 \<notin> en) + card {p. 0 < wc p}"

lemma countsD:
  assumes "counts en wc uc ph"
  shows "wc p = of_bool (live (ph (False # p))) + of_bool (live (ph (True # p)))" and "finite {p. 0 < wc p}"
    and "uc = of_bool (0 \<notin> en) + card {p. 0 < wc p}"
  using assms unfolding counts_def by (blast, blast, blast)

lemma counts_same:
  assumes "counts en wc uc ph" and "\<And>d p. live (ph' (d # p)) = live (ph (d # p))"
  shows "counts en wc uc ph'"
proof -
  have "counts en wc uc ph' = counts en wc uc ph" unfolding counts_def by (simp only: assms(2))
  then show ?thesis using assms(1) by blast
qed

lemma counts_started:
  assumes "counts en wc uc ph" and "\<not> live (ph (d # p))" and "live v"
  shows "counts en (wc(p := Suc (wc p))) (if wc p = 0 then Suc uc else uc) (ph(d # p := v))"
  unfolding counts_def
proof (intro conjI allI)
  note c = countsD [OF assms(1)]
  let ?wc = "wc(p := Suc (wc p))"
  have i: "{x. 0 < ?wc x} = insert p {x. 0 < wc x}" by auto
  then show "finite {x. 0 < ?wc x}" using c(2) by simp
  show "?wc x = of_bool (live ((ph(d # p := v)) (False # x))) + of_bool (live ((ph(d # p := v)) (True # x)))" for x
    using c(1) [of x] assms(2,3) by (cases d) auto
  show "(if wc p = 0 then Suc uc else uc) = of_bool (0 \<notin> en) + card {x. 0 < ?wc x}"
    unfolding i using c(2,3) by (simp add: card_insert_if)
qed

lemma counts_finished:
  assumes "counts en wc uc ph" and "live (ph (d # p))" and "\<not> live v"
  shows "counts en (wc(p := wc p - 1)) (if wc p - 1 = 0 then uc - 1 else uc) (ph(d # p := v))" and "0 < wc p"
proof -
  note c = countsD [OF assms(1)]
  let ?wc = "wc(p := wc p - 1)"
  show pos: "0 < wc p" using c(1) [of p] assms(2) by (cases d) auto
  have i: "{x. 0 < ?wc x} = (if wc p - 1 = 0 then {x. 0 < wc x} - {p} else {x. 0 < wc x})" by auto
  show "counts en ?wc (if wc p - 1 = 0 then uc - 1 else uc) (ph(d # p := v))"
    unfolding counts_def
  proof (intro conjI allI)
    show "finite {x. 0 < ?wc x}" unfolding i using c(2) by simp
    show "?wc x = of_bool (live ((ph(d # p := v)) (False # x))) + of_bool (live ((ph(d # p := v)) (True # x)))" for x
      using c(1) [of x] assms(2,3) by (cases d) auto
    have "0 < card {x. 0 < wc x}" using pos c(2) by (auto simp: card_gt_0_iff)
    then show "(if wc p - 1 = 0 then uc - 1 else uc) = of_bool (0 \<notin> en) + card {x. 0 < ?wc x}"
      unfolding i using c(2,3) pos by (simp add: card_Diff_singleton)
  qed
qed

lemma counts_zero:
  assumes "counts en wc 0 ph"
  shows "0 \<in> en" and "\<not> live (ph (d # p))"
proof -
  note c = countsD [OF assms]
  show "0 \<in> en" using c(3) by (metis add_is_0 of_bool_eq_0_iff)
  have "card {p. 0 < wc p} = 0" using c(3) by (metis add_is_0)
  then have "{p. 0 < wc p} = {}" by (rule iffD1 [OF card_0_eq [OF c(2)]])
  then have "p \<notin> {p. 0 < wc p}" by (rule equals0D)
  then have "wc p = 0" by simp
  then have "of_bool (live (ph (False # p))) + of_bool (live (ph (True # p))) = (0 :: nat)" using c(1) [of p] by metis
  then show "\<not> live (ph (d # p))" by (cases d) simp_all
qed

subsection \<open>Age\<close>

definition ages :: "(nat \<Rightarrow> (call \<times> pc) list) \<Rightarrow> (call \<Rightarrow> phase) \<Rightarrow> (call \<Rightarrow> nat) \<Rightarrow> nat \<Rightarrow> bool" where
  "ages st ph br ck \<longleftrightarrow> (\<forall>t. sorted_wrt (\<lambda>x y. br y < br x) (map fst (st t))) \<and>
     (\<forall>c t pc. ph c = Active t pc \<longrightarrow> br c < ck) \<and>
     (\<forall>d p t pc. ph (d # p) = Active t pc \<longrightarrow> br p < br (d # p))"

text \<open>Calls become older, and some return.\<close>

lemma ages_less:
  assumes "ages st ph br ck" and "\<And>t. \<exists>xs. map fst (st t) = xs @ map fst (st' t)"
    and "\<And>c t pc. ph' c = Active t pc \<Longrightarrow> \<exists>u q. ph c = Active u q"
  shows "ages st' ph' br ck"
proof -
  have "sorted_wrt (\<lambda>x y. br y < br x) (map fst (st' t))" for t
  proof -
    obtain xs where "map fst (st t) = xs @ map fst (st' t)" using assms(2) by blast
    moreover have "sorted_wrt (\<lambda>x y. br y < br x) (map fst (st t))" using assms(1) unfolding ages_def by blast
    ultimately show ?thesis by (simp add: sorted_wrt_append)
  qed
  then show ?thesis using assms(1,3) unfolding ages_def by blast
qed

lemma ages_push:
  assumes "ages st ph br ck" and "link n q st ph" and "live (ph c) \<Longrightarrow> ph c = Queued"
    and "\<And>d p. c = d # p \<Longrightarrow> \<exists>u pc. ph p = Active u pc"
    and "\<And>d. \<not> live (ph (d # c))"
  shows "ages (st(t := (c, Enter) # st t)) (ph(c := Active t Enter)) (br(c := ck)) (Suc ck)"
proof -
  have no: "c \<notin> fst ` set (st u)" for u
  proof
    assume "c \<in> fst ` set (st u)"
    then obtain pc where "(c, pc) \<in> set (st u)" by force
    then have "ph c = Active u pc" using linkD(2) [OF assms(2)] by blast
    then show False using assms(3) by simp
  qed
  have lt: "br x < ck" if "x \<in> fst ` set (st u)" for x u
    using that linkD(2) [OF assms(2)] assms(1) unfolding ages_def by force
  have st: "sorted_wrt (\<lambda>x y. (br(c := ck)) y < (br(c := ck)) x) (map fst (st u))" for u
  proof -
    have "sorted_wrt (\<lambda>x y. br y < br x) (map fst (st u))" using assms(1) by (simp add: ages_def)
    then show ?thesis
      by (rule sorted_wrt_mono_rel [rotated]) (use no [of u] in auto)
  qed
  have "sorted_wrt (\<lambda>x y. (br(c := ck)) y < (br(c := ck)) x) (map fst ((c, Enter) # st t))"
    using st [of t] lt [of _ t] no [of t] by auto
  moreover have "(br(c := ck)) x < Suc ck" if "(ph(c := Active t Enter)) x = Active u pc" for x u pc
    using that assms(1) by (auto simp: ages_def less_Suc_eq split: if_splits)
  moreover have "(br(c := ck)) p < (br(c := ck)) (d # p)" if a: "(ph(c := Active t Enter)) (d # p) = Active u pc" for d p u pc
  proof (cases "d # p = c")
    case True
    then obtain v q where "ph p = Active v q" using assms(4) by blast
    then show ?thesis using True assms(1) by (auto simp: ages_def)
  next
    case False
    then have "ph (d # p) = Active u pc" using a by simp
    then have "p \<noteq> c" using assms(5) [of d] by auto
    then show ?thesis using assms(1) False \<open>ph (d # p) = Active u pc\<close> by (auto simp: ages_def)
  qed
  moreover have "sorted_wrt (\<lambda>x y. (br(c := ck)) y < (br(c := ck)) x) (map fst ((st(t := (c, Enter) # st t)) u))" for u
    using st [of u] calculation(1) by (cases "u = t") simp_all
  ultimately show ?thesis unfolding ages_def by blast
qed

subsection \<open>Ranges\<close>

lemma range_ok: "fst (range_of N c) \<le> snd (range_of N c) \<and> snd (range_of N c) \<le> N"
  by (induction c) (auto simp: Let_def split: prod.splits)

lemma range_halves:
  "fst (range_of N (False # c)) = fst (range_of N c)" "snd (range_of N (False # c)) = fst (range_of N (True # c))"
  "snd (range_of N (True # c)) = snd (range_of N c)"
  "fst (range_of N c) \<le> fst (range_of N (True # c))" "fst (range_of N (True # c)) \<le> snd (range_of N c)"
  using range_ok [of N c] by (auto simp: Let_def split: prod.splits)

lemma range_below: "fst (range_of N c) \<le> fst (range_of N (p @ c)) \<and> snd (range_of N (p @ c)) \<le> snd (range_of N c)"
proof (induction p)
  case (Cons d p)
  then show ?case using range_halves [of N "p @ c"] by (cases d) auto
qed simp

lemma range_apart:
  assumes "\<And>p. q \<noteq> p @ c" and "\<And>p. c \<noteq> p @ q"
  shows "snd (range_of N c) \<le> fst (range_of N q) \<or> snd (range_of N q) \<le> fst (range_of N c)"
proof -
  have "\<not> prefix (rev c) (rev q)" "\<not> prefix (rev q) (rev c)"
    using assms by (auto simp: prefix_def rev_eq_append_conv)
  then obtain as a bs b cs where "a \<noteq> b" "rev c = as @ a # bs" "rev q = as @ b # cs"
    using parallel_decomp [of "rev c" "rev q"] unfolding parallel_def by blast
  then have "rev (rev c) = rev (as @ a # bs)" "rev (rev q) = rev (as @ b # cs)" by simp_all
  then have c: "c = rev bs @ a # rev as" and q: "q = rev cs @ b # rev as" by simp_all
  show ?thesis
    using range_below [of N "a # rev as" "rev bs"] range_below [of N "b # rev as" "rev cs"] \<open>a \<noteq> b\<close>
      range_halves [of N "rev as"] unfolding c q by (cases a; cases b) auto
qed

lemma slice_split: "fst r \<le> snd r \<Longrightarrow> take (fst r) xs @ slice r xs @ drop (snd r) xs = xs"
  unfolding slice_def by (metis append_take_drop_id drop_drop le_add_diff_inverse2)

lemma length_slice: "snd r \<le> length xs \<Longrightarrow> length (slice r xs) = snd r - fst r"
  by (simp add: slice_def)

lemma slice_within:
  assumes "fst r \<le> fst q" and "snd q \<le> snd r"
  shows "slice q xs = take (snd q - fst q) (drop (fst q - fst r) (slice r xs))"
proof -
  have "drop (fst q - fst r) (drop (fst r) xs) = drop (fst q) xs" using assms(1) by simp
  moreover have "snd q - fst q \<le> (snd r - fst r) - (fst q - fst r)" using assms by linarith
  ultimately show ?thesis using assms by (simp add: slice_def drop_take min_def)
qed

lemma sorted_within: "fst r \<le> fst q \<Longrightarrow> snd q \<le> snd r \<Longrightarrow> sorted (slice r xs) \<Longrightarrow> sorted (slice q xs)"
  using sorted_wrt_take sorted_wrt_drop by (metis slice_within)

lemma put_slice:
  assumes "fst r \<le> snd r" and "snd r \<le> length xs" and "mset ys = mset (slice r xs)"
  shows "length (put_slice r ys xs) = length xs" and "mset (put_slice r ys xs) = mset xs"
    and "slice r (put_slice r ys xs) = ys"
    and "snd r \<le> fst q \<or> snd q \<le> fst r \<Longrightarrow> slice q (put_slice r ys xs) = slice q xs"
proof -
  have l: "length ys = snd r - fst r" using assms length_slice [of r xs] by (metis size_mset)
  show "length (put_slice r ys xs) = length xs" using assms(1,2) l by (simp add: put_slice_def)
  show "mset (put_slice r ys xs) = mset xs"
    using assms(3) arg_cong [OF slice_split [OF assms(1), of xs], of mset] by (simp add: put_slice_def)
  show "slice r (put_slice r ys xs) = ys" using assms(1,2) l by (simp add: put_slice_def slice_def)
  assume "snd r \<le> fst q \<or> snd q \<le> fst r"
  then show "slice q (put_slice r ys xs) = slice q xs"
  proof
    assume q: "snd r \<le> fst q"
    have "drop (fst q) (put_slice r ys xs) = drop (fst q - length (take (fst r) xs @ ys)) (drop (snd r) xs)"
      using q assms(1,2) l by (simp add: put_slice_def)
    also have "\<dots> = drop (fst q) xs" using q assms(1,2) l by simp
    finally show ?thesis by (simp add: slice_def)
  next
    assume q: "snd q \<le> fst r"
    have "take (snd q) (put_slice r ys xs) = take (snd q) xs"
      using q assms(1,2) by (simp add: put_slice_def min_def)
    then have "drop (fst q) (take (snd q) (put_slice r ys xs)) = drop (fst q) (take (snd q) xs)" by simp
    then show ?thesis by (simp add: slice_def drop_take)
  qed
qed

lemma merge_mset: "mset (merge xs ys) = mset xs + mset ys"
  by (induction xs ys rule: merge.induct) simp_all

lemma merge_sorted: "sorted xs \<Longrightarrow> sorted ys \<Longrightarrow> sorted (merge xs ys)"
proof (induction xs ys rule: merge.induct)
  case (3 x xs y ys)
  have s: "set (merge us vs) = set us \<union> set vs" for us vs :: "'a list"
    using arg_cong [OF merge_mset [of us vs], of set_mset] by simp
  show ?case using 3 by (auto simp: s)
qed simp_all

definition data :: "'a::linorder list \<Rightarrow> 'a list \<Rightarrow> (call \<Rightarrow> phase) \<Rightarrow> bool" where
  "data xs v ph \<longleftrightarrow> length v = length xs \<and> mset v = mset xs \<and>
     (\<forall>c. ph c = Done \<or> (\<exists>t. ph c = Active t Returned) \<longrightarrow> sorted (slice (range_of (length xs) c) v))"

lemma data_same: "data xs v ph \<Longrightarrow> (\<And>c t. ph' c = Done \<or> ph' c = Active t Returned \<Longrightarrow> ph c = Done \<or> (\<exists>u. ph c = Active u Returned)) \<Longrightarrow>
    data xs v ph'"
  unfolding data_def by blast

lemma data_write:
  assumes "data xs v ph" and "tree ph" and "ph c = Active t pc"
    and "sorted ys" and "mset ys = mset (slice (range_of (length xs) c) v)"
  shows "data xs (put_slice (range_of (length xs) c) ys v) (ph(c := Active t Returned))"
proof -
  let ?R = "range_of (length xs)"
  have d: "length v = length xs" "mset v = mset xs"
    "\<And>q. ph q = Done \<or> (\<exists>t. ph q = Active t Returned) \<Longrightarrow> sorted (slice (?R q) v)"
    using assms(1) unfolding data_def by blast+
  have r: "fst (?R c) \<le> snd (?R c)" "snd (?R c) \<le> length v" using range_ok [of "length xs" c] d(1) by simp_all
  note p = put_slice [OF r assms(5)]
  have "sorted (slice (?R q) (put_slice (?R c) ys v))"
    if q: "(ph(c := Active t Returned)) q = Done \<or> (\<exists>u. (ph(c := Active t Returned)) q = Active u Returned)" for q
  proof (cases "\<exists>p. q = p @ c")
    case True
    then obtain p' where "q = p' @ c" by blast
    then show ?thesis using range_below [of "length xs" c p'] sorted_within [of "?R c" "?R q" "put_slice (?R c) ys v"] p(3) assms(4)
      by simp
  next
    case False
    then have "q \<noteq> c" by (metis append_Nil)
    with q have old: "ph q = Done \<or> (\<exists>u. ph q = Active u Returned)" by simp
    show ?thesis
    proof (cases "\<exists>p. c = p @ q")
      case True
      then obtain p' where "c = p' @ q" "p' \<noteq> []" using \<open>q \<noteq> c\<close> by auto
      with live_above [OF assms(2), of p' q] assms(3) old show ?thesis by auto
    next
      case False
      then show ?thesis using p(4) [of "?R q"] range_apart [of q c "length xs"] \<open>\<not> (\<exists>p. q = p @ c)\<close> d(3) [OF old] by metis
    qed
  qed
  then show ?thesis using p(1,2) d(1,2) unfolding data_def by simp
qed

subsection \<open>Threads\<close>

text \<open>The call in \<open>main\<close> is at the bottom of the stack of the main thread until it is done.\<close>

definition rooted :: "(nat \<Rightarrow> (call \<times> pc) list) \<Rightarrow> (call \<Rightarrow> phase) \<Rightarrow> bool" where
  "rooted st ph \<longleftrightarrow> (if st 0 = [] then ph [] = Done else fst (last (st 0)) = []) \<and> ph [] \<noteq> Queued \<and> ph [] \<noteq> Fresh"

text \<open>A thread waits in the loop of the pool or in a join that has to wait; who has ended has nothing to do; and
  while there is something in the queue some thread runs.\<close>

definition waits :: "nat \<Rightarrow> call list \<Rightarrow> (nat \<Rightarrow> (call \<times> pc) list) \<Rightarrow> nat set \<Rightarrow> nat set \<Rightarrow> (call \<Rightarrow> nat) \<Rightarrow> nat \<Rightarrow> bool" where
  "waits n q st en wt wc uc \<longleftrightarrow>
     (\<forall>t \<in> wt. t \<le> n \<and> t \<notin> en \<and>
        (if st t = [] then t \<noteq> 0 \<and> 0 < uc else snd (hd (st t)) = Join \<and> 0 < wc (fst (hd (st t))))) \<and>
     (\<forall>t \<in> en. t \<le> n \<and> st t = []) \<and> (q \<noteq> [] \<longrightarrow> (\<exists>t \<le> n. t \<notin> en \<and> t \<notin> wt))"

lemma waits_running:
  assumes "waits n q st en wt wc uc" and "t \<le> n" and "t \<notin> en" and "t \<notin> wt'" and "wt' \<subseteq> wt"
    and "\<And>u. u \<noteq> t \<Longrightarrow> st' u = st u" and "\<And>u. u \<in> wt' \<Longrightarrow> 0 < uc \<Longrightarrow> 0 < uc'"
    and "\<And>c. wt' \<noteq> {} \<Longrightarrow> 0 < wc c \<Longrightarrow> 0 < wc' c"
  shows "waits n q' st' en wt' wc' uc'"
  unfolding waits_def
proof (intro conjI ballI)
  fix u assume u: "u \<in> wt'"
  then have n: "u \<noteq> t" "u \<in> wt" using assms(4,5) by auto
  then have st: "st' u = st u" by (simp add: assms(6))
  have w: "u \<le> n \<and> u \<notin> en \<and> (if st u = [] then u \<noteq> 0 \<and> 0 < uc else snd (hd (st u)) = Join \<and> 0 < wc (fst (hd (st u))))"
    using assms(1) n(2) unfolding waits_def by blast
  then show "u \<le> n" "u \<notin> en" by blast+
  show "if st' u = [] then u \<noteq> 0 \<and> 0 < uc' else snd (hd (st' u)) = Join \<and> 0 < wc' (fst (hd (st' u)))"
    unfolding st using w assms(7) [OF u] assms(8) u by (auto split: if_splits)
next
  fix u assume u: "u \<in> en"
  then have "u \<noteq> t" using assms(3) by auto
  then show "u \<le> n" "st' u = []" using assms(1,6) u unfolding waits_def by auto
next
  show "q' \<noteq> [] \<longrightarrow> (\<exists>t \<le> n. t \<notin> en \<and> t \<notin> wt')" using assms(2-4) by blast
qed

definition pool_inv :: "nat \<Rightarrow> 'a::linorder list \<Rightarrow> 'a pool \<Rightarrow> bool" where
  "pool_inv n xs s \<longleftrightarrow> tree (phases s) \<and> link n (queue s) (stacks s) (phases s) \<and> rooted (stacks s) (phases s) \<and>
     counts (ended s) (work_count s) (use_count s) (phases s) \<and>
     waits n (queue s) (stacks s) (ended s) (waiting s) (work_count s) (use_count s) \<and>
     ages (stacks s) (phases s) (birth s) (clock s) \<and> data xs (vec s) (phases s)"

lemma pool_invD:
  assumes "pool_inv n xs s"
  shows "tree (phases s)" "link n (queue s) (stacks s) (phases s)" "rooted (stacks s) (phases s)"
    "counts (ended s) (work_count s) (use_count s) (phases s)"
    "waits n (queue s) (stacks s) (ended s) (waiting s) (work_count s) (use_count s)"
    "ages (stacks s) (phases s) (birth s) (clock s)" "data xs (vec s) (phases s)"
  using assms unfolding pool_inv_def by blast+

lemma rooted_top: "rooted st ph \<Longrightarrow> st t = (c, pc) # fs \<Longrightarrow> ph c = Active t pc \<Longrightarrow>
    rooted (st(t := (c, pc') # fs)) (ph(c := Active t pc'))"
  unfolding rooted_def by (cases "t = 0"; cases fs) (auto split: if_splits)

subsection \<open>Every step keeps the invariant\<close>

text \<open>The call on top goes on, perhaps after it has changed its range.\<close>

lemma inv_top:
  assumes "pool_inv n xs s" and "stacks s t = (c, pc) # fs" and "t \<notin> waiting s" and "t \<notin> ended s"
    and "tree ((phases s)(c := Active t pc'))" and "data xs v ((phases s)(c := Active t pc'))"
  shows "pool_inv n xs (set_pc t pc' (s\<lparr>vec := v\<rparr>))"
proof -
  note i = pool_invD [OF assms(1)]
  have c: "phases s c = Active t pc" "t \<le> n" using linkD(4,5) [OF i(2)] assms(2) by auto
  have "link n (queue s) ((stacks s)(t := (c, pc') # fs)) ((phases s)(c := Active t pc'))"
    by (rule link_top [OF i(2) assms(2)])
  moreover have "rooted ((stacks s)(t := (c, pc') # fs)) ((phases s)(c := Active t pc'))"
    by (rule rooted_top [OF i(3) assms(2) c(1)])
  moreover have "counts (ended s) (work_count s) (use_count s) ((phases s)(c := Active t pc'))"
    by (rule counts_same [OF i(4)]) (use c(1) in simp)
  moreover have "waits n (queue s) ((stacks s)(t := (c, pc') # fs)) (ended s) (waiting s) (work_count s) (use_count s)"
    by (rule waits_running [OF i(5) c(2) assms(4,3)]) simp_all
  moreover have "ages ((stacks s)(t := (c, pc') # fs)) ((phases s)(c := Active t pc')) (birth s) (clock s)"
    by (rule ages_less [OF i(6)]) (use assms(2) c(1) in \<open>auto split: if_splits\<close>)
  ultimately show ?thesis using assms(2,5,6) by (simp add: pool_inv_def set_pc_def)
qed

text \<open>A thread takes a call from the queue.\<close>

lemma inv_help:
  assumes "pool_inv n xs s" and "queue s = c # q" and "t \<le> n" and "t \<notin> waiting s" and "t \<notin> ended s"
  shows "pool_inv n xs (start_call t c (s\<lparr>queue := q\<rparr>))"
proof -
  note i = pool_invD [OF assms(1)]
  let ?st = "(stacks s)(t := (c, Enter) # stacks s t)" and ?ph = "(phases s)(c := Active t Enter)"
  have c: "phases s c = Queued" using linkD(1) [OF i(2), of c] assms(2) by simp
  then have root: "c \<noteq> []" using i(3) unfolding rooted_def by auto
  then obtain d p where p: "c = d # p" by (cases c) auto
  have kids: "phases s (False # c) = Fresh" "phases s (True # c) = Fresh"
    using treeD [OF i(1), of c] c by (auto simp: none_def)
  have "tree ?ph"
  proof (rule tree_upd [OF i(1)])
    show "kids_ok (Active t Enter) (phases s (False # c)) (phases s (True # c))" using kids by (simp add: none_def)
    show "kids_ok (phases s p) (Active t Enter) (phases s (True # p))" if "c = False # p" for p
      by (rule kids_live(1) [of "phases s c"]) (use c that treeD [OF i(1), of p] in auto)
    show "kids_ok (phases s p) (phases s (False # p)) (Active t Enter)" if "c = True # p" for p
      by (rule kids_live(2) [of "phases s c"]) (use c that treeD [OF i(1), of p] in auto)
  qed
  moreover have "link n q ?st ?ph"
    by (rule link_push [OF i(2)]) (use c assms(2,3) link_q [OF i(2)] in auto)
  moreover have "rooted ?st ?ph"
  proof -
    have "stacks s 0 \<noteq> []"
      using live_above [OF i(1), of c "[]"] c root i(3) unfolding rooted_def by (auto split: if_splits)
    then show ?thesis using i(3) root unfolding rooted_def by (auto split: if_splits)
  qed
  moreover have "counts (ended s) (work_count s) (use_count s) ?ph"
    by (rule counts_same [OF i(4)]) (use c in simp)
  moreover have "waits n q ?st (ended s) (waiting s) (work_count s) (use_count s)"
    by (rule waits_running [OF i(5) assms(3,5,4)]) simp_all
  moreover have "ages ?st ?ph ((birth s)(c := clock s)) (Suc (clock s))"
  proof (rule ages_push [OF i(6,2)])
    show "\<exists>u pc. phases s p = Active u pc" if "c = d # p" for d p
      using parent_waits [OF i(1), of d p] c that by auto
    show "\<not> live (phases s (d # c))" for d using kids by (cases d) simp_all
  qed (use c in simp)
  moreover have "data xs (vec s) ?ph" by (rule data_same [OF i(7)]) (auto split: if_splits)
  ultimately show ?thesis by (simp add: pool_inv_def start_call_def)
qed

text \<open>A thread goes to sleep.\<close>

lemma inv_wait:
  assumes "pool_inv n xs s" and "queue s = []" and "t \<le> n" and "t \<notin> ended s"
    and "if stacks s t = [] then t \<noteq> 0 \<and> 0 < use_count s else snd (hd (stacks s t)) = Join \<and> 0 < work_count s (fst (hd (stacks s t)))"
  shows "pool_inv n xs (condition_wait t s)"
  using assms unfolding pool_inv_def condition_wait_def waits_def by auto

text \<open>A call hands one of its halves to the pool.\<close>

lemma inv_fork:
  assumes "pool_inv n xs s" and "stacks s t = (c, Fork d) # fs" and "t \<notin> waiting s" and "t \<notin> ended s"
  shows "pool_inv n xs (do_execute k t w (d # c) c (set_pc t (if d then Join else Fork True) s))"
proof -
  note i = pool_invD [OF assms(1)]
  let ?pc = "if d then Join else Fork True"
  let ?st = "(stacks s)(t := (c, ?pc) # fs)" and ?ph = "(phases s)(c := Active t ?pc)"
  have c: "phases s c = Active t (Fork d)" "t \<le> n" using linkD(4,5) [OF i(2)] assms(2) by auto
  have tree: "tree (?ph(d # c := v))" "phases s (d # c) = Fresh" if "live v" "kids_ok v Fresh Fresh" for v
    using tree_fork [OF i(1) c(1) that] by simp_all
  have fresh: "phases s (d # c) = Fresh" by (rule tree(2) [of Queued]) (simp_all add: none_def)
  have kids: "phases s (e # d # c) = Fresh" for e using treeD [OF i(1), of "d # c"] fresh by (cases e) (auto simp: none_def)
  have nc: "d # c \<noteq> c" "\<And>e. e # d # c \<noteq> c" by (auto dest: arg_cong [of _ _ length])
  have link: "link n (queue s) ?st ?ph" by (rule link_top [OF i(2) assms(2)])
  have rooted: "rooted ?st ?ph" by (rule rooted_top [OF i(3) assms(2) c(1)])
  have "counts (ended s) (work_count s) (use_count s) ?ph" by (rule counts_same [OF i(4)]) (use c(1) in simp)
  then have counts: "counts (ended s) ((work_count s)(c := Suc (work_count s c)))
      (if work_count s c = 0 then Suc (use_count s) else use_count s) (?ph(d # c := v))" if "live v" for v
    by (rule counts_started) (use fresh nc(1) that in simp_all)
  have ages: "ages ?st ?ph (birth s) (clock s)"
    by (rule ages_less [OF i(6)]) (use assms(2) c(1) in \<open>auto split: if_splits\<close>)
  have data: "data xs (vec s) (?ph(d # c := v))" if "v = Queued \<or> v = Active t Enter" for v
    by (rule data_same [OF i(7)]) (use that in \<open>auto split: if_splits\<close>)
  have waits: "waits n q (?st(t := fs')) (ended s) wt ((work_count s)(c := Suc (work_count s c)))
      (if work_count s c = 0 then Suc (use_count s) else use_count s)" if "wt \<subseteq> waiting s" for q fs' wt
    by (rule waits_running [OF i(5) c(2) assms(4)]) (use that assms(3) in \<open>auto split: if_splits\<close>)
  show ?thesis
  proof (cases "length (queue s) > k * 16")
    case True
    have "link n (queue s) (?st(t := (d # c, Enter) # ?st t)) (?ph(d # c := Active t Enter))"
      by (rule link_push [OF link]) (use fresh nc(1) c(2) link_q [OF i(2)] linkD(1) [OF i(2), of "d # c"] in auto)
    moreover have "rooted (?st(t := (d # c, Enter) # ?st t)) (?ph(d # c := Active t Enter))"
      using rooted unfolding rooted_def by (auto split: if_splits)
    moreover have "ages (?st(t := (d # c, Enter) # ?st t)) (?ph(d # c := Active t Enter)) ((birth s)(d # c := clock s)) (Suc (clock s))"
      by (rule ages_push [OF ages link]) (use fresh kids nc in \<open>auto split: if_splits\<close>)
    moreover have "tree (?ph(d # c := Active t Enter))" by (rule tree) (simp_all add: none_def)
    ultimately show ?thesis
      using True assms(2) counts [of "Active t Enter"] data [of "Active t Enter"] waits [of "waiting s" "queue s" "(d # c, Enter) # ?st t"]
      by (cases d; cases "work_count s c = 0")
        (simp_all add: pool_inv_def do_execute_def start_call_def do_work_started_def set_pc_def Let_def)
  next
    case False
    have "link n (queue s @ [d # c]) ?st (?ph(d # c := Queued))"
      by (rule link_enqueue [OF link]) (use fresh nc(1) in simp)
    moreover have "rooted ?st (?ph(d # c := Queued))" using rooted unfolding rooted_def by auto
    moreover have "ages ?st (?ph(d # c := Queued)) (birth s) (clock s)"
      by (rule ages_less [OF ages]) (auto split: if_splits)
    moreover have "tree (?ph(d # c := Queued))" by (rule tree) (simp_all add: none_def)
    moreover have "waits n (queue s @ [d # c]) ?st (ended s) (waiting s - (case w of None \<Rightarrow> {} | Some u \<Rightarrow> {u}))
        ((work_count s)(c := Suc (work_count s c))) (if work_count s c = 0 then Suc (use_count s) else use_count s)"
      using waits [of "waiting s - (case w of None \<Rightarrow> {} | Some u \<Rightarrow> {u})" "queue s @ [d # c]" "(c, ?pc) # fs"] by simp
    ultimately show ?thesis
      using False assms(2) counts [of Queued] data [of Queued]
      by (cases d; cases "work_count s c = 0")
        (simp_all add: pool_inv_def do_execute_def notify_one_def do_work_started_def set_pc_def Let_def)
  qed
qed

text \<open>A call returns, and with it the function that was queued.\<close>

lemma inv_return:
  assumes "pool_inv n xs s" and "stacks s t = (c, Returned) # fs" and "t \<notin> waiting s" and "t \<notin> ended s"
  shows "pool_inv n xs (let s = s\<lparr>stacks := (stacks s)(t := tl (stacks s t)), phases := (phases s)(c := Done)\<rparr>
    in if c = [] then s else do_work_finished (tl c) s)"
proof -
  note i = pool_invD [OF assms(1)]
  let ?st = "(stacks s)(t := fs)" and ?ph = "(phases s)(c := Done)"
  have c: "phases s c = Active t Returned" "t \<le> n" using linkD(4,5) [OF i(2)] assms(2) by auto
  have tree: "tree ?ph"
  proof (rule tree_upd [OF i(1)])
    show "kids_ok Done (phases s (False # c)) (phases s (True # c))" using treeD [OF i(1), of c] c(1) by simp
    show "kids_ok (phases s p) Done (phases s (True # p))" if "c = False # p" for p
      by (rule kids_live(1) [of "phases s c"]) (use c that treeD [OF i(1), of p] in auto)
    show "kids_ok (phases s p) (phases s (False # p)) Done" if "c = True # p" for p
      by (rule kids_live(2) [of "phases s c"]) (use c that treeD [OF i(1), of p] in auto)
  qed
  have link: "link n (queue s) ?st ?ph" by (rule link_pop [OF i(2) assms(2)])
  have ages: "ages ?st ?ph (birth s) (clock s)"
    by (rule ages_less [OF i(6)]) (use assms(2) in \<open>auto split: if_splits intro: exI [of _ "[c]"]\<close>)
  have data: "data xs (vec s) ?ph" by (rule data_same [OF i(7)]) (use c(1) in \<open>auto split: if_splits\<close>)
  have bottom: "c = [] \<longleftrightarrow> t = 0 \<and> fs = []"
  proof
    assume root: "c = []"
    have "stacks s 0 \<noteq> []" using i(3) c(1) root unfolding rooted_def by auto
    then have "fst (last (stacks s 0)) = []" "last (stacks s 0) \<in> set (stacks s 0)" using i(3) unfolding rooted_def by auto
    then have "([], snd (last (stacks s 0))) \<in> set (stacks s 0)" by (metis prod.collapse)
    then have "phases s [] = Active 0 (snd (last (stacks s 0)))" using linkD(2) [OF i(2)] by blast
    then have t: "t = 0" using c(1) root by simp
    have "fs = []"
    proof (rule ccontr)
      assume "fs \<noteq> []"
      then have "last (stacks s 0) \<in> set fs" using assms(2) t by simp
      then have "[] \<in> fst ` set fs" using \<open>fst (last (stacks s 0)) = []\<close> by force
      then show False using linkD(3) [OF i(2), of t] assms(2) root by simp
    qed
    with t show "t = 0 \<and> fs = []" by simp
  next
    assume "t = 0 \<and> fs = []"
    then show "c = []" using i(3) assms(2) unfolding rooted_def by simp
  qed
  have rooted: "rooted ?st ?ph"
    using i(3) assms(2) bottom unfolding rooted_def by (cases "t = 0") (auto split: if_splits)
  show ?thesis
  proof (cases "c = []")
    case True
    have "counts (ended s) (work_count s) (use_count s) ?ph"
      by (rule counts_same [OF i(4)]) (use True in auto)
    moreover have "waits n (queue s) ?st (ended s) (waiting s) (work_count s) (use_count s)"
      by (rule waits_running [OF i(5) c(2) assms(4,3)]) simp_all
    ultimately show ?thesis using True tree link ages data rooted assms(2) by (simp add: pool_inv_def)
  next
    case False
    then obtain d p where p: "c = d # p" by (cases c) auto
    let ?wc = "(work_count s)(p := work_count s p - 1)" and ?uc = "if work_count s p - 1 = 0 then use_count s - 1 else use_count s"
    have cnt: "counts (ended s) ?wc ?uc ?ph" "0 < work_count s p"
      using counts_finished [OF i(4), of d p Done] c(1) p by simp_all
    have w: "waits n (queue s) ?st (ended s) (if work_count s p - 1 = 0 then {} else waiting s) ?wc ?uc"
      by (rule waits_running [OF i(5) c(2) assms(4)]) (use assms(3) in \<open>auto split: if_splits\<close>)
    show ?thesis using False p tree link ages data rooted cnt w assms(2)
      by (simp add: pool_inv_def do_work_finished_def notify_all_def Let_def split: if_splits)
  qed
qed

text \<open>A thread of the pool ends, and the main thread ends with the destructor of the pool.\<close>

lemma nothing_live:
  assumes "pool_inv n xs s" and "\<And>d p. \<not> live (phases s (d # p))" and "stacks s 0 = []"
  shows "queue s = []" and "stacks s t = []"
proof -
  note i = pool_invD [OF assms(1)]
  have "phases s [] = Done" using i(3) assms(3) unfolding rooted_def by simp
  then have n: "\<not> live (phases s c)" for c using assms(2) by (cases c) simp_all
  then show "queue s = []" using linkD(1) [OF i(2)] by (metis all_not_in_conv live_simps(1) set_empty)
  show "stacks s t = []" using n linkD(4) [OF i(2), of t] by (cases "stacks s t") (auto, metis live_simps(2))
qed

lemma inv_end:
  assumes "pool_inv n xs s" and "stacks s t = []" and "t \<le> n" and "t \<noteq> 0" and "use_count s = 0"
    and "t \<notin> waiting s"
  shows "pool_inv n xs (s\<lparr>ended := insert t (ended s)\<rparr>)"
proof -
  note i = pool_invD [OF assms(1)]
  have z: "0 \<in> ended s" "\<not> live (phases s (d # p))" for d p using counts_zero i(4) assms(5) by metis+
  have "stacks s 0 = []" using i(5) z(1) unfolding waits_def by blast
  from nothing_live(1) [OF assms(1) z(2) this] have q: "queue s = []" .
  have "waits n (queue s) (stacks s) (insert t (ended s)) (waiting s) (work_count s) (use_count s)"
    using i(5) assms(2,3,6) q unfolding waits_def by auto
  moreover have "counts (insert t (ended s)) (work_count s) (use_count s) (phases s)"
    using i(4) assms(4) unfolding counts_def by auto
  ultimately show ?thesis using i by (simp add: pool_inv_def)
qed

lemma inv_stop:
  assumes "pool_inv n xs s" and "stacks s 0 = []" and "0 \<notin> ended s"
  shows "pool_inv n xs ((stop_threads s)\<lparr>ended := insert 0 (ended s)\<rparr>)"
proof -
  note i = pool_invD [OF assms(1)]
  have "phases s [] = Done" using i(3) assms(2) unfolding rooted_def by simp
  then have "\<not> live (phases s (c @ []))" for c using live_above [OF i(1), of c "[]"] by (cases "c = []") auto
  then have n: "\<not> live (phases s c)" for c by simp
  from nothing_live(1) [OF assms(1) n assms(2)] have q: "queue s = []" .
  have "counts (insert 0 (ended s)) (work_count s) (use_count s - 1) (phases s)"
    using countsD [OF i(4)] assms(3) unfolding counts_def by auto
  moreover have "waits n (queue s) (stacks s) (insert 0 (ended s)) {} (work_count s) (use_count s - 1)"
    using i(5) assms(2) q unfolding waits_def by auto
  ultimately show ?thesis using i by (simp add: pool_inv_def stop_threads_def notify_all_def)
qed

end
