(* ===== verification/Fork_Join_Properties.thy ===== *)
theory Fork_Join_Properties
  imports Fork_Join_Correct
begin

text \<open>
  The fork-join sort: it sorts, whatever the threads do; no two threads touch the same part of the vector;
  it never deadlocks, although joins run other calls while they wait; and apart from sleeping and
  waking it takes a bounded number of steps.
\<close>

subsection \<open>The invariant holds\<close>

lemma tree_top:
  assumes "tree ph" and "ph c = Active t pc" and "kids_ok (Active t pc') (ph (False # c)) (ph (True # c))"
  shows "tree (ph(c := Active t pc'))"
proof (rule tree_upd [OF assms(1,3)])
  show "kids_ok (ph p) (Active t pc') (ph (True # p))" if "c = False # p" for p
    by (rule kids_live(1) [of "ph c"]) (use assms(2) that treeD [OF assms(1), of p] in auto)
  show "kids_ok (ph p) (ph (False # p)) (Active t pc')" if "c = True # p" for p
    by (rule kids_live(2) [of "ph c"]) (use assms(2) that treeD [OF assms(1), of p] in auto)
qed

declare range_of.simps(2) [simp del]

lemma slice_halves: "slice (range_of N c) v = slice (range_of N (False # c)) v @ slice (range_of N (True # c)) v"
proof -
  let ?r = "range_of N c" and ?F = "range_of N (False # c)" and ?T = "range_of N (True # c)"
  note h = range_halves [of N c]
  have "snd ?r - fst ?r = (snd ?F - fst ?F) + (snd ?T - fst ?T)" using h by linarith
  moreover have "drop (snd ?F - fst ?F) (drop (fst ?r) v) = drop (fst ?T) v" using h by simp
  ultimately show ?thesis unfolding slice_def using h(1) by (simp only: take_add)
qed

lemma inv_thread_step:
  assumes "pool_inv n xs s" and "t \<le> n" and "t \<notin> ended s" and "t \<notin> waiting s"
  shows "pool_inv n xs (thread_step n t w s)"
proof (cases "stacks s t")
  case Nil
  note i = pool_invD [OF assms(1)]
  show ?thesis
  proof (cases "t = 0")
    case True
    then show ?thesis using inv_stop [OF assms(1)] Nil assms(3) by (simp add: thread_step_def)
  next
    case False
    then show ?thesis using Nil assms inv_end [OF assms(1) Nil assms(2)] inv_wait [OF assms(1)] inv_help [OF assms(1)]
      by (auto simp: thread_step_def worker_loop_def execute_next_def split: list.split)
  qed
next
  case (Cons f fs)
  obtain c pc where f: "f = (c, pc)" by (cases f)
  note top = Cons [unfolded f]
  note i = pool_invD [OF assms(1)]
  have c: "phases s c = Active t pc" by (rule linkD(4) [OF i(2) top])
  have len: "length (vec s) = length xs" using i(7) by (simp add: data_def)
  have kids: "kids_ok (Active t pc) (phases s (False # c)) (phases s (True # c))" using treeD [OF i(1), of c] c by simp
  let ?R = "range_of (length xs)"
  have step: "thread_step n t w s = fork_join_sort n t w c pc s" using top by (simp add: thread_step_def)
  show ?thesis
  proof (cases pc)
    case Enter
    show ?thesis
    proof (cases "big (length xs) c")
      case True
      have "work_count s c = 0" using countsD(1) [OF i(4), of c] kids Enter by (simp add: none_def)
      then have "(work_count s)(c := 0) = work_count s" by auto
      moreover have "pool_inv n xs (set_pc t (Fork False) (s\<lparr>vec := vec s\<rparr>))"
        by (rule inv_top [OF assms(1) top assms(4,3)])
          (use kids Enter i(7) in \<open>auto intro!: tree_top [OF i(1) c] data_same [OF i(7)] split: if_splits\<close>)
      ultimately show ?thesis using True Enter len by (simp add: step fork_join_sort_def Let_def)
    next
      case False
      have "pool_inv n xs (set_pc t Returned (s\<lparr>vec := put_slice (?R c) (sort (slice (?R c) (vec s))) (vec s)\<rparr>))"
        by (rule inv_top [OF assms(1) top assms(4,3)])
          (use kids Enter in \<open>auto intro!: tree_top [OF i(1) c] data_write [OF i(7,1) c]\<close>)
      then show ?thesis using False Enter len by (simp add: step fork_join_sort_def Let_def)
    qed
  next
    case (Fork d)
    then show ?thesis using inv_fork [OF assms(1) _ assms(4,3)] top by (simp add: step fork_join_sort_def Let_def)
  next
    case Join
    show ?thesis
    proof (cases "work_count s c > 0")
      case True
      then show ?thesis using Join top assms inv_wait [OF assms(1)] inv_help [OF assms(1)]
        by (auto simp: step fork_join_sort_def join_def execute_next_def split: list.split)
    next
      case False
      then have "\<not> live (phases s (d # c))" for d using countsD(1) [OF i(4), of c] by (cases d) simp_all
      then have "both (phases s (False # c)) (phases s (True # c))"
        using kids Join unfolding both_def live_def by (metis kids_ok.simps(5) phase.exhaust)
      then have "pool_inv n xs (set_pc t Merge (s\<lparr>vec := vec s\<rparr>))"
        by (intro inv_top [OF assms(1) top assms(4,3)])
          (auto intro!: tree_top [OF i(1) c] data_same [OF i(7)] split: if_splits)
      then show ?thesis using Join False by (simp add: step fork_join_sort_def join_def)
    qed
  next
    case Merge
    have b: "phases s (False # c) = Done" "phases s (True # c) = Done" using kids Merge by (auto simp: both_def)
    have sorted: "sorted (slice (?R (d # c)) (vec s))" for d using i(7) b unfolding data_def by (cases d) auto
    have "pool_inv n xs (set_pc t Returned (s\<lparr>vec := inplace_merge (length xs) c (vec s)\<rparr>))"
    proof (rule inv_top [OF assms(1) top assms(4,3)])
      show "tree ((phases s)(c := Active t Returned))" by (rule tree_top [OF i(1) c]) (use kids Merge in simp)
      show "data xs (inplace_merge (length xs) c (vec s)) ((phases s)(c := Active t Returned))"
        unfolding inplace_merge_def
        by (rule data_write [OF i(7,1) c])
          (simp_all add: merge_sorted sorted merge_mset slice_halves [of "length xs" c])
    qed
    then show ?thesis using Merge len by (simp add: step fork_join_sort_def Let_def)
  next
    case Returned
    then show ?thesis using inv_return [OF assms(1) _ assms(4,3)] top by (simp add: step fork_join_sort_def Let_def)
  qed
qed

lemma inv_wakes: "pool_inv n xs s \<Longrightarrow> pool_inv n xs (s\<lparr>waiting := waiting s - {t}\<rparr>)"
  unfolding pool_inv_def waits_def by auto

lemma inv_start: "pool_inv n xs (pool_start xs)"
proof -
  have "tree (phases (pool_start xs))" by (auto simp: tree_def pool_start_def none_def)
  moreover have "link n (queue (pool_start xs)) (stacks (pool_start xs)) (phases (pool_start xs))"
    by (rule linkI) (auto simp: pool_start_def split: if_splits)
  moreover have "finite {p :: call. False}" by simp
  ultimately show ?thesis
    by (auto simp: pool_inv_def pool_start_def rooted_def counts_def waits_def ages_def data_def)
qed

lemma reachable_pool: "pool_reachable n xs s \<Longrightarrow> pool_inv n xs s"
proof (induction rule: pool_reachable.induct)
  case (pool_more s u)
  from pool_more(2) pool_more(3) show ?case by cases (auto intro: inv_thread_step inv_wakes)
qed (rule inv_start)

subsection \<open>Properties\<close>

lemma root_done:
  assumes "pool_reachable n xs s" and "stacks s 0 = []"
  shows "vec s = sort xs"
proof -
  note i = pool_invD [OF reachable_pool [OF assms(1)]]
  have "phases s [] = Done" using i(3) assms(2) unfolding rooted_def by simp
  then have "sorted (slice (0, length xs) (vec s))" "length (vec s) = length xs" "mset (vec s) = mset xs"
    using i(7) unfolding data_def by force+
  then show ?thesis by (simp add: slice_def properties_for_sort)
qed

text \<open>C27. The sort sorts: whatever the interleaving of the threads, when the call in \<open>main\<close> has returned the vector is the
  sorted one.\<close>

theorem fork_join_sorts:
  assumes "pool_reachable n xs s" and "stacks s 0 = []"
  shows "vec s = sort xs"
  by (rule root_done [OF assms])

text \<open>What \<open>main\<close> sorts it gets back as it was before it was shuffled.\<close>

theorem fork_join_main_sorted:
  assumes "fork_join_main argv shuffle = Sorting s0" and "\<And>xs. mset (shuffle xs) = mset xs"
    and "pool_reachable n (vec s0) s" and "stacks s 0 = []"
  shows "vec s = [0..<nat (atoi (argv ! 1))]"
proof -
  have "vec s0 = shuffle [0..<nat (atoi (argv ! 1))]"
    using assms(1) by (auto simp: fork_join_main_def pool_start_def split: if_splits)
  moreover have "vec s = sort (vec s0)" by (rule root_done [OF assms(3,4)])
  ultimately show ?thesis using assms(2) by (simp add: properties_for_sort)
qed

text \<open>C29. No data race: a thread that is about to sort or merge a part of the vector has it to itself, for any other thread about to sort or
  merge has a part that does not overlap with it; and whatever the other threads are doing, a call that is about to merge finds both its halves sorted.\<close>

theorem fork_join_disjoint:
  assumes "pool_reachable n xs s" and "stacks s t = (c, pc) # fs" and "pc = Enter \<or> pc = Merge"
  shows "(\<forall>u q pc' gs. u \<noteq> t \<and> stacks s u = (q, pc') # gs \<and> (pc' = Enter \<or> pc' = Merge) \<longrightarrow>
      snd (range_of (length xs) c) \<le> fst (range_of (length xs) q) \<or>
      snd (range_of (length xs) q) \<le> fst (range_of (length xs) c)) \<and>
    (pc = Merge \<longrightarrow> sorted (slice (range_of (length xs) (False # c)) (vec s)) \<and>
       sorted (slice (range_of (length xs) (True # c)) (vec s)))"
proof (intro conjI allI impI; (elim conjE)?)
  note i = pool_invD [OF reachable_pool [OF assms(1)]]
  have c: "phases s c = Active t pc" using linkD(4) [OF i(2)] assms(2) by blast
  fix u q pc' gs
  assume u: "u \<noteq> t" "stacks s u = (q, pc') # gs" "pc' = Enter \<or> pc' = Merge"
  have q: "phases s q = Active u pc'" using linkD(4) [OF i(2)] u(2) by blast
  have ne: "c \<noteq> q" using c q u(1) by auto
  show "snd (range_of (length xs) c) \<le> fst (range_of (length xs) q) \<or> snd (range_of (length xs) q) \<le> fst (range_of (length xs) c)"
  proof (rule range_apart)
    show "q \<noteq> p @ c" for p
      using live_above [OF i(1), of p c] c q ne assms(3) by (cases "p = []") auto
    show "c \<noteq> p @ q" for p
      using live_above [OF i(1), of p q] c q ne u(3) by (cases "p = []") auto
  qed
next
  note i = pool_invD [OF reachable_pool [OF assms(1)]]
  have "phases s c = Active t pc" using linkD(4) [OF i(2)] assms(2) by blast
  moreover assume "pc = Merge"
  ultimately have halves: "phases s (False # c) = Done" "phases s (True # c) = Done"
    using treeD [OF i(1), of c] by (auto simp: both_def)
  show "sorted (slice (range_of (length xs) (False # c)) (vec s))" "sorted (slice (range_of (length xs) (True # c)) (vec s))"
    using halves i(7) unfolding data_def by auto
qed

text \<open>The counts are right: a work count is the number of functions of its executor that are queued or running; the
  use count is the number of executors with work, and one for the pool until it is stopped.\<close>

theorem pool_counts:
  assumes "pool_reachable n xs s"
  shows "work_count s p = card {d. live (phases s (d # p))} \<and>
    use_count s = (if 0 \<in> ended s then 0 else 1) + card {p. \<exists>d. live (phases s (d # p))}"
proof -
  note i = pool_invD [OF reachable_pool [OF assms]]
  have "{d. live (phases s (d # p))} =
      (if live (phases s (False # p)) then {False} else {}) \<union> (if live (phases s (True # p)) then {True} else {})" for p
    by (auto split: if_splits) (metis (full_types))+
  then have w: "work_count s p = card {d. live (phases s (d # p))}" for p
    using countsD(1) [OF i(4), of p] by simp
  have "0 < work_count s p \<longleftrightarrow> (\<exists>d. live (phases s (d # p)))" for p
    using countsD(1) [OF i(4), of p] by (auto, metis (full_types))
  then have "{p. 0 < work_count s p} = {p. \<exists>d. live (phases s (d # p))}" by blast
  then show ?thesis using w countsD(3) [OF i(4)] by simp
qed

text \<open>A join that waits is waiting for a younger one: that of the call on top of the stack on which one of its own functions runs.\<close>

lemma younger_join:
  assumes "pool_inv n xs s" and "queue s = []" and "\<And>t. t \<le> n \<Longrightarrow> t \<notin> ended s \<Longrightarrow> t \<in> waiting s"
    and "t \<in> waiting s" and "stacks s t = (c, pc) # fs"
  shows "\<exists>u q pc' gs. u \<in> waiting s \<and> stacks s u = (q, pc') # gs \<and> birth s c < birth s q"
proof -
  note i = pool_invD [OF assms(1)]
  have "0 < work_count s c" using i(5) assms(4,5) unfolding waits_def by fastforce
  then obtain d where "live (phases s (d # c))" using countsD(1) [OF i(4), of c] by (auto split: if_splits)
  moreover have "phases s (d # c) \<noteq> Queued" using linkD(1) [OF i(2), of "d # c"] assms(2) by simp
  ultimately obtain u pc' where a: "phases s (d # c) = Active u pc'" unfolding live_def by blast
  then have m: "(d # c, pc') \<in> set (stacks s u)" using linkD(2) [OF i(2)] by blast
  then have "u \<le> n" using linkD(5) [OF i(2), of u] by (metis empty_iff empty_set)
  moreover have "u \<notin> ended s" using m i(5) unfolding waits_def by force
  ultimately have u: "u \<in> waiting s" by (rule assms(3))
  obtain q p gs where g: "stacks s u = (q, p) # gs" using m by (cases "stacks s u") auto
  have "sorted_wrt (\<lambda>x y. birth s y < birth s x) (map fst (stacks s u))" using i(6) unfolding ages_def by blast
  moreover have "d # c = q \<or> d # c \<in> set (map fst gs)" using m g by force
  ultimately have "birth s (d # c) \<le> birth s q" using g by auto
  moreover have "birth s c < birth s (d # c)" using i(6) a unfolding ages_def by blast
  ultimately show ?thesis using u g by (metis less_le_trans)
qed

text \<open>C28. No deadlock: unless all threads have ended some thread is running, whatever calls the joins have taken up while
  they wait.\<close>

theorem pool_never_stuck:
  assumes "pool_reachable n xs s"
  shows "(\<exists>t \<le> n. t \<notin> ended s \<and> t \<notin> waiting s) \<or> (\<forall>t \<le> n. t \<in> ended s)"
proof (rule ccontr)
  assume stuck: "\<not> ?thesis"
  note inv = reachable_pool [OF assms]
  note i = pool_invD [OF inv]
  have asleep: "\<And>t. t \<le> n \<Longrightarrow> t \<notin> ended s \<Longrightarrow> t \<in> waiting s" using stuck by blast
  then have q: "queue s = []" using i(5) unfolding waits_def by blast
  define J where "J = {b. \<exists>t c pc fs. t \<in> waiting s \<and> stacks s t = (c, pc) # fs \<and> b = birth s c}"
  have bound: "b < clock s" if "b \<in> J" for b
    using that i(6) linkD(4) [OF i(2)] unfolding J_def ages_def by blast
  have up: "\<exists>b' \<in> J. b < b'" if "b \<in> J" for b
    using that younger_join [OF inv q asleep] unfolding J_def by blast
  have "J = {}"
  proof (rule ccontr)
    assume "J \<noteq> {}"
    have "finite J" by (rule finite_subset [of _ "{..<clock s}"]) (use bound in auto)
    then show False using up \<open>J \<noteq> {}\<close> Max_in [of J] Max_ge [of J] by (meson not_le)
  qed
  then have empty: "stacks s t = []" if "t \<in> waiting s" for t
  proof (cases "stacks s t")
    case (Cons f fs)
    then have "birth s (fst f) \<in> J" using that unfolding J_def by (cases f) auto
    then show ?thesis using \<open>J = {}\<close> by simp
  qed
  obtain t where t: "t \<in> waiting s" using stuck asleep by blast
  then have uc: "t \<noteq> 0" "0 < use_count s" using i(5) empty unfolding waits_def by force+
  have "0 \<notin> waiting s" using i(5) empty unfolding waits_def by force
  then have "0 \<in> ended s" using asleep by blast
  moreover have "\<not> live (phases s c)" for c
  proof
    assume "live (phases s c)"
    then obtain u pc where "(c, pc) \<in> set (stacks s u)" using linkD(1,2) [OF i(2)] q unfolding live_def by fastforce
    then have "stacks s u \<noteq> []" by auto
    then have "stacks s u \<noteq> []" "u \<le> n" using linkD(5) [OF i(2), of u] by blast+
    then have "u \<notin> ended s" "u \<notin> waiting s" using i(5) empty unfolding waits_def by blast+
    then show False using asleep \<open>u \<le> n\<close> by blast
  qed
  ultimately have "use_count s = 0" using countsD(1,3) [OF i(4)] by simp
  with uc show False by simp
qed

end
