(* ===== verification/Fork_Join_Bound.thy ===== *)
theory Fork_Join_Bound
  imports Fork_Join_Properties
begin

text \<open>
  How many steps the fork-join sort takes, and the theorems on it applied: a small sort, and the start of
  a large one, in which two threads work.
\<close>

subsection \<open>A bound\<close>

text \<open>The steps a call and those below it have still to take.\<close>

function cost :: "nat \<Rightarrow> nat" where
  "cost n = (if n > cutoff then cost (n div 2) + cost (n - n div 2) + 8 else 2)"
  by pat_completeness auto
termination by (relation "measure id") (auto simp: cutoff_def)

declare cost.simps [simp del]

lemma cost_bound: "(0 < n \<longrightarrow> cost n + 8 \<le> 10 * n) \<and> (n = 0 \<longrightarrow> cost n = 2)"
proof (induction n rule: cost.induct)
  case (1 n)
  show ?case
  proof (cases "n > cutoff")
    case True
    then have "0 < n div 2" "0 < n - n div 2" "cost n = cost (n div 2) + cost (n - n div 2) + 8"
      by (simp_all add: cutoff_def cost.simps [of n])
    then have "cost (n div 2) + 8 \<le> 10 * (n div 2)" "cost (n - n div 2) + 8 \<le> 10 * (n - n div 2)" using 1 True by blast+
    moreover have "n div 2 + (n - n div 2) = n" by simp
    ultimately show ?thesis using \<open>cost n = _\<close> True by linarith
  next
    case False
    then show ?thesis by (subst (1 2) cost.simps) auto
  qed
qed

definition call_size :: "nat \<Rightarrow> call \<Rightarrow> nat" where
  "call_size N c = snd (range_of N c) - fst (range_of N c)"

lemma call_size_halves: "call_size N (False # c) = call_size N c div 2" "call_size N (True # c) = call_size N c - call_size N c div 2"
  by (simp_all add: call_size_def range_of.simps(2) Let_def split: prod.splits)

lemma big_size: "big N c \<longleftrightarrow> cutoff < call_size N c"
  by (simp add: big_def call_size_def split: prod.splits)

fun weight :: "nat \<Rightarrow> call \<Rightarrow> phase \<Rightarrow> nat" where
  "weight N c Fresh = 0"
| "weight N c Done = 0"
| "weight N c Queued = Suc (cost (call_size N c))"
| "weight N c (Active t Enter) = cost (call_size N c)"
| "weight N c (Active t (Fork second)) =
     (if second then cost (call_size N (True # c)) + 5
      else cost (call_size N (False # c)) + cost (call_size N (True # c)) + 7)"
| "weight N c (Active t Join) = 3"
| "weight N c (Active t Merge) = 2"
| "weight N c (Active t Returned) = 1"

definition total_weight :: "nat \<Rightarrow> (call \<Rightarrow> phase) \<Rightarrow> nat" where
  "total_weight N ph = (\<Sum>c | ph c \<noteq> Fresh. weight N c (ph c))"

lemma total_weight_on: "finite T \<Longrightarrow> {c. ph c \<noteq> Fresh} \<subseteq> T \<Longrightarrow> total_weight N ph = (\<Sum>c \<in> T. weight N c (ph c))"
  unfolding total_weight_def by (rule sum.mono_neutral_left) auto

lemma total_weight_upd:
  assumes "finite {c. ph c \<noteq> Fresh}"
  shows "total_weight N (ph(c := v)) + weight N c (ph c) = total_weight N ph + weight N c v"
proof -
  let ?T = "insert c {c. ph c \<noteq> Fresh}"
  have T: "finite ?T" using assms by simp
  have a: "total_weight N ph = weight N c (ph c) + (\<Sum>x \<in> ?T - {c}. weight N x (ph x))"
    using total_weight_on [OF T, of ph N] sum.remove [OF T, of c "\<lambda>x. weight N x (ph x)"] by auto
  have "total_weight N (ph(c := v)) = (\<Sum>x \<in> ?T. weight N x ((ph(c := v)) x))"
    by (rule total_weight_on [OF T]) auto
  also have "\<dots> = weight N c v + (\<Sum>x \<in> ?T - {c}. weight N x ((ph(c := v)) x))"
    using sum.remove [OF T, of c "\<lambda>x. weight N x ((ph(c := v)) x)"] by simp
  also have "(\<Sum>x \<in> ?T - {c}. weight N x ((ph(c := v)) x)) = (\<Sum>x \<in> ?T - {c}. weight N x (ph x))"
    by (rule sum.cong) auto
  finally show ?thesis using a by linarith
qed

definition steps_left :: "nat \<Rightarrow> 'a::linorder pool \<Rightarrow> nat" where
  "steps_left n s = total_weight (length (vec s)) (phases s) + card ({..n} - ended s)"

lemma phases_simps [simp]:
  "stacks s t = (c, pc) # fs \<Longrightarrow> phases (set_pc t pc' s) = (phases s)(c := Active t pc')"
  "vec (set_pc t pc' s) = vec s" "ended (set_pc t pc' s) = ended s" "waiting (set_pc t pc' s) = waiting s"
  "phases (start_call t c s) = (phases s)(c := Active t Enter)" "vec (start_call t c s) = vec s"
  "ended (start_call t c s) = ended s" "waiting (start_call t c s) = waiting s"
  "phases (do_work_started g s) = phases s" "vec (do_work_started g s) = vec s" "ended (do_work_started g s) = ended s"
  "waiting (do_work_started g s) = waiting s" "phases (do_work_finished g s) = phases s"
  "vec (do_work_finished g s) = vec s" "ended (do_work_finished g s) = ended s"
  by (simp_all add: set_pc_def start_call_def do_work_started_def do_work_finished_def notify_all_def Let_def)

lemma waiting_finished: "waiting (do_work_finished g s) \<subseteq> waiting s"
  by (simp add: do_work_finished_def notify_all_def Let_def)

lemma length_inplace_merge: "length (inplace_merge (length v) c v) = length v"
proof -
  have "fst (range_of (length v) c) \<le> snd (range_of (length v) c)" "snd (range_of (length v) c) \<le> length v"
    using range_ok [of "length v" c] by simp_all
  then show ?thesis unfolding inplace_merge_def
    by (rule put_slice(1)) (simp add: merge_mset slice_halves [of "length v" c])
qed

text \<open>A step takes one of those left, or the thread goes to sleep.\<close>

lemma thread_step_left:
  assumes "pool_inv n xs s" and "t \<le> n" and "t \<notin> ended s" and "t \<notin> waiting s"
  shows "steps_left n (thread_step n t w s) < steps_left n s \<or>
    (t \<in> waiting (thread_step n t w s) \<and> steps_left n (thread_step n t w s) = steps_left n s)"
proof -
  note i = pool_invD [OF assms(1)]
  let ?N = "length (vec s)"
  have fin: "finite {c. phases s c \<noteq> Fresh}" using i(2) unfolding link_def by blast
  note upd = total_weight_upd [OF fin, of ?N]
  have fewer: "card ({..n} - insert t (ended s)) < card ({..n} - ended s)"
    by (rule psubset_card_mono) (use assms(2,3) in auto)
  have takes: "steps_left n (start_call t c (s\<lparr>queue := q\<rparr>)) < steps_left n s" if "queue s = c # q" for c q
  proof -
    have "phases s c = Queued" using linkD(1) [OF i(2), of c] that by simp
    then show ?thesis using upd [of c "Active t Enter"] by (simp add: steps_left_def)
  qed
  show ?thesis
  proof (cases "stacks s t")
    case Nil
    show ?thesis
    proof (cases "t = 0")
      case True
      then show ?thesis using Nil fewer by (simp add: thread_step_def stop_threads_def notify_all_def steps_left_def)
    next
      case False
      then show ?thesis using Nil fewer takes
        by (auto simp: thread_step_def worker_loop_def execute_next_def condition_wait_def steps_left_def split: list.split)
    qed
  next
    case (Cons f fs)
    obtain c pc where f: "f = (c, pc)" by (cases f)
    note top = Cons [unfolded f]
    have c: "phases s c = Active t pc" by (rule linkD(4) [OF i(2) top])
    have step: "thread_step n t w s = fork_join_sort n t w c pc s" using top by (simp add: thread_step_def)
    show ?thesis
    proof (cases pc)
      case Enter
      have r: "fst (range_of ?N c) \<le> snd (range_of ?N c)" "snd (range_of ?N c) \<le> ?N" using range_ok [of ?N c] by simp_all
      have len: "length (put_slice (range_of ?N c) (sort (slice (range_of ?N c) (vec s))) (vec s)) = ?N"
        by (rule put_slice(1) [OF r]) simp
      show ?thesis
        using Enter top c upd [of c "Active t (Fork False)"] upd [of c "Active t Returned"] len
          cost.simps [of "call_size ?N c"] call_size_halves [of ?N c]
        by (simp add: step fork_join_sort_def steps_left_def big_size Let_def split: if_splits)
    next
      case (Fork d)
      define ph1 where "ph1 = (phases s)(c := Active t (if d then Join else Fork True))"
      have fresh: "phases s (d # c) = Fresh" using tree_fork(2) [OF i(1), of c t d Queued] c Fork by (simp add: none_def)
      have f1: "finite {x. ph1 x \<noteq> Fresh}" unfolding ph1_def by (rule finite_upd [OF fin])
      have nc: "ph1 (d # c) = Fresh" using fresh by (simp add: ph1_def)
      have "total_weight ?N ph1 + weight ?N c (phases s c) = total_weight ?N (phases s) + weight ?N c (Active t (if d then Join else Fork True))"
        unfolding ph1_def by (rule upd)
      moreover have "total_weight ?N (ph1(d # c := v)) = total_weight ?N ph1 + weight ?N (d # c) v" for v
        using total_weight_upd [OF f1, of ?N "d # c" v] nc by simp
      ultimately have less: "total_weight ?N (ph1(d # c := v)) < total_weight ?N (phases s)" if "v = Queued \<or> v = Active t Enter" for v
        using that c Fork by (cases d) auto
      have ph: "phases (set_pc t (if d then Join else Fork True) s) = ph1" using top by (simp add: ph1_def)
      show ?thesis
      proof (cases "length (queue s) > n * 16")
        case True
        then show ?thesis using Fork less [of "Active t Enter"] ph
          by (simp add: step fork_join_sort_def do_execute_def steps_left_def Let_def set_pc_def)
      next
        case False
        then show ?thesis using Fork less [of Queued] ph
          by (simp add: step fork_join_sort_def do_execute_def notify_one_def do_work_started_def steps_left_def Let_def set_pc_def)
      qed
    next
      case Join
      show ?thesis
      proof (cases "work_count s c > 0")
        case True
        then show ?thesis using Join takes
          by (auto simp: step fork_join_sort_def join_def execute_next_def condition_wait_def steps_left_def split: list.split)
      next
        case False
        then show ?thesis using Join top c upd [of c "Active t Merge"]
          by (simp add: step fork_join_sort_def join_def steps_left_def)
      qed
    next
      case Merge
      then show ?thesis using top c upd [of c "Active t Returned"] length_inplace_merge [of "vec s" c]
        by (simp add: step fork_join_sort_def steps_left_def Let_def)
    next
      case Returned
      then show ?thesis using c upd [of c Done]
        by (cases "c = []") (simp_all add: step fork_join_sort_def steps_left_def Let_def)
    qed
  qed
qed

text \<open>Runs, with the number of steps that are not a thread going to sleep or waking up.\<close>

inductive pool_run :: "nat \<Rightarrow> nat \<Rightarrow> 'a::linorder pool \<Rightarrow> 'a pool \<Rightarrow> bool" for n where
  no_step: "pool_run n 0 s s"
| works: "pool_run n k s u \<Longrightarrow> t \<le> n \<Longrightarrow> t \<notin> ended u \<Longrightarrow> t \<notin> waiting u \<Longrightarrow> may_wake w u \<Longrightarrow>
    t \<notin> waiting (thread_step n t w u) \<Longrightarrow> pool_run n (Suc k) s (thread_step n t w u)"
| sleeps: "pool_run n k s u \<Longrightarrow> t \<le> n \<Longrightarrow> t \<notin> ended u \<Longrightarrow> t \<notin> waiting u \<Longrightarrow> may_wake w u \<Longrightarrow>
    t \<in> waiting (thread_step n t w u) \<Longrightarrow> pool_run n k s (thread_step n t w u)"
| wakes_up: "pool_run n k s u \<Longrightarrow> t \<in> waiting u \<Longrightarrow> pool_run n k s (u\<lparr>waiting := waiting u - {t}\<rparr>)"

lemma pool_run_left: "pool_run n k s u \<Longrightarrow> pool_inv n xs s \<Longrightarrow> pool_inv n xs u \<and> k + steps_left n u \<le> steps_left n s"
proof (induction rule: pool_run.induct)
  case (works k s u t w)
  then have "pool_inv n xs u" by blast
  then show ?case using works thread_step_left [of n xs u t w] inv_thread_step [of n xs u t w] by fastforce
next
  case (sleeps k s u t w)
  then have "pool_inv n xs u" by blast
  then show ?case using sleeps thread_step_left [of n xs u t w] inv_thread_step [of n xs u t w] by fastforce
next
  case (wakes_up k s u t)
  then show ?case using inv_wakes [of n xs u t] by (simp add: steps_left_def)
qed simp

text \<open>C30. The fork-join sort comes to an end: apart from going to sleep and waking up, all threads together take at most
  ten steps for each element of the vector, and a few for the threads.\<close>

theorem fork_join_bounded:
  assumes "pool_run n k (pool_start xs) s"
  shows "k \<le> 10 * length xs + n + 3"
proof -
  have "k \<le> steps_left n (pool_start xs)" using pool_run_left [OF assms inv_start] by linarith
  also have "steps_left n (pool_start xs) = cost (length xs) + Suc n"
  proof -
    have "{c :: call. (if c = [] then Active 0 Enter else Fresh) \<noteq> Fresh} = {[]}" by auto
    then show ?thesis by (simp add: steps_left_def total_weight_def pool_start_def call_size_def)
  qed
  also have "\<dots> \<le> 10 * length xs + n + 3" using cost_bound [of "length xs"] by (cases "length xs = 0") simp_all
  finally show ?thesis .
qed

subsection \<open>The theorems applied\<close>

text \<open>Two elements are sorted by the main thread alone.\<close>

definition two :: "nat list" where "two = [2, 1]"

definition two_half :: "nat pool" where "two_half = thread_step 1 0 None (pool_start two)"
definition two_sorted :: "nat pool" where "two_sorted = thread_step 1 0 None two_half"

lemma two_steps:
  "waiting two_half = {}" "ended two_half = {}"
  "stacks two_half 0 = [([], Returned)]"
  by (simp_all add: two_half_def thread_step_def pool_start_def fork_join_sort_def big_def two_def cutoff_def set_pc_def)

lemma two_end: "waiting two_sorted = {}" "ended two_sorted = {}" "stacks two_sorted 0 = []"
  using two_steps by (simp_all add: two_sorted_def thread_step_def fork_join_sort_def)

lemma two_run: "pool_reachable 1 two two_sorted" "pool_run 1 2 (pool_start two) two_sorted"
proof -
  have s: "waiting (pool_start two) = {}" "ended (pool_start two) = {}" by (simp_all add: pool_start_def)
  have "pool_reachable 1 two two_half"
    unfolding two_half_def by (rule pool_more [OF pool_boot], rule runs) (use s in \<open>simp_all add: may_wake_def\<close>)
  then show "pool_reachable 1 two two_sorted"
    unfolding two_sorted_def by (rule pool_more, intro runs) (use two_steps in \<open>simp_all add: may_wake_def\<close>)
  have "pool_run 1 (Suc 0) (pool_start two) two_half"
    unfolding two_half_def
    by (rule works [OF no_step]) (use s two_steps in \<open>simp_all add: may_wake_def two_half_def\<close>)
  then have "pool_run 1 (Suc (Suc 0)) (pool_start two) two_sorted"
    unfolding two_sorted_def
    by (rule works) (use two_steps two_end in \<open>simp_all add: may_wake_def two_sorted_def\<close>)
  then show "pool_run 1 2 (pool_start two) two_sorted" by (simp add: numeral_2_eq_2)
qed

theorem fork_join_sorts_witness: "vec two_sorted = [1, 2]"
  using fork_join_sorts [OF two_run(1) two_end(3)] by (simp add: two_def)

theorem fork_join_bounded_witness: "(2 :: nat) \<le> 10 * length two + 1 + 3"
  by (rule fork_join_bounded [OF two_run(2)])

theorem pool_counts_witness:
  "work_count two_sorted [] = card {d. live (phases two_sorted [d])} \<and>
   use_count two_sorted = (if 0 \<in> ended two_sorted then 0 else 1) + card {p. \<exists>d. live (phases two_sorted (d # p))}"
  by (rule pool_counts [OF two_run(1)])

theorem pool_never_stuck_witness: "\<exists>t \<le> 1. t \<notin> ended two_sorted \<and> t \<notin> waiting two_sorted"
  using pool_never_stuck [OF two_run(1)] two_end by auto

text \<open>Of 40000 elements each thread gets a half.\<close>

lemma two_threads:
  fixes xs :: "nat list"
  assumes "length xs = 40000"
  shows "\<exists>s. pool_reachable 1 xs s \<and> stacks s 0 = [([True], Enter), ([], Join)] \<and> stacks s 1 = [([False], Enter)]"
proof -
  define s1 where "s1 = thread_step 1 0 None (pool_start xs)"
  define s2 where "s2 = thread_step 1 0 None s1"
  define s3 where "s3 = thread_step 1 0 None s2"
  define s4 where "s4 = thread_step 1 1 None s3"
  define s5 where "s5 = thread_step 1 0 None s4"
  have b: "big 40000 []" by (simp add: big_def cutoff_def)
  have f1: "stacks s1 0 = [([], Fork False)]" "stacks s1 1 = []" "queue s1 = []" "waiting s1 = {}" "ended s1 = {}" "use_count s1 = 1"
    "work_count s1 [] = 0"
    using assms b by (simp_all add: s1_def thread_step_def pool_start_def fork_join_sort_def set_pc_def)
  note defs = thread_step_def fork_join_sort_def do_execute_def do_work_started_def set_pc_def notify_one_def Let_def
  have f2: "stacks s2 0 = [([], Fork True)]" "stacks s2 1 = []" "queue s2 = [[False]]" "waiting s2 = {}" "ended s2 = {}"
    "use_count s2 = 2" "work_count s2 [] = 1"
    using f1 by (simp_all add: s2_def defs)
  have f3: "stacks s3 0 = [([], Join)]" "stacks s3 1 = []" "queue s3 = [[False], [True]]" "waiting s3 = {}" "ended s3 = {}"
    "use_count s3 = 2" "work_count s3 [] = 2"
    using f2 by (simp_all add: s3_def defs)
  have f4: "stacks s4 0 = [([], Join)]" "stacks s4 1 = [([False], Enter)]" "queue s4 = [[True]]" "waiting s4 = {}" "ended s4 = {}"
    "work_count s4 [] = 2"
    using f3 by (simp_all add: s4_def thread_step_def worker_loop_def execute_next_def start_call_def)
  have f5: "stacks s5 0 = [([True], Enter), ([], Join)]" "stacks s5 1 = [([False], Enter)]"
    using f4 by (simp_all add: s5_def thread_step_def fork_join_sort_def join_def execute_next_def start_call_def Let_def)
  have r: "pool_reachable 1 xs (thread_step 1 t None s)" if "pool_reachable 1 xs s" "waiting s = {}" "ended s = {}" "t \<le> 1" for s t
    by (rule pool_more [OF that(1)], rule runs) (use that in \<open>simp_all add: may_wake_def\<close>)
  have "pool_reachable 1 xs s1" unfolding s1_def by (rule r [OF pool_boot]) (simp_all add: pool_start_def)
  then have "pool_reachable 1 xs s2" unfolding s2_def by (rule r) (use f1 in simp_all)
  then have "pool_reachable 1 xs s3" unfolding s3_def by (rule r) (use f2 in simp_all)
  then have "pool_reachable 1 xs s4" unfolding s4_def by (rule r) (use f3 in simp_all)
  then have "pool_reachable 1 xs s5" unfolding s5_def by (rule r) (use f4 in simp_all)
  with f5 show ?thesis by blast
qed

theorem fork_join_disjoint_witness:
  "\<exists>s :: nat pool. \<exists>xs. pool_reachable 1 xs s \<and> length xs = 40000 \<and>
    stacks s 0 = [([True], Enter), ([], Join)] \<and> stacks s 1 = [([False], Enter)] \<and>
    (snd (range_of 40000 [True]) \<le> fst (range_of 40000 [False]) \<or> snd (range_of 40000 [False]) \<le> fst (range_of 40000 [True]))"
proof -
  obtain xs :: "nat list" where l: "length xs = 40000" using Ex_list_of_length by blast
  obtain s where s: "pool_reachable 1 xs s" "stacks s 0 = [([True], Enter), ([], Join)]" "stacks s 1 = [([False], Enter)]"
    using two_threads [OF l] by blast
  have "(1 :: nat) \<noteq> 0 \<and> stacks s 1 = ([False], Enter) # [] \<and> (Enter = Enter \<or> Enter = Merge)" using s(3) by simp
  then have "snd (range_of (length xs) [True]) \<le> fst (range_of (length xs) [False]) \<or>
      snd (range_of (length xs) [False]) \<le> fst (range_of (length xs) [True])"
    using conjunct1 [OF fork_join_disjoint [OF s(1) s(2)]] by blast
  with s l show ?thesis by auto
qed

end
