(* ===== verification/Actor_Ring.thy ===== *)
theory Actor_Ring
  imports Prelude
begin

text \<open>
  The actor framework and the ring of actors that runs on it
  (\<open>boost_asio/example/cpp11/executors/actor.cpp\<close>): actors with handlers for types of messages, a receiver, members that
  pass tokens round, and \<open>main\<close>. The strand of an actor runs the functions posted or deferred to it one
  after another, in the order in which they were.
\<close>

subsection \<open>Messages and handlers\<close>

datatype address = Member nat | Receiver

datatype message = Address_message address | Int_message int

datatype type_info = Address_type | Int_type

fun type_id :: "message \<Rightarrow> type_info" where
  "type_id (Address_message a) = Address_type"
| "type_id (Int_message t) = Int_type"

text \<open>The member functions registered as handlers.\<close>

datatype handler = Init_handler | Token_handler | Message_handler

fun message_id :: "handler \<Rightarrow> type_info" where
  "message_id Init_handler = Address_type"
| "message_id Token_handler = Int_type"
| "message_id Message_handler = Int_type"

subsection \<open>State\<close>

text \<open>
  \<open>next_\<close> and \<open>caller_\<close> of a member are not initialised at first; \<open>message_queue\<close> is that of a receiver. \<open>handler_changes\<close>
  counts the insertions into and the removals from the vector of handlers: its iterators are invalid after each.
\<close>

record actor =
  handlers_of :: "handler list"
  handler_changes :: nat
  next_of :: "address option"
  caller_of :: "address option"
  message_queue :: "int list"

text \<open>What \<open>main\<close> still has to do, what its waits have returned, and, for the statements, how often a token was passed on.\<close>

datatype main_operation = Send message address | Wait

record ring =
  actors :: "address \<Rightarrow> actor"
  strand :: "address \<Rightarrow> (message \<times> address) list"
  todo :: "main_operation list"
  got :: "int list"
  hops :: nat

subsection \<open>actor\<close>

definition send :: "message \<Rightarrow> address \<Rightarrow> address \<Rightarrow> ring \<Rightarrow> ring" where
  "send msg from to s = s\<lparr>strand := (strand s)(to := strand s to @ [(msg, from)])\<rparr>"

definition tail_send :: "message \<Rightarrow> address \<Rightarrow> address \<Rightarrow> ring \<Rightarrow> ring" where
  "tail_send msg this to s = s\<lparr>strand := (strand s)(to := strand s to @ [(msg, this)])\<rparr>"

definition register_handler :: "handler \<Rightarrow> actor \<Rightarrow> actor" where
  "register_handler mf a = a\<lparr>handlers_of := handlers_of a @ [mf], handler_changes := Suc (handler_changes a)\<rparr>"

definition deregister_handler :: "handler \<Rightarrow> actor \<Rightarrow> actor" where
  "deregister_handler mf a =
     (if mf \<in> set (handlers_of a) then a\<lparr>handlers_of := remove1 mf (handlers_of a), handler_changes := Suc (handler_changes a)\<rparr> else a)"

definition on_actor :: "address \<Rightarrow> (actor \<Rightarrow> actor) \<Rightarrow> ring \<Rightarrow> ring" where
  "on_actor i f s = s\<lparr>actors := (actors s)(i := f (actors s i))\<rparr>"

subsection \<open>member and receiver\<close>

definition init_handler :: "address \<Rightarrow> address \<Rightarrow> address \<Rightarrow> ring \<Rightarrow> ring" where
  "init_handler this next from = on_actor this (\<lambda>a. deregister_handler Init_handler (register_handler Token_handler
     (a\<lparr>next_of := Some next, caller_of := Some from\<rparr>)))"

text \<open>\<open>None\<close> is a read of a member that was not initialised.\<close>

definition token_handler :: "address \<Rightarrow> int \<Rightarrow> ring \<Rightarrow> ring option" where
  "token_handler this token s =
     (case caller_of (actors s this) of
        None \<Rightarrow> None
      | Some caller \<Rightarrow>
          if token > 0
          then case next_of (actors s this) of
                 None \<Rightarrow> None
               | Some next \<Rightarrow> Some ((tail_send (Int_message (token - 1)) this next s)\<lparr>hops := Suc (hops s)\<rparr>)
          else Some (tail_send (Int_message token) this caller s))"

definition message_handler :: "address \<Rightarrow> int \<Rightarrow> ring \<Rightarrow> ring" where
  "message_handler this msg = on_actor this (\<lambda>a. a\<lparr>message_queue := message_queue a @ [msg]\<rparr>)"

fun handle_message :: "handler \<Rightarrow> address \<Rightarrow> message \<Rightarrow> address \<Rightarrow> ring \<Rightarrow> ring option" where
  "handle_message Init_handler this (Address_message next) from s = Some (init_handler this next from s)"
| "handle_message Token_handler this (Int_message token) from s = token_handler this token s"
| "handle_message Message_handler this (Int_message msg) from s = Some (message_handler this msg s)"
| "handle_message _ this _ from s = None"

text \<open>
  The loop over the handlers, whose type is compared first. A handler may register and deregister handlers and so invalidate both iterators of the
  loop, the current one and the one past the end. For the C++ standard (\<open>By_standard\<close>) the behaviour is undefined (\<open>None\<close>) as soon as the
  loop goes on, since it increments the first and compares it with the second. Where iterators are pointers into the array that was there when the loop
  began (\<open>As_pointers\<close>, as in the common implementations) incrementing and comparing them does what it did before, and what is undefined is to read
  a further element through them.
\<close>

datatype iterators = By_standard | As_pointers

fun call_handlers :: "iterators \<Rightarrow> handler list \<Rightarrow> address \<Rightarrow> message \<Rightarrow> address \<Rightarrow> ring \<Rightarrow> ring option" where
  "call_handlers m [] this msg from s = Some s"
| "call_handlers m (h # hs) this msg from s =
     (if message_id h = type_id msg
      then case handle_message h this msg from s of
             None \<Rightarrow> None
           | Some s' \<Rightarrow>
               if (m = By_standard \<or> hs \<noteq> []) \<and> handler_changes (actors s' this) \<noteq> handler_changes (actors s this) then None
               else call_handlers m hs this msg from s'
      else call_handlers m hs this msg from s)"

definition call_handler :: "iterators \<Rightarrow> address \<Rightarrow> message \<Rightarrow> address \<Rightarrow> ring \<Rightarrow> ring option" where
  "call_handler m this msg from s = call_handlers m (handlers_of (actors s this)) this msg from s"

subsection \<open>main\<close>

definition new_member :: actor where
  "new_member = register_handler Init_handler \<lparr>handlers_of = [], handler_changes = 0, next_of = None, caller_of = None, message_queue = []\<rparr>"

definition new_receiver :: actor where
  "new_receiver = register_handler Message_handler \<lparr>handlers_of = [], handler_changes = 0, next_of = None, caller_of = None, message_queue = []\<rparr>"

definition num_hops :: nat where "num_hops = 50000000"
definition num_actors :: nat where "num_actors = 503"
definition token_value :: nat where "token_value = (num_hops + num_actors - 1) div num_actors"

text \<open>The three loops of \<open>main\<close>, for \<open>n\<close> actors and tokens of value \<open>v\<close>.\<close>

definition main_init :: "nat \<Rightarrow> main_operation list" where
  "main_init n = map (\<lambda>i. Send (Address_message (Member (if i = n then 0 else i))) (Member (i - 1))) (rev [1..<Suc n])"

definition main_tokens :: "nat \<Rightarrow> nat \<Rightarrow> main_operation list" where
  "main_tokens n v = map (\<lambda>i. Send (Int_message (int v)) (Member i)) [0..<n]"

definition ring_main :: "nat \<Rightarrow> nat \<Rightarrow> ring" where
  "ring_main n v = \<lparr>actors = (\<lambda>i. case i of Member _ \<Rightarrow> new_member | Receiver \<Rightarrow> new_receiver), strand = (\<lambda>_. []),
     todo = main_init n @ main_tokens n v @ replicate n Wait, got = [], hops = 0\<rparr>"

text \<open>\<open>wait\<close> takes the first message of the queue.\<close>

definition wait :: "ring \<Rightarrow> ring" where
  "wait s = (on_actor Receiver (\<lambda>a. a\<lparr>message_queue := tl (message_queue a)\<rparr>) s)\<lparr>got := got s @ [hd (message_queue (actors s Receiver))]\<rparr>"

subsection \<open>Steps\<close>

text \<open>A function at the front of a strand runs, or \<open>main\<close> goes on; \<open>wait\<close> blocks while the queue is empty.\<close>

inductive ring_step :: "iterators \<Rightarrow> ring \<Rightarrow> ring option \<Rightarrow> bool" for m where
  delivers: "strand s this = (msg, from) # fs \<Longrightarrow>
    ring_step m s (call_handler m this msg from (s\<lparr>strand := (strand s)(this := fs)\<rparr>))"
| sends: "todo s = Send msg to # ops \<Longrightarrow> ring_step m s (Some (send msg Receiver to (s\<lparr>todo := ops\<rparr>)))"
| receives: "todo s = Wait # ops \<Longrightarrow> message_queue (actors s Receiver) \<noteq> [] \<Longrightarrow> ring_step m s (Some (wait (s\<lparr>todo := ops\<rparr>)))"

inductive ring_run :: "iterators \<Rightarrow> nat \<Rightarrow> nat \<Rightarrow> nat \<Rightarrow> ring \<Rightarrow> bool" for m n v where
  ring_boot: "ring_run m n v 0 (ring_main n v)"
| ring_more: "ring_run m n v k s \<Longrightarrow> ring_step m s (Some u) \<Longrightarrow> ring_run m n v (Suc k) u"

end
