(* ===== verification/Actor_Ring_Steps.thy ===== *)
theory Actor_Ring_Steps
  imports Actor_Ring
begin

text \<open>
  The invariant of the ring of actors: where \<open>main\<close> is, which members know their neighbours, which tokens can be in
  the strands, and three counts over the messages in flight (of tokens, of their values, of the steps they are still good for).
\<close>

subsection \<open>The operations of main\<close>

definition ring_operations :: "nat \<Rightarrow> nat \<Rightarrow> main_operation list" where
  "ring_operations n v = main_init n @ main_tokens n v @ replicate n Wait"

abbreviation successor :: "nat \<Rightarrow> nat \<Rightarrow> address" where
  "successor n j \<equiv> Member (Suc j mod n)"

lemma length_ring_operations [simp]: "length (ring_operations n v) = 3 * n"
  by (simp add: ring_operations_def main_init_def main_tokens_def)

lemma ring_operation_init:
  assumes "p < n"
  shows "ring_operations n v ! p = Send (Address_message (successor n (n - Suc p))) (Member (n - Suc p))"
proof -
  have i: "rev [1..<Suc n] ! p = n - p" using assms by (simp add: rev_nth del: upt_Suc)
  have m: "(if n - p = n then 0 else n - p) = Suc (n - Suc p) mod n"
    using assms by (cases p) (auto simp: Suc_diff_Suc)
  have "main_init n ! p = Send (Address_message (Member (if n - p = n then 0 else n - p))) (Member (n - p - 1))"
    unfolding main_init_def using assms i by (subst nth_map) (simp_all del: upt_Suc)
  then show ?thesis
    using assms m by (simp add: ring_operations_def nth_append main_init_def del: upt_Suc)
qed

lemma ring_operation_token:
  assumes "n \<le> p" "p < 2 * n"
  shows "ring_operations n v ! p = Send (Int_message (int v)) (Member (p - n))"
  using assms by (simp add: ring_operations_def nth_append main_init_def main_tokens_def del: upt_Suc)

lemma ring_operation_wait:
  assumes "2 * n \<le> p" "p < 3 * n"
  shows "ring_operations n v ! p = Wait"
  using assms by (auto simp: ring_operations_def nth_append main_init_def main_tokens_def simp del: upt_Suc)

lemma todo_next:
  assumes "drop p (ring_operations n v) = op # ops"
  shows "p < 3 * n" "op = ring_operations n v ! p" "ops = drop (Suc p) (ring_operations n v)"
proof -
  show "p < 3 * n" using assms by (metis drop_all length_ring_operations list.distinct(1) not_less)
  then have "drop p (ring_operations n v) = ring_operations n v ! p # drop (Suc p) (ring_operations n v)"
    by (simp add: Cons_nth_drop_Suc)
  then show "op = ring_operations n v ! p" "ops = drop (Suc p) (ring_operations n v)" using assms by simp_all
qed

subsection \<open>Sums over the messages in flight\<close>

definition in_flight :: "nat \<Rightarrow> (address \<Rightarrow> message \<Rightarrow> nat) \<Rightarrow> (address \<Rightarrow> (message \<times> address) list) \<Rightarrow> nat" where
  "in_flight n w q = (\<Sum>a \<in> insert Receiver (Member ` {..<n}). \<Sum>e \<leftarrow> q a. w a (fst e))"

abbreviation in_ring :: "nat \<Rightarrow> address \<Rightarrow> bool" where
  "in_ring n a \<equiv> a \<in> insert Receiver (Member ` {..<n})"

lemma in_flight_update:
  assumes "in_ring n a"
  shows "in_flight n w (q(a := es)) + (\<Sum>e \<leftarrow> q a. w a (fst e)) = in_flight n w q + (\<Sum>e \<leftarrow> es. w a (fst e))"
  unfolding in_flight_def
  using sum_fun_upd [of "insert Receiver (Member ` {..<n})" a "\<lambda>b es. \<Sum>e \<leftarrow> es. w b (fst e)" q es] assms by simp

lemma in_flight_push:
  assumes "in_ring n a"
  shows "in_flight n w (q(a := q a @ [e])) = in_flight n w q + w a (fst e)"
  using in_flight_update [OF assms, of w q "q a @ [e]"] by simp

lemma in_flight_pop:
  assumes "in_ring n a" "q a = e # es"
  shows "in_flight n w q = in_flight n w (q(a := es)) + w a (fst e)"
  using in_flight_update [OF assms(1), of w q es] assms(2) by simp

lemma in_flight_empty [simp]: "in_flight n w (\<lambda>_. []) = 0"
  by (simp add: in_flight_def)

text \<open>The weights: of a token, of its value, of the steps a message is good for.\<close>

fun token_weight :: "address \<Rightarrow> message \<Rightarrow> nat" where
  "token_weight _ (Address_message _) = 0"
| "token_weight _ (Int_message _) = 1"

fun value_weight :: "address \<Rightarrow> message \<Rightarrow> nat" where
  "value_weight _ (Address_message _) = 0"
| "value_weight _ (Int_message t) = nat t"

fun step_weight :: "address \<Rightarrow> message \<Rightarrow> nat" where
  "step_weight _ (Address_message _) = 1"
| "step_weight (Member _) (Int_message t) = nat t + 2"
| "step_weight Receiver (Int_message t) = 1"

fun operation_weight :: "main_operation \<Rightarrow> nat" where
  "operation_weight (Send msg to) = Suc (step_weight to msg)"
| "operation_weight Wait = 1"

subsection \<open>The invariant\<close>

definition ready_member :: "nat \<Rightarrow> nat \<Rightarrow> actor" where
  "ready_member n j = \<lparr>handlers_of = [Token_handler], handler_changes = Suc (Suc (Suc 0)), next_of = Some (successor n j), caller_of = Some Receiver, message_queue = []\<rparr>"

text \<open>Tokens are only about once \<open>main\<close>, at its operation \<open>p\<close>, has begun to send them.\<close>

definition token_entry :: "nat \<Rightarrow> nat \<Rightarrow> nat \<Rightarrow> message \<times> address \<Rightarrow> bool" where
  "token_entry n p v e \<longleftrightarrow> n < p \<and> (\<exists>t \<le> v. fst e = Int_message (int t))"

definition ring_member_ok :: "nat \<Rightarrow> nat \<Rightarrow> nat \<Rightarrow> nat \<Rightarrow> actor \<Rightarrow> (message \<times> address) list \<Rightarrow> bool" where
  "ring_member_ok n v p j a q \<longleftrightarrow>
     (if p + j < n then a = new_member \<and> q = []
      else (a = new_member \<and> (\<exists>ts. q = (Address_message (successor n j), Receiver) # ts \<and> list_all (token_entry n p v) ts)) \<or>
           (a = ready_member n j \<and> list_all (token_entry n p v) q))"

definition receiver_ok :: "nat \<Rightarrow> nat \<Rightarrow> actor \<Rightarrow> (message \<times> address) list \<Rightarrow> bool" where
  "receiver_ok n p a q \<longleftrightarrow> handlers_of a = [Message_handler] \<and> list_all (token_entry n p 0) q \<and> list_all (\<lambda>t. t = 0) (message_queue a)"

definition tokens_sent :: "nat \<Rightarrow> nat \<Rightarrow> nat" where
  "tokens_sent n p = min (p - n) n"

definition ring_ok :: "nat \<Rightarrow> nat \<Rightarrow> nat \<Rightarrow> nat \<Rightarrow> ring \<Rightarrow> bool" where
  "ring_ok n v k p s \<longleftrightarrow>
     p \<le> 3 * n \<and> todo s = drop p (ring_operations n v) \<and>
     (\<forall>j < n. ring_member_ok n v p j (actors s (Member j)) (strand s (Member j))) \<and>
     (\<forall>j \<ge> n. strand s (Member j) = []) \<and>
     receiver_ok n p (actors s Receiver) (strand s Receiver) \<and>
     list_all (\<lambda>t. t = 0) (got s) \<and> length (got s) = p - 2 * n \<and>
     in_flight n token_weight (strand s) + length (message_queue (actors s Receiver)) + length (got s) = tokens_sent n p \<and>
     in_flight n value_weight (strand s) + hops s = v * tokens_sent n p \<and>
     k + in_flight n step_weight (strand s) + (\<Sum>op \<leftarrow> todo s. operation_weight op) = n * (v + 6)"

lemma token_entry_mono: "token_entry n p v e \<Longrightarrow> token_entry n (Suc p) v e"
  by (auto simp: token_entry_def)

lemma list_token_entry_mono: "list_all (token_entry n p v) es \<Longrightarrow> list_all (token_entry n (Suc p) v) es"
  by (auto simp: list_all_iff token_entry_mono)

lemma ring_member_ok_mono:
  assumes "ring_member_ok n v p j a q" "p + j \<noteq> n - 1 \<or> n \<le> p"
  shows "ring_member_ok n v (Suc p) j a q"
  using assms by (auto simp: ring_member_ok_def list_token_entry_mono split: if_splits)

lemma ring_member_ok_push:
  assumes "ring_member_ok n v p j a q" "token_entry n p v e"
  shows "ring_member_ok n v p j a (q @ [e])"
  using assms by (auto simp: ring_member_ok_def token_entry_def split: if_splits)

lemma receiver_ok_mono: "receiver_ok n p a q \<Longrightarrow> receiver_ok n (Suc p) a q"
  by (auto simp: receiver_ok_def list_token_entry_mono)

lemma receiver_ok_push: "receiver_ok n p a q \<Longrightarrow> token_entry n p 0 e \<Longrightarrow> receiver_ok n p a (q @ [e])"
  by (simp add: receiver_ok_def)

lemma operation_weights: "(\<Sum>op \<leftarrow> ring_operations n v. operation_weight op) = n * (v + 6)"
proof -
  have "(\<Sum>op \<leftarrow> main_init n. operation_weight op) = 2 * n"
    by (simp add: main_init_def o_def sum_list_triv rev_map del: upt_Suc)
  moreover have "(\<Sum>op \<leftarrow> main_tokens n v. operation_weight op) = (v + 3) * n"
    by (simp add: main_tokens_def o_def sum_list_triv algebra_simps)
  moreover have "(\<Sum>op \<leftarrow> replicate n Wait. operation_weight op) = n"
    by (simp add: sum_list_replicate)
  ultimately show ?thesis by (simp add: ring_operations_def algebra_simps)
qed

lemma ring_main_ok: "ring_ok n v 0 0 (ring_main n v)"
  by (simp add: ring_ok_def ring_main_def ring_operations_def [symmetric] ring_member_ok_def receiver_ok_def tokens_sent_def
      new_receiver_def register_handler_def operation_weights)

subsection \<open>main goes on\<close>

lemma ring_ok_init:
  assumes ok: "ring_ok n v k p s" and p: "p < n"
  shows "ring_ok n v (Suc k) (Suc p)
    (send (Address_message (successor n (n - Suc p))) Receiver (Member (n - Suc p)) (s\<lparr>todo := drop (Suc p) (ring_operations n v)\<rparr>))"
proof -
  define j where "j = n - Suc p"
  define e where "e = (Address_message (successor n j), Receiver)"
  have j: "j < n" "in_ring n (Member j)" and pj: "p + j = n - 1" using p by (auto simp: j_def)
  have todo: "todo s = Send (Address_message (successor n j)) (Member j) # drop (Suc p) (ring_operations n v)"
    using ok p by (simp add: ring_ok_def ring_operation_init Cons_nth_drop_Suc [symmetric] j_def)
  have fresh: "actors s (Member j) = new_member" "strand s (Member j) = []"
    using ok j pj p by (auto simp: ring_ok_def ring_member_ok_def)
  have "ring_member_ok n v (Suc p) i (actors s (Member i)) (((strand s)(Member j := strand s (Member j) @ [e])) (Member i))" if "i < n" for i
  proof (cases "i = j")
    case True
    then show ?thesis using fresh pj p by (simp add: ring_member_ok_def e_def)
  next
    case False
    then have "p + i \<noteq> n - 1" using pj by simp
    then show ?thesis using ok that False by (simp add: ring_ok_def ring_member_ok_mono)
  qed
  then show ?thesis
    using ok p j todo unfolding j_def [symmetric] e_def
    by (simp add: ring_ok_def send_def in_flight_push receiver_ok_mono tokens_sent_def)
qed

lemma ring_ok_token:
  assumes ok: "ring_ok n v k p s" and p: "n \<le> p" "p < 2 * n"
  shows "ring_ok n v (Suc k) (Suc p)
    (send (Int_message (int v)) Receiver (Member (p - n)) (s\<lparr>todo := drop (Suc p) (ring_operations n v)\<rparr>))"
proof -
  define j where "j = p - n"
  define e where "e = (Int_message (int v), Receiver)"
  have j: "j < n" "in_ring n (Member j)" using p by (auto simp: j_def)
  have todo: "todo s = Send (Int_message (int v)) (Member j) # drop (Suc p) (ring_operations n v)"
    using ok p by (simp add: ring_ok_def ring_operation_token Cons_nth_drop_Suc [symmetric] j_def)
  have entry: "token_entry n (Suc p) v e" using p by (auto simp: token_entry_def e_def)
  have "ring_member_ok n v (Suc p) i (actors s (Member i)) (((strand s)(Member j := strand s (Member j) @ [e])) (Member i))" if "i < n" for i
  proof -
    have "ring_member_ok n v (Suc p) i (actors s (Member i)) (strand s (Member i))"
      using ok that p by (simp add: ring_ok_def ring_member_ok_mono)
    then show ?thesis using entry by (auto simp: ring_member_ok_push)
  qed
  moreover have "tokens_sent n (Suc p) = Suc (tokens_sent n p)" using p by (simp add: tokens_sent_def)
  ultimately show ?thesis
    using ok p j todo unfolding j_def [symmetric] e_def
    by (auto simp: ring_ok_def send_def in_flight_push receiver_ok_mono)
qed

lemma ring_ok_wait:
  assumes ok: "ring_ok n v k p s" and p: "2 * n \<le> p" "p < 3 * n"
    and queue: "message_queue (actors s Receiver) \<noteq> []"
  shows "ring_ok n v (Suc k) (Suc p) (wait (s\<lparr>todo := drop (Suc p) (ring_operations n v)\<rparr>))"
proof -
  obtain t ts where ts: "message_queue (actors s Receiver) = t # ts" using queue by (cases "message_queue (actors s Receiver)") auto
  have todo: "todo s = Wait # drop (Suc p) (ring_operations n v)"
    using ok p by (simp add: ring_ok_def ring_operation_wait Cons_nth_drop_Suc [symmetric])
  have sent: "tokens_sent n (Suc p) = tokens_sent n p" using p by (simp add: tokens_sent_def)
  have "ring_member_ok n v (Suc p) i (actors s (Member i)) (strand s (Member i))" if "i < n" for i
    using ok that p by (simp add: ring_ok_def ring_member_ok_mono)
  moreover have "receiver_ok n (Suc p) (actors s Receiver) (strand s Receiver)"
    using ok by (simp add: ring_ok_def receiver_ok_mono)
  ultimately show ?thesis
    using ok p todo ts sent
    by (auto simp: ring_ok_def wait_def on_actor_def receiver_ok_def Suc_diff_le)
qed

end
