(* ===== verification/Actor_Properties.thy ===== *)
theory Actor_Properties
  imports Actor_Ring_Steps
begin

text \<open>
  What the ring of actors keeps to where iterators are pointers: no function on a strand is undefined, \<open>main\<close> is given exactly one
  zero per actor, and the ring always goes on until it has made exactly as many steps as its tokens need; and that by the C++ standard
  every function on a strand that can run first is undefined.
\<close>

subsection \<open>A function on a strand runs\<close>

definition pop :: "address \<Rightarrow> (message \<times> address) list \<Rightarrow> ring \<Rightarrow> ring" where
  "pop a q s = s\<lparr>strand := (strand s)(a := q)\<rparr>"

lemma call_init:
  assumes "actors s (Member j) = new_member"
  shows "call_handler As_pointers (Member j) (Address_message (successor n j)) Receiver s =
    Some (s\<lparr>actors := (actors s)(Member j := ready_member n j)\<rparr>)"
  using assms
  by (simp add: call_handler_def new_member_def register_handler_def deregister_handler_def init_handler_def on_actor_def ready_member_def)

lemma call_token:
  assumes "actors s (Member j) = ready_member n j"
  shows "call_handler As_pointers (Member j) (Int_message (int t)) from s =
    Some (if t = 0 then tail_send (Int_message 0) (Member j) Receiver s
          else (tail_send (Int_message (int (t - 1))) (Member j) (successor n j) s)\<lparr>hops := Suc (hops s)\<rparr>)"
  using assms by (simp add: call_handler_def token_handler_def ready_member_def of_nat_diff)

lemma call_message:
  assumes "handlers_of (actors s Receiver) = [Message_handler]"
  shows "call_handler As_pointers Receiver (Int_message t) from s =
    Some (on_actor Receiver (\<lambda>a. a\<lparr>message_queue := message_queue a @ [t]\<rparr>) s)"
  using assms by (simp add: call_handler_def message_handler_def)

lemma ring_member_ok_cases:
  assumes "ring_member_ok n v p j a (e # q)"
  obtains "a = new_member" "e = (Address_message (successor n j), Receiver)" "ring_member_ok n v p j (ready_member n j) q"
  | t f where "a = ready_member n j" "e = (Int_message (int t), f)" "t \<le> v" "n < p" "ring_member_ok n v p j (ready_member n j) q"
  using assms by (cases e) (auto simp: ring_member_ok_def token_entry_def split: if_splits)

lemma ring_ok_deliver_init:
  assumes ok: "ring_ok n v k p s" and j: "j < n" and q: "strand s (Member j) = (Address_message (successor n j), Receiver) # q"
    and nx: "ring_member_ok n v p j (ready_member n j) q"
  shows "ring_ok n v (Suc k) p ((pop (Member j) q s)\<lparr>actors := (actors s)(Member j := ready_member n j)\<rparr>)"
proof -
  have a: "in_ring n (Member j)" using j by simp
  note pop_eq = in_flight_pop [where q = "strand s", OF a q]
  show ?thesis
    using ok j nx pop_eq [of token_weight] pop_eq [of value_weight] pop_eq [of step_weight]
    by (auto simp: ring_ok_def pop_def)
qed

lemma ring_ok_deliver_hop:
  assumes ok: "ring_ok n v k p s" and j: "j < n" and q: "strand s (Member j) = (Int_message (int (Suc t)), from) # q"
    and nx: "actors s (Member j) = ready_member n j" "ring_member_ok n v p j (ready_member n j) q" and t: "Suc t \<le> v" "n < p"
  shows "ring_ok n v (Suc k) p
    ((tail_send (Int_message (int t)) (Member j) (successor n j) (pop (Member j) q s))\<lparr>hops := Suc (hops s)\<rparr>)"
proof -
  define q' where "q' = (strand s)(Member j := q)"
  define e where "e = (Int_message (int t), Member j)"
  have a: "in_ring n (Member j)" using j by simp
  have a': "in_ring n (successor n j)" using j by simp
  note pop_eq = in_flight_pop [where q = "strand s", OF a q, folded q'_def]
  note push_eq = in_flight_push [OF a', of _ q' e]
  have popped: "ring_member_ok n v p i (actors s (Member i)) (q' (Member i))" if "i < n" for i
    using ok nx that by (simp add: ring_ok_def q'_def)
  have entry: "token_entry n p v e" using t by (auto simp: token_entry_def e_def)
  have "ring_member_ok n v p i (actors s (Member i)) ((q'(successor n j := q' (successor n j) @ [e])) (Member i))" if "i < n" for i
    using ring_member_ok_push [OF popped [OF that] entry] popped [OF that] by auto
  moreover have "(q'(successor n j := q' (successor n j) @ [e])) (Member i) = []" if "i \<ge> n" for i
    using ok j that mod_less_divisor [of n "Suc j"] by (auto simp: ring_ok_def q'_def simp del: mod_less_divisor)
  moreover have "(q'(successor n j := q' (successor n j) @ [e])) Receiver = strand s Receiver"
    by (simp add: q'_def)
  ultimately show ?thesis
    using ok pop_eq [of token_weight] pop_eq [of value_weight] pop_eq [of step_weight]
      push_eq [of token_weight] push_eq [of value_weight] push_eq [of step_weight]
    by (auto simp: ring_ok_def tail_send_def pop_def q'_def [symmetric] e_def [symmetric]) (auto simp: e_def)
qed

lemma ring_ok_deliver_zero:
  assumes ok: "ring_ok n v k p s" and j: "j < n" and q: "strand s (Member j) = (Int_message 0, from) # q"
    and nx: "actors s (Member j) = ready_member n j" "ring_member_ok n v p j (ready_member n j) q" and p: "n < p"
  shows "ring_ok n v (Suc k) p (tail_send (Int_message 0) (Member j) Receiver (pop (Member j) q s))"
proof -
  define q' where "q' = (strand s)(Member j := q)"
  define e where "e = (Int_message 0, Member j)"
  have a: "in_ring n (Member j)" using j by simp
  have a': "in_ring n Receiver" by simp
  note pop_eq = in_flight_pop [where q = "strand s", OF a q, folded q'_def]
  note push_eq = in_flight_push [OF a', of _ q' e]
  have popped: "ring_member_ok n v p i (actors s (Member i)) (q' (Member i))" if "i < n" for i
    using ok nx that by (simp add: ring_ok_def q'_def)
  have entry: "token_entry n p 0 e" using p by (auto simp: token_entry_def e_def)
  have "receiver_ok n p (actors s Receiver) (q' Receiver @ [e])"
    using ok by (simp add: ring_ok_def q'_def receiver_ok_push [OF _ entry])
  moreover have "q' (Member i) = []" if "i \<ge> n" for i
    using ok j that by (auto simp: ring_ok_def q'_def)
  ultimately show ?thesis
    using ok popped pop_eq [of token_weight] pop_eq [of value_weight] pop_eq [of step_weight]
      push_eq [of token_weight] push_eq [of value_weight] push_eq [of step_weight]
    by (auto simp: ring_ok_def tail_send_def pop_def q'_def [symmetric] e_def [symmetric]) (auto simp: e_def)
qed

lemma ring_ok_deliver_message:
  assumes ok: "ring_ok n v k p s" and q: "strand s Receiver = (Int_message 0, from) # q"
  shows "ring_ok n v (Suc k) p (on_actor Receiver (\<lambda>a. a\<lparr>message_queue := message_queue a @ [0]\<rparr>) (pop Receiver q s))"
proof -
  have a: "in_ring n Receiver" by simp
  note pop_eq = in_flight_pop [where q = "strand s", OF a q]
  show ?thesis
    using ok q pop_eq [of token_weight] pop_eq [of value_weight] pop_eq [of step_weight]
    by (auto simp: ring_ok_def pop_def on_actor_def receiver_ok_def)
qed

lemma ring_ok_deliver:
  assumes ok: "ring_ok n v k p s" and q: "strand s a = (msg, frm) # q"
  shows "\<exists>u. call_handler As_pointers a msg frm (pop a q s) = Some u \<and> ring_ok n v (Suc k) p u"
proof (cases a)
  case Receiver
  have r: "receiver_ok n p (actors s Receiver) (strand s Receiver)" using ok by (simp add: ring_ok_def)
  then have m: "msg = Int_message 0" using q Receiver by (simp add: receiver_ok_def token_entry_def)
  have h: "handlers_of (actors (pop a q s) Receiver) = [Message_handler]" using r by (simp add: receiver_ok_def pop_def)
  show ?thesis using call_message [OF h] ring_ok_deliver_message [OF ok] q Receiver m by auto
next
  case (Member j)
  have j: "j < n" using ok q Member by (metis list.distinct(1) not_le ring_ok_def)
  have "ring_member_ok n v p j (actors s (Member j)) ((msg, frm) # q)" using ok j q Member by (auto simp: ring_ok_def)
  then show ?thesis
  proof (cases rule: ring_member_ok_cases)
    case 1
    then show ?thesis
      using call_init [of "pop a q s" j n] ring_ok_deliver_init [OF ok j] q Member by (simp add: pop_def)
  next
    case (2 t f)
    have c: "actors (pop a q s) (Member j) = ready_member n j" using 2 by (simp add: pop_def)
    show ?thesis
    proof (cases t)
      case 0
      then show ?thesis using call_token [OF c, of t frm] ring_ok_deliver_zero [OF ok j] 2 q Member by simp
    next
      case (Suc t')
      then show ?thesis using call_token [OF c, of t frm] ring_ok_deliver_hop [OF ok j] 2 q Member by (simp add: pop_def)
    qed
  qed
qed

subsection \<open>Every step keeps the invariant\<close>

lemma ring_ok_send:
  assumes ok: "ring_ok n v k p s" and t: "todo s = Send msg to # ops"
  shows "ring_ok n v (Suc k) (Suc p) (send msg Receiver to (s\<lparr>todo := ops\<rparr>))"
proof -
  have d: "drop p (ring_operations n v) = Send msg to # ops" using ok t by (simp add: ring_ok_def)
  note op = todo_next [OF d]
  consider "p < n" | "n \<le> p" "p < 2 * n" | "2 * n \<le> p" by linarith
  then show ?thesis
  proof cases
    case 1
    then show ?thesis using ring_ok_init [OF ok 1] ring_operation_init [OF 1, of v] op by simp
  next
    case 2
    then show ?thesis using ring_ok_token [OF ok 2] ring_operation_token [OF 2, of v] op by simp
  next
    case 3
    then show ?thesis using ring_operation_wait [OF 3, of v] op by simp
  qed
qed

lemma ring_ok_receive:
  assumes ok: "ring_ok n v k p s" and t: "todo s = Wait # ops" and m: "message_queue (actors s Receiver) \<noteq> []"
  shows "ring_ok n v (Suc k) (Suc p) (wait (s\<lparr>todo := ops\<rparr>))"
proof -
  have d: "drop p (ring_operations n v) = Wait # ops" using ok t by (simp add: ring_ok_def)
  note op = todo_next [OF d]
  have "2 * n \<le> p" using op ring_operation_init [of p n v] ring_operation_token [of n p v] by (cases "p < n"; cases "p < 2 * n") auto
  then show ?thesis using ring_ok_wait [OF ok _ op(1) m] op by simp
qed

lemma ring_ok_step:
  assumes "ring_step As_pointers s r" "ring_ok n v k p s"
  shows "\<exists>u p'. r = Some u \<and> ring_ok n v (Suc k) p' u"
  using assms(1)
proof cases
  case (delivers this msg frm fs)
  then show ?thesis using ring_ok_deliver [OF assms(2), of this msg frm fs] by (auto simp: pop_def)
next
  case (sends msg to ops)
  then show ?thesis using ring_ok_send [OF assms(2)] by blast
next
  case (receives ops)
  then show ?thesis using ring_ok_receive [OF assms(2)] by blast
qed

lemma ring_run_ok: "ring_run As_pointers n v k s \<Longrightarrow> \<exists>p. ring_ok n v k p s"
proof (induction rule: ring_run.induct)
  case ring_boot
  then show ?case using ring_main_ok by blast
next
  case (ring_more k s u)
  then show ?case using ring_ok_step by blast
qed

subsection \<open>The ring goes on until it is done\<close>

lemma step_weight_pos: "0 < step_weight a m"
  by (cases m; cases a) auto

lemma in_flight_quiet:
  assumes "in_flight n step_weight q = 0" "in_ring n a"
  shows "q a = []"
proof -
  have "(\<Sum>e \<leftarrow> q a. step_weight a (fst e)) = 0"
    using assms by (auto simp: in_flight_def)
  then show ?thesis
  proof (cases "q a")
    case (Cons e es)
    then show ?thesis using \<open>(\<Sum>e \<leftarrow> q a. step_weight a (fst e)) = 0\<close> step_weight_pos [of a "fst e"] by simp
  qed simp
qed

lemma in_flight_all_empty:
  assumes "\<And>a. q a = []"
  shows "in_flight n w q = 0"
  using assms by (simp add: in_flight_def)

lemma ring_progress:
  assumes ok: "ring_ok n v k p s" and k: "k < n * (v + 6)"
  shows "\<exists>r. ring_step m s r"
proof (cases "\<forall>a. strand s a = []")
  case False
  then obtain a e q where "strand s a = e # q" by (metis list.exhaust)
  then show ?thesis using ring_step.delivers [of s a "fst e" "snd e" q] by auto
next
  case True
  then have quiet: "in_flight n w (strand s) = 0" for w by (simp add: in_flight_all_empty)
  have "todo s \<noteq> []" using ok k quiet by (auto simp: ring_ok_def)
  then obtain op ops where t: "todo s = op # ops" by (cases "todo s") auto
  show ?thesis
  proof (cases op)
    case (Send msg to)
    then show ?thesis using t ring_step.sends by blast
  next
    case Wait
    have d: "drop p (ring_operations n v) = Wait # ops" using ok t Wait by (simp add: ring_ok_def)
    note op = todo_next [OF d]
    have "2 * n \<le> p"
      using op ring_operation_init [of p n v] ring_operation_token [of n p v] by (cases "p < n"; cases "p < 2 * n") auto
    then have "tokens_sent n p = n" "length (got s) < n" using ok op(1) by (auto simp: tokens_sent_def ring_ok_def)
    then have "message_queue (actors s Receiver) \<noteq> []" using ok quiet by (auto simp: ring_ok_def)
    then show ?thesis using t Wait ring_step.receives by blast
  qed
qed

lemma ring_done:
  assumes ok: "ring_ok n v (n * (v + 6)) p s"
  shows "todo s = []" "strand s a = []" "got s = replicate n 0" "hops s = n * v"
proof -
  have w: "in_flight n step_weight (strand s) = 0" "(\<Sum>op \<leftarrow> todo s. operation_weight op) = 0"
    using ok by (simp_all add: ring_ok_def)
  have pos: "0 < operation_weight op" for op by (cases op) auto
  show todo: "todo s = []"
  proof (cases "todo s")
    case (Cons op ops)
    then show ?thesis using w(2) pos [of op] by simp
  qed simp
  have empty: "strand s b = []" for b
  proof (cases "in_ring n b")
    case True
    then show ?thesis using in_flight_quiet w(1) by blast
  next
    case False
    then obtain j where "b = Member j" "n \<le> j" by (cases b) (auto simp: image_iff not_less)
    then show ?thesis using ok by (simp add: ring_ok_def)
  qed
  then show "strand s a = []" .
  have p: "p = 3 * n" using ok todo by (auto simp: ring_ok_def)
  have "length (got s) = n" using ok p by (simp add: ring_ok_def)
  then show "got s = replicate n 0"
    using ok by (auto simp: ring_ok_def list_all_iff intro: replicate_eqI)
  have "tokens_sent n p = n" using p by (simp add: tokens_sent_def)
  then show "hops s = n * v" using ok in_flight_all_empty [OF empty] by (simp add: ring_ok_def)
qed

lemma ring_run_bound: "ring_run As_pointers n v k s \<Longrightarrow> k \<le> n * (v + 6)"
  using ring_run_ok by (fastforce simp: ring_ok_def)

lemma ring_run_goes_on: "ring_run As_pointers n v k s \<Longrightarrow> k < n * (v + 6) \<Longrightarrow> \<exists>u. ring_run As_pointers n v (Suc k) u"
  using ring_progress ring_run_ok ring_ok_step ring_run.ring_more by metis

lemma ring_run_exists: "k \<le> n * (v + 6) \<Longrightarrow> \<exists>s. ring_run As_pointers n v k s"
proof (induction k)
  case 0
  then show ?case using ring_run.ring_boot by blast
next
  case (Suc k)
  then show ?case using ring_run_goes_on by (metis Suc_le_lessD less_imp_le)
qed

subsection \<open>By the standard\<close>

lemma call_handlers_weaker:
  "call_handlers By_standard hs this msg from s = Some u \<Longrightarrow> call_handlers As_pointers hs this msg from s = Some u"
  by (induction hs arbitrary: s) (auto split: option.splits if_splits)

lemma ring_step_weaker:
  assumes "ring_step By_standard s (Some u)"
  shows "ring_step As_pointers s (Some u)"
  using assms
proof cases
  case (delivers this msg frm fs)
  then have "call_handler As_pointers this msg frm (s\<lparr>strand := (strand s)(this := fs)\<rparr>) = Some u"
    unfolding call_handler_def by (intro call_handlers_weaker) simp
  with ring_step.delivers [OF delivers(2), of As_pointers] show ?thesis by simp
qed (auto intro: ring_step.intros)

lemma ring_run_weaker: "ring_run By_standard n v k s \<Longrightarrow> ring_run As_pointers n v k s"
  by (induction rule: ring_run.induct) (auto intro: ring_run.intros ring_step_weaker)

text \<open>No handler has run yet.\<close>

definition untouched :: "nat \<Rightarrow> nat \<Rightarrow> ring \<Rightarrow> bool" where
  "untouched n v s \<longleftrightarrow> actors s = actors (ring_main n v) \<and> strand s Receiver = [] \<and> got s = []"

lemma first_call_undefined:
  assumes "ring_ok n v k p s" "untouched n v s" "strand s a = (msg, frm) # q"
  shows "call_handler By_standard a msg frm (pop a q s) = None"
proof (cases a)
  case Receiver
  with assms(2,3) show ?thesis by (simp add: untouched_def)
next
  case (Member j)
  have fresh: "actors s (Member j) = new_member" using assms(2) by (simp add: untouched_def ring_main_def)
  have "j < n" using assms(1,3) Member by (metis list.distinct(1) not_le ring_ok_def)
  then have "ring_member_ok n v p j new_member ((msg, frm) # q)" using assms(1,3) Member fresh by (auto simp: ring_ok_def)
  then show ?thesis
  proof (cases rule: ring_member_ok_cases)
    case 1
    with Member fresh show ?thesis
      by (simp add: pop_def call_handler_def new_member_def register_handler_def deregister_handler_def init_handler_def on_actor_def)
  next
    case 2
    then show ?thesis by (simp add: new_member_def register_handler_def ready_member_def)
  qed
qed

lemma sent_to_member:
  assumes "ring_ok n v k p s" "todo s = Send msg to # ops"
  shows "to \<noteq> Receiver"
proof -
  have d: "drop p (ring_operations n v) = Send msg to # ops" using assms by (simp add: ring_ok_def)
  note op = todo_next [OF d]
  consider "p < n" | "n \<le> p" "p < 2 * n" | "2 * n \<le> p" by linarith
  then show ?thesis
    by cases (use op ring_operation_init [of p n v] ring_operation_token [of n p v] ring_operation_wait [of n p v] in auto)
qed

lemma by_standard_run: "ring_run By_standard n v k s \<Longrightarrow> untouched n v s"
proof (induction rule: ring_run.induct)
  case ring_boot
  then show ?case by (simp add: untouched_def ring_main_def)
next
  case (ring_more k s u)
  obtain p where ok: "ring_ok n v k p s" using ring_run_ok ring_run_weaker ring_more(1) by blast
  from ring_more(2) show ?case
  proof cases
    case (delivers this msg frm fs)
    then show ?thesis using first_call_undefined [OF ok ring_more(3) delivers(2)] by (simp add: pop_def)
  next
    case (sends msg to ops)
    then show ?thesis using sent_to_member [OF ok sends(2)] ring_more(3) by (simp add: untouched_def send_def)
  next
    case (receives ops)
    then show ?thesis using ring_more(3) by (simp add: untouched_def ring_main_def new_receiver_def register_handler_def)
  qed
qed

lemma by_standard_undefined:
  assumes "ring_run By_standard n v k s" "strand s a \<noteq> []"
  shows "ring_step By_standard s None"
proof -
  obtain p where ok: "ring_ok n v k p s" using ring_run_ok ring_run_weaker assms(1) by blast
  obtain msg frm q where q: "strand s a = (msg, frm) # q" using assms(2) by (cases "strand s a") auto
  show ?thesis
    using ring_step.delivers [OF q, of By_standard] first_call_undefined [OF ok by_standard_run [OF assms(1)] q] by (simp add: pop_def)
qed

lemma by_standard_steps:
  assumes "ring_run By_standard n v k s"
  shows "(\<exists>r. ring_step By_standard s r) \<longleftrightarrow> 0 < n"
proof
  obtain p where ok: "ring_ok n v k p s" using ring_run_ok ring_run_weaker assms by blast
  note u = by_standard_run [OF assms]
  have "k \<le> n * (v + 6)" using ok by (simp add: ring_ok_def)
  show "\<exists>r. ring_step By_standard s r" if "0 < n"
  proof (cases "k = n * (v + 6)")
    case True
    then have "got s = replicate n 0" using ring_done(3) ok by blast
    with u that show ?thesis by (simp add: untouched_def)
  next
    case False
    with \<open>k \<le> n * (v + 6)\<close> ring_progress [OF ok] show ?thesis by simp
  qed
  show "0 < n" if step: "\<exists>r. ring_step By_standard s r"
  proof (rule ccontr)
    assume "\<not> 0 < n"
    then have n: "n = 0" by simp
    obtain r where r: "ring_step By_standard s r" using step by blast
    have "todo s = []" using ok n by (simp add: ring_ok_def ring_operations_def main_init_def main_tokens_def)
    moreover have "strand s a = []" for a using ok u n by (cases a) (simp_all add: ring_ok_def untouched_def)
    ultimately show False using r by (auto elim: ring_step.cases)
  qed
qed

subsection \<open>Properties\<close>

text \<open>C33. Where iterators are pointers, the ring of \<open>n\<close> actors with tokens of value \<open>v\<close> can always make a
  step until it has made exactly \<open>n * (v + 6)\<close> of them, and then none, however the strands and \<open>main\<close> interleave: it neither gets stuck nor goes on for
  ever. And there no step is undefined (\<open>None\<close>): a member has its neighbour and its caller before a token reaches it, every message finds a handler of
  its type, and no handler changes the vector of handlers while there is one left to call. By the standard the program has no defined run beyond the
  sending of messages: whichever function on a strand is the first to run changes the vector its loop goes over, and that is undefined.
\<close>
theorem ring_goes_on:
  assumes "ring_run m n v k s"
  shows "case m of
      As_pointers \<Rightarrow> k \<le> n * (v + 6) \<and> ((\<exists>r. ring_step m s r) \<longleftrightarrow> k < n * (v + 6)) \<and> \<not> ring_step m s None
    | By_standard \<Rightarrow> actors s = actors (ring_main n v) \<and> got s = [] \<and> ((\<exists>r. ring_step m s r) \<longleftrightarrow> 0 < n) \<and>
        (\<forall>a. strand s a \<noteq> [] \<longrightarrow> ring_step m s None)"
proof (cases m)
  case By_standard
  then show ?thesis
    using by_standard_run [of n v k s] by_standard_steps [of n v k s] by_standard_undefined [of n v k s] assms by (simp add: untouched_def)
next
  case As_pointers
  then have run: "ring_run As_pointers n v k s" using assms by simp
  then obtain p where ok: "ring_ok n v k p s" using ring_run_ok by blast
  have "k \<le> n * (v + 6)" using run by (rule ring_run_bound)
  moreover have "\<not> ring_step As_pointers s None" using ring_ok_step ok by blast
  moreover have "\<exists>r. ring_step As_pointers s r" if "k < n * (v + 6)" using that ring_progress ok by blast
  moreover have "k < n * (v + 6)" if "\<exists>r. ring_step As_pointers s r"
    using that ring_ok_step [OF _ ok] ring_run.ring_more [OF run] ring_run_bound by (metis Suc_le_eq)
  ultimately show ?thesis using As_pointers by auto
qed

definition first_sent :: ring where
  "first_sent = send (Address_message (Member 0)) Receiver (Member 1) ((ring_main 2 3)\<lparr>todo := tl (todo (ring_main 2 3))\<rparr>)"

lemma first_sent_run: "ring_run m 2 3 1 first_sent"
proof -
  have "todo (ring_main 2 3) = Send (Address_message (Member 0)) (Member 1) # tl (todo (ring_main 2 3))"
    by (simp add: ring_main_def main_init_def upt_rec numeral_2_eq_2)
  from ring_step.sends [OF this, of m] have "ring_step m (ring_main 2 3) (Some first_sent)" by (simp add: first_sent_def)
  then show ?thesis using ring_run.ring_more [OF ring_run.ring_boot] by simp
qed

theorem ring_goes_on_witness:
  "1 \<le> 2 * (3 + 6 :: nat) \<and> ((\<exists>r. ring_step As_pointers first_sent r) \<longleftrightarrow> 1 < 2 * (3 + 6 :: nat)) \<and> \<not> ring_step As_pointers first_sent None \<and>
   ring_step By_standard first_sent None"
proof -
  have "strand first_sent (Member 1) \<noteq> []" by (simp add: first_sent_def send_def)
  then have "ring_step By_standard first_sent None" using ring_goes_on [OF first_sent_run, of By_standard] by simp blast
  then show ?thesis using ring_goes_on [OF first_sent_run, of As_pointers] by simp
qed

text \<open>Where iterators are pointers, the \<open>main\<close> of the ring of actors always comes to its end: there are runs of \<open>n * (v + 6)\<close> steps, and after every one of
  them the waits have returned \<open>n\<close> zeros, no function is left on a strand, and the tokens have been passed on \<open>n * v\<close> times;
  with the numbers of \<open>main\<close> these are at least \<open>num_hops\<close>.
\<close>
theorem ring_result:
  "(\<exists>s. ring_run As_pointers n v (n * (v + 6)) s) \<and>
   {s. ring_run As_pointers n v (n * (v + 6)) s} \<subseteq>
     {s. todo s = [] \<and> strand s = (\<lambda>_. []) \<and> got s = replicate n 0 \<and> hops s = n * v} \<and>
   num_hops \<le> num_actors * token_value"
proof (intro conjI subsetI)
  show "\<exists>s. ring_run As_pointers n v (n * (v + 6)) s" by (rule ring_run_exists) simp
  show "num_hops \<le> num_actors * token_value" by (simp add: num_hops_def num_actors_def token_value_def)
  fix s assume "s \<in> {s. ring_run As_pointers n v (n * (v + 6)) s}"
  then obtain p where "ring_ok n v (n * (v + 6)) p s" using ring_run_ok by blast
  then show "s \<in> {s. todo s = [] \<and> strand s = (\<lambda>_. []) \<and> got s = replicate n 0 \<and> hops s = n * v}"
    using ring_done [of n v _ s] by blast
qed

end
