(* ===== verification/Pipeline_Threads.thy ===== *)
theory Pipeline_Threads
  imports Std_Streams Logging
begin

text \<open>
  The pipeline of threads (\<open>executors/pipeline.cpp\<close>): queues with a mutex, a condition variable and a stop flag, stages that take lines
  from one queue and put lines into the next, and \<open>main\<close>. Whatever runs under a mutex is one step. Stage \<open>i\<close> writes to
  queue \<open>i\<close>, which stage \<open>i + 1\<close> reads; stage 0 reads the standard input and the last stage writes the standard output. The model has
  any number of stages in between, each given by what it makes of a line.
\<close>

subsection \<open>State\<close>

text \<open>
  Where a stage is: not launched, at the top of its loop, waiting at the condition of the queue it reads, with a line to pass on, about
  to stop the queue it writes, ended.
\<close>

datatype stage_pc = Unborn | Ready | Asleep | Passing string | Stopping | Ended_stage

text \<open>\<open>main\<close> launches the stages, waits for the future of the last one, for its pool, and for the threads of the bag.\<close>

datatype main_pc = Launching nat | Waiting_future | Joining_pool | Shutting_down | Exited

record pipe =
  lines_left :: "string list"
  queue_of :: "nat \<Rightarrow> string list"
  stop_flag :: "nat \<Rightarrow> bool"
  stage_pcs :: "nat \<Rightarrow> stage_pc"
  main_at :: main_pc
  line_count :: u64
  pipe_out :: string

definition goto_stage :: "nat \<Rightarrow> stage_pc \<Rightarrow> pipe \<Rightarrow> pipe" where
  "goto_stage i p s = s\<lparr>stage_pcs := (stage_pcs s)(i := p)\<rparr>"

subsection \<open>Queues\<close>

text \<open>\<open>notify_one\<close>: only stage \<open>i\<close> can be waiting for the queue before it.\<close>

definition wake_stage :: "nat \<Rightarrow> pipe \<Rightarrow> pipe" where
  "wake_stage i s = (if stage_pcs s i = Asleep then goto_stage i Ready s else s)"

definition queue_push :: "nat \<Rightarrow> string \<Rightarrow> pipe \<Rightarrow> pipe" where
  "queue_push j t s = wake_stage (Suc j) (s\<lparr>queue_of := (queue_of s)(j := queue_of s j @ [t])\<rparr>)"

definition queue_stop :: "nat \<Rightarrow> pipe \<Rightarrow> pipe" where
  "queue_stop j s = wake_stage (Suc j) (s\<lparr>stop_flag := (stop_flag s)(j := True)\<rparr>)"

text \<open>\<open>pop\<close> under the mutex: a line was taken, there will be none, or the caller has to wait.\<close>

datatype popped = Popped string | Closed | Must_wait

definition queue_pop :: "nat \<Rightarrow> pipe \<Rightarrow> popped \<times> pipe" where
  "queue_pop j s =
     (case queue_of s j of
        t # q \<Rightarrow> (Popped t, s\<lparr>queue_of := (queue_of s)(j := q)\<rparr>)
      | [] \<Rightarrow> (if stop_flag s j then Closed else Must_wait, s))"

subsection \<open>Stages\<close>

definition read_line_step :: "pipe \<Rightarrow> pipe" where
  "read_line_step s =
     (case lines_left s of
        [] \<Rightarrow> goto_stage 0 Stopping s
      | l # ls \<Rightarrow> goto_stage 0 (Passing l) (s\<lparr>lines_left := ls\<rparr>))"

definition take_line_step :: "(string \<Rightarrow> string option) \<Rightarrow> nat \<Rightarrow> pipe \<Rightarrow> pipe" where
  "take_line_step f i s =
     (case queue_pop (i - 1) s of
        (Popped l, s) \<Rightarrow> (case f l of None \<Rightarrow> s | Some k \<Rightarrow> goto_stage i (Passing k) s)
      | (Closed, s) \<Rightarrow> goto_stage i Stopping s
      | (Must_wait, s) \<Rightarrow> goto_stage i Asleep s)"

definition write_line_step :: "nat \<Rightarrow> string \<Rightarrow> pipe \<Rightarrow> pipe" where
  "write_line_step i l s = goto_stage i Ready
     (s\<lparr>pipe_out := pipe_out s @ to_string (unat (line_count s)) @ '': '' @ l @ [NL], line_count := line_count s + 1\<rparr>)"

text \<open>The bodies of the two stages in between.\<close>

definition filter_line :: "string \<Rightarrow> string option" where
  "filter_line line = (if length line > 5 then Some line else None)"

definition toupper_char :: "char \<Rightarrow> char" where
  "toupper_char c = (let n = (of_char c :: nat) in if 97 \<le> n \<and> n \<le> 122 then char_of (n - 32) else c)"

definition upper_line :: "string \<Rightarrow> string option" where
  "upper_line line = Some (map toupper_char line)"

text \<open>
  The functions the pipeline posts: the loop of the stage, then \<open>out.stop()\<close>. A stage that is not launched, waits or has ended takes no
  step of its own. The last stage has no queue to stop.
\<close>

definition stage_step :: "(string \<Rightarrow> string option) list \<Rightarrow> nat \<Rightarrow> pipe \<Rightarrow> pipe option" where
  "stage_step fs i s =
     (let last = Suc (length fs)
      in case stage_pcs s i of
           Ready \<Rightarrow>
             Some (if i = 0 then read_line_step s
                   else if i < last then take_line_step (fs ! (i - 1)) i s
                   else take_line_step Some i s)
         | Passing l \<Rightarrow> Some (if i < last then queue_push i l (goto_stage i Ready s) else write_line_step i l s)
         | Stopping \<Rightarrow> Some (if i < last then queue_stop i (goto_stage i Ended_stage s) else goto_stage i Ended_stage s)
         | _ \<Rightarrow> None)"

subsection \<open>main\<close>

text \<open>\<open>b\<close> is the stage bound to the executor of the pool, if there is one; the others run in threads of the bag.\<close>

definition main_step :: "(string \<Rightarrow> string option) list \<Rightarrow> nat option \<Rightarrow> pipe \<Rightarrow> pipe option" where
  "main_step fs b s =
     (let last = Suc (length fs); ended = (\<lambda>i. stage_pcs s i = Ended_stage)
      in case main_at s of
           Launching i \<Rightarrow> Some ((goto_stage i Ready s)\<lparr>main_at := (if i < last then Launching (Suc i) else Waiting_future)\<rparr>)
         | Waiting_future \<Rightarrow> if ended last then Some (s\<lparr>main_at := Joining_pool\<rparr>) else None
         | Joining_pool \<Rightarrow> if (case b of None \<Rightarrow> True | Some i \<Rightarrow> ended i) then Some (s\<lparr>main_at := Shutting_down\<rparr>) else None
         | Shutting_down \<Rightarrow> if (\<forall>i \<in> set [0..<Suc last]. Some i = b \<or> ended i) then Some (s\<lparr>main_at := Exited\<rparr>) else None
         | Exited \<Rightarrow> None)"

definition pipe_start :: "string list \<Rightarrow> pipe" where
  "pipe_start ls = \<lparr>lines_left = ls, queue_of = (\<lambda>_. []), stop_flag = (\<lambda>_. False), stage_pcs = (\<lambda>_. Unborn),
     main_at = Launching 0, line_count = 0, pipe_out = []\<rparr>"

text \<open>What a thread does, and what may happen besides: a wait may end without a notification.\<close>

inductive pipe_act :: "(string \<Rightarrow> string option) list \<Rightarrow> nat option \<Rightarrow> pipe \<Rightarrow> pipe \<Rightarrow> bool" for fs b where
  stage_acts: "i \<le> Suc (length fs) \<Longrightarrow> stage_step fs i s = Some u \<Longrightarrow> pipe_act fs b s u"
| main_acts: "main_step fs b s = Some u \<Longrightarrow> pipe_act fs b s u"

text \<open>Runs, with the number of acts and of spurious wake-ups.\<close>

inductive pipe_run :: "(string \<Rightarrow> string option) list \<Rightarrow> nat option \<Rightarrow> string list \<Rightarrow> nat \<Rightarrow> nat \<Rightarrow> pipe \<Rightarrow> bool" for fs b ls where
  pipe_boot: "pipe_run fs b ls 0 0 (pipe_start ls)"
| pipe_more: "pipe_run fs b ls k w s \<Longrightarrow> pipe_act fs b s u \<Longrightarrow> pipe_run fs b ls (Suc k) w u"
| pipe_spurious: "pipe_run fs b ls k w s \<Longrightarrow> stage_pcs s i = Asleep \<Longrightarrow> pipe_run fs b ls k (Suc w) (goto_stage i Ready s)"

text \<open>The stages of \<open>main\<close>; the third is bound to the pool. The reader's lines are those of the standard input.\<close>

definition main_stages :: "(string \<Rightarrow> string option) list" where
  "main_stages = [filter_line, upper_line]"

definition main_run :: "string \<Rightarrow> nat \<Rightarrow> nat \<Rightarrow> pipe \<Rightarrow> bool" where
  "main_run stdin = pipe_run main_stages (Some 2) (lines_of stdin)"

end
