(* ===== verification/Pipeline_Threads_Properties.thy ===== *)
theory Pipeline_Threads_Properties
  imports Pipeline_Threads
begin

text \<open>
  What the pipeline of threads keeps to under every interleaving: the lines printed, followed by what the lines still under way will
  become, are always the same list, which is the pipeline as a function; a stage stops only when there is nothing left for it; no thread
  sleeps while it could go on. A potential bounds the number of steps.
\<close>

subsection \<open>Steps of a stage\<close>

definition stage_fun :: "(string \<Rightarrow> string option) list \<Rightarrow> nat \<Rightarrow> string \<Rightarrow> string option" where
  "stage_fun fs i = (if i \<le> length fs then fs ! (i - 1) else Some)"

lemma stage_step_cases:
  assumes "stage_step fs i s = Some u" "i \<le> Suc (length fs)"
  obtains
    (input_over) "i = 0" "stage_pcs s 0 = Ready" "lines_left s = []" "u = goto_stage 0 Stopping s"
  | (input_line) l ls where "i = 0" "stage_pcs s 0 = Ready" "lines_left s = l # ls" "u = goto_stage 0 (Passing l) (s\<lparr>lines_left := ls\<rparr>)"
  | (dropped) j l q where "i = Suc j" "stage_pcs s i = Ready" "queue_of s j = l # q" "stage_fun fs i l = None"
      "u = s\<lparr>queue_of := (queue_of s)(j := q)\<rparr>"
  | (taken) j l q k where "i = Suc j" "stage_pcs s i = Ready" "queue_of s j = l # q" "stage_fun fs i l = Some k"
      "u = goto_stage i (Passing k) (s\<lparr>queue_of := (queue_of s)(j := q)\<rparr>)"
  | (no_more) j where "i = Suc j" "stage_pcs s i = Ready" "queue_of s j = []" "stop_flag s j" "u = goto_stage i Stopping s"
  | (sleeps) j where "i = Suc j" "stage_pcs s i = Ready" "queue_of s j = []" "\<not> stop_flag s j" "u = goto_stage i Asleep s"
  | (pushed) l where "i \<le> length fs" "stage_pcs s i = Passing l" "u = queue_push i l (goto_stage i Ready s)"
  | (printed) l where "i = Suc (length fs)" "stage_pcs s i = Passing l" "u = write_line_step i l s"
  | (stopped) "i \<le> length fs" "stage_pcs s i = Stopping" "u = queue_stop i (goto_stage i Ended_stage s)"
  | (last_ended) "i = Suc (length fs)" "stage_pcs s i = Stopping" "u = goto_stage i Ended_stage s"
proof (cases "stage_pcs s i")
  case Ready
  show ?thesis
  proof (cases i)
    case 0
    then show ?thesis using assms Ready input_over input_line
      by (cases "lines_left s") (auto simp: stage_step_def read_line_step_def)
  next
    case (Suc j)
    have u: "u = take_line_step (stage_fun fs i) i s"
      using assms Ready Suc by (auto simp: stage_step_def stage_fun_def split: if_splits)
    show ?thesis
    proof (cases "queue_of s j")
      case Nil
      then show ?thesis using u Ready Suc no_more sleeps by (cases "stop_flag s j") (auto simp: take_line_step_def queue_pop_def)
    next
      case (Cons l q)
      then show ?thesis using u Ready Suc dropped taken
        by (cases "stage_fun fs i l") (auto simp: take_line_step_def queue_pop_def)
    qed
  qed
next
  case (Passing l)
  then show ?thesis using assms pushed printed by (auto simp: stage_step_def split: if_splits)
next
  case Stopping
  then show ?thesis using assms stopped last_ended by (auto simp: stage_step_def split: if_splits)
qed (use assms in \<open>auto simp: stage_step_def\<close>)

text \<open>A notification changes no more than that a sleeping stage is ready.\<close>

lemma goto_stage_simps [simp]:
  "stage_pcs (goto_stage i p s) = (stage_pcs s)(i := p)" "lines_left (goto_stage i p s) = lines_left s"
  "queue_of (goto_stage i p s) = queue_of s" "stop_flag (goto_stage i p s) = stop_flag s" "main_at (goto_stage i p s) = main_at s"
  "line_count (goto_stage i p s) = line_count s" "pipe_out (goto_stage i p s) = pipe_out s"
  by (simp_all add: goto_stage_def)

definition woken :: "nat \<Rightarrow> (nat \<Rightarrow> stage_pc) \<Rightarrow> nat \<Rightarrow> stage_pc" where
  "woken i p = (if p i = Asleep then p(i := Ready) else p)"

lemma wake_stage_simps [simp]:
  "stage_pcs (wake_stage i s) = woken i (stage_pcs s)" "lines_left (wake_stage i s) = lines_left s"
  "queue_of (wake_stage i s) = queue_of s" "stop_flag (wake_stage i s) = stop_flag s" "main_at (wake_stage i s) = main_at s"
  "line_count (wake_stage i s) = line_count s" "pipe_out (wake_stage i s) = pipe_out s"
  by (simp_all add: wake_stage_def woken_def)

subsection \<open>What is still to be printed\<close>

definition pending_line :: "stage_pc \<Rightarrow> string list" where
  "pending_line p = (case p of Passing l \<Rightarrow> [l] | _ \<Rightarrow> [])"

lemma pending_line_simps [simp]:
  "pending_line (Passing l) = [l]" "pending_line Ready = []" "pending_line Asleep = []" "pending_line Unborn = []"
  "pending_line Stopping = []" "pending_line Ended_stage = []"
  by (simp_all add: pending_line_def)

lemma pending_woken [simp]: "pending_line (woken i p j) = pending_line (p j)"
  by (simp add: woken_def)

text \<open>What stage \<open>i\<close> will yet put into its queue, and what its queue has or will have.\<close>

fun flow :: "(string \<Rightarrow> string option) list \<Rightarrow> pipe \<Rightarrow> nat \<Rightarrow> string list" where
  "flow fs s 0 = pending_line (stage_pcs s 0) @ lines_left s"
| "flow fs s (Suc j) = pending_line (stage_pcs s (Suc j)) @ List.map_filter (stage_fun fs (Suc j)) (queue_of s j @ flow fs s j)"

lemma map_filter_Cons: "List.map_filter f (x # xs) = (case f x of None \<Rightarrow> [] | Some y \<Rightarrow> [y]) @ List.map_filter f xs"
  by (simp add: map_filter_simps split: option.split)

lemma map_filter_append: "List.map_filter f (xs @ ys) = List.map_filter f xs @ List.map_filter f ys"
  by (simp add: map_filter_def)

lemma flow_below:
  assumes "lines_left u = lines_left s" "\<And>i. i \<le> j \<Longrightarrow> pending_line (stage_pcs u i) = pending_line (stage_pcs s i)"
    "\<And>i. i < j \<Longrightarrow> queue_of u i = queue_of s i"
  shows "flow fs u j = flow fs s j"
  using assms(2,3) by (induction j) (simp_all add: assms(1))

lemma flow_same:
  assumes "lines_left u = lines_left s" "queue_of u = queue_of s" "\<And>i. pending_line (stage_pcs u i) = pending_line (stage_pcs s i)"
  shows "flow fs s j = flow fs u j"
  using assms by (intro flow_below) simp_all

lemma flow_above:
  assumes "queue_of u c @ flow fs u c = queue_of s c @ flow fs s c" "c < j"
    "\<And>i. c < i \<Longrightarrow> pending_line (stage_pcs u i) = pending_line (stage_pcs s i) \<and> queue_of u i = queue_of s i"
  shows "flow fs u j = flow fs s j"
  using assms(2)
proof (induction j)
  case (Suc j)
  have "queue_of u j @ flow fs u j = queue_of s j @ flow fs s j"
    using Suc assms(1,3) by (cases "j = c") auto
  then show ?case using assms(3) [of "Suc j"] Suc.prems by simp
qed simp

lemma flow_step:
  assumes "stage_step fs i s = Some u" "i \<le> Suc (length fs)"
  shows "flow fs s (Suc (length fs)) =
    (case stage_pcs s (Suc (length fs)) of Passing l \<Rightarrow> if i = Suc (length fs) then [l] else [] | _ \<Rightarrow> []) @ flow fs u (Suc (length fs))"
    (is "flow fs s ?m = ?p @ _")
  using assms
proof (cases rule: stage_step_cases)
  case (input_line l ls)
  have "flow fs u ?m = flow fs s ?m" by (rule flow_above [of _ 0]) (auto simp: input_line)
  then show ?thesis using input_line by (simp split: stage_pc.split)
next
  case (dropped j l q)
  have below: "flow fs u j = flow fs s j" by (rule flow_below) (auto simp: dropped)
  have "flow fs u ?m = flow fs s ?m"
  proof (cases "i = ?m")
    case True
    then show ?thesis using below dropped by (simp add: map_filter_append map_filter_Cons)
  next
    case False
    have "queue_of u i @ flow fs u i = queue_of s i @ flow fs s i"
      using below dropped by (simp add: map_filter_append map_filter_Cons)
    then show ?thesis using False assms(2) dropped by (intro flow_above [of _ i]) auto
  qed
  then show ?thesis using dropped by (auto simp del: flow.simps split: stage_pc.split)
next
  case (taken j l q k)
  have below: "flow fs u j = flow fs s j" by (rule flow_below) (auto simp: taken)
  have "flow fs u ?m = flow fs s ?m"
  proof (cases "i = ?m")
    case True
    then show ?thesis using below taken by (simp add: map_filter_append map_filter_Cons)
  next
    case False
    have "queue_of u i @ flow fs u i = queue_of s i @ flow fs s i"
      using below taken by (simp add: map_filter_append map_filter_Cons)
    then show ?thesis using False assms(2) taken by (intro flow_above [of _ i]) auto
  qed
  then show ?thesis using taken by (auto simp del: flow.simps split: stage_pc.split)
next
  case (pushed l)
  have "flow fs s i = l # flow fs u i"
  proof (cases i)
    case 0
    then show ?thesis using pushed by (simp add: queue_push_def)
  next
    case (Suc j)
    have "flow fs u j = flow fs s j" by (rule flow_below) (auto simp: pushed queue_push_def Suc)
    then show ?thesis using pushed Suc by (simp add: queue_push_def)
  qed
  then have "flow fs u ?m = flow fs s ?m"
    using pushed by (intro flow_above [of _ i]) (auto simp: queue_push_def)
  then show ?thesis using pushed by (simp split: stage_pc.split)
next
  case (printed l)
  have "flow fs u (length fs) = flow fs s (length fs)" by (rule flow_below) (auto simp: printed write_line_step_def)
  then show ?thesis using printed by (simp add: write_line_step_def)
next
  case stopped
  show ?thesis using flow_same [of u s fs ?m] by (simp add: stopped queue_stop_def split: stage_pc.split)
qed (use flow_same [of u s fs ?m] in \<open>auto simp del: flow.simps split: stage_pc.split\<close>)

subsection \<open>Where the stages can be\<close>

definition stages_ok :: "(string \<Rightarrow> string option) list \<Rightarrow> pipe \<Rightarrow> bool" where
  "stages_ok fs s \<longleftrightarrow>
     (\<forall>i \<le> length fs. stop_flag s i \<longleftrightarrow> stage_pcs s i = Ended_stage) \<and>
     (stage_pcs s 0 \<in> {Stopping, Ended_stage} \<longrightarrow> lines_left s = []) \<and>
     (\<forall>j \<le> length fs. stage_pcs s (Suc j) \<in> {Stopping, Ended_stage} \<longrightarrow> queue_of s j = [] \<and> stop_flag s j) \<and>
     stage_pcs s 0 \<noteq> Asleep \<and>
     (\<forall>j \<le> length fs. stage_pcs s (Suc j) = Asleep \<longrightarrow> queue_of s j = [] \<and> \<not> stop_flag s j) \<and>
     (\<forall>i > Suc (length fs). stage_pcs s i = Unborn)"

definition pipe_main_ok :: "(string \<Rightarrow> string option) list \<Rightarrow> nat option \<Rightarrow> pipe \<Rightarrow> bool" where
  "pipe_main_ok fs b s \<longleftrightarrow>
     (case main_at s of
        Launching k \<Rightarrow> k \<le> Suc (length fs) \<and> (\<forall>i \<le> Suc (length fs). stage_pcs s i = Unborn \<longleftrightarrow> k \<le> i)
      | p \<Rightarrow> (\<forall>i \<le> Suc (length fs). stage_pcs s i \<noteq> Unborn) \<and>
            (p \<in> {Shutting_down, Exited} \<longrightarrow> (\<forall>i \<le> Suc (length fs). b = Some i \<longrightarrow> stage_pcs s i = Ended_stage)) \<and>
            (p = Exited \<longrightarrow> (\<forall>i \<le> Suc (length fs). stage_pcs s i = Ended_stage)))"

lemma woken_eq: "woken i p j = (if j = i \<and> p i = Asleep then Ready else p j)"
  by (simp add: woken_def)

lemma stages_ok_step:
  assumes "stage_step fs i s = Some u" "i \<le> Suc (length fs)" "stages_ok fs s"
  shows "stages_ok fs u"
  using assms(1,2)
proof (cases rule: stage_step_cases)
  case (dropped j l q)
  then show ?thesis using assms(2,3) by (auto simp: stages_ok_def)
next
  case (taken j l q k)
  then show ?thesis using assms(2,3) by (auto simp: stages_ok_def)
next
  case (pushed l)
  then show ?thesis using assms(3) by (auto simp: stages_ok_def queue_push_def woken_eq)
next
  case stopped
  then show ?thesis using assms(3) by (auto simp: stages_ok_def queue_stop_def woken_eq)
qed (use assms(2,3) in \<open>auto simp: stages_ok_def write_line_step_def\<close>)

text \<open>A stage is launched only by \<open>main\<close> and never starts again once it has ended.\<close>

lemma stage_step_pcs:
  assumes "stage_step fs i s = Some u" "i \<le> Suc (length fs)"
  obtains p where "stage_pcs u = (stage_pcs s)(i := p)" | p where "stage_pcs u = woken (Suc i) ((stage_pcs s)(i := p))"
  using assms
proof (cases rule: stage_step_cases)
  case (dropped j l q)
  then show ?thesis using that(1) [of Ready] by (simp add: fun_upd_idem)
qed (use that in \<open>auto simp: queue_push_def queue_stop_def write_line_step_def\<close>)

lemma stage_step_own:
  assumes "stage_step fs i s = Some u" "i \<le> Suc (length fs)"
  shows "stage_pcs s i \<notin> {Unborn, Ended_stage}" "stage_pcs u i \<noteq> Unborn" "main_at u = main_at s"
proof -
  show "stage_pcs s i \<notin> {Unborn, Ended_stage}" using assms(1) by (auto simp: stage_step_def)
  show "stage_pcs u i \<noteq> Unborn" "main_at u = main_at s"
    using assms by (cases rule: stage_step_cases; auto simp: queue_push_def queue_stop_def write_line_step_def woken_eq)+
qed

lemma stage_step_frame:
  assumes "stage_step fs i s = Some u" "i \<le> Suc (length fs)"
  shows "main_at u = main_at s" "stage_pcs u j = Unborn \<longleftrightarrow> stage_pcs s j = Unborn" "stage_pcs s j = Ended_stage \<Longrightarrow> stage_pcs u j = Ended_stage"
proof -
  note own = stage_step_own [OF assms]
  have other: "j \<noteq> i \<Longrightarrow> stage_pcs u j = stage_pcs s j \<or> (stage_pcs s j = Asleep \<and> stage_pcs u j = Ready)"
    by (rule stage_step_pcs [OF assms]) (auto simp: woken_eq)
  show "main_at u = main_at s" by (rule own)
  show "stage_pcs u j = Unborn \<longleftrightarrow> stage_pcs s j = Unborn" using own other by (cases "j = i") auto
  show "stage_pcs s j = Ended_stage \<Longrightarrow> stage_pcs u j = Ended_stage" using own other by (cases "j = i") auto
qed

lemma pipe_main_ok_step:
  assumes "stage_step fs i s = Some u" "i \<le> Suc (length fs)" "pipe_main_ok fs b s"
  shows "pipe_main_ok fs b u"
  using assms(3) stage_step_frame [OF assms(1,2)] by (auto simp: pipe_main_ok_def split: main_pc.splits)

lemma main_step_cases:
  assumes "main_step fs b s = Some u"
  obtains (launch) k where "main_at s = Launching k" "u = (goto_stage k Ready s)\<lparr>main_at := (if k \<le> length fs then Launching (Suc k) else Waiting_future)\<rparr>"
  | (waited) "main_at s = Waiting_future" "stage_pcs s (Suc (length fs)) = Ended_stage" "u = s\<lparr>main_at := Joining_pool\<rparr>"
  | (joined) "main_at s = Joining_pool" "\<And>i. b = Some i \<Longrightarrow> stage_pcs s i = Ended_stage" "u = s\<lparr>main_at := Shutting_down\<rparr>"
  | (shut) "main_at s = Shutting_down" "\<And>i. i \<le> Suc (length fs) \<Longrightarrow> Some i \<noteq> b \<Longrightarrow> stage_pcs s i = Ended_stage" "u = s\<lparr>main_at := Exited\<rparr>"
proof (cases "main_at s")
  case (Launching k)
  then show ?thesis using assms launch by (auto simp: main_step_def)
next
  case Waiting_future
  then show ?thesis using assms waited by (auto simp: main_step_def split: if_splits)
next
  case Joining_pool
  then show ?thesis using assms joined by (auto simp: main_step_def split: if_splits option.splits)
next
  case Shutting_down
  then have "\<forall>i \<in> set [0..<Suc (Suc (length fs))]. Some i = b \<or> stage_pcs s i = Ended_stage" "u = s\<lparr>main_at := Exited\<rparr>"
    using assms by (auto simp: main_step_def Let_def simp del: upt_Suc split: if_splits)
  moreover have "i \<in> set [0..<Suc (Suc (length fs))]" if "i \<le> Suc (length fs)" for i using that by (simp del: upt_Suc)
  ultimately show ?thesis using shut Shutting_down by blast
qed (use assms in \<open>simp add: main_step_def\<close>)

lemma main_step_ok:
  assumes "main_step fs b s = Some u" "stages_ok fs s" "pipe_main_ok fs b s"
  shows "stages_ok fs u \<and> pipe_main_ok fs b u"
  using assms(1)
proof (cases rule: main_step_cases)
  case (launch k)
  then have "stage_pcs s k = Unborn" "k \<le> Suc (length fs)" using assms(3) by (auto simp: pipe_main_ok_def)
  moreover from this have "stages_ok fs u" using launch assms(2) by (auto simp: stages_ok_def)
  moreover have "pipe_main_ok fs b u"
  proof (cases "k \<le> length fs")
    case True
    then show ?thesis using launch assms(3) by (simp add: pipe_main_ok_def) (metis Suc_leD Suc_leI le_neq_implies_less not_less_eq_eq)
  next
    case False
    then have "k = Suc (length fs)" using \<open>k \<le> Suc (length fs)\<close> by simp
    then show ?thesis using launch assms(3) by (auto simp: pipe_main_ok_def)
  qed
  ultimately show ?thesis by simp
next
  case waited
  then show ?thesis using assms(2,3) by (auto simp: pipe_main_ok_def stages_ok_def)
next
  case joined
  then show ?thesis using assms(2,3) by (auto simp: pipe_main_ok_def stages_ok_def)
next
  case shut
  then have "stage_pcs s i = Ended_stage" if "i \<le> Suc (length fs)" for i
    using that assms(3) by (cases "b = Some i") (auto simp: pipe_main_ok_def)
  then show ?thesis using shut assms(2,3) by (simp add: pipe_main_ok_def stages_ok_def)
qed

subsection \<open>The output\<close>

fun numbered_lines :: "u64 \<Rightarrow> string list \<Rightarrow> string" where
  "numbered_lines n [] = []"
| "numbered_lines n (l # ls) = to_string (unat n) @ '': '' @ l @ [NL] @ numbered_lines (n + 1) ls"

lemma numbered_lines_snoc: "numbered_lines n (ls @ [l]) = numbered_lines n ls @ to_string (unat (n + word_of_nat (length ls))) @ '': '' @ l @ [NL]"
  by (induction ls arbitrary: n) (simp_all add: ac_simps)

text \<open>The pipeline as a function of lists.\<close>

definition pipeline_lines :: "(string \<Rightarrow> string option) list \<Rightarrow> string list \<Rightarrow> string list" where
  "pipeline_lines fs ls = fold List.map_filter fs ls"

definition output_ok :: "(string \<Rightarrow> string option) list \<Rightarrow> string list \<Rightarrow> pipe \<Rightarrow> bool" where
  "output_ok fs ls s \<longleftrightarrow>
     (\<exists>ps. pipe_out s = numbered_lines 0 ps \<and> line_count s = word_of_nat (length ps) \<and> ps @ flow fs s (Suc (length fs)) = pipeline_lines fs ls)"

lemma flow_start: "n \<le> length fs \<Longrightarrow> flow fs (pipe_start ls) n = pipeline_lines (take n fs) ls"
proof (induction n)
  case 0
  then show ?case by (simp add: pipe_start_def pipeline_lines_def)
next
  case (Suc n)
  then have "take (Suc n) fs = take n fs @ [fs ! n]" by (simp add: take_Suc_conv_app_nth)
  then show ?case using Suc by (simp add: pipe_start_def pipeline_lines_def stage_fun_def)
qed

lemma map_filter_Some: "List.map_filter Some xs = xs"
  by (simp add: map_filter_def)

lemma output_ok_start: "output_ok fs ls (pipe_start ls)"
proof -
  have "flow fs (pipe_start ls) (Suc (length fs)) = pipeline_lines fs ls"
    using flow_start [of "length fs" fs ls] by (simp add: pipe_start_def stage_fun_def map_filter_Some)
  then show ?thesis by (auto simp: output_ok_def pipe_start_def intro: exI [of _ "[]"])
qed

lemma stage_step_output:
  assumes "stage_step fs i s = Some u" "i \<le> Suc (length fs)"
  shows "(pipe_out u = pipe_out s \<and> line_count u = line_count s \<and> (i = Suc (length fs) \<longrightarrow> pending_line (stage_pcs s i) = [])) \<or>
    (\<exists>l. i = Suc (length fs) \<and> stage_pcs s i = Passing l \<and> u = write_line_step i l s)"
  using assms by (cases rule: stage_step_cases) (auto simp: queue_push_def queue_stop_def)

lemma output_ok_step:
  assumes "stage_step fs i s = Some u" "i \<le> Suc (length fs)" "output_ok fs ls s"
  shows "output_ok fs ls u"
proof -
  obtain ps where ps: "pipe_out s = numbered_lines 0 ps" "line_count s = word_of_nat (length ps)" "ps @ flow fs s (Suc (length fs)) = pipeline_lines fs ls"
    using assms(3) by (auto simp: output_ok_def)
  note flow = flow_step [OF assms(1,2)]
  from stage_step_output [OF assms(1,2)] show ?thesis
  proof (elim disjE conjE exE)
    assume "pipe_out u = pipe_out s" "line_count u = line_count s" "i = Suc (length fs) \<longrightarrow> pending_line (stage_pcs s i) = []"
    moreover from this(3) have "flow fs u (Suc (length fs)) = flow fs s (Suc (length fs))"
      unfolding flow by (auto split: stage_pc.splits)
    ultimately show ?thesis using ps by (auto simp: output_ok_def)
  next
    fix l assume l: "i = Suc (length fs)" "stage_pcs s i = Passing l" "u = write_line_step i l s"
    then have "pipe_out u = numbered_lines 0 (ps @ [l])" "line_count u = word_of_nat (length (ps @ [l]))"
      using ps by (simp_all add: write_line_step_def numbered_lines_snoc)
    moreover have "(ps @ [l]) @ flow fs u (Suc (length fs)) = pipeline_lines fs ls" using ps(3) flow l by simp
    ultimately show ?thesis unfolding output_ok_def by blast
  qed
qed

end
