(* ===== verification/Pipeline_Threads_Done.thy ===== *)
theory Pipeline_Threads_Done
  imports Pipeline_Threads_Properties
begin

text \<open>
  The pipeline of threads goes on until \<open>main\<close> has exited, within a number of steps linear in the number of lines and stages, and has
  then printed everything.
\<close>

subsection \<open>Potential\<close>

text \<open>
  What a line is good for when stage \<open>i\<close> has it to pass on, with \<open>m\<close> the last stage: to be pushed, to wake the next stage and send it to
  sleep again, to be taken, and so on.
\<close>

definition pass_cost :: "nat \<Rightarrow> nat \<Rightarrow> nat" where
  "pass_cost m i = 3 * (m - i) + 1"

fun stage_cost :: "nat \<Rightarrow> nat \<Rightarrow> stage_pc \<Rightarrow> nat" where
  "stage_cost m i Unborn = 4"
| "stage_cost m i Ready = 4"
| "stage_cost m i Asleep = 3"
| "stage_cost m i (Passing l) = 4 + pass_cost m i"
| "stage_cost m i Stopping = 2"
| "stage_cost m i Ended_stage = 0"

fun main_cost :: "nat \<Rightarrow> main_pc \<Rightarrow> nat" where
  "main_cost m (Launching k) = (Suc m - k) + 3"
| "main_cost m Waiting_future = 3"
| "main_cost m Joining_pool = 2"
| "main_cost m Shutting_down = 1"
| "main_cost m Exited = 0"

definition stages_cost :: "nat \<Rightarrow> pipe \<Rightarrow> nat" where
  "stages_cost m s = (\<Sum>i \<in> {..m}. stage_cost m i (stage_pcs s i))"

definition queues_cost :: "nat \<Rightarrow> pipe \<Rightarrow> nat" where
  "queues_cost m s = (\<Sum>j \<in> {..<m}. length (queue_of s j) * Suc (pass_cost m (Suc j)))"

definition potential :: "nat \<Rightarrow> pipe \<Rightarrow> nat" where
  "potential m s = length (lines_left s) * Suc (pass_cost m 0) + queues_cost m s + stages_cost m s + main_cost m (main_at s)"

lemma potential_start: "potential m (pipe_start ls) = length ls * (3 * m + 2) + 5 * m + 8"
  by (simp add: potential_def queues_cost_def stages_cost_def pipe_start_def pass_cost_def)

lemma stages_cost_goto:
  "i \<le> m \<Longrightarrow> stages_cost m (goto_stage i p s) + stage_cost m i (stage_pcs s i) = stages_cost m s + stage_cost m i p"
  unfolding stages_cost_def goto_stage_simps by (rule sum_fun_upd) simp_all

lemma stages_cost_wake: "i \<le> m \<Longrightarrow> stages_cost m (wake_stage i s) \<le> Suc (stages_cost m s)"
  using stages_cost_goto [of i m Ready s] by (auto simp: wake_stage_def)

lemma queues_cost_update:
  "j < m \<Longrightarrow> queues_cost m (s\<lparr>queue_of := (queue_of s)(j := q)\<rparr>) + length (queue_of s j) * Suc (pass_cost m (Suc j)) =
     queues_cost m s + length q * Suc (pass_cost m (Suc j))"
  using sum_fun_upd [of "{..<m}" j "\<lambda>j q. length q * Suc (pass_cost m (Suc j))" "queue_of s" q] by (simp add: queues_cost_def)

lemma cost_frame [simp]:
  "queues_cost m (goto_stage i p s) = queues_cost m s" "queues_cost m (wake_stage i s) = queues_cost m s"
  "queues_cost m (s\<lparr>lines_left := ls\<rparr>) = queues_cost m s" "queues_cost m (s\<lparr>stop_flag := fl\<rparr>) = queues_cost m s"
  "queues_cost m (s\<lparr>main_at := p'\<rparr>) = queues_cost m s" "stages_cost m (s\<lparr>main_at := p'\<rparr>) = stages_cost m s"
  "stages_cost m (s\<lparr>lines_left := ls\<rparr>) = stages_cost m s" "stages_cost m (s\<lparr>stop_flag := fl\<rparr>) = stages_cost m s"
  "stages_cost m (s\<lparr>queue_of := qs\<rparr>) = stages_cost m s"
  "queues_cost m (s\<lparr>pipe_out := t, line_count := n\<rparr>) = queues_cost m s" "stages_cost m (s\<lparr>pipe_out := t, line_count := n\<rparr>) = stages_cost m s"
  by (simp_all add: queues_cost_def stages_cost_def)

lemma pass_cost_step: "i < m \<Longrightarrow> pass_cost m i = pass_cost m (Suc i) + 3"
  by (simp add: pass_cost_def)

lemma stage_step_potential:
  assumes "stage_step fs i s = Some u" "i \<le> Suc (length fs)"
  defines "m \<equiv> Suc (length fs)"
  shows "potential m u < potential m s"
  using assms(1,2)
proof (cases rule: stage_step_cases)
  case input_over
  then show ?thesis using stages_cost_goto [of 0 m Stopping s] by (simp add: potential_def)
next
  case (input_line l ls)
  then show ?thesis using stages_cost_goto [of 0 m "Passing l" "s\<lparr>lines_left := ls\<rparr>"] by (simp add: potential_def)
next
  case (dropped j l q)
  then show ?thesis using queues_cost_update [of j m s q] assms(2) by (simp add: potential_def m_def)
next
  case (taken j l q k)
  then show ?thesis
    using queues_cost_update [of j m s q] stages_cost_goto [of i m "Passing k" "s\<lparr>queue_of := (queue_of s)(j := q)\<rparr>"] assms(2)
    by (simp add: potential_def m_def)
next
  case (no_more j)
  then show ?thesis using stages_cost_goto [of i m Stopping s] assms(2) by (simp add: potential_def m_def)
next
  case (sleeps j)
  then show ?thesis using stages_cost_goto [of i m Asleep s] assms(2) by (simp add: potential_def m_def)
next
  case (pushed l)
  define s' where "s' = goto_stage i Ready s"
  define s'' where "s'' = s'\<lparr>queue_of := (queue_of s')(i := queue_of s' i @ [l])\<rparr>"
  have i: "i < m" using pushed by (simp add: m_def)
  have "stages_cost m s' + (4 + pass_cost m i) = stages_cost m s + 4"
    using stages_cost_goto [of i m Ready s] pushed i by (simp add: s'_def)
  moreover have "queues_cost m s'' = queues_cost m s + Suc (pass_cost m (Suc i))"
    using queues_cost_update [OF i, of s' "queue_of s' i @ [l]"] by (simp add: s''_def) (simp add: s'_def)
  moreover have "stages_cost m (wake_stage (Suc i) s'') \<le> Suc (stages_cost m s')"
    using stages_cost_wake [of "Suc i" m s''] i by (simp add: s''_def)
  moreover have "u = wake_stage (Suc i) s''" using pushed by (simp add: queue_push_def s'_def s''_def)
  ultimately show ?thesis using pass_cost_step [OF i] by (simp add: potential_def) (simp add: s''_def s'_def)
next
  case (printed l)
  then show ?thesis
    using stages_cost_goto [of i m Ready "s\<lparr>pipe_out := pipe_out s @ to_string (unat (line_count s)) @ '': '' @ l @ [NL], line_count := line_count s + 1\<rparr>"]
    by (simp add: potential_def m_def write_line_step_def pass_cost_def)
next
  case stopped
  define s' where "s' = goto_stage i Ended_stage s"
  define s'' where "s'' = s'\<lparr>stop_flag := (stop_flag s')(i := True)\<rparr>"
  have i: "i < m" using stopped by (simp add: m_def)
  have "stages_cost m s' + 2 = stages_cost m s"
    using stages_cost_goto [of i m Ended_stage s] stopped i by (simp add: s'_def)
  moreover have "stages_cost m (wake_stage (Suc i) s'') \<le> Suc (stages_cost m s')"
    using stages_cost_wake [of "Suc i" m s''] i by (simp add: s''_def)
  moreover have "u = wake_stage (Suc i) s''" using stopped by (simp add: queue_stop_def s'_def s''_def)
  ultimately show ?thesis by (simp add: potential_def) (simp add: s''_def s'_def)
next
  case last_ended
  then show ?thesis using stages_cost_goto [of i m Ended_stage s] by (simp add: potential_def m_def)
qed

lemma main_step_potential:
  assumes "main_step fs b s = Some u" "pipe_main_ok fs b s"
  shows "potential (Suc (length fs)) u < potential (Suc (length fs)) s"
  using assms(1)
proof (cases rule: main_step_cases)
  case (launch k)
  then have "stage_pcs s k = Unborn" "k \<le> Suc (length fs)" using assms(2) by (auto simp: pipe_main_ok_def)
  then show ?thesis using launch stages_cost_goto [of k "Suc (length fs)" Ready s] by (auto simp: potential_def)
qed (simp_all add: potential_def)

subsection \<open>Runs\<close>

lemma pipe_start_ok: "stages_ok fs (pipe_start ls)" "pipe_main_ok fs b (pipe_start ls)"
  by (simp_all add: stages_ok_def pipe_main_ok_def pipe_start_def)

lemma spurious_ok:
  assumes "stage_pcs s i = Asleep" "stages_ok fs s" "pipe_main_ok fs b s" "output_ok fs ls s"
  shows "stages_ok fs (goto_stage i Ready s)" "pipe_main_ok fs b (goto_stage i Ready s)" "output_ok fs ls (goto_stage i Ready s)"
    "potential (Suc (length fs)) (goto_stage i Ready s) \<le> Suc (potential (Suc (length fs)) s)"
proof -
  have i: "i \<le> Suc (length fs)" using assms(1,2) by (cases "i \<le> Suc (length fs)") (auto simp: stages_ok_def not_le)
  show "stages_ok fs (goto_stage i Ready s)" using assms(1,2) by (auto simp: stages_ok_def)
  show "pipe_main_ok fs b (goto_stage i Ready s)" using assms(1,3) by (auto simp: pipe_main_ok_def split: main_pc.splits)
  have "flow fs (goto_stage i Ready s) j = flow fs s j" for j by (rule flow_below) (auto simp: assms(1))
  then show "output_ok fs ls (goto_stage i Ready s)" using assms(4) by (simp add: output_ok_def del: flow.simps)
  show "potential (Suc (length fs)) (goto_stage i Ready s) \<le> Suc (potential (Suc (length fs)) s)"
    using stages_cost_goto [OF i, of Ready s] assms(1) by (simp add: potential_def)
qed

lemma main_step_output:
  assumes "main_step fs b s = Some u" "pipe_main_ok fs b s" "output_ok fs ls s"
  shows "output_ok fs ls u"
  using assms(1)
proof (cases rule: main_step_cases)
  case (launch k)
  then have "stage_pcs s k = Unborn" using assms(2) by (auto simp: pipe_main_ok_def)
  then have "flow fs u j = flow fs s j" for j by (intro flow_below) (auto simp: launch)
  then show ?thesis using assms(3) launch by (simp add: output_ok_def del: flow.simps)
next
  case waited
  have "flow fs u j = flow fs s j" for j by (rule flow_below) (auto simp: waited)
  then show ?thesis using assms(3) waited by (simp add: output_ok_def del: flow.simps)
next
  case joined
  have "flow fs u j = flow fs s j" for j by (rule flow_below) (auto simp: joined)
  then show ?thesis using assms(3) joined by (simp add: output_ok_def del: flow.simps)
next
  case shut
  have "flow fs u j = flow fs s j" for j by (rule flow_below) (auto simp: shut)
  then show ?thesis using assms(3) shut by (simp add: output_ok_def del: flow.simps)
qed

lemma pipe_run_ok:
  assumes "pipe_run fs b ls k w s"
  shows "stages_ok fs s \<and> pipe_main_ok fs b s \<and> output_ok fs ls s \<and>
    k + potential (Suc (length fs)) s \<le> potential (Suc (length fs)) (pipe_start ls) + w"
  using assms
proof (induction rule: pipe_run.induct)
  case pipe_boot
  then show ?case using pipe_start_ok output_ok_start by simp
next
  case (pipe_more k w s u)
  note ok = pipe_more.IH [THEN conjunct1] pipe_more.IH [THEN conjunct2, THEN conjunct1] pipe_more.IH [THEN conjunct2, THEN conjunct2, THEN conjunct1]
    pipe_more.IH [THEN conjunct2, THEN conjunct2, THEN conjunct2]
  from pipe_more.hyps(2) show ?case
  proof cases
    case (stage_acts i)
    show ?thesis
      using stages_ok_step [OF stage_acts(2,1) ok(1)] pipe_main_ok_step [OF stage_acts(2,1) ok(2)] output_ok_step [OF stage_acts(2,1) ok(3)]
        stage_step_potential [OF stage_acts(2,1)] ok(4) by linarith
  next
    case main_acts
    show ?thesis
      using main_step_ok [OF main_acts ok(1,2)] main_step_output [OF main_acts ok(2,3)] main_step_potential [OF main_acts ok(2)] ok(4)
      by linarith
  qed
next
  case (pipe_spurious k w s i)
  then show ?case using spurious_ok [of s i fs b ls] by fastforce
qed

subsection \<open>The end\<close>

text \<open>When no stage can act, every one has ended: the first never sleeps, and none sleeps behind one that has ended.\<close>

lemma quiet_stages:
  assumes "stages_ok fs s" "\<And>i. i \<le> Suc (length fs) \<Longrightarrow> stage_pcs s i \<noteq> Unborn" "\<And>i. i \<le> Suc (length fs) \<Longrightarrow> stage_step fs i s = None"
  shows "j \<le> Suc (length fs) \<Longrightarrow> stage_pcs s j = Ended_stage"
proof (induction j)
  case 0
  then show ?case using assms(2,3) [of 0] assms(1) by (cases "stage_pcs s 0") (auto simp: stage_step_def stages_ok_def)
next
  case (Suc j)
  then have "stop_flag s j" using assms(1) by (simp add: stages_ok_def)
  then show ?case using assms(2,3) [of "Suc j"] assms(1) Suc.prems by (cases "stage_pcs s (Suc j)") (auto simp: stage_step_def stages_ok_def)
qed

lemma main_goes_on:
  assumes "main_at s \<noteq> Exited" "stages_ok fs s" "pipe_main_ok fs b s" "b \<in> insert None (Some ` {..Suc (length fs)})"
  shows "\<exists>u. pipe_act fs b s u"
proof (rule ccontr)
  assume no: "\<nexists>u. pipe_act fs b s u"
  have m: "main_step fs b s = None" using no pipe_act.main_acts by (metis not_Some_eq)
  have st: "stage_step fs i s = None" if "i \<le> Suc (length fs)" for i using no pipe_act.stage_acts that by (metis not_Some_eq)
  have born: "stage_pcs s i \<noteq> Unborn" if "i \<le> Suc (length fs)" for i
    using that m assms(3) by (cases "main_at s") (auto simp: main_step_def pipe_main_ok_def Let_def)
  have ended: "stage_pcs s j = Ended_stage" if "j \<le> Suc (length fs)" for j using quiet_stages [OF assms(2) born st that] .
  have "\<forall>i \<in> set [0..<Suc (Suc (length fs))]. stage_pcs s i = Ended_stage" using ended by (simp del: upt_Suc)
  then have "main_at s = Exited"
    using m ended assms(4) by (cases "main_at s") (auto simp: main_step_def Let_def simp del: upt_Suc split: if_splits)
  then show False using assms(1) by simp
qed

lemma main_exited:
  assumes "main_at s = Exited" "stages_ok fs s" "pipe_main_ok fs b s"
  shows "\<not> pipe_act fs b s u" "flow fs s (Suc (length fs)) = []"
proof -
  have ended: "stage_pcs s i = Ended_stage" if "i \<le> Suc (length fs)" for i using assms(1,3) that by (simp add: pipe_main_ok_def)
  show "\<not> pipe_act fs b s u"
  proof
    assume "pipe_act fs b s u"
    then show False using ended assms(1) by cases (auto simp: stage_step_def main_step_def)
  qed
  have "flow fs s j = []" if "j \<le> Suc (length fs)" for j
    using that
  proof (induction j)
    case 0
    then show ?case using ended [of 0] assms(2) by (simp add: stages_ok_def)
  next
    case (Suc j)
    then show ?case using ended [of "Suc j"] assms(2) by (simp add: stages_ok_def map_filter_simps)
  qed
  then show "flow fs s (Suc (length fs)) = []" by blast
qed

subsection \<open>A run to the end\<close>

text \<open>Acts in a given order: \<open>None\<close> is \<open>main\<close>.\<close>

fun schedule :: "(string \<Rightarrow> string option) list \<Rightarrow> nat option \<Rightarrow> nat option list \<Rightarrow> pipe \<Rightarrow> pipe option" where
  "schedule fs b [] s = Some s"
| "schedule fs b (c # cs) s =
     (case (case c of None \<Rightarrow> main_step fs b s | Some i \<Rightarrow> if i \<le> Suc (length fs) then stage_step fs i s else None) of
        None \<Rightarrow> None | Some u \<Rightarrow> schedule fs b cs u)"

lemma schedule_run:
  "schedule fs b cs s = Some u \<Longrightarrow> pipe_run fs b ls k w s \<Longrightarrow> pipe_run fs b ls (k + length cs) w u"
proof (induction cs arbitrary: s k)
  case (Cons c cs)
  from Cons.prems(1) obtain t where t: "(case c of None \<Rightarrow> main_step fs b s | Some i \<Rightarrow> if i \<le> Suc (length fs) then stage_step fs i s else None) = Some t"
    "schedule fs b cs t = Some u" by (auto split: option.splits)
  then have "pipe_act fs b s t" by (cases c) (auto intro: pipe_act.intros split: if_splits)
  from Cons.IH [OF t(2) pipe_more [OF Cons.prems(2) this]] show ?case by simp
qed simp

definition sample_order :: "nat option list" where
  "sample_order = [None, None, None, None, Some 1, Some 3, Some 0, Some 0, Some 0, Some 0, Some 0, Some 0, Some 1, Some 1, Some 1, Some 1,
     Some 2, Some 2, Some 3, Some 3, Some 1, Some 2, Some 2, Some 3, Some 3, None, None, None]"

lemma sample_run: "case schedule main_stages (Some 2) sample_order (pipe_start [''abc'', ''abcdef'']) of
    Some s \<Rightarrow> main_at s = Exited | None \<Rightarrow> False"
  by code_simp

text \<open>C31. Whatever the threads of the pipeline do in which order, what it has printed is always, numbered from 0, the beginning of the
  lines the stages make of the input as functions one after another, and when \<open>main\<close> has exited it is all of them: no line is
  lost, duplicated or overtaken. For the program: the lines longer than five characters, in capitals.\<close>

theorem pipeline_prints:
  assumes "pipe_run fs b ls k w s"
  shows "(\<exists>n. pipe_out s = numbered_lines 0 (take n (pipeline_lines fs ls)) \<and>
      (main_at s = Exited \<longrightarrow> pipe_out s = numbered_lines 0 (pipeline_lines fs ls))) \<and>
    pipeline_lines main_stages xs = map (map toupper_char) (filter (\<lambda>l. length l > 5) xs)"
proof (intro conjI)
  have ok: "stages_ok fs s" "pipe_main_ok fs b s" "output_ok fs ls s" using pipe_run_ok [OF assms] by auto
  then obtain ps where ps: "pipe_out s = numbered_lines 0 ps" "ps @ flow fs s (Suc (length fs)) = pipeline_lines fs ls"
    by (auto simp: output_ok_def)
  moreover have "ps = take (length ps) (pipeline_lines fs ls)" using ps(2) by (metis append_eq_conv_conj)
  moreover have "main_at s = Exited \<longrightarrow> ps = pipeline_lines fs ls" using main_exited(2) ok ps(2) by fastforce
  ultimately show "\<exists>n. pipe_out s = numbered_lines 0 (take n (pipeline_lines fs ls)) \<and>
      (main_at s = Exited \<longrightarrow> pipe_out s = numbered_lines 0 (pipeline_lines fs ls))"
    by metis
  have "List.map_filter filter_line ys = filter (\<lambda>l. length l > 5) ys" for ys
    by (induction ys) (simp_all add: map_filter_simps filter_line_def)
  moreover have "List.map_filter upper_line ys = map (map toupper_char) ys" for ys
    by (induction ys) (simp_all add: map_filter_simps upper_line_def)
  ultimately show "pipeline_lines main_stages xs = map (map toupper_char) (filter (\<lambda>l. length l > 5) xs)"
    by (simp add: pipeline_lines_def main_stages_def)
qed

theorem pipeline_prints_witness:
  "\<exists>k s. pipe_run main_stages (Some 2) [''abc'', ''abcdef''] k 0 s \<and> pipe_out s = ''0: ABCDEF'' @ [NL]"
proof -
  obtain s where s: "schedule main_stages (Some 2) sample_order (pipe_start [''abc'', ''abcdef'']) = Some s" "main_at s = Exited"
    using sample_run by (auto split: option.splits)
  note r = schedule_run [OF s(1) pipe_boot]
  have "numbered_lines 0 (map (map toupper_char) (filter (\<lambda>l. length l > 5) [''abc'', ''abcdef''])) = ''0: ABCDEF'' @ [NL]" by code_simp
  with pipeline_prints [OF r, of "[''abc'', ''abcdef'']"] s(2) have "pipe_out s = ''0: ABCDEF'' @ [NL]" by (simp only: simp_thms) auto
  with r show ?thesis by blast
qed

text \<open>C32. The pipeline never gets stuck and comes to its end: until \<open>main\<close> has exited some thread can act, although threads sleep at
  the conditions of their queues, and apart from spurious wake-ups, which allow one more step each, there are at most
  \<open>(3 m + 2) n + 5 m + 8\<close> steps for \<open>n\<close> lines and a last stage \<open>m\<close>.\<close>

theorem pipeline_goes_on:
  assumes "pipe_run fs b ls k w s" "b \<in> insert None (Some ` {..Suc (length fs)})"
  shows "((\<exists>u. pipe_act fs b s u) \<longleftrightarrow> main_at s \<noteq> Exited) \<and>
    k \<le> length ls * (3 * Suc (length fs) + 2) + 5 * Suc (length fs) + 8 + w"
proof (intro conjI)
  have ok: "stages_ok fs s" "pipe_main_ok fs b s"
    and "k + potential (Suc (length fs)) s \<le> potential (Suc (length fs)) (pipe_start ls) + w" using pipe_run_ok [OF assms(1)] by auto
  then show "k \<le> length ls * (3 * Suc (length fs) + 2) + 5 * Suc (length fs) + 8 + w" by (simp only: potential_start)
  show "(\<exists>u. pipe_act fs b s u) \<longleftrightarrow> main_at s \<noteq> Exited" using main_goes_on ok assms(2) main_exited(1) by blast
qed

theorem pipeline_goes_on_witness:
  "((\<exists>u. pipe_act main_stages (Some 2) (pipe_start [''abc'']) u) \<longleftrightarrow> main_at (pipe_start [''abc'']) \<noteq> Exited) \<and>
   0 \<le> length [''abc''] * (3 * Suc (length main_stages) + 2) + 5 * Suc (length main_stages) + 8 + 0"
  by (rule pipeline_goes_on [OF pipe_boot]) (simp add: main_stages_def)

end
