(* ===== verification/Stock_Quotes.thy ===== *)
theory Stock_Quotes
  imports Std_Extract Logging "HOL-Library.Monad_Syntax"
begin

text \<open>
  The stock quotes (\<open>serialization/stock.hpp\<close>, \<open>connection.hpp\<close>, \<open>server.cpp\<close>, \<open>client.cpp\<close>): messages with a header of eight
  characters that gives the length of the data in hexadecimal, a server that sends its stocks to whoever connects, and a client that
  prints what it receives. The archives of Boost are parameters: \<open>save\<close> and \<open>load\<close> turn the fields of the objects into a text and
  back, \<open>load\<close> may throw (\<open>None\<close>). So is the type of doubles, with the conversion of literals \<open>lit\<close> and the output \<open>show_double\<close>.
\<close>

subsection \<open>Stocks\<close>

record 'd stock =
  code :: string
  name_of :: string
  open_price :: 'd
  high_price :: 'd
  low_price :: 'd
  last_price :: 'd
  buy_price :: 'd
  buy_quantity :: cint
  sell_price :: 'd
  sell_quantity :: cint

text \<open>\<open>serialize\<close> names the fields in turn; an archive takes them out of the object or puts them in.\<close>

datatype 'd field = Str_field string | Double_field 'd | Int_field cint

definition serialize :: "'d stock \<Rightarrow> 'd field list" where
  "serialize s = [Str_field (code s), Str_field (name_of s), Double_field (open_price s), Double_field (high_price s), Double_field (low_price s),
     Double_field (last_price s), Double_field (buy_price s), Int_field (buy_quantity s), Double_field (sell_price s), Int_field (sell_quantity s)]"

fun get_text :: "'d field list \<Rightarrow> (string \<times> 'd field list) option" where
  "get_text (Str_field t # fs) = Some (t, fs)"
| "get_text _ = None"

fun get_double :: "'d field list \<Rightarrow> ('d \<times> 'd field list) option" where
  "get_double (Double_field d # fs) = Some (d, fs)"
| "get_double _ = None"

fun get_int :: "'d field list \<Rightarrow> (cint \<times> 'd field list) option" where
  "get_int (Int_field i # fs) = Some (i, fs)"
| "get_int _ = None"

definition deserialize :: "'d field list \<Rightarrow> 'd stock option" where
  "deserialize fs = do {
     (c, fs) \<leftarrow> get_text fs;
     (n, fs) \<leftarrow> get_text fs;
     (op, fs) \<leftarrow> get_double fs;
     (hp, fs) \<leftarrow> get_double fs;
     (lp, fs) \<leftarrow> get_double fs;
     (la, fs) \<leftarrow> get_double fs;
     (bp, fs) \<leftarrow> get_double fs;
     (bq, fs) \<leftarrow> get_int fs;
     (sp, fs) \<leftarrow> get_double fs;
     (sq, fs) \<leftarrow> get_int fs;
     Some \<lparr>code = c, name_of = n, open_price = op, high_price = hp, low_price = lp, last_price = la, buy_price = bp, buy_quantity = bq,
       sell_price = sp, sell_quantity = sq\<rparr>
   }"

subsection \<open>Connection\<close>

datatype s11n_error = Invalid_argument | Transport string

text \<open>The members of a connection; what is written to the socket is kept for the statements.\<close>

record stock_connection =
  outbound_header :: string
  outbound_data :: string
  inbound_header :: string
  inbound_data :: string
  on_wire :: string

definition new_stock_connection :: stock_connection where
  "new_stock_connection = \<lparr>outbound_header = [], outbound_data = [], inbound_header = [], inbound_data = [], on_wire = []\<rparr>"

definition s11n_header_length :: nat where "s11n_header_length = 8"

text \<open>\<open>header_stream << std::setw(header_length) << std::hex << n\<close>: blanks on the left, never cut.\<close>

definition format_header :: "nat \<Rightarrow> string" where
  "format_header n = padded_hex s11n_header_length n"

text \<open>
  \<open>async_write\<close> of the fields: the two buffers are written, or the handler is posted with an error. What the handler is called with
  is the second component: \<open>None\<close> for what the socket makes of the write.
\<close>

definition async_write :: "('d field list list \<Rightarrow> string) \<Rightarrow> 'd field list list \<Rightarrow> stock_connection \<Rightarrow> stock_connection \<times> s11n_error option" where
  "async_write save t c =
     (let c = c\<lparr>outbound_data := save t\<rparr>;
          header = format_header (length (outbound_data c))
      in if length header \<noteq> s11n_header_length then (c, Some Invalid_argument)
         else let c = c\<lparr>outbound_header := header\<rparr>
              in (c\<lparr>on_wire := on_wire c @ outbound_header c @ outbound_data c\<rparr>, None))"

text \<open>
  Reading: the next operation, what the handler is called with, an exception that leaves the handler, or undefined behaviour (the
  address of the first element of an empty vector). Whether \<open>n\<close> bytes can be had is up to the memory, \<open>mem n\<close>; a size above
  \<open>PTRDIFF_MAX\<close> is a \<open>length_error\<close>.
\<close>

datatype 'd read_step = Read_data nat | Calls "s11n_error + 'd stock list" | Too_long | Bad_alloc | Undefined

definition handle_read_header :: "(nat \<Rightarrow> bool) \<Rightarrow> s11n_error option \<Rightarrow> stock_connection \<Rightarrow> stock_connection \<times> 'd read_step" where
  "handle_read_header mem e c =
     (case e of
        Some err \<Rightarrow> (c, Calls (Inl err))
      | None \<Rightarrow>
          (case extract_unsigned 16 (2 ^ 64 - 1) (open_stream (take s11n_header_length (inbound_header c))) 0 of
             (is, inbound_data_size) \<Rightarrow>
               if failbit is then (c, Calls (Inl Invalid_argument))
               else if 2 ^ 63 \<le> inbound_data_size then (c, Too_long)
               else if \<not> mem inbound_data_size then (c, Bad_alloc)
               else (c, Read_data inbound_data_size)))"

definition handle_read_data :: "(string \<Rightarrow> 'd field list list option) \<Rightarrow> s11n_error option \<Rightarrow> stock_connection \<Rightarrow> 'd read_step" where
  "handle_read_data load e c =
     (case e of
        Some err \<Rightarrow> Calls (Inl err)
      | None \<Rightarrow>
          if inbound_data c = [] then Undefined
          else case load (inbound_data c) of
                 None \<Rightarrow> Calls (Inl Invalid_argument)
               | Some fs \<Rightarrow> if None \<in> set (map deserialize fs) then Calls (Inl Invalid_argument)
                             else Calls (Inr (map (the \<circ> deserialize) fs)))"

text \<open>
  The whole of \<open>async_read\<close> on a connection that brings \<open>incoming\<close> and then ends with an error: each of its two reads takes exactly as
  many bytes as its buffer has.
\<close>

definition async_read :: "(nat \<Rightarrow> bool) \<Rightarrow> (string \<Rightarrow> 'd field list list option) \<Rightarrow> string \<Rightarrow> string \<Rightarrow> stock_connection \<Rightarrow> 'd read_step" where
  "async_read mem load incoming ends c =
     (if length incoming < s11n_header_length then snd (handle_read_header mem (Some (Transport ends)) c)
      else case handle_read_header mem None (c\<lparr>inbound_header := take s11n_header_length incoming\<rparr>) of
             (c, Read_data n) \<Rightarrow>
               let incoming = drop s11n_header_length incoming
               in if length incoming < n then handle_read_data load (Some (Transport ends)) c
                  else handle_read_data load None (c\<lparr>inbound_data := take n incoming\<rparr>)
           | (c, r) \<Rightarrow> r)"

subsection \<open>Server\<close>

definition server_stocks :: "(string \<Rightarrow> 'd) \<Rightarrow> 'd stock list" where
  "server_stocks lit =
     [\<lparr>code = ''ABC'', name_of = ''A Big Company'', open_price = lit ''4.56'', high_price = lit ''5.12'', low_price = lit ''4.33'',
       last_price = lit ''4.98'', buy_price = lit ''4.96'', buy_quantity = 1000, sell_price = lit ''4.99'', sell_quantity = 2000\<rparr>,
      \<lparr>code = ''DEF'', name_of = ''Developer Entertainment Firm'', open_price = lit ''20.24'', high_price = lit ''22.88'',
       low_price = lit ''19.50'', last_price = lit ''19.76'', buy_price = lit ''19.72'', buy_quantity = 34000,
       sell_price = lit ''19.85'', sell_quantity = 45000\<rparr>]"

text \<open>
  The connections accepted so far; an accept is always pending, and whatever its outcome the next one is started. The handler of a
  write does nothing.
\<close>

definition handle_stock_accept :: "('d field list list \<Rightarrow> string) \<Rightarrow> 'd stock list \<Rightarrow> s11n_error option \<Rightarrow> stock_connection list \<Rightarrow> stock_connection list" where
  "handle_stock_accept save stocks e conns =
     (if e = None then conns @ [fst (async_write save (map serialize stocks) new_stock_connection)] else conns)"

subsection \<open>Client\<close>

text \<open>An \<open>int\<close> as it is printed.\<close>

definition int_text :: "cint \<Rightarrow> string" where
  "int_text w = (if sint w < 0 then ''-'' @ to_string (nat (- sint w)) else to_string (nat (sint w)))"

definition show_stock :: "('d \<Rightarrow> string) \<Rightarrow> nat \<Rightarrow> 'd stock \<Rightarrow> string" where
  "show_stock show_double i s =
     ''Stock number '' @ to_string i @ [NL] @
     ''  code: '' @ code s @ [NL] @
     ''  name: '' @ name_of s @ [NL] @
     ''  open_price: '' @ show_double (open_price s) @ [NL] @
     ''  high_price: '' @ show_double (high_price s) @ [NL] @
     ''  low_price: '' @ show_double (low_price s) @ [NL] @
     ''  last_price: '' @ show_double (last_price s) @ [NL] @
     ''  buy_price: '' @ show_double (buy_price s) @ [NL] @
     ''  buy_quantity: '' @ int_text (buy_quantity s) @ [NL] @
     ''  sell_price: '' @ show_double (sell_price s) @ [NL] @
     ''  sell_quantity: '' @ int_text (sell_quantity s) @ [NL]"

text \<open>Output and error output; \<open>message\<close> is the message of an error.\<close>

definition handle_stock_read :: "('d \<Rightarrow> string) \<Rightarrow> (s11n_error \<Rightarrow> string) \<Rightarrow> s11n_error + 'd stock list \<Rightarrow> string \<times> string" where
  "handle_stock_read show_double message r =
     (case r of
        Inr stocks \<Rightarrow> (concat (map (\<lambda>(i, s). show_stock show_double i s) (List.enumerate 0 stocks)), [])
      | Inl e \<Rightarrow> ([], message e @ [NL]))"

text \<open>
  The client: the connect fails with an error, or there is a connection that brings \<open>incoming\<close>. An exception that leaves a handler leaves
  \<open>run\<close> and is printed by \<open>main\<close>; \<open>None\<close> is undefined behaviour.
\<close>

definition stock_client :: "(nat \<Rightarrow> bool) \<Rightarrow> (string \<Rightarrow> 'd field list list option) \<Rightarrow> ('d \<Rightarrow> string) \<Rightarrow> (s11n_error \<Rightarrow> string) \<Rightarrow> s11n_error + (string \<times> string) \<Rightarrow> (string \<times> string) option" where
  "stock_client mem load show_double message world =
     (case world of
        Inl e \<Rightarrow> Some ([], message e @ [NL])
      | Inr (incoming, ends) \<Rightarrow>
          (case async_read mem load incoming ends new_stock_connection of
             Calls r \<Rightarrow> Some (handle_stock_read show_double message r)
           | Too_long \<Rightarrow> Some ([], ''vector::_M_default_append'' @ [NL])
           | Bad_alloc \<Rightarrow> Some ([], ''std::bad_alloc'' @ [NL])
           | _ \<Rightarrow> None))"

subsection \<open>main\<close>

text \<open>\<open>std::stoi\<close>: white space, a sign, digits; an exception without digits or when the number does not fit.\<close>

definition stoi :: "string \<Rightarrow> int option" where
  "stoi s =
     (let t = dropWhile is_space s;
          d = (if t \<noteq> [] \<and> hd t \<in> {CHR ''+'', CHR ''-''} then tl t else t)
      in if \<not> starts_with_digit 10 d \<or> atoi s < - (2 ^ 31) \<or> 2 ^ 31 \<le> atoi s then None else Some (atoi s))"

text \<open>Exit status and error output, or the port the server runs on.\<close>

definition stock_server_main :: "string list \<Rightarrow> nat \<times> string + 16 word" where
  "stock_server_main argv =
     (if length argv \<noteq> 2 then Inl (1, ''Usage: server <port>'' @ [NL])
      else case stoi (argv ! 1) of None \<Rightarrow> Inl (0, ''stoi'' @ [NL]) | Some p \<Rightarrow> Inr (word_of_int p))"

definition stock_client_main :: "string list \<Rightarrow> (string \<Rightarrow> string \<Rightarrow> (string \<times> string) option) \<Rightarrow> (nat \<times> string \<times> string) option" where
  "stock_client_main argv run =
     (if length argv \<noteq> 3 then Some (1, [], ''Usage: client <host> <port>'' @ [NL])
      else map_option (\<lambda>(out, err). (0, out, err)) (run (argv ! 1) (argv ! 2)))"

section \<open>Properties\<close>

text \<open>
  The header of the stock quotes survives the way through the connection, what does not fit into it is refused by the writer, and the
  client prints the stocks of the server; but a reader trusts the header it gets.
\<close>

subsection \<open>Objects\<close>

lemma deserialize_serialize [simp]: "deserialize (serialize s) = Some s"
  by (simp add: serialize_def deserialize_def)

subsection \<open>Headers\<close>

lemma format_header_length: "length (format_header n) = s11n_header_length \<longleftrightarrow> n < 16 ^ 8"
  using length_padded_hex [of 8 n] by (simp add: format_header_def s11n_header_length_def)

lemma read_formatted:
  assumes "n < 16 ^ 8" "mem n" "inbound_header c = format_header n"
  shows "handle_read_header mem None c = (c, Read_data n)"
proof -
  have "take s11n_header_length (format_header n) = format_header n"
    using format_header_length [of n] assms(1) by simp
  moreover have "n < 2 ^ 64" "n < 2 ^ 63" using assms(1) by simp_all
  ultimately show ?thesis
    using extract_padded_hex [of n "2 ^ 64 - 1" s11n_header_length, folded format_header_def] assms
    by (simp add: handle_read_header_def open_stream_def)
qed

subsection \<open>From the server to the client\<close>

text \<open>C39. What one side of a connection writes the other reads: with archives that can be read back, objects whose archive is neither
  empty nor longer than what eight hexadecimal digits can tell arrive as they were, whatever follows on the connection; a longer
  archive is refused with an error and nothing is written.\<close>

theorem stock_roundtrip:
  fixes stocks :: "'d stock list"
  assumes "load (save (map serialize stocks)) = Some (map serialize stocks)" "save (map serialize stocks) \<noteq> []"
    and "mem (length (save (map serialize stocks)))"
  defines "sent \<equiv> async_write save (map serialize stocks) new_stock_connection"
  shows "if length (save (map serialize stocks)) < 16 ^ 8
    then snd sent = None \<and> async_read mem load (on_wire (fst sent) @ tail) ends c = Calls (Inr stocks)
    else snd sent = Some Invalid_argument \<and> on_wire (fst sent) = []"
proof -
  define d where "d = save (map serialize stocks)"
  define n where "n = length d"
  show ?thesis
  proof (cases "n < 16 ^ 8")
    case True
    then have len: "length (format_header n) = s11n_header_length" using format_header_length by blast
    have wire: "on_wire (fst sent) = format_header n @ d" "snd sent = None"
      using len by (simp_all add: sent_def async_write_def d_def n_def new_stock_connection_def Let_def)
    have header: "take s11n_header_length (format_header n @ d @ tail) = format_header n"
      "drop s11n_header_length (format_header n @ d @ tail) = d @ tail"
      using len by simp_all
    have "handle_read_header mem None (c\<lparr>inbound_header := format_header n\<rparr>) = (c\<lparr>inbound_header := format_header n\<rparr>, Read_data n :: 'd read_step)"
      using True assms(3) by (intro read_formatted) (simp_all add: d_def n_def)
    moreover have "handle_read_data load None (c\<lparr>inbound_header := format_header n, inbound_data := d\<rparr>) = Calls (Inr stocks)"
      using assms(1,2) by (simp add: handle_read_data_def d_def comp_def)
    ultimately have "async_read mem load (format_header n @ d @ tail) ends c = Calls (Inr stocks)"
      unfolding async_read_def header using len by (simp add: n_def)
    then show ?thesis using True wire by (simp add: d_def n_def)
  next
    case False
    then have "length (format_header n) \<noteq> s11n_header_length" using format_header_length by blast
    then show ?thesis using False by (simp add: sent_def async_write_def d_def n_def new_stock_connection_def)
  qed
qed

text \<open>For the witness, an archive that knows the stocks of the server only.\<close>

definition tiny_save :: "string field list list \<Rightarrow> string" where
  "tiny_save fs = ''stocks''"

definition tiny_load :: "string \<Rightarrow> string field list list option" where
  "tiny_load t = (if t = ''stocks'' then Some (map serialize (server_stocks (\<lambda>s. s))) else None)"

theorem stock_roundtrip_witness:
  "length (tiny_save (map serialize (server_stocks (\<lambda>s. s)))) < 16 ^ 8 \<and>
   async_read (\<lambda>_. True) tiny_load (on_wire (fst (async_write tiny_save (map serialize (server_stocks (\<lambda>s. s))) new_stock_connection)) @ ''tail'') [] new_stock_connection =
     Calls (Inr (server_stocks (\<lambda>s. s)))"
proof -
  have short: "length (tiny_save (map serialize (server_stocks (\<lambda>s. s)))) < 16 ^ 8" by (simp add: tiny_save_def)
  then show ?thesis
    using stock_roundtrip [of tiny_load tiny_save "server_stocks (\<lambda>s. s)" "\<lambda>_. True" "''tail''" "[]" new_stock_connection]
    by (simp add: tiny_save_def tiny_load_def)
qed

subsection \<open>What a peer can do\<close>

text \<open>A header of a minus sign and a digit is a size near the largest there is: the exception of the vector ends the program of the reader.\<close>

lemma hostile_header:
  "stock_client mem load show_double message (Inr (''-1      '' @ tail, ends)) = Some ([], ''vector::_M_default_append'' @ [NL])"
proof -
  have "extract_unsigned 16 (2 ^ 64 - 1) (open_stream ''-1      '') 0 = ((open_stream '' '')\<lparr>rest := ''      ''\<rparr>, 2 ^ 64 - 1)"
    by (simp add: extract_unsigned_def sentry_def open_stream_def good_def is_space_def starts_with_digit_def base_digit_def hex_value_def)
  then show ?thesis
    by (simp add: stock_client_def async_read_def handle_read_header_def s11n_header_length_def open_stream_def)
qed

text \<open>A header of 0 lets the reader take the address of the first element of an empty vector.\<close>

lemma empty_message:
  assumes "mem 0"
  shows "stock_client mem load show_double message (Inr (''       0'' @ tail, ends)) = None"
proof -
  have "extract_unsigned 16 (2 ^ 64 - 1) (open_stream ''       0'') 0 = ((open_stream [])\<lparr>eofbit := True\<rparr>, 0)"
    by (simp add: extract_unsigned_def sentry_def open_stream_def good_def is_space_def starts_with_digit_def base_digit_def hex_value_def)
  then show ?thesis using assms
    by (simp add: stock_client_def async_read_def handle_read_header_def handle_read_data_def s11n_header_length_def open_stream_def
        new_stock_connection_def)
qed

end
