(* ===== verification/Port_Hopper.thy ===== *)
theory Port_Hopper
  imports Std_Extract
begin

text \<open>
  The port hopper (\<open>porthopper/protocol.hpp\<close>, \<open>server.cpp\<close>, \<open>client.cpp\<close>): a server that sends numbered frames by UDP to the
  endpoints subscribed over TCP connections, and a client that moves from port to port while it receives. Both run one handler at a time; the
  network and the clock choose which. Addresses are a type parameter, and so is where the star of a payload is, which comes from the sine
  of the frame number.
\<close>

type_synonym port = "16 word"

subsection \<open>Protocol\<close>

definition encoded_port_size :: nat where "encoded_port_size = 4"
definition control_request_size :: nat where "control_request_size = encoded_port_size * 2"

text \<open>A request is its eight characters. The stream it is written to holds no more.\<close>

definition control_request :: "port \<Rightarrow> port \<Rightarrow> string" where
  "control_request old_port_number new_port_number =
     take control_request_size (padded_hex encoded_port_size (unat old_port_number) @ padded_hex encoded_port_size (unat new_port_number))"

definition start_request :: "port \<Rightarrow> string" where "start_request p = control_request 0 p"
definition stop_request :: "port \<Rightarrow> string" where "stop_request p = control_request p 0"
definition change_request :: "port \<Rightarrow> port \<Rightarrow> string" where "change_request old_port new_port = control_request old_port new_port"

definition old_port :: "string \<Rightarrow> port" where
  "old_port d = word_of_nat (snd (extract_unsigned 16 (2 ^ 16 - 1) (open_stream (take encoded_port_size d)) 0))"

definition new_port :: "string \<Rightarrow> port" where
  "new_port d = word_of_nat (snd (extract_unsigned 16 (2 ^ 16 - 1)
     (open_stream (take encoded_port_size (drop encoded_port_size d))) 0))"

definition payload_size :: nat where "payload_size = 32"
definition encoded_number_size :: nat where "encoded_number_size = 8"
definition frame_size :: nat where "frame_size = encoded_number_size + payload_size"

text \<open>A frame is its 40 characters.\<close>

definition frame :: "u64 \<Rightarrow> string \<Rightarrow> string" where
  "frame n payload_data =
     (let t = take payload_size payload_data
      in take frame_size (padded_hex encoded_number_size (unat n) @ replicate (payload_size - length t) (CHR '' '') @ t))"

definition number :: "string \<Rightarrow> u64" where
  "number f = word_of_nat (snd (extract_unsigned 16 (2 ^ 64 - 1) (open_stream (take encoded_number_size f)) 0))"

definition payload :: "string \<Rightarrow> string" where
  "payload f = take payload_size (drop encoded_number_size f)"

subsection \<open>Server\<close>

type_synonym 'a endpoint = "'a \<times> port"

text \<open>A control connection: the address it comes from, and what is under way on it.\<close>

datatype control_phase = Awaiting_request | Delaying string | Given_up

record 'a hop_server =
  control_conns :: "('a \<times> control_phase) list"
  next_frame_number :: u64
  subscribed :: "'a endpoint set"
  frames_to :: "'a endpoint \<Rightarrow> string list"
  hop_log :: "(bool \<times> 'a endpoint) list"

definition new_hop_server :: "'a hop_server" where
  "new_hop_server = \<lparr>control_conns = [], next_frame_number = 1, subscribed = {}, frames_to = (\<lambda>_. []), hop_log = []\<rparr>"

text \<open>The accept that is started next is always pending.\<close>

definition handle_hop_accept :: "'a option \<Rightarrow> 'a hop_server \<Rightarrow> 'a hop_server" where
  "handle_hop_accept conn s =
     (case conn of None \<Rightarrow> s | Some a \<Rightarrow> s\<lparr>control_conns := control_conns s @ [(a, Awaiting_request)]\<rparr>)"

definition set_phase :: "nat \<Rightarrow> control_phase \<Rightarrow> 'a hop_server \<Rightarrow> 'a hop_server" where
  "set_phase i p s = s\<lparr>control_conns := (control_conns s)[i := (fst (control_conns s ! i), p)]\<rparr>"

text \<open>\<open>None\<close> is an error of the read; otherwise the eight characters are there and the delay begins.\<close>

definition handle_control_request :: "nat \<Rightarrow> string option \<Rightarrow> 'a hop_server \<Rightarrow> 'a hop_server" where
  "handle_control_request i r s = (case r of None \<Rightarrow> set_phase i Given_up s | Some d \<Rightarrow> set_phase i (Delaying d) s)"

definition remove_subscription :: "'a endpoint \<Rightarrow> 'a hop_server \<Rightarrow> 'a hop_server" where
  "remove_subscription e s = s\<lparr>subscribed := subscribed s - {e}, hop_log := hop_log s @ [(False, e)]\<rparr>"

definition add_subscription :: "'a endpoint \<Rightarrow> 'a hop_server \<Rightarrow> 'a hop_server" where
  "add_subscription e s = s\<lparr>subscribed := insert e (subscribed s), hop_log := hop_log s @ [(True, e)]\<rparr>"

text \<open>When the delay is over; whether the remote endpoint can still be told is \<open>connected\<close>.\<close>

definition handle_control_request_timer :: "nat \<Rightarrow> bool \<Rightarrow> string \<Rightarrow> 'a hop_server \<Rightarrow> 'a hop_server" where
  "handle_control_request_timer i connected d s =
     (let a = fst (control_conns s ! i);
          s = (if connected
               then let s = (if old_port d \<noteq> 0 then remove_subscription (a, old_port d) s else s)
                    in if new_port d \<noteq> 0 then add_subscription (a, new_port d) s else s
               else s)
      in set_phase i Awaiting_request s)"

definition star_payload :: "(u64 \<Rightarrow> int) \<Rightarrow> u64 \<Rightarrow> string" where
  "star_payload char_index n = map (\<lambda>i. if int i = char_index n then CHR ''*'' else CHR ''.'') [0..<payload_size]"

definition handle_hop_timer :: "(u64 \<Rightarrow> int) \<Rightarrow> 'a hop_server \<Rightarrow> 'a hop_server" where
  "handle_hop_timer char_index s =
     (let f = frame (next_frame_number s) (star_payload char_index (next_frame_number s))
      in s\<lparr>next_frame_number := next_frame_number s + 1,
           frames_to := (\<lambda>e. if e \<in> subscribed s then frames_to s e @ [f] else frames_to s e)\<rparr>)"

inductive hop_step :: "(u64 \<Rightarrow> int) \<Rightarrow> 'a hop_server \<Rightarrow> 'a hop_server \<Rightarrow> bool" for ci where
  hop_accept: "hop_step ci s (handle_hop_accept conn s)"
| hop_request: "i < length (control_conns s) \<Longrightarrow> snd (control_conns s ! i) = Awaiting_request \<Longrightarrow>
    (\<And>d. r = Some d \<Longrightarrow> length d = control_request_size) \<Longrightarrow> hop_step ci s (handle_control_request i r s)"
| hop_delay: "i < length (control_conns s) \<Longrightarrow> snd (control_conns s ! i) = Delaying d \<Longrightarrow>
    hop_step ci s (handle_control_request_timer i connected d s)"
| hop_timer: "hop_step ci s (handle_hop_timer ci s)"

inductive hop_reachable :: "(u64 \<Rightarrow> int) \<Rightarrow> nat \<Rightarrow> 'a hop_server \<Rightarrow> bool" for ci where
  hop_boot: "hop_reachable ci 0 new_hop_server"
| hop_more: "hop_reachable ci k s \<Longrightarrow> hop_step ci s t \<Longrightarrow> hop_reachable ci (Suc k) t"

subsection \<open>Client\<close>

text \<open>
  The phases: waiting for a frame with some received on the socket, fifty received and the next socket to be opened, renegotiating,
  ended by an exception. While it renegotiates, the operations that are pending on the two data sockets and the control connection, and
  the loop variable \<open>done\<close>. \<open>shown_frames\<close> repeats what is printed of frames.
\<close>

datatype hop_phase = Receiving nat | Opening | Negotiating | Failed string

record hop_client =
  hop_phase :: hop_phase
  last_frame_number :: u64
  hop_out :: string
  shown_frames :: "string list"
  data_port :: port
  next_port :: port
  control_sent :: string
  old_open :: bool
  old_pending :: bool
  new_pending :: bool
  write_pending :: bool
  control_result :: "string option"
  new_result :: "string option"
  first_frame :: string

definition hop_client_start :: "port \<Rightarrow> hop_client" where
  "hop_client_start p = \<lparr>hop_phase = Receiving 0, last_frame_number = 0, hop_out = [], shown_frames = [], data_port = p, next_port = 0,
     control_sent = start_request p, old_open = True, old_pending = False, new_pending = False, write_pending = False,
     control_result = None, new_result = None, first_frame = []\<rparr>"

definition show_frame :: "string \<Rightarrow> hop_client \<Rightarrow> hop_client" where
  "show_frame f c =
     (if number f > last_frame_number c
      then c\<lparr>last_frame_number := number f, hop_out := hop_out c @ [NL] @ payload f, shown_frames := shown_frames c @ [f]\<rparr>
      else c)"

text \<open>The top of the inner loop: a receive on the old socket, if it is open, and \<open>run\<close>.\<close>

definition listen_old :: "hop_client \<Rightarrow> hop_client" where
  "listen_old c = c\<lparr>old_pending := old_open c\<rparr>"

definition renegotiate :: "port \<Rightarrow> hop_client \<Rightarrow> hop_client" where
  "renegotiate p c = listen_old (c\<lparr>hop_phase := Negotiating, next_port := p, control_sent := control_sent c @ change_request (data_port c) p,
     write_pending := True, new_pending := True, control_result := None, new_result := None\<rparr>)"

text \<open>\<open>run\<close> returns when nothing is pending: then the loop ends, errors are thrown, or the new socket takes over.\<close>

definition negotiated :: "hop_client \<Rightarrow> hop_client" where
  "negotiated c =
     (if old_pending c \<or> new_pending c \<or> write_pending c then c
      else case control_result c of
             Some e \<Rightarrow> c\<lparr>hop_phase := Failed e\<rparr>
           | None \<Rightarrow>
               (case new_result c of
                  Some e \<Rightarrow> c\<lparr>hop_phase := Failed e\<rparr>
                | None \<Rightarrow> show_frame (first_frame c)
                    (c\<lparr>hop_out := hop_out c @ '' Renegotiation complete'', data_port := next_port c, old_open := True,
                       hop_phase := Receiving 0\<rparr>)))"

text \<open>
  What can happen: a frame or an error on the data socket, the socket that is opened next has a port, the write of the control request
  completes, a frame or an error on the new socket. When the old socket is closed, its pending receive ends with an error, or with a frame
  when it had one already.
\<close>

datatype hop_event = On_old "string + string" | Opened port | Control_written "string option" | On_new "string + string"

fun hop_client_step :: "hop_event \<Rightarrow> hop_client \<Rightarrow> hop_client" where
  "hop_client_step (On_old r) c =
     (case (hop_phase c, r) of
        (Receiving i, Inl e) \<Rightarrow> c\<lparr>hop_phase := Failed e\<rparr>
      | (Receiving i, Inr f) \<Rightarrow>
          let c = show_frame f c
          in if Suc i < 50 then c\<lparr>hop_phase := Receiving (Suc i)\<rparr>
             else c\<lparr>hop_phase := Opening, hop_out := hop_out c @ '' Starting renegotiation''\<rparr>
      | (Negotiating, Inl e) \<Rightarrow> if old_pending c then negotiated (c\<lparr>old_pending := False\<rparr>) else c
      | (Negotiating, Inr f) \<Rightarrow>
          if old_pending c then negotiated (listen_old (show_frame f (c\<lparr>old_pending := False\<rparr>))) else c
      | _ \<Rightarrow> c)"
| "hop_client_step (Opened p) c = (if hop_phase c = Opening then renegotiate p c else c)"
| "hop_client_step (Control_written r) c =
     (if hop_phase c = Negotiating \<and> write_pending c then negotiated (c\<lparr>write_pending := False, control_result := r\<rparr>) else c)"
| "hop_client_step (On_new r) c =
     (if hop_phase c = Negotiating \<and> new_pending c
      then case r of
             Inl e \<Rightarrow> negotiated (c\<lparr>new_pending := False, new_result := Some e\<rparr>)
           | Inr f \<Rightarrow> negotiated (c\<lparr>new_pending := False, first_frame := f, old_open := False\<rparr>)
      else c)"

definition hop_client_run :: "hop_event list \<Rightarrow> port \<Rightarrow> hop_client" where
  "hop_client_run evs p = fold hop_client_step evs (hop_client_start p)"

subsection \<open>main\<close>

text \<open>Exit status and error output, or the port, or the name of the server and its port.\<close>

definition hop_server_main :: "string list \<Rightarrow> nat \<times> string + port" where
  "hop_server_main argv = (if length argv \<noteq> 2 then Inl (1, ''Usage: server <port>'' @ [NL]) else Inr (word_of_int (atoi (argv ! 1))))"

definition hop_client_main :: "string list \<Rightarrow> nat \<times> string + string \<times> string" where
  "hop_client_main argv = (if length argv \<noteq> 3 then Inl (1, ''Usage: client <host> <port>'' @ [NL]) else Inr (argv ! 1, argv ! 2))"

text \<open>What \<open>main\<close> prints of an exception: the client ends with it.\<close>

definition hop_client_errors :: "hop_client \<Rightarrow> string" where
  "hop_client_errors c = (case hop_phase c of Failed e \<Rightarrow> ''Exception: '' @ e @ [NL] | _ \<Rightarrow> [])"

end
