(* ===== verification/Port_Hopper_Properties.thy ===== *)
theory Port_Hopper_Properties
  imports Port_Hopper
begin

text \<open>
  The requests and frames of the port hopper survive their encoding, the subscriptions are what the requests say, and the client shows
  frames of the server in the order of their numbers, however the network delays, loses or repeats them.
\<close>

subsection \<open>Encodings\<close>

lemma port_text: "length (padded_hex 4 (unat (p :: port))) = 4" "unat p \<le> 2 ^ 16 - 1"
  using unsigned_less [of p, where ?'a = nat] length_padded_hex [of 4 "unat p"] by simp_all

lemma control_request_parts:
  "take 4 (control_request o' n') = padded_hex 4 (unat o')" "take 4 (drop 4 (control_request o' n')) = padded_hex 4 (unat n')"
  "length (control_request o' n') = control_request_size"
  using port_text(1) [of o'] port_text(1) [of n'] by (simp_all add: control_request_def control_request_size_def encoded_port_size_def)

lemma read_port: "word_of_nat (snd (extract_unsigned 16 (2 ^ 16 - 1) (open_stream (padded_hex 4 (unat (p :: port)))) 0)) = p"
  using extract_padded_hex [OF port_text(2) [of p], of 4] by simp

lemma request_ports [simp]: "old_port (control_request o' n') = o'" "new_port (control_request o' n') = n'"
  unfolding old_port_def new_port_def encoded_port_size_def control_request_parts by (rule read_port)+

lemma frame_parts:
  assumes "unat n < 16 ^ 8"
  shows "number (frame n p) = n" "length p = payload_size \<Longrightarrow> payload (frame n p) = p"
proof -
  have len: "length (padded_hex 8 (unat n)) = 8" using length_padded_hex [of 8 "unat n"] assms by simp
  have "take 8 (frame n p) = padded_hex 8 (unat n)"
    using len by (simp add: frame_def Let_def frame_size_def encoded_number_size_def payload_size_def)
  moreover have "unat n \<le> 2 ^ 64 - 1" using unsigned_less [of n, where ?'a = nat] by simp
  ultimately show "number (frame n p) = n"
    using extract_padded_hex [of "unat n" "2 ^ 64 - 1" 8] by (simp add: number_def encoded_number_size_def)
  show "length p = payload_size \<Longrightarrow> payload (frame n p) = p"
    using len by (simp add: payload_def frame_def frame_size_def encoded_number_size_def payload_size_def)
qed

lemma star_payload_length: "length (star_payload ci n) = payload_size"
  by (simp add: star_payload_def)

subsection \<open>The server\<close>

text \<open>What a client asks for is what its endpoints are subscribed to after the delay.\<close>

lemma change_subscribes:
  assumes "fst (control_conns s ! i) = a"
  shows "subscribed (handle_control_request_timer i True (control_request p q) s) =
    (subscribed s - (if p = 0 then {} else {(a, p)})) \<union> (if q = 0 then {} else {(a, q)})"
  using assms by (auto simp: handle_control_request_timer_def remove_subscription_def add_subscription_def set_phase_def Let_def)

text \<open>The frames are numbered from 1, and an endpoint gets them in that order.\<close>

definition server_frame :: "(u64 \<Rightarrow> int) \<Rightarrow> u64 \<Rightarrow> string" where
  "server_frame ci n = frame n (star_payload ci n)"

definition frames_ok :: "(u64 \<Rightarrow> int) \<Rightarrow> nat \<Rightarrow> 'a hop_server \<Rightarrow> bool" where
  "frames_ok ci k s \<longleftrightarrow> unat (next_frame_number s) \<le> Suc k \<and> 0 < unat (next_frame_number s) \<and>
     (\<forall>e. \<exists>ns. frames_to s e = map (server_frame ci) ns \<and> sorted_wrt (<) ns \<and> (\<forall>n \<in> set ns. 0 < n \<and> n < next_frame_number s))"

lemma frames_frame:
  assumes "next_frame_number t = next_frame_number s" "frames_to t = frames_to s" "frames_ok ci k s"
  shows "frames_ok ci (Suc k) t"
  using assms by (simp add: frames_ok_def)

lemma hop_frame [simp]:
  "next_frame_number (set_phase i p s) = next_frame_number s" "frames_to (set_phase i p s) = frames_to s"
  "next_frame_number (remove_subscription e s) = next_frame_number s" "frames_to (remove_subscription e s) = frames_to s"
  "next_frame_number (add_subscription e s) = next_frame_number s" "frames_to (add_subscription e s) = frames_to s"
  by (simp_all add: set_phase_def remove_subscription_def add_subscription_def)

lemma next_number:
  assumes "unat (n :: u64) \<le> Suc k" "Suc (Suc k) < 2 ^ 64"
  shows "unat (n + 1) = Suc (unat n)" "n < n + 1"
proof -
  have "unat n + 1 < 2 ^ 64" using assms by simp
  then show *: "unat (n + 1) = Suc (unat n)" by (simp add: unat_word_ariths)
  then show "n < n + 1" by (simp add: word_less_nat_alt)
qed

lemma frames_timer:
  assumes "frames_ok ci k s" "Suc (Suc k) < 2 ^ 64"
  shows "frames_ok ci (Suc k) (handle_hop_timer ci s)"
proof -
  define n where "n = next_frame_number s"
  note next_n = next_number [of n k, OF _ assms(2)]
  have n: "unat n \<le> Suc k" "0 < unat n" using assms(1) by (simp_all add: frames_ok_def n_def)
  have n0: "0 < n" using n(2) by (simp add: word_less_nat_alt)
  have "\<exists>ns. frames_to (handle_hop_timer ci s) e = map (server_frame ci) ns \<and> sorted_wrt (<) ns \<and> (\<forall>m \<in> set ns. 0 < m \<and> m < n + 1)" for e
  proof -
    obtain ns where ns: "frames_to s e = map (server_frame ci) ns" "sorted_wrt (<) ns" "\<forall>m \<in> set ns. 0 < m \<and> m < n"
      using assms(1) unfolding frames_ok_def n_def by blast
    show ?thesis
    proof (cases "e \<in> subscribed s")
      case True
      have "frames_to (handle_hop_timer ci s) e = map (server_frame ci) (ns @ [n])"
        using ns(1) True by (simp add: handle_hop_timer_def Let_def n_def server_frame_def)
      moreover have "sorted_wrt (<) (ns @ [n])" using ns(2,3) by (simp add: sorted_wrt_append)
      moreover have "\<forall>m \<in> set (ns @ [n]). 0 < m \<and> m < n + 1" using ns(3) n0 next_n(2) [OF n(1)] by auto
      ultimately show ?thesis by blast
    next
      case False
      then have "frames_to (handle_hop_timer ci s) e = map (server_frame ci) ns"
        using ns(1) by (simp add: handle_hop_timer_def Let_def)
      then show ?thesis using ns(2,3) next_n(2) [OF n(1)] by (meson less_trans)
    qed
  qed
  moreover have "next_frame_number (handle_hop_timer ci s) = n + 1" by (simp add: handle_hop_timer_def Let_def n_def)
  ultimately show ?thesis using next_n(1) [OF n(1)] n by (simp add: frames_ok_def)
qed

lemma frames_step:
  assumes "hop_step ci s t" "frames_ok ci k s" "Suc (Suc k) < 2 ^ 64"
  shows "frames_ok ci (Suc k) t"
  using assms(1)
proof cases
  case (hop_accept conn)
  then show ?thesis using assms(2) by (intro frames_frame [of t s]) (auto simp: handle_hop_accept_def split: option.split)
next
  case (hop_request i r)
  then show ?thesis using assms(2) by (intro frames_frame [of t s]) (auto simp: handle_control_request_def split: option.split)
next
  case (hop_delay i d connected)
  then show ?thesis using assms(2) by (intro frames_frame [of t s]) (auto simp: handle_control_request_timer_def Let_def)
next
  case hop_timer
  then show ?thesis using frames_timer [OF assms(2,3)] by simp
qed

lemma frames_reachable: "hop_reachable ci k s \<Longrightarrow> Suc k < 2 ^ 64 \<Longrightarrow> frames_ok ci k s"
proof (induction rule: hop_reachable.induct)
  case hop_boot
  show ?case by (auto simp: frames_ok_def new_hop_server_def intro: exI [of _ "[]"])
next
  case (hop_more k s t)
  then show ?case using frames_step [of ci s t k] by simp
qed

subsection \<open>The client\<close>

definition shown_ok :: "string set \<Rightarrow> hop_client \<Rightarrow> bool" where
  "shown_ok fs c \<longleftrightarrow> set (shown_frames c) \<subseteq> fs \<and> sorted_wrt (\<lambda>f g. number f < number g) (shown_frames c) \<and>
     (\<forall>f \<in> set (shown_frames c). number f \<le> last_frame_number c)"

lemma shown_ok_show: "shown_ok fs c \<Longrightarrow> f \<in> fs \<Longrightarrow> shown_ok fs (show_frame f c)"
  by (auto simp: shown_ok_def show_frame_def sorted_wrt_append)

lemma shown_ok_cong:
  "shown_frames d = shown_frames c \<Longrightarrow> last_frame_number d = last_frame_number c \<Longrightarrow> shown_ok fs d = shown_ok fs c"
  by (simp add: shown_ok_def)

definition first_ok :: "string set \<Rightarrow> hop_client \<Rightarrow> bool" where
  "first_ok fs c \<longleftrightarrow> (hop_phase c = Negotiating \<and> \<not> new_pending c \<and> new_result c = None \<longrightarrow> first_frame c \<in> fs)"

lemma negotiated_ok:
  assumes "shown_ok fs c" "first_ok fs c" "hop_phase c = Negotiating"
  shows "shown_ok fs (negotiated c) \<and> first_ok fs (negotiated c)"
proof (cases "old_pending c \<or> new_pending c \<or> write_pending c")
  case True
  then show ?thesis using assms by (simp add: negotiated_def)
next
  case False
  have "shown_ok fs (c\<lparr>hop_phase := Failed e\<rparr>)" for e using assms(1) by (simp add: shown_ok_def)
  moreover have "shown_ok fs (c\<lparr>hop_out := t, data_port := next_port c, old_open := True, hop_phase := Receiving 0\<rparr>)" for t
    using assms(1) by (simp add: shown_ok_def)
  moreover have "new_result c = None \<Longrightarrow> first_frame c \<in> fs" using assms(2,3) False by (simp add: first_ok_def)
  moreover have "hop_phase (show_frame f d) = hop_phase d" for f d by (simp add: show_frame_def)
  ultimately show ?thesis using False
    by (auto simp: negotiated_def first_ok_def shown_ok_show split: option.split)
qed

definition frame_of_event :: "hop_event \<Rightarrow> string set" where
  "frame_of_event ev = (case ev of On_old (Inr f) \<Rightarrow> {f} | On_new (Inr f) \<Rightarrow> {f} | _ \<Rightarrow> {})"

lemma show_frame_simps [simp]:
  "hop_phase (show_frame f c) = hop_phase c" "new_pending (show_frame f c) = new_pending c" "new_result (show_frame f c) = new_result c"
  "first_frame (show_frame f c) = first_frame c"
  by (simp_all add: show_frame_def)

lemma client_step_ok:
  assumes "shown_ok fs c" "first_ok fs c" "frame_of_event ev \<subseteq> fs"
  shows "shown_ok fs (hop_client_step ev c) \<and> first_ok fs (hop_client_step ev c)"
proof (cases ev)
  case (On_old r)
  show ?thesis
  proof (cases r)
    case (Inl e)
    have "shown_ok fs (c\<lparr>old_pending := False\<rparr>)" "first_ok fs (c\<lparr>old_pending := False\<rparr>)" "shown_ok fs (c\<lparr>hop_phase := Failed e\<rparr>)"
      using assms by (simp_all add: shown_ok_def first_ok_def)
    then show ?thesis
      using On_old Inl assms negotiated_ok [of fs "c\<lparr>old_pending := False\<rparr>"] by (cases "hop_phase c") (auto simp: first_ok_def)
  next
    case (Inr f)
    have f: "f \<in> fs" using assms(3) On_old Inr by (simp add: frame_of_event_def)
    define d where "d = listen_old (show_frame f (c\<lparr>old_pending := False\<rparr>))"
    have "shown_ok fs (show_frame f (c\<lparr>old_pending := False\<rparr>))" using assms(1) f by (intro shown_ok_show) (simp_all add: shown_ok_def)
    then have d: "shown_ok fs d" "first_ok fs d" "hop_phase d = hop_phase c"
      using assms(2) by (simp_all add: d_def listen_old_def shown_ok_def first_ok_def)
    have "shown_ok fs (show_frame f c)" using assms(1) f by (rule shown_ok_show)
    then show ?thesis
      using On_old Inr assms d negotiated_ok [of fs d]
      by (cases "hop_phase c") (auto simp: first_ok_def Let_def shown_ok_def d_def [symmetric])
  qed
next
  case (Opened p)
  then show ?thesis using assms by (auto simp: renegotiate_def listen_old_def shown_ok_def first_ok_def)
next
  case (Control_written r)
  have "shown_ok fs (c\<lparr>write_pending := False, control_result := r\<rparr>)" "first_ok fs (c\<lparr>write_pending := False, control_result := r\<rparr>)"
    using assms by (simp_all add: shown_ok_def first_ok_def)
  then show ?thesis using Control_written assms negotiated_ok [of fs "c\<lparr>write_pending := False, control_result := r\<rparr>"] by auto
next
  case (On_new r)
  show ?thesis
  proof (cases r)
    case (Inl e)
    have "shown_ok fs (c\<lparr>new_pending := False, new_result := Some e\<rparr>)" "first_ok fs (c\<lparr>new_pending := False, new_result := Some e\<rparr>)"
      using assms by (simp_all add: shown_ok_def first_ok_def)
    then show ?thesis using On_new Inl assms negotiated_ok [of fs "c\<lparr>new_pending := False, new_result := Some e\<rparr>"] by auto
  next
    case (Inr f)
    have "f \<in> fs" using assms(3) On_new Inr by (simp add: frame_of_event_def)
    then have "shown_ok fs (c\<lparr>new_pending := False, first_frame := f, old_open := False\<rparr>)"
      "first_ok fs (c\<lparr>new_pending := False, first_frame := f, old_open := False\<rparr>)"
      using assms by (simp_all add: shown_ok_def first_ok_def)
    then show ?thesis
      using On_new Inr assms negotiated_ok [of fs "c\<lparr>new_pending := False, first_frame := f, old_open := False\<rparr>"] by auto
  qed
qed

lemma client_run_ok:
  assumes "\<And>ev. ev \<in> set evs \<Longrightarrow> frame_of_event ev \<subseteq> fs"
  shows "shown_ok fs (hop_client_run evs p)"
proof -
  have "shown_ok fs c \<and> first_ok fs c \<Longrightarrow> shown_ok fs (fold hop_client_step evs c) \<and> first_ok fs (fold hop_client_step evs c)" for c
    using assms
  proof (induction evs arbitrary: c)
    case (Cons ev evs)
    then show ?case using client_step_ok [of fs c ev] by simp
  qed simp
  then show ?thesis by (simp add: hop_client_run_def hop_client_start_def shown_ok_def first_ok_def)
qed

subsection \<open>Server and client together\<close>

text \<open>C34. The client of the port hopper shows frames of the server, with their payloads as the server made them, and in strictly rising
  order of their numbers, whatever datagrams the network loses, delays or repeats, on whichever socket they come and however often the
  client moves to another port (for a server that has made fewer than \<open>16 ^ 8\<close> steps, so that the numbers fit into a frame).\<close>

theorem hopper_shows:
  assumes "hop_reachable ci k s" "Suc k < 16 ^ 8" "\<Union> (frame_of_event ` set evs) \<subseteq> \<Union> (set ` range (frames_to s))"
  shows "\<exists>ns. sorted_wrt (<) ns \<and> shown_frames (hop_client_run evs p) = map (server_frame ci) ns \<and>
    map payload (shown_frames (hop_client_run evs p)) = map (star_payload ci) ns \<and> set ns \<subseteq> {0<..<next_frame_number s}"
proof -
  define fs where "fs = shown_frames (hop_client_run evs p)"
  define ns where "ns = map number fs"
  have ok: "frames_ok ci k s" using frames_reachable [OF assms(1)] assms(2) by simp
  have shown: "shown_ok (\<Union> (set ` range (frames_to s))) (hop_client_run evs p)"
    using assms(3) by (intro client_run_ok) blast
  have num: "f = server_frame ci (number f) \<and> payload f = star_payload ci (number f) \<and> number f \<in> {0<..<next_frame_number s}" if "f \<in> set fs" for f
  proof -
    obtain e where "f \<in> set (frames_to s e)" using shown \<open>f \<in> set fs\<close> by (auto simp: shown_ok_def fs_def)
    moreover obtain ms where "frames_to s e = map (server_frame ci) ms" "\<forall>m \<in> set ms. 0 < m \<and> m < next_frame_number s"
      using ok unfolding frames_ok_def by blast
    ultimately obtain m where m: "f = server_frame ci m" "0 < m" "m < next_frame_number s" by auto
    have "unat m < unat (next_frame_number s)" using m(3) by (simp add: word_less_nat_alt)
    also have "\<dots> \<le> Suc k" using ok by (simp add: frames_ok_def)
    finally have "unat m < 16 ^ 8" using assms(2) by simp
    then show ?thesis using frame_parts [of m "star_payload ci m"] star_payload_length m by (simp add: server_frame_def)
  qed
  have "sorted_wrt (<) ns" using shown by (simp add: ns_def fs_def shown_ok_def sorted_wrt_map)
  moreover have "fs = map (server_frame ci) ns" unfolding ns_def map_map by (rule map_idI [symmetric]) (use num in simp)
  moreover have "map payload fs = map (star_payload ci) ns" using num by (simp add: ns_def)
  moreover have "set ns \<subseteq> {0<..<next_frame_number s}" using num by (auto simp: ns_def)
  ultimately show ?thesis unfolding fs_def by blast
qed

text \<open>For the witness: a client at address \<open>()\<close> asks for port 7, two frames are sent, and the second arrives before the first.\<close>

definition hop_example :: "unit hop_server" where
  "hop_example = (handle_hop_timer (\<lambda>_. 0) \<circ> handle_hop_timer (\<lambda>_. 0) \<circ>
     handle_control_request_timer 0 True (start_request 7) \<circ> handle_control_request 0 (Some (start_request 7)) \<circ> handle_hop_accept (Some ()))
     new_hop_server"

lemma hop_example_reachable: "hop_reachable (\<lambda>_. 0) 5 hop_example"
proof -
  define s1 :: "unit hop_server" where "s1 = handle_hop_accept (Some ()) new_hop_server"
  define s2 where "s2 = handle_control_request 0 (Some (start_request 7)) s1"
  define s3 where "s3 = handle_control_request_timer 0 True (start_request 7) s2"
  have r1: "hop_reachable (\<lambda>_. 0) (Suc 0) s1" unfolding s1_def by (rule hop_more [OF hop_boot hop_step.hop_accept])
  have "hop_step (\<lambda>_. 0) s1 s2" unfolding s2_def
    by (rule hop_step.hop_request) (simp_all add: s1_def handle_hop_accept_def new_hop_server_def start_request_def control_request_parts)
  with r1 have r2: "hop_reachable (\<lambda>_. 0) (Suc (Suc 0)) s2" by (rule hop_more)
  have "hop_step (\<lambda>_. 0) s2 s3" unfolding s3_def
    by (rule hop_step.hop_delay)
      (simp_all add: s2_def s1_def handle_hop_accept_def new_hop_server_def handle_control_request_def set_phase_def)
  with r2 have "hop_reachable (\<lambda>_. 0) (Suc (Suc (Suc 0))) s3" by (rule hop_more)
  then have "hop_reachable (\<lambda>_. 0) (Suc (Suc (Suc (Suc (Suc 0))))) (handle_hop_timer (\<lambda>_. 0) (handle_hop_timer (\<lambda>_. 0) s3))"
    by (intro hop_more [OF _ hop_step.hop_timer])
  then show ?thesis by (simp add: hop_example_def s3_def s2_def s1_def eval_nat_numeral)
qed

lemma hop_example_frames: "frames_to hop_example ((), 7) = [server_frame (\<lambda>_. 0) 1, server_frame (\<lambda>_. 0) 2]"
proof -
  have "subscribed (handle_control_request_timer 0 True (start_request 7) (handle_control_request 0 (Some (start_request 7)) (handle_hop_accept (Some ()) new_hop_server)))
      = {((), 7)}"
    by (subst start_request_def, subst change_subscribes [OF refl])
      (simp add: handle_control_request_def set_phase_def handle_hop_accept_def new_hop_server_def)
  then show ?thesis
    by (simp add: hop_example_def handle_hop_timer_def Let_def server_frame_def)
      (simp add: handle_control_request_timer_def handle_control_request_def handle_hop_accept_def new_hop_server_def Let_def)
qed

theorem hopper_shows_witness:
  "\<exists>ns. sorted_wrt (<) ns \<and>
     shown_frames (hop_client_run [On_old (Inr (server_frame (\<lambda>_. 0) 2)), On_old (Inr (server_frame (\<lambda>_. 0) 1))] 7) = map (server_frame (\<lambda>_. 0)) ns \<and>
     map payload (shown_frames (hop_client_run [On_old (Inr (server_frame (\<lambda>_. 0) 2)), On_old (Inr (server_frame (\<lambda>_. 0) 1))] 7)) = map (star_payload (\<lambda>_. 0)) ns \<and>
     set ns \<subseteq> {0<..<next_frame_number hop_example}"
proof (rule hopper_shows [OF hop_example_reachable])
  show "\<Union> (frame_of_event ` set [On_old (Inr (server_frame (\<lambda>_. 0) 2)), On_old (Inr (server_frame (\<lambda>_. 0) 1))])
      \<subseteq> \<Union> (set ` range (frames_to hop_example))"
    using hop_example_frames by (auto simp: frame_of_event_def intro: exI [of _ 7] bexI)
qed simp

end
