(* ===== verification/Priority_Handlers.thy ===== *)
theory Priority_Handlers
  imports Prelude "HOL-Library.Multiset"
begin

text \<open>
  The two examples built on \<open>std::priority_queue\<close>: a queue of completion handlers that are run most important first
  (\<open>invocation/prioritised_handlers.cpp\<close>) and a scheduler with priorities (\<open>executors/priority_scheduler.cpp\<close>). Which of several
  most important elements is on top is up to the library: the queue is a list, \<open>pick\<close> a parameter.
\<close>

subsection \<open>std::priority_queue\<close>

type_synonym 'h queued = "cint \<times> 'h"

text \<open>\<open>operator<\<close> and \<open>item_comp\<close> compare the priorities.\<close>

definition less_important :: "'h queued \<Rightarrow> 'h queued \<Rightarrow> bool" where
  "less_important a b \<longleftrightarrow> sint (fst a) < sint (fst b)"

definition remove_at :: "nat \<Rightarrow> 'a list \<Rightarrow> 'a list" where
  "remove_at i xs = take i xs @ drop (Suc i) xs"

definition pop_top :: "('h queued list \<Rightarrow> nat) \<Rightarrow> 'h queued list \<Rightarrow> 'h queued list" where
  "pop_top pick q = remove_at (pick q) q"

locale heap_top =
  fixes pick :: "'h queued list \<Rightarrow> nat"
  assumes top_in: "q \<noteq> [] \<Longrightarrow> pick q < length q"
    and top_greatest: "x \<in> set q \<Longrightarrow> \<not> less_important (q ! pick q) x"
begin

lemma top_mem: "q \<noteq> [] \<Longrightarrow> q ! pick q \<in> set q"
  using top_in by simp

lemma mset_pop: "q \<noteq> [] \<Longrightarrow> add_mset (q ! pick q) (mset (pop_top pick q)) = mset q"
  using top_in [of q] by (metis add_mset_add_single append.assoc append_Cons append_Nil id_take_nth_drop mset.simps(2) mset_append
      pop_top_def remove_at_def union_mset_add_mset_right)

lemma length_pop: "q \<noteq> [] \<Longrightarrow> Suc (length (pop_top pick q)) = length q"
  using mset_pop [of q] by (metis size_add_mset size_mset)

lemma set_pop: "q \<noteq> [] \<Longrightarrow> set (pop_top pick q) \<subseteq> set q"
  using mset_pop [of q] by (metis set_mset_add_mset_insert set_mset_mset subset_insertI)

end

text \<open>One choice a library may make: the first of the most important.\<close>

fun first_top :: "'h queued list \<Rightarrow> nat" where
  "first_top [] = 0"
| "first_top [x] = 0"
| "first_top (x # y # q) = (let i = first_top (y # q) in if less_important x ((y # q) ! i) then Suc i else 0)"

lemma first_top_in: "q \<noteq> [] \<Longrightarrow> first_top q < length q"
  by (induction q rule: first_top.induct) (auto simp: Let_def)

lemma first_top_greatest: "x \<in> set q \<Longrightarrow> \<not> less_important (q ! first_top q) x"
proof (induction q rule: first_top.induct)
  case (3 y z q)
  then show ?case by (auto simp: Let_def less_important_def split: if_splits)
qed (auto simp: less_important_def)

interpretation first: heap_top first_top
  by unfold_locales (simp_all add: first_top_in first_top_greatest)

subsection \<open>prioritised_handlers.cpp\<close>

text \<open>The executor's \<open>dispatch\<close>, \<open>post\<close> and \<open>defer\<close> all add to the queue.\<close>

definition add_handler :: "cint \<Rightarrow> 'h \<Rightarrow> 'h queued list \<Rightarrow> 'h queued list" where
  "add_handler p h q = q @ [(p, h)]"

text \<open>
  \<open>execute_all\<close>, with the handlers run in their order; \<open>adds h\<close> is what running \<open>h\<close> adds to the queue. The element popped is the one on
  top after the handler has run. \<open>None\<close>: the loop does not end.
\<close>

partial_function (option) execute_all :: "('h queued list \<Rightarrow> nat) \<Rightarrow> ('h \<Rightarrow> 'h queued list) \<Rightarrow> 'h queued list \<Rightarrow> 'h queued list option" where
  "execute_all pick adds q =
     (if q = [] then Some []
      else let h = q ! pick q; q = fold (\<lambda>(p, k). add_handler p k) (adds (snd h)) q
           in Option.bind (execute_all pick adds (pop_top pick q)) (\<lambda>hs. Some (h # hs)))"

datatype demo_handler = Low_priority | Middle_priority | High_priority

fun handler_prints :: "demo_handler \<Rightarrow> string" where
  "handler_prints High_priority = ''High priority handler'' @ [CHR 0x0A]"
| "handler_prints Middle_priority = ''Middle priority handler'' @ [CHR 0x0A]"
| "handler_prints Low_priority = ''Low priority handler'' @ [CHR 0x0A]"

fun wrapped_with :: "demo_handler \<Rightarrow> cint" where
  "wrapped_with Low_priority = 0"
| "wrapped_with High_priority = 100"
| "wrapped_with Middle_priority = 42"

text \<open>
  The loop of \<open>main\<close>: each round, \<open>run_one\<close> and \<open>poll_one\<close> complete some of the three operations, in an order of theirs, which adds their
  handlers to the queue, and \<open>execute_all\<close> runs them.
\<close>

fun prioritised_main :: "(demo_handler queued list \<Rightarrow> nat) \<Rightarrow> demo_handler list list \<Rightarrow> string option" where
  "prioritised_main pick [] = Some []"
| "prioritised_main pick (r # rs) =
     Option.bind (execute_all pick (\<lambda>_. []) (fold (\<lambda>h. add_handler (wrapped_with h) h) r []))
       (\<lambda>hs. Option.bind (prioritised_main pick rs) (\<lambda>out. Some (concat (map (handler_prints \<circ> snd) hs) @ out)))"

subsection \<open>priority_scheduler.cpp\<close>

text \<open>The functions of \<open>main\<close>: print a text, or stop the scheduler.\<close>

datatype sched_job = Print_text string | Stop_scheduler

definition sched_execute :: "cint \<Rightarrow> sched_job \<Rightarrow> sched_job queued list \<Rightarrow> sched_job queued list" where
  "sched_execute p f q = q @ [(p, f)]"

text \<open>
  \<open>run\<close>, with what it prints: it returns when the scheduler is stopped and waits while the queue is empty, for ever (\<open>None\<close>) when no
  other thread is there to add to it. The element is popped before it is run.
\<close>

partial_function (option) sched_run :: "(sched_job queued list \<Rightarrow> nat) \<Rightarrow> bool \<Rightarrow> sched_job queued list \<Rightarrow> string option" where
  "sched_run pick stopped q =
     (if stopped then Some []
      else if q = [] then None
      else case snd (q ! pick q) of
             Print_text t \<Rightarrow> Option.bind (sched_run pick False (pop_top pick q)) (\<lambda>out. Some (t @ out))
           | Stop_scheduler \<Rightarrow> sched_run pick True (pop_top pick q))"

definition sched_jobs :: "sched_job queued list" where
  "sched_jobs = fold (\<lambda>(p, f). sched_execute p f)
     [(0, Print_text (''1'' @ [CHR 0x0A])), (0, Print_text (''11'' @ [CHR 0x0A])),
      (1, Print_text (''2'' @ [CHR 0x0A])), (1, Print_text (''22'' @ [CHR 0x0A])),
      (2, Print_text (''3'' @ [CHR 0x0A])), (2, Print_text (''33'' @ [CHR 0x0A])), (2, Print_text (''333'' @ [CHR 0x0A])),
      (- 1, Stop_scheduler)] []"

definition sched_main :: "(sched_job queued list \<Rightarrow> nat) \<Rightarrow> string option" where
  "sched_main pick = sched_run pick False sched_jobs"

subsection \<open>What they do\<close>

abbreviation most_important_first :: "'h queued list \<Rightarrow> bool" where
  "most_important_first \<equiv> sorted_wrt (\<lambda>a b. \<not> less_important a b)"

lemma execute_all_sorted:
  assumes "heap_top pick" "\<forall>h \<in> set q. adds (snd h) = []"
  shows "\<exists>hs. execute_all pick adds q = Some hs \<and> mset hs = mset q \<and> most_important_first hs"
  using assms(2)
proof (induction "length q" arbitrary: q)
  case 0
  then show ?case by (subst execute_all.simps) simp
next
  case (Suc n)
  note pops = heap_top.length_pop [OF assms(1)] heap_top.set_pop [OF assms(1)] heap_top.mset_pop [OF assms(1)]
    heap_top.top_mem [OF assms(1)]
  have q: "q \<noteq> []" using Suc.hyps by auto
  have "n = length (pop_top pick q)" using pops(1) [OF q] Suc.hyps by simp
  moreover have "\<forall>h \<in> set (pop_top pick q). adds (snd h) = []" using pops(2) [OF q] Suc.prems by auto
  ultimately obtain hs where hs: "execute_all pick adds (pop_top pick q) = Some hs" "mset hs = mset (pop_top pick q)" "most_important_first hs"
    using Suc.hyps(1) by blast
  have "adds (snd (q ! pick q)) = []" using Suc.prems pops(4) [OF q] by blast
  then have "execute_all pick adds q = Some (q ! pick q # hs)" using q hs(1) by (subst execute_all.simps) simp
  moreover have "set hs \<subseteq> set q" using hs(2) pops(2) [OF q] by (metis set_mset_mset)
  then have "most_important_first (q ! pick q # hs)" using hs(3) heap_top.top_greatest [OF assms(1)] by auto
  moreover have "mset (q ! pick q # hs) = mset q" using pops(3) [OF q] hs(2) by simp
  ultimately show ?case by blast
qed

text \<open>
  A handler that adds a more important one while it runs is lost and found: the new handler is popped in its place, without having run,
  and the old one runs again, and so on for ever.
\<close>

lemma execute_all_loses:
  assumes "heap_top pick" "adds h = [(p', h')]" "less_important (p, h) (p', h')"
  shows "execute_all pick adds [(p, h)] = None"
proof -
  have pick: "pick [(p, h)] = 0" using heap_top.top_in [OF assms(1), of "[(p, h)]"] by simp
  have pick2: "pick [(p, h), (p', h')] = 1"
  proof -
    have "pick [(p, h), (p', h')] < 2" using heap_top.top_in [OF assms(1), of "[(p, h), (p', h')]"] by simp
    moreover have "pick [(p, h), (p', h')] \<noteq> 0"
    proof
      assume "pick [(p, h), (p', h')] = 0"
      then show False using heap_top.top_greatest [OF assms(1), of "(p', h')" "[(p, h), (p', h')]"] assms(3) by simp
    qed
    ultimately show ?thesis by simp
  qed
  have again: "pop_top pick (fold (\<lambda>(p, k). add_handler p k) (adds (snd ([(p, h)] ! pick [(p, h)]))) [(p, h)]) = [(p, h)]"
    by (simp add: pick assms(2) add_handler_def pop_top_def remove_at_def pick2)
  have "pk = pick \<and> ad = adds \<longrightarrow> q \<noteq> [(p, h)]" if "execute_all pk ad q = Some y" for pk ad q y
    using that
  proof (rule execute_all.raw_induct [where P = "\<lambda>pk ad q y. pk = pick \<and> ad = adds \<longrightarrow> q \<noteq> [(p, h)]", rotated])
    fix ex :: "('a queued list \<Rightarrow> nat) \<Rightarrow> ('a \<Rightarrow> 'a queued list) \<Rightarrow> 'a queued list \<Rightarrow> 'a queued list option" and pk ad q y
    assume ih: "\<And>pk ad q y. ex pk ad q = Some y \<Longrightarrow> pk = pick \<and> ad = adds \<longrightarrow> q \<noteq> [(p, h)]"
      and step: "(if q = [] then Some []
      else let h = q ! pk q; q = fold (\<lambda>(p, k). add_handler p k) (ad (snd h)) q
           in Option.bind (ex pk ad (pop_top pk q)) (\<lambda>hs. Some (h # hs))) = Some y"
    show "pk = pick \<and> ad = adds \<longrightarrow> q \<noteq> [(p, h)]"
    proof (intro impI notI)
      assume "pk = pick \<and> ad = adds" "q = [(p, h)]"
      then obtain hs where "ex pick adds [(p, h)] = Some hs" using step again by (auto simp: Let_def bind_eq_Some_conv)
      then show False using ih by blast
    qed
  qed
  then show ?thesis by (cases "execute_all pick adds [(p, h)]") auto
qed

text \<open>The scheduler prints the texts in the order of their priorities and returns.\<close>

fun printed_texts :: "sched_job queued list \<Rightarrow> string" where
  "printed_texts [] = []"
| "printed_texts ((p, Print_text t) # q) = t @ printed_texts q"
| "printed_texts ((p, Stop_scheduler) # q) = []"

lemma sched_run_sorted:
  assumes "heap_top pick" "Stop_scheduler \<in> snd ` set q"
  shows "\<exists>hs. sched_run pick False q = Some (printed_texts hs) \<and> mset hs = mset q \<and> most_important_first hs"
  using assms(2)
proof (induction "length q" arbitrary: q)
  case (Suc n)
  note pops = heap_top.length_pop [OF assms(1)] heap_top.set_pop [OF assms(1)] heap_top.mset_pop [OF assms(1)]
  have q: "q \<noteq> []" using Suc.hyps by auto
  define x where "x = q ! pick q"
  have greatest: "\<not> less_important x y" if "y \<in> set q" for y using heap_top.top_greatest [OF assms(1) that] by (simp add: x_def)
  have m: "add_mset x (mset (pop_top pick q)) = mset q" using pops(3) [OF q] by (simp add: x_def)
  show ?case
  proof (cases "snd x")
    case (Print_text t)
    have "Stop_scheduler \<in> snd ` set (pop_top pick q)"
      using Suc.prems m Print_text by (metis (no_types, lifting) imageE image_eqI insert_iff sched_job.distinct(1) set_mset_add_mset_insert set_mset_mset)
    moreover have "n = length (pop_top pick q)" using pops(1) [OF q] Suc.hyps by simp
    ultimately obtain hs where hs: "sched_run pick False (pop_top pick q) = Some (printed_texts hs)" "mset hs = mset (pop_top pick q)"
      "most_important_first hs" using Suc.hyps(1) by blast
    have "sched_run pick False q = Some (t @ printed_texts hs)" using q hs(1) Print_text by (subst sched_run.simps) (simp add: x_def)
    then have "sched_run pick False q = Some (printed_texts (x # hs))" using Print_text by (cases x) simp
    moreover have "set hs = set (pop_top pick q)" using hs(2) by (rule mset_eq_setD)
    then have "most_important_first (x # hs)" using hs(3) pops(2) [OF q] greatest by auto
    moreover have "mset (x # hs) = mset q" using m hs(2) by simp
    ultimately show ?thesis by blast
  next
    case Stop_scheduler
    define hs where "hs = x # rev (sort_key (sint \<circ> fst) (pop_top pick q))"
    have "sched_run pick False q = Some []"
      using q Stop_scheduler by (subst sched_run.simps) (simp add: x_def, subst sched_run.simps, simp)
    then have "sched_run pick False q = Some (printed_texts hs)" using Stop_scheduler by (cases x) (simp add: hs_def)
    moreover have "mset hs = mset q" using m by (simp add: hs_def)
    moreover have "most_important_first (rev (sort_key (sint \<circ> fst) (pop_top pick q)))"
    proof -
      have "sorted_wrt (\<lambda>a b. sint (fst a) \<le> sint (fst b)) (sort_key (sint \<circ> fst) (pop_top pick q))"
        using sorted_sort_key [of "sint \<circ> fst" "pop_top pick q"] by (simp add: sorted_wrt_map comp_def)
      then show ?thesis unfolding sorted_wrt_rev by (rule sorted_wrt_mono_rel [rotated]) (simp add: less_important_def)
    qed
    then have "most_important_first hs" using greatest pops(2) [OF q] by (auto simp: hs_def)
    ultimately show ?thesis by blast
  qed
qed simp

lemma sched_main_prints:
  assumes "heap_top pick"
  shows "\<exists>hs. sched_main pick = Some (printed_texts hs) \<and> mset hs = mset sched_jobs \<and> most_important_first hs"
  unfolding sched_main_def by (rule sched_run_sorted [OF assms]) (simp add: sched_jobs_def sched_execute_def)

text \<open>When one round of \<open>main\<close> completes all three operations, the handlers run in the order of their priorities.\<close>

lemma prioritised_main_prints:
  assumes "heap_top pick" "mset r = {#Low_priority, Middle_priority, High_priority#}"
  shows "prioritised_main pick [r] = Some (handler_prints High_priority @ handler_prints Middle_priority @ handler_prints Low_priority)"
proof -
  have q: "fold (\<lambda>h. add_handler (wrapped_with h) h) r q = q @ map (\<lambda>h. (wrapped_with h, h)) r" for r q
    by (induction r arbitrary: q) (simp_all add: add_handler_def)
  obtain hs where hs: "execute_all pick (\<lambda>_. []) (map (\<lambda>h. (wrapped_with h, h)) r) = Some hs" "mset hs = mset (map (\<lambda>h. (wrapped_with h, h)) r)"
    "most_important_first hs" using execute_all_sorted [OF assms(1), of "map (\<lambda>h. (wrapped_with h, h)) r" "\<lambda>_. []"] by auto
  have m: "mset hs = {#(0, Low_priority), (42, Middle_priority), (100, High_priority)#}" using hs(2) assms(2) by simp
  then have "length hs = 3" by (metis size_mset size_add_mset size_empty numeral_3_eq_3)
  then obtain a b c where abc: "hs = [a, b, c]" by (auto simp: numeral_3_eq_3 length_Suc_conv)
  have "{#a, b, c#} = {#(0, Low_priority), (42, Middle_priority), (100, High_priority)#}" using m abc by simp
  then have "a = (100, High_priority) \<and> b = (42, Middle_priority) \<and> c = (0, Low_priority)"
    using hs(3) by (auto simp: abc add_eq_conv_ex less_important_def)
  then show ?thesis using hs(1) abc by (simp add: q)
qed

end
