(* ===== verification/Steady_Timer.thy ===== *)
theory Steady_Timer
  imports Main
begin

text \<open>
  Time points of the steady clock, in nanoseconds, and what the examples use of Asio's
  \<open>steady_timer\<close>, as its reference (\<open>boost_asio/reference/basic_waitable_timer\<close>) documents it: the
  handler of a wait runs once, after the expiry, or because the timer was cancelled; setting the expiry
  cancels all waits; cancelling does not change the expiry. The handlers here ignore their error
  code, so a timer is its expiry and the numbers of handlers that wait and that were cancelled.
\<close>

definition time_max :: int where "time_max = 2 ^ 63 - 1"
definition time_min :: int where "time_min = - (2 ^ 63)"
definition seconds :: "int \<Rightarrow> int" where "seconds n = n * 10 ^ 9"

record timer =
  expiry :: int
  waiting :: nat
  aborted :: nat

definition cancel :: "timer \<Rightarrow> timer" where
  "cancel d = d\<lparr>waiting := 0, aborted := aborted d + waiting d\<rparr>"

definition expires_at :: "int \<Rightarrow> timer \<Rightarrow> timer" where
  "expires_at t d = (cancel d)\<lparr>expiry := t\<rparr>"

definition async_wait :: "timer \<Rightarrow> timer" where
  "async_wait d = d\<lparr>waiting := Suc (waiting d)\<rparr>"

definition handlers :: "timer \<Rightarrow> nat" where
  "handlers d = waiting d + aborted d"

definition fires :: "int \<Rightarrow> timer \<Rightarrow> bool" where
  "fires t d \<longleftrightarrow> 0 < aborted d \<or> 0 < waiting d \<and> expiry d \<le> t"

definition fired :: "timer \<Rightarrow> timer" where
  "fired d = (if 0 < aborted d then d\<lparr>aborted := aborted d - 1\<rparr> else d\<lparr>waiting := waiting d - 1\<rparr>)"

definition new_timer :: timer where "new_timer = \<lparr>expiry = 0, waiting = 0, aborted = 0\<rparr>"

lemma handlers_simps [simp]:
  "handlers (cancel d) = handlers d" "handlers (expires_at t d) = handlers d"
  "handlers (async_wait d) = Suc (handlers d)" "expiry (cancel d) = expiry d"
  "expiry (expires_at t d) = t" "expiry (async_wait d) = expiry d" "expiry (fired d) = expiry d"
  "handlers new_timer = 0" "waiting (cancel d) = 0" "waiting (expires_at t d) = 0"
  "aborted (expires_at t d) = handlers d" "waiting (async_wait d) = Suc (waiting d)"
  "aborted (async_wait d) = aborted d" "waiting new_timer = 0" "aborted new_timer = 0"
  by (simp_all add: handlers_def cancel_def expires_at_def async_wait_def fired_def new_timer_def)

lemma fires_handlers: "fires t d \<Longrightarrow> 0 < handlers d"
  by (auto simp: fires_def handlers_def)

lemma fires_now: "0 < handlers d \<Longrightarrow> expiry d \<le> t \<Longrightarrow> fires t d"
  by (auto simp: fires_def handlers_def)

lemma handlers_fired [simp]: "handlers (fired d) = handlers d - 1"
  by (auto simp: handlers_def fired_def)

end
