(* ===== verification/Deadline_Client.thy ===== *)
theory Deadline_Client
  imports Std_Strings Std_Streams Steady_Timer
begin

text \<open>
  The client with deadlines (\<open>boost_asio/example/cpp11/timeouts/async_tcp_client.cpp\<close>): it tries its
  endpoints one after another, then reads lines and sends a heartbeat every ten seconds; one actor
  watches the deadline of the connect or read that is going on. The completion handlers run one
  after another on one thread.
\<close>

subsection \<open>State\<close>

text \<open>What the client prints, as events; endpoints and errors are given by their texts.\<close>

datatype client_event =
    Trying string
  | Connect_timed_out
  | Connect_error string
  | Connected_to string
  | Received string
  | Receive_error string
  | Heartbeat_error string

fun event_text :: "client_event \<Rightarrow> string" where
  "event_text (Trying e) = ''Trying '' @ e @ ''...'' @ [NL]"
| "event_text Connect_timed_out = ''Connect timed out'' @ [NL]"
| "event_text (Connect_error m) = ''Connect error: '' @ m @ [NL]"
| "event_text (Connected_to e) = ''Connected to '' @ e @ [NL]"
| "event_text (Received l) = ''Received: '' @ l @ [NL]"
| "event_text (Receive_error m) = ''Error on receive: '' @ m @ [NL]"
| "event_text (Heartbeat_error m) = ''Error on heartbeat: '' @ m @ [NL]"

text \<open>
  The members, the pending operations, the clock, and, for the statements, the bytes received, the
  lines taken from them, when the last connect or read was started, and when each heartbeat was.
\<close>

record tcp_client =
  cl_stopped :: bool
  endpoints :: "string list"
  cl_open :: bool
  cl_input_buffer :: string
  cl_deadline :: timer
  heartbeat_timer :: timer
  connecting :: "nat option"
  cl_reading :: bool
  cl_writing :: bool
  cl_now :: int
  cl_log :: "client_event list"
  cl_bytes :: string
  cl_lines :: "string list"
  op_since :: int
  heartbeats :: "int list"

definition cl_cout :: "tcp_client \<Rightarrow> string" where
  "cl_cout c = concat (map event_text (cl_log c))"

definition print :: "client_event \<Rightarrow> tcp_client \<Rightarrow> tcp_client" where
  "print e c = c\<lparr>cl_log := cl_log c @ [e]\<rparr>"

definition fresh_client :: "int \<Rightarrow> tcp_client" where
  "fresh_client t = \<lparr>cl_stopped = False, endpoints = [], cl_open = False, cl_input_buffer = [],
     cl_deadline = new_timer, heartbeat_timer = new_timer, connecting = None, cl_reading = False,
     cl_writing = False, cl_now = t, cl_log = [], cl_bytes = [], cl_lines = [], op_since = t, heartbeats = []\<rparr>"

subsection \<open>Operations\<close>

definition client_stop :: "tcp_client \<Rightarrow> tcp_client" where
  "client_stop c = c\<lparr>cl_stopped := True, cl_open := False, cl_deadline := cancel (cl_deadline c),
     heartbeat_timer := cancel (heartbeat_timer c)\<rparr>"

text \<open>\<open>async_connect\<close> opens the socket; if that fails, which \<open>opens\<close> says, its handler is told.\<close>

definition start_connect :: "bool \<Rightarrow> nat \<Rightarrow> tcp_client \<Rightarrow> tcp_client" where
  "start_connect opens k c =
     (if k < length (endpoints c)
      then (print (Trying (endpoints c ! k)) c)\<lparr>cl_deadline := expires_at (cl_now c + seconds 60) (cl_deadline c),
             op_since := cl_now c, connecting := Some k, cl_open := cl_open c \<or> opens\<rparr>
      else client_stop c)"

definition start_read :: "tcp_client \<Rightarrow> tcp_client" where
  "start_read c = c\<lparr>cl_deadline := expires_at (cl_now c + seconds 30) (cl_deadline c), op_since := cl_now c,
     cl_reading := True\<rparr>"

definition start_write :: "tcp_client \<Rightarrow> tcp_client" where
  "start_write c =
     (if cl_stopped c then c else c\<lparr>cl_writing := True, heartbeats := heartbeats c @ [cl_now c]\<rparr>)"

definition wait_deadline :: "tcp_client \<Rightarrow> tcp_client" where
  "wait_deadline c = c\<lparr>cl_deadline := async_wait (cl_deadline c)\<rparr>"

definition client_start :: "string list \<Rightarrow> bool \<Rightarrow> tcp_client \<Rightarrow> tcp_client" where
  "client_start es opens c = wait_deadline (start_connect opens 0 (c\<lparr>endpoints := es\<rparr>))"

subsection \<open>Completion handlers\<close>

definition handle_connect :: "string option \<Rightarrow> bool \<Rightarrow> nat \<Rightarrow> tcp_client \<Rightarrow> tcp_client" where
  "handle_connect error opens k c0 =
     (let c = c0\<lparr>connecting := None\<rparr>
      in if cl_stopped c then c
         else if \<not> cl_open c then start_connect opens (Suc k) (print Connect_timed_out c)
         else case error of
           Some m \<Rightarrow> start_connect opens (Suc k) ((print (Connect_error m) c)\<lparr>cl_open := False\<rparr>)
         | None \<Rightarrow> start_write (start_read (print (Connected_to (endpoints c ! k)) c)))"

text \<open>As in the server, the read has appended \<open>bytes\<close>, and \<open>n\<close> is the length of the first line.\<close>

definition handle_read :: "string option \<Rightarrow> string \<Rightarrow> tcp_client \<Rightarrow> tcp_client" where
  "handle_read error bytes c0 =
     (let c = c0\<lparr>cl_reading := False, cl_input_buffer := cl_input_buffer c0 @ bytes, cl_bytes := cl_bytes c0 @ bytes\<rparr>
      in if cl_stopped c then c
         else case error of
           None \<Rightarrow>
             let n = Suc (length (takeWhile (\<lambda>x. x \<noteq> NL) (cl_input_buffer c)));
                 l = take (n - 1) (cl_input_buffer c);
                 c = c\<lparr>cl_input_buffer := drop n (cl_input_buffer c), cl_lines := cl_lines c @ [l]\<rparr>
             in start_read (if l \<noteq> [] then print (Received l) c else c)
         | Some m \<Rightarrow> client_stop (print (Receive_error m) c))"

definition handle_write :: "string option \<Rightarrow> tcp_client \<Rightarrow> tcp_client" where
  "handle_write error c0 =
     (let c = c0\<lparr>cl_writing := False\<rparr>
      in if cl_stopped c then c
         else case error of
           None \<Rightarrow> c\<lparr>heartbeat_timer := async_wait (expires_at (cl_now c + seconds 10) (heartbeat_timer c))\<rparr>
         | Some m \<Rightarrow> client_stop (print (Heartbeat_error m) c))"

definition heartbeat_due :: "tcp_client \<Rightarrow> tcp_client" where
  "heartbeat_due c = start_write (c\<lparr>heartbeat_timer := fired (heartbeat_timer c)\<rparr>)"

definition client_check_deadline :: "tcp_client \<Rightarrow> tcp_client" where
  "client_check_deadline c0 =
     (let c = c0\<lparr>cl_deadline := fired (cl_deadline c0)\<rparr>
      in if cl_stopped c then c
         else wait_deadline
           (if expiry (cl_deadline c) \<le> cl_now c
            then c\<lparr>cl_open := False, cl_deadline := expires_at time_max (cl_deadline c)\<rparr> else c))"

subsection \<open>Steps\<close>

text \<open>
  Time passes, an operation completes, or the user stops the client. An operation pending when the
  socket is closed still completes, with an error or, if it was done before, without.
\<close>

inductive client_step :: "tcp_client \<Rightarrow> tcp_client \<Rightarrow> bool" where
  client_tick: "cl_now c < t \<Longrightarrow> t + seconds 60 < time_max \<Longrightarrow> client_step c (c\<lparr>cl_now := t\<rparr>)"
| connect_done: "connecting c = Some k \<Longrightarrow> client_step c (handle_connect error opens k c)"
| read_done: "cl_reading c \<Longrightarrow> error \<noteq> None \<or> NL \<in> set (cl_input_buffer c @ bytes) \<Longrightarrow>
    client_step c (handle_read error bytes c)"
| write_done: "cl_writing c \<Longrightarrow> client_step c (handle_write error c)"
| heartbeat_fires: "fires (cl_now c) (heartbeat_timer c) \<Longrightarrow> client_step c (heartbeat_due c)"
| client_deadline_fires: "fires (cl_now c) (cl_deadline c) \<Longrightarrow> client_step c (client_check_deadline c)"
| user_stops: "client_step c (client_stop c)"

inductive client_reachable :: "string list \<Rightarrow> tcp_client \<Rightarrow> bool" for es where
  client_started: "0 \<le> t \<Longrightarrow> t + seconds 60 < time_max \<Longrightarrow> es \<noteq> [] \<Longrightarrow>
    client_reachable es (client_start es opens (fresh_client t))"
| client_more: "client_reachable es c \<Longrightarrow> client_step c d \<Longrightarrow> client_reachable es d"

subsection \<open>main\<close>

text \<open>
  Exit status, error output, and the host and service to resolve; an exception while they are
  resolved or the client runs is given by its text.
\<close>

definition client_main :: "string list \<Rightarrow> string option \<Rightarrow> nat \<times> string \<times> (string \<times> string) option" where
  "client_main argv exception =
     (if length argv \<noteq> 3 then (1, ''Usage: client <host> <port>'' @ [NL], None)
      else (0, case exception of None \<Rightarrow> [] | Some w \<Rightarrow> ''Exception: '' @ w @ [NL], Some (argv ! 1, argv ! 2)))"

end
