(* ===== verification/Deadline_Server.thy ===== *)
theory Deadline_Server
  imports Std_Strings Std_Streams Steady_Timer
begin

text \<open>
  The server with deadlines (\<open>boost_asio/example/cpp11/timeouts/server.cpp\<close>): sessions that read
  lines and publish them on a channel, whose subscribers are the sessions and a UDP broadcaster.
  Every session has two actors that watch deadlines, one that reads and one that writes; one thread
  runs the completion handlers one after another.
\<close>

subsection \<open>State\<close>

text \<open>
  A session with its members and pending operations, and, for the statements below, the bytes it
  received, the lines it took from them, the messages it was asked to deliver, what it has written, and
  the time of its last read and write.
\<close>

record tcp_session =
  socket_open :: bool
  input_buffer :: string
  input_deadline :: timer
  output_queue :: "string list"
  non_empty_output_queue :: timer
  output_deadline :: timer
  ts_reading :: bool
  ts_writing :: bool
  ts_bytes :: string
  ts_lines :: "string list"
  ts_delivered :: "string list"
  ts_written :: "string list"
  read_since :: int
  write_since :: int

datatype subscriber = Broadcaster | Tcp_session nat

record dl_state =
  now :: int
  subscribers :: "subscriber set"
  tcp :: "nat \<Rightarrow> tcp_session"
  tcp_so_far :: nat
  datagrams :: "string list"
  published :: "(nat \<times> string) list" \<comment> \<open>each message of the channel with the session it is from\<close>

definition on_tcp :: "nat \<Rightarrow> (tcp_session \<Rightarrow> tcp_session) \<Rightarrow> dl_state \<Rightarrow> dl_state" where
  "on_tcp i f s = s\<lparr>tcp := (tcp s)(i := f (tcp s i))\<rparr>"

subsection \<open>Session\<close>

definition new_tcp_session :: tcp_session where
  "new_tcp_session = \<lparr>socket_open = True, input_buffer = [], input_deadline = expires_at time_max new_timer,
     output_queue = [], non_empty_output_queue = expires_at time_max new_timer,
     output_deadline = expires_at time_max new_timer, ts_reading = False, ts_writing = False,
     ts_bytes = [], ts_lines = [], ts_delivered = [], ts_written = [], read_since = 0, write_since = 0\<rparr>"

definition stopped :: "tcp_session \<Rightarrow> bool" where
  "stopped p \<longleftrightarrow> \<not> socket_open p"

definition wake_output :: "tcp_session \<Rightarrow> tcp_session" where
  "wake_output p = p\<lparr>non_empty_output_queue := expires_at time_min (non_empty_output_queue p)\<rparr>"

definition tcp_deliver :: "string \<Rightarrow> tcp_session \<Rightarrow> tcp_session" where
  "tcp_deliver m p = wake_output (p\<lparr>output_queue := output_queue p @ [m @ [NL]], ts_delivered := ts_delivered p @ [m]\<rparr>)"

interpretation tcp_subscriber: message_sink tcp_deliver ts_delivered
  by unfold_locales (simp add: tcp_deliver_def wake_output_def)

definition read_line :: "int \<Rightarrow> tcp_session \<Rightarrow> tcp_session" where
  "read_line t p =
     p\<lparr>input_deadline := expires_at (t + seconds 30) (input_deadline p), ts_reading := True, read_since := t\<rparr>"

definition await_output :: "tcp_session \<Rightarrow> tcp_session" where
  "await_output p = p\<lparr>non_empty_output_queue := async_wait (non_empty_output_queue p)\<rparr>"

definition write_line :: "int \<Rightarrow> tcp_session \<Rightarrow> tcp_session" where
  "write_line t p =
     p\<lparr>output_deadline := expires_at (t + seconds 30) (output_deadline p), ts_writing := True, write_since := t\<rparr>"

text \<open>The argument \<open>deadline\<close> of \<open>check_deadline\<close> is a reference to one of two members.\<close>

datatype which = Input | Output

fun deadline :: "which \<Rightarrow> tcp_session \<Rightarrow> timer" where
  "deadline Input p = input_deadline p"
| "deadline Output p = output_deadline p"

fun on_deadline :: "which \<Rightarrow> (timer \<Rightarrow> timer) \<Rightarrow> tcp_session \<Rightarrow> tcp_session" where
  "on_deadline Input f p = p\<lparr>input_deadline := f (input_deadline p)\<rparr>"
| "on_deadline Output f p = p\<lparr>output_deadline := f (output_deadline p)\<rparr>"

definition check_deadline :: "which \<Rightarrow> tcp_session \<Rightarrow> tcp_session" where
  "check_deadline w p = on_deadline w async_wait p"

subsection \<open>Channel\<close>

definition channel_join :: "subscriber \<Rightarrow> dl_state \<Rightarrow> dl_state" where
  "channel_join x s = s\<lparr>subscribers := insert x (subscribers s)\<rparr>"

definition channel_leave :: "subscriber \<Rightarrow> dl_state \<Rightarrow> dl_state" where
  "channel_leave x s = s\<lparr>subscribers := subscribers s - {x}\<rparr>"

definition udp_deliver :: "string \<Rightarrow> dl_state \<Rightarrow> dl_state" where
  "udp_deliver m s = s\<lparr>datagrams := datagrams s @ [m]\<rparr>"

interpretation udp_subscriber: message_sink udp_deliver datagrams
  by unfold_locales (simp add: udp_deliver_def)

text \<open>The order in which the set of pointers is traversed makes no difference.\<close>

definition channel_deliver :: "nat \<Rightarrow> string \<Rightarrow> dl_state \<Rightarrow> dl_state" where
  "channel_deliver i m s0 =
     (let s = (if Broadcaster \<in> subscribers s0 then udp_deliver m s0 else s0)
      in s\<lparr>published := published s @ [(i, m)],
           tcp := (\<lambda>j. if Tcp_session j \<in> subscribers s then tcp_deliver m (tcp s j) else tcp s j)\<rparr>)"

definition stop :: "nat \<Rightarrow> dl_state \<Rightarrow> dl_state" where
  "stop i s =
     on_tcp i (\<lambda>p. p\<lparr>socket_open := False, input_deadline := cancel (input_deadline p),
         non_empty_output_queue := cancel (non_empty_output_queue p),
         output_deadline := cancel (output_deadline p)\<rparr>)
       (channel_leave (Tcp_session i) s)"

definition tcp_start :: "nat \<Rightarrow> dl_state \<Rightarrow> dl_state" where
  "tcp_start i s =
     (let s = channel_join (Tcp_session i) s
      in on_tcp i (\<lambda>p. check_deadline Output (await_output (check_deadline Input (read_line (now s) p)))) s)"

subsection \<open>Completion handlers\<close>

text \<open>
  \<open>async_read_until\<close> has appended \<open>bytes\<close> to the buffer; without an error the buffer contains a
  newline, and \<open>n\<close> is the length of the first line with its newline.
\<close>

definition on_line :: "nat \<Rightarrow> bool \<Rightarrow> string \<Rightarrow> dl_state \<Rightarrow> dl_state" where
  "on_line i error bytes s0 =
     (let s = on_tcp i (\<lambda>p. p\<lparr>ts_reading := False, input_buffer := input_buffer p @ bytes,
            ts_bytes := ts_bytes p @ bytes\<rparr>) s0
      in if stopped (tcp s i) then s
         else if \<not> error then
           let n = Suc (length (takeWhile (\<lambda>c. c \<noteq> NL) (input_buffer (tcp s i))));
               msg = take (n - 1) (input_buffer (tcp s i));
               s = on_tcp i (\<lambda>p. p\<lparr>input_buffer := drop n (input_buffer p), ts_lines := ts_lines p @ [msg]\<rparr>) s;
               s = (if msg \<noteq> [] then channel_deliver i msg s
                    else if output_queue (tcp s i) = []
                    then on_tcp i (\<lambda>p. wake_output (p\<lparr>output_queue := output_queue p @ [[NL]]\<rparr>)) s
                    else s)
           in on_tcp i (read_line (now s)) s
         else stop i s)"

definition on_output_ready :: "nat \<Rightarrow> dl_state \<Rightarrow> dl_state" where
  "on_output_ready i s0 =
     (let s = on_tcp i (\<lambda>p. p\<lparr>non_empty_output_queue := fired (non_empty_output_queue p)\<rparr>) s0
      in if stopped (tcp s i) then s
         else if output_queue (tcp s i) = []
         then on_tcp i (\<lambda>p. await_output
                (p\<lparr>non_empty_output_queue := expires_at time_max (non_empty_output_queue p)\<rparr>)) s
         else on_tcp i (write_line (now s)) s)"

definition on_line_written :: "nat \<Rightarrow> bool \<Rightarrow> dl_state \<Rightarrow> dl_state" where
  "on_line_written i error s0 =
     (let s = on_tcp i (\<lambda>p. p\<lparr>ts_writing := False\<rparr>) s0
      in if stopped (tcp s i) then s
         else if \<not> error
         then on_tcp i (\<lambda>p. await_output (p\<lparr>output_queue := tl (output_queue p),
                ts_written := ts_written p @ [hd (output_queue p)]\<rparr>)) s
         else stop i s)"

definition on_deadline_fired :: "which \<Rightarrow> nat \<Rightarrow> dl_state \<Rightarrow> dl_state" where
  "on_deadline_fired w i s0 =
     (let s = on_tcp i (on_deadline w fired) s0
      in if stopped (tcp s i) then s
         else if expiry (deadline w (tcp s i)) \<le> now s then stop i s
         else on_tcp i (check_deadline w) s)"

definition on_dl_accept :: "bool \<Rightarrow> dl_state \<Rightarrow> dl_state" where
  "on_dl_accept error s =
     (if \<not> error
      then let i = tcp_so_far s
           in tcp_start i (on_tcp i (\<lambda>_. new_tcp_session) (s\<lparr>tcp_so_far := Suc i\<rparr>))
      else s)"

text \<open>The constructor of the server: the broadcaster joins the empty channel, before any session.\<close>

definition dl_server :: "int \<Rightarrow> (nat \<Rightarrow> tcp_session) \<Rightarrow> dl_state" where
  "dl_server t f = channel_join Broadcaster
     \<lparr>now = t, subscribers = {}, tcp = f, tcp_so_far = 0, datagrams = [], published = []\<rparr>"

subsection \<open>Steps\<close>

text \<open>
  Time passes, or an operation of a session completes. A session not yet accepted has none pending.
\<close>

inductive dl_step :: "dl_state \<Rightarrow> dl_state \<Rightarrow> bool" where
  tick: "now s < t \<Longrightarrow> t + seconds 30 < time_max \<Longrightarrow> dl_step s (s\<lparr>now := t\<rparr>)"
| line: "i < tcp_so_far s \<Longrightarrow> ts_reading (tcp s i) \<Longrightarrow>
    error \<or> NL \<in> set (input_buffer (tcp s i) @ bytes) \<Longrightarrow> dl_step s (on_line i error bytes s)"
| output_ready: "i < tcp_so_far s \<Longrightarrow> fires (now s) (non_empty_output_queue (tcp s i)) \<Longrightarrow>
    dl_step s (on_output_ready i s)"
| line_written: "i < tcp_so_far s \<Longrightarrow> ts_writing (tcp s i) \<Longrightarrow> dl_step s (on_line_written i error s)"
| deadline_fires: "i < tcp_so_far s \<Longrightarrow> fires (now s) (deadline w (tcp s i)) \<Longrightarrow>
    dl_step s (on_deadline_fired w i s)"
| dl_accepted: "dl_step s (on_dl_accept error s)"

inductive dl_reachable :: "dl_state \<Rightarrow> bool" where
  dl_boot: "0 \<le> t \<Longrightarrow> t + seconds 30 < time_max \<Longrightarrow> dl_reachable (dl_server t f)"
| dl_more: "dl_reachable s \<Longrightarrow> dl_step s t \<Longrightarrow> dl_reachable t"

subsection \<open>main\<close>

text \<open>
  Exit status, error output, and the port and the broadcast address and port the server is asked
  for; an exception while the server is made or run is given by its text.
\<close>

definition dl_main :: "string list \<Rightarrow> string option \<Rightarrow> nat \<times> string \<times> (int \<times> string \<times> int) option" where
  "dl_main argv exception =
     (if length argv \<noteq> 4 then (1, ''Usage: server <listen_port> <bcast_address> <bcast_port>'' @ [CHR 0x0A], None)
      else (0, case exception of None \<Rightarrow> [] | Some w \<Rightarrow> ''Exception: '' @ w @ [CHR 0x0A],
            Some (atoi (argv ! 1) mod 2 ^ 16, argv ! 2, atoi (argv ! 3) mod 2 ^ 16)))"

end
