(* ===== verification/Deadline_Properties.thy ===== *)
theory Deadline_Properties
  imports Deadline_Server
begin

text \<open>
  The server with deadlines: each session takes exactly the lines of its input and publishes them in
  order; a message in a queue is always on its way; deadlines are enforced; a stopped session comes to
  rest. And the write deadline, which is never taken back, can stop a healthy session.
\<close>

subsection \<open>Sessions\<close>

lemma tcp_on_tcp [simp]: "tcp (on_tcp i f s) j = (if j = i then f (tcp s i) else tcp s j)"
  by (simp add: on_tcp_def)

lemma on_tcp_frame [simp]:
  "now (on_tcp i f s) = now s" "subscribers (on_tcp i f s) = subscribers s"
  "tcp_so_far (on_tcp i f s) = tcp_so_far s" "datagrams (on_tcp i f s) = datagrams s"
  "published (on_tcp i f s) = published s"
  by (simp_all add: on_tcp_def)

lemma stop_simps [simp]:
  "now (stop i s) = now s" "subscribers (stop i s) = subscribers s - {Tcp_session i}"
  "tcp_so_far (stop i s) = tcp_so_far s" "datagrams (stop i s) = datagrams s"
  "published (stop i s) = published s"
  "tcp (stop i s) j = (if j = i then (tcp s i)\<lparr>socket_open := False,
     input_deadline := cancel (input_deadline (tcp s i)),
     non_empty_output_queue := cancel (non_empty_output_queue (tcp s i)),
     output_deadline := cancel (output_deadline (tcp s i))\<rparr> else tcp s j)"
  by (simp_all add: stop_def channel_leave_def)

lemma channel_deliver_simps [simp]:
  "now (channel_deliver i m s) = now s" "subscribers (channel_deliver i m s) = subscribers s"
  "tcp_so_far (channel_deliver i m s) = tcp_so_far s"
  "published (channel_deliver i m s) = published s @ [(i, m)]"
  "Broadcaster \<in> subscribers s \<Longrightarrow> datagrams (channel_deliver i m s) = datagrams s @ [m]"
  "tcp (channel_deliver i m s) j =
     (if Tcp_session j \<in> subscribers s then tcp_deliver m (tcp s j) else tcp s j)"
  by (simp_all add: channel_deliver_def udp_deliver_def Let_def)

subsection \<open>Invariant\<close>

definition output_handlers :: "tcp_session \<Rightarrow> nat" where
  "output_handlers p = handlers (non_empty_output_queue p) + (if ts_writing p then 1 else 0)"

text \<open>Of any session: an actor has at most one handler; what was read and what was asked to be delivered
  is all there.\<close>

definition local_ok :: "tcp_session \<Rightarrow> bool" where
  "local_ok p \<longleftrightarrow> handlers (input_deadline p) \<le> 1 \<and> handlers (output_deadline p) \<le> 1 \<and> output_handlers p \<le> 1 \<and>
     (ts_writing p \<longrightarrow> output_queue p \<noteq> []) \<and>
     filter (\<lambda>m. m \<noteq> [NL]) (ts_written p @ output_queue p) = map (\<lambda>m. m @ [NL]) (ts_delivered p) \<and>
     ts_bytes p = concat (map (\<lambda>l. l @ [NL]) (ts_lines p)) @ input_buffer p \<and> (\<forall>l \<in> set (ts_lines p). NL \<notin> set l)"

text \<open>Of an open session: every actor has its handler, the timer of the output queue is due while there is
  a message, and the deadlines are those of the last read and write.\<close>

definition alive_ok :: "tcp_session \<Rightarrow> bool" where
  "alive_ok p \<longleftrightarrow> ts_reading p \<and> handlers (input_deadline p) = 1 \<and> handlers (output_deadline p) = 1 \<and>
     output_handlers p = 1 \<and>
     (output_queue p \<noteq> [] \<longrightarrow> expiry (non_empty_output_queue p) = time_min) \<and>
     expiry (input_deadline p) = read_since p + seconds 30 \<and>
     (ts_writing p \<longrightarrow> expiry (output_deadline p) = write_since p + seconds 30)"

definition suffix_of :: "'a list \<Rightarrow> 'a list \<Rightarrow> bool" where
  "suffix_of h d \<longleftrightarrow> (\<exists>k \<le> length h. d = drop k h)"

definition session_inv :: "dl_state \<Rightarrow> nat \<Rightarrow> bool" where
  "session_inv s i \<longleftrightarrow> local_ok (tcp s i) \<and> (socket_open (tcp s i) \<longleftrightarrow> Tcp_session i \<in> subscribers s) \<and>
     (socket_open (tcp s i) \<longrightarrow> alive_ok (tcp s i) \<and> suffix_of (map snd (published s)) (ts_delivered (tcp s i))) \<and>
     map snd (filter (\<lambda>x. fst x = i) (published s)) = filter (\<lambda>l. l \<noteq> []) (ts_lines (tcp s i))"

definition dl_inv :: "dl_state \<Rightarrow> bool" where
  "dl_inv s \<longleftrightarrow> 0 \<le> now s \<and> now s + seconds 30 < time_max \<and> Broadcaster \<in> subscribers s \<and>
     datagrams s = map snd (published s) \<and> (\<forall>x \<in> set (published s). snd x \<noteq> [] \<and> fst x < tcp_so_far s) \<and>
     (\<forall>i. Tcp_session i \<in> subscribers s \<longrightarrow> i < tcp_so_far s) \<and> (\<forall>i < tcp_so_far s. session_inv s i)"

text \<open>What a handler does to its own session it may do if the two parts of the invariant are kept.\<close>

lemma own_step:
  assumes "dl_inv s" and "i < tcp_so_far s"
    and "socket_open (f (tcp s i)) = socket_open (tcp s i)" "ts_delivered (f (tcp s i)) = ts_delivered (tcp s i)"
    and "filter (\<lambda>l. l \<noteq> []) (ts_lines (f (tcp s i))) = filter (\<lambda>l. l \<noteq> []) (ts_lines (tcp s i))"
    and "local_ok (tcp s i) \<Longrightarrow> local_ok (f (tcp s i))"
    and "socket_open (tcp s i) \<Longrightarrow> local_ok (tcp s i) \<Longrightarrow> alive_ok (tcp s i) \<Longrightarrow> alive_ok (f (tcp s i))"
  shows "dl_inv (on_tcp i f s)"
proof -
  have "session_inv (on_tcp i f s) j" if "j < tcp_so_far s" for j
    using assms that by (cases "j = i") (simp_all add: dl_inv_def session_inv_def)
  then show ?thesis using assms(1) by (simp add: dl_inv_def)
qed

lemma stop_step:
  assumes "dl_inv s" and "i < tcp_so_far s"
    and "ts_delivered (f (tcp s i)) = ts_delivered (tcp s i)" "ts_lines (f (tcp s i)) = ts_lines (tcp s i)"
    and "local_ok (tcp s i) \<Longrightarrow> local_ok (f (tcp s i))"
  shows "dl_inv (stop i (on_tcp i f s))"
proof -
  have "session_inv (stop i (on_tcp i f s)) j" if "j < tcp_so_far s" for j
  proof (cases "j = i")
    case True
    have "session_inv s i" using assms(1,2) by (simp add: dl_inv_def)
    with assms(5) have "local_ok (f (tcp s i))" by (simp add: session_inv_def)
    with \<open>session_inv s i\<close> assms(3,4) True show ?thesis by (simp add: session_inv_def local_ok_def output_handlers_def)
  next
    case False
    then show ?thesis using assms(1) that by (simp add: dl_inv_def session_inv_def)
  qed
  then show ?thesis using assms(1) by (simp add: dl_inv_def)
qed

lemma on_tcp_twice [simp]: "on_tcp i f (on_tcp i g s) = on_tcp i (f \<circ> g) s"
  by (simp add: on_tcp_def)

lemma on_deadline_simps [simp]:
  "socket_open (on_deadline w g p) = socket_open p" "ts_delivered (on_deadline w g p) = ts_delivered p"
  "ts_lines (on_deadline w g p) = ts_lines p" "deadline w (on_deadline w g p) = g (deadline w p)"
  "on_deadline w g (on_deadline w h p) = on_deadline w (g \<circ> h) p"
  by (cases w; simp)+

lemma local_ok_deadline:
  assumes "local_ok p" and "handlers (g (deadline w p)) \<le> 1"
  shows "local_ok (on_deadline w g p)"
  using assms by (cases w) (simp_all add: local_ok_def output_handlers_def)

lemma alive_ok_deadline:
  assumes "alive_ok p" and "handlers (g (deadline w p)) = 1" and "expiry (g (deadline w p)) = expiry (deadline w p)"
  shows "alive_ok (on_deadline w g p)"
  using assms by (cases w) (simp_all add: alive_ok_def output_handlers_def)

lemma local_handlers: "local_ok p \<Longrightarrow> handlers (deadline w p) \<le> 1"
  by (cases w) (simp_all add: local_ok_def)

lemma dl_inv_deadline:
  assumes "dl_inv s" and "i < tcp_so_far s" and "fires (now s) (deadline w (tcp s i))"
  shows "dl_inv (on_deadline_fired w i s)"
proof -
  note pos = fires_handlers [OF assms(3)]
  have l: "local_ok (tcp s i)" using assms(1,2) by (simp add: dl_inv_def session_inv_def)
  then have h: "handlers (deadline w (tcp s i)) = 1" using pos local_handlers [OF l, of w] by simp
  have fl: "local_ok (on_deadline w fired (tcp s i))" using l h by (intro local_ok_deadline) simp_all
  consider "\<not> socket_open (tcp s i)" | "socket_open (tcp s i)" "expiry (deadline w (tcp s i)) \<le> now s"
    | "socket_open (tcp s i)" "\<not> expiry (deadline w (tcp s i)) \<le> now s" by blast
  then show ?thesis
  proof cases
    case 1
    have "dl_inv (on_tcp i (on_deadline w fired) s)"
      using 1 fl by (intro own_step assms(1,2)) simp_all
    then show ?thesis using 1 by (simp add: on_deadline_fired_def stopped_def Let_def)
  next
    case 2
    have "dl_inv (stop i (on_tcp i (on_deadline w fired) s))"
      using fl by (intro stop_step assms(1,2)) simp_all
    then show ?thesis using 2 by (simp add: on_deadline_fired_def stopped_def Let_def)
  next
    case 3
    have "dl_inv (on_tcp i (check_deadline w \<circ> on_deadline w fired) s)"
      using h fl by (intro own_step assms(1,2))
        (simp_all add: check_deadline_def local_ok_deadline alive_ok_deadline l)
    then show ?thesis using 3 by (simp add: on_deadline_fired_def stopped_def Let_def)
  qed
qed

lemma output_wait: "0 < handlers (non_empty_output_queue p) \<Longrightarrow> local_ok p \<Longrightarrow>
    handlers (non_empty_output_queue p) = 1 \<and> \<not> ts_writing p"
  by (auto simp: local_ok_def output_handlers_def split: if_splits)

lemma dl_inv_output:
  assumes "dl_inv s" and "i < tcp_so_far s" and "fires (now s) (non_empty_output_queue (tcp s i))"
  shows "dl_inv (on_output_ready i s)"
proof -
  let ?p = "tcp s i" and ?f = "\<lambda>p :: tcp_session. p\<lparr>non_empty_output_queue := fired (non_empty_output_queue p)\<rparr>"
  have l: "local_ok ?p" using assms(1,2) by (simp add: dl_inv_def session_inv_def)
  then have h: "handlers (non_empty_output_queue ?p) = 1" "\<not> ts_writing ?p"
    using output_wait fires_handlers [OF assms(3)] by blast+
  consider "\<not> socket_open ?p" | "socket_open ?p" "output_queue ?p = []" | "socket_open ?p" "output_queue ?p \<noteq> []" by blast
  then show ?thesis
  proof cases
    case 1
    have "dl_inv (on_tcp i ?f s)"
      using 1 l h by (intro own_step assms(1,2)) (simp_all add: local_ok_def output_handlers_def)
    then show ?thesis using 1 by (simp add: on_output_ready_def stopped_def Let_def)
  next
    case 2
    have "dl_inv (on_tcp i ((\<lambda>p. await_output (p\<lparr>non_empty_output_queue :=
        expires_at time_max (non_empty_output_queue p)\<rparr>)) \<circ> ?f) s)"
      using 2 h by (intro own_step assms(1,2))
        (simp_all add: await_output_def local_ok_def alive_ok_def output_handlers_def)
    then show ?thesis using 2 by (simp add: on_output_ready_def stopped_def Let_def)
  next
    case 3
    have "dl_inv (on_tcp i (write_line (now s) \<circ> ?f) s)"
      using 3 h by (intro own_step assms(1,2))
        (simp_all add: write_line_def local_ok_def alive_ok_def output_handlers_def)
    then show ?thesis using 3 by (simp add: on_output_ready_def stopped_def Let_def)
  qed
qed

lemma dl_inv_written:
  assumes "dl_inv s" and "i < tcp_so_far s" and "ts_writing (tcp s i)"
  shows "dl_inv (on_line_written i error s)"
proof -
  let ?p = "tcp s i" and ?f = "\<lambda>p :: tcp_session. p\<lparr>ts_writing := False\<rparr>"
  have l: "local_ok ?p" using assms(1,2) by (simp add: dl_inv_def session_inv_def)
  then have h: "handlers (non_empty_output_queue ?p) = 0" "output_queue ?p \<noteq> []"
    using assms(3) by (auto simp: local_ok_def output_handlers_def)
  then obtain m ms where q: "output_queue ?p = m # ms" by (cases "output_queue ?p") simp_all
  have fl: "local_ok (?f ?p)" using l h by (simp add: local_ok_def output_handlers_def)
  consider "\<not> socket_open ?p" | "socket_open ?p" "error" | "socket_open ?p" "\<not> error" by blast
  then show ?thesis
  proof cases
    case 1
    have "dl_inv (on_tcp i ?f s)" using 1 fl by (intro own_step assms(1,2)) simp_all
    then show ?thesis using 1 by (simp add: on_line_written_def stopped_def Let_def)
  next
    case 2
    have "dl_inv (stop i (on_tcp i ?f s))" using fl by (intro stop_step assms(1,2)) simp_all
    then show ?thesis using 2 by (simp add: on_line_written_def stopped_def Let_def)
  next
    case 3
    have "dl_inv (on_tcp i ((\<lambda>p. await_output (p\<lparr>output_queue := tl (output_queue p),
        ts_written := ts_written p @ [hd (output_queue p)]\<rparr>)) \<circ> ?f) s)"
      using 3 h q by (intro own_step assms(1,2))
        (simp_all add: await_output_def local_ok_def alive_ok_def output_handlers_def)
    then show ?thesis using 3 by (simp add: on_line_written_def stopped_def Let_def)
  qed
qed

lemma tcp_deliver_simps [simp]:
  "socket_open (tcp_deliver m p) = socket_open p" "ts_lines (tcp_deliver m p) = ts_lines p"
  "ts_delivered (tcp_deliver m p) = ts_delivered p @ [m]"
  by (simp_all add: tcp_deliver_def wake_output_def)

lemma tcp_deliver_ok:
  assumes "m \<noteq> []"
  shows "local_ok p \<Longrightarrow> local_ok (tcp_deliver m p)" and "alive_ok p \<Longrightarrow> alive_ok (tcp_deliver m p)"
  using assms by (simp_all add: tcp_deliver_def wake_output_def local_ok_def alive_ok_def output_handlers_def)

lemma suffix_of_deliver: "suffix_of h (ts_delivered p) \<Longrightarrow> suffix_of (h @ [m]) (ts_delivered (tcp_deliver m p))"
  unfolding suffix_of_def using tcp_subscriber.keeps_up [of p _ h m] by (metis le_Suc_eq length_append_singleton)

text \<open>A session publishes a line and goes on reading.\<close>

lemma publish_step:
  assumes "dl_inv s" and "i < tcp_so_far s" and "socket_open (tcp s i)" and "m \<noteq> []"
    and "socket_open (f (tcp s i))" "ts_delivered (f (tcp s i)) = ts_delivered (tcp s i)"
    and "ts_lines (f (tcp s i)) = ts_lines (tcp s i) @ [m]"
    and "\<And>p. socket_open (g p) = socket_open p" "\<And>p. ts_delivered (g p) = ts_delivered p" "\<And>p. ts_lines (g p) = ts_lines p"
    and "local_ok (g (tcp_deliver m (f (tcp s i))))" and "alive_ok (g (tcp_deliver m (f (tcp s i))))"
  shows "dl_inv (on_tcp i g (channel_deliver i m (on_tcp i f s)))"
proof -
  let ?t = "on_tcp i g (channel_deliver i m (on_tcp i f s))"
  have si: "session_inv s j" if "j < tcp_so_far s" for j using assms(1) that by (simp add: dl_inv_def)
  have "session_inv ?t j" if j: "j < tcp_so_far s" for j
  proof (cases "j = i")
    case True
    have "Tcp_session i \<in> subscribers s" using si [OF assms(2)] assms(3) by (simp add: session_inv_def)
    then have t: "tcp ?t i = g (tcp_deliver m (f (tcp s i)))" by simp
    have "suffix_of (map snd (published s) @ [m]) (ts_delivered (f (tcp s i)) @ [m])"
      using suffix_of_deliver [of "map snd (published s)" "tcp s i" m] si [OF assms(2)] assms(3,6)
      by (simp add: session_inv_def)
    then show ?thesis using si [OF assms(2)] assms True t \<open>Tcp_session i \<in> subscribers s\<close>
      by (simp add: session_inv_def)
  next
    case False
    then show ?thesis using si [OF j] assms(4) tcp_deliver_ok [OF assms(4), of "tcp s j"]
        suffix_of_deliver [of "map snd (published s)" "tcp s j" m] by (simp add: session_inv_def)
  qed
  then show ?thesis using assms(1,2,4) by (simp add: dl_inv_def)
qed

lemma dl_inv_line:
  assumes "dl_inv s" and "i < tcp_so_far s" and "error \<or> NL \<in> set (input_buffer (tcp s i) @ bytes)"
  shows "dl_inv (on_line i error bytes s)"
proof -
  let ?p = "tcp s i" and ?b = "input_buffer (tcp s i) @ bytes"
  let ?f = "\<lambda>p :: tcp_session. p\<lparr>ts_reading := False, input_buffer := input_buffer p @ bytes, ts_bytes := ts_bytes p @ bytes\<rparr>"
  have l: "local_ok ?p" and al: "socket_open ?p \<Longrightarrow> alive_ok ?p"
    using assms(1,2) by (simp_all add: dl_inv_def session_inv_def)
  have fl: "local_ok (?f ?p)" using l by (simp add: local_ok_def output_handlers_def)
  consider "\<not> socket_open ?p" | "socket_open ?p" "error" | "socket_open ?p" "\<not> error" by blast
  then show ?thesis
  proof cases
    case 1
    have "dl_inv (on_tcp i ?f s)" using 1 fl by (intro own_step assms(1,2)) simp_all
    then show ?thesis using 1 by (simp add: on_line_def stopped_def Let_def)
  next
    case 2
    have "dl_inv (stop i (on_tcp i ?f s))" using fl by (intro stop_step assms(1,2)) simp_all
    then show ?thesis using 2 by (simp add: on_line_def stopped_def Let_def)
  next
    case 3
    define m where "m = takeWhile (\<lambda>c. c \<noteq> NL) ?b"
    have b: "?b = m @ NL # drop (Suc (length m)) ?b"
      unfolding m_def by (rule first_line) (use assms(3) 3(2) in simp)
    have tm: "take (length m) ?b = m" by (subst b) simp
    have nl: "NL \<notin> set m" unfolding m_def by (auto dest: set_takeWhileD)
    let ?g = "\<lambda>p :: tcp_session. p\<lparr>input_buffer := drop (Suc (length m)) (input_buffer p), ts_lines := ts_lines p @ [m]\<rparr>"
    have on: "on_line i error bytes s = on_tcp i (read_line (now s))
       (if m \<noteq> [] then channel_deliver i m (on_tcp i (?g \<circ> ?f) s)
        else if output_queue ?p = []
        then on_tcp i ((\<lambda>p. wake_output (p\<lparr>output_queue := output_queue p @ [[NL]]\<rparr>)) \<circ> (?g \<circ> ?f)) s
        else on_tcp i (?g \<circ> ?f) s)"
      using 3 by (simp add: on_line_def stopped_def Let_def m_def [symmetric] tm del: take_append take_eq_Nil take_eq_Nil2)
    have gl: "local_ok ((?g \<circ> ?f) ?p)"
    proof -
      have "ts_bytes ?p @ bytes = concat (map (\<lambda>l. l @ [NL]) (ts_lines ?p)) @ ?b"
        using l by (simp add: local_ok_def)
      also have "\<dots> = concat (map (\<lambda>l. l @ [NL]) (ts_lines ?p)) @ m @ NL # drop (Suc (length m)) ?b"
        by (subst b) simp
      finally show ?thesis using fl nl by (simp add: local_ok_def output_handlers_def)
    qed
    note own = own_step [OF assms(1,2)]
    show ?thesis
    proof (cases "m = []")
      case False
      have "dl_inv (on_tcp i (read_line (now s)) (channel_deliver i m (on_tcp i (?g \<circ> ?f) s)))"
      proof (rule publish_step [OF assms(1,2) 3(1) False])
        show "local_ok (read_line (now s) (tcp_deliver m ((?g \<circ> ?f) ?p)))"
          using tcp_deliver_ok(1) [OF False gl] by (simp add: read_line_def local_ok_def output_handlers_def)
        show "alive_ok (read_line (now s) (tcp_deliver m ((?g \<circ> ?f) ?p)))"
          using al [OF 3(1)] by (simp add: read_line_def tcp_deliver_def wake_output_def alive_ok_def output_handlers_def)
      qed (use 3(1) in \<open>simp_all add: read_line_def\<close>)
      then show ?thesis using False on by simp
    next
      case True
      show ?thesis
      proof (cases "output_queue ?p = []")
        case e: True
        have "dl_inv (on_tcp i (read_line (now s) \<circ>
            ((\<lambda>p. wake_output (p\<lparr>output_queue := output_queue p @ [[NL]]\<rparr>)) \<circ> (?g \<circ> ?f))) s)"
          using True e gl by (intro own)
            (simp_all add: read_line_def wake_output_def local_ok_def alive_ok_def output_handlers_def)
        then show ?thesis using True e on by simp
      next
        case ne: False
        have "dl_inv (on_tcp i (read_line (now s) \<circ> (?g \<circ> ?f)) s)"
          using True gl by (intro own) (simp_all add: read_line_def local_ok_def alive_ok_def output_handlers_def)
        then show ?thesis using True ne on by simp
      qed
    qed
  qed
qed

lemma dl_inv_accept: "dl_inv s \<Longrightarrow> dl_inv (on_dl_accept error s)"
proof (cases error)
  case False
  assume a: "dl_inv s"
  let ?i = "tcp_so_far s" and ?t = "on_dl_accept error s"
  have t: "now ?t = now s" "subscribers ?t = insert (Tcp_session ?i) (subscribers s)" "tcp_so_far ?t = Suc ?i"
    "datagrams ?t = datagrams s" "published ?t = published s"
    "tcp ?t j = (if j = ?i then check_deadline Output (await_output (check_deadline Input
       (read_line (now s) new_tcp_session))) else tcp s j)" for j
    using False by (simp_all add: on_dl_accept_def tcp_start_def channel_join_def Let_def)
  have "filter (\<lambda>x. fst x = ?i) (published s) = []" using a by (auto simp: dl_inv_def filter_empty_conv)
  moreover have "suffix_of h []" for h :: "string list" by (auto simp: suffix_of_def intro: exI [of _ "length h"])
  ultimately have "session_inv ?t ?i"
    by (simp add: session_inv_def t local_ok_def alive_ok_def output_handlers_def check_deadline_def
      await_output_def read_line_def new_tcp_session_def)
  moreover have "session_inv ?t j" if "j < ?i" for j
    using a that by (simp add: dl_inv_def session_inv_def t)
  ultimately show ?thesis using a by (auto simp: dl_inv_def t less_Suc_eq)
qed (simp add: on_dl_accept_def)

lemma dl_inv_step: "dl_step s t \<Longrightarrow> dl_inv s \<Longrightarrow> dl_inv t"
proof (induction rule: dl_step.induct)
  case (tick s t)
  then show ?case by (simp add: dl_inv_def session_inv_def)
qed (simp_all add: dl_inv_line dl_inv_output dl_inv_written dl_inv_deadline dl_inv_accept)

lemma dl_reachable_inv: "dl_reachable s \<Longrightarrow> dl_inv s"
proof (induction rule: dl_reachable.induct)
  case (dl_boot t f)
  then show ?case by (simp add: dl_inv_def dl_server_def channel_join_def)
qed (rule dl_inv_step)

lemma reachable_session: "dl_reachable s \<Longrightarrow> i < tcp_so_far s \<Longrightarrow> session_inv s i"
  using dl_reachable_inv by (simp add: dl_inv_def)

subsection \<open>Properties\<close>

definition dl_started :: dl_state where
  "dl_started = on_dl_accept False (dl_server 0 (\<lambda>_. new_tcp_session))"

lemma dl_started: "dl_reachable dl_started" "tcp_so_far dl_started = 1" "now dl_started = 0"
  "tcp dl_started 0 = check_deadline Output (await_output (check_deadline Input (read_line 0 new_tcp_session)))"
  unfolding dl_started_def
  by (rule dl_reachable.dl_more [OF dl_reachable.dl_boot dl_step.dl_accepted])
    (simp_all add: seconds_def time_max_def on_dl_accept_def tcp_start_def channel_join_def dl_server_def Let_def)

lemmas session_simps = check_deadline_def await_output_def read_line_def new_tcp_session_def wake_output_def
  write_line_def stopped_def

text \<open>Whatever pieces the bytes of a client arrive in, its session takes exactly their complete lines, in order,
  and the messages it publishes on the channel are those of them that are not empty, in order; the
  broadcaster sends every published message.\<close>

theorem session_lines:
  assumes "dl_reachable s" and "i < tcp_so_far s"
  shows "ts_bytes (tcp s i) = concat (map (\<lambda>l. l @ [NL]) (ts_lines (tcp s i))) @ input_buffer (tcp s i) \<and>
    (\<forall>l \<in> set (ts_lines (tcp s i)). NL \<notin> set l) \<and>
    map snd (filter (\<lambda>x. fst x = i) (published s)) = filter (\<lambda>l. l \<noteq> []) (ts_lines (tcp s i)) \<and>
    datagrams s = map snd (published s)"
  using reachable_session [OF assms] dl_reachable_inv [OF assms(1)]
  by (auto simp: session_inv_def local_ok_def dl_inv_def)

theorem session_lines_witness:
  "let s = on_line 0 False (''hi'' @ [NL] @ ''yo'') dl_started
   in datagrams s = [''hi''] \<and> ts_bytes (tcp s 0) = concat (map (\<lambda>l. l @ [NL]) (ts_lines (tcp s 0))) @ ''yo''"
proof -
  let ?s = "on_line 0 False (''hi'' @ [NL] @ ''yo'') dl_started"
  have "dl_step dl_started ?s"
    by (rule dl_step.line) (simp_all add: dl_started session_simps)
  from dl_reachable.dl_more [OF dl_started(1) this] have r: "dl_reachable ?s" .
  have "Tcp_session 0 \<in> subscribers dl_started" "published dl_started = []"
    by (simp_all add: dl_started_def on_dl_accept_def tcp_start_def channel_join_def dl_server_def Let_def)
  then have "published ?s = [(0, ''hi'')]" "input_buffer (tcp ?s 0) = ''yo''" "tcp_so_far ?s = 1"
    by (simp_all add: on_line_def Let_def dl_started tcp_deliver_def session_simps)
  then show ?thesis using session_lines [OF r, of 0] by simp
qed

text \<open>What an open session has written and has still to write are, heartbeats aside, the messages the channel
  published from some point on, in order and each with a newline.\<close>

theorem session_order:
  assumes "dl_reachable s" and "i < tcp_so_far s" and "socket_open (tcp s i)"
  shows "\<exists>k \<le> length (published s). filter (\<lambda>m. m \<noteq> [NL]) (ts_written (tcp s i) @ output_queue (tcp s i)) =
    map (\<lambda>x. snd x @ [NL]) (drop k (published s))"
proof -
  have "suffix_of (map snd (published s)) (ts_delivered (tcp s i))"
    and q: "filter (\<lambda>m. m \<noteq> [NL]) (ts_written (tcp s i) @ output_queue (tcp s i)) =
      map (\<lambda>m. m @ [NL]) (ts_delivered (tcp s i))"
    using reachable_session [OF assms(1,2)] assms(3) by (simp_all add: session_inv_def local_ok_def)
  then obtain k where "k \<le> length (published s)" "ts_delivered (tcp s i) = map snd (drop k (published s))"
    by (auto simp: suffix_of_def drop_map)
  then show ?thesis unfolding q by (intro exI [of _ k]) simp
qed

theorem session_order_witness:
  "\<exists>k \<le> length (published dl_started). filter (\<lambda>m. m \<noteq> [NL])
     (ts_written (tcp dl_started 0) @ output_queue (tcp dl_started 0)) = map (\<lambda>x. snd x @ [NL]) (drop k (published dl_started))"
  by (rule session_order [OF dl_started(1)]) (simp_all add: dl_started session_simps)

text \<open>C24. No wake-up is lost: while an open session has a message in its queue, either it is writing, or its output
  actor can run now, and then starts to write.\<close>

theorem queue_moves:
  assumes "dl_reachable s" and "i < tcp_so_far s" and "socket_open (tcp s i)" and "output_queue (tcp s i) \<noteq> []"
  shows "ts_writing (tcp s i) \<or> (dl_step s (on_output_ready i s) \<and> ts_writing (tcp (on_output_ready i s) i))"
proof (rule disjCI)
  assume w: "\<not> (dl_step s (on_output_ready i s) \<and> ts_writing (tcp (on_output_ready i s) i))"
  have a: "alive_ok (tcp s i)" using reachable_session [OF assms(1,2)] assms(3) by (simp add: session_inv_def)
  have "0 \<le> now s" using dl_reachable_inv [OF assms(1)] by (simp add: dl_inv_def)
  show "ts_writing (tcp s i)"
  proof (rule ccontr)
    assume nw: "\<not> ts_writing (tcp s i)"
    then have "0 < handlers (non_empty_output_queue (tcp s i))" "expiry (non_empty_output_queue (tcp s i)) \<le> now s"
      using a assms(4) \<open>0 \<le> now s\<close> by (simp_all add: alive_ok_def output_handlers_def time_min_def)
    then have "fires (now s) (non_empty_output_queue (tcp s i))" by (rule fires_now)
    from dl_step.output_ready [OF assms(2) this] w assms(3,4) show False
      by (simp add: on_output_ready_def stopped_def write_line_def Let_def)
  qed
qed

theorem queue_moves_witness:
  "let s = on_line 0 False [NL] dl_started in dl_step s (on_output_ready 0 s) \<and> ts_writing (tcp (on_output_ready 0 s) 0)"
proof -
  let ?s = "on_line 0 False [NL] dl_started"
  have "dl_step dl_started ?s"
    by (rule dl_step.line) (simp_all add: dl_started session_simps)
  from dl_reachable.dl_more [OF dl_started(1) this] have r: "dl_reachable ?s" .
  have "socket_open (tcp ?s 0)" "output_queue (tcp ?s 0) = [[NL]]" "\<not> ts_writing (tcp ?s 0)" "tcp_so_far ?s = 1"
    by (simp_all add: on_line_def Let_def dl_started session_simps)
  then show ?thesis using queue_moves [OF r, of 0] by simp
qed

text \<open>C25. Deadlines are enforced, and not too early: of an open session a handler that watches the input deadline can run
  and stop the session once the last read was started 30 seconds ago, and does not stop it before; while
  a write is going on the same holds of the output deadline and the start of the write.\<close>

theorem deadlines_enforced:
  assumes "dl_reachable s" and "i < tcp_so_far s" and "socket_open (tcp s i)"
  shows "(\<not> socket_open (tcp (on_deadline_fired Input i s) i) \<longleftrightarrow> read_since (tcp s i) + seconds 30 \<le> now s) \<and>
    (read_since (tcp s i) + seconds 30 \<le> now s \<longrightarrow> dl_step s (on_deadline_fired Input i s)) \<and>
    (ts_writing (tcp s i) \<longrightarrow>
      (\<not> socket_open (tcp (on_deadline_fired Output i s) i) \<longleftrightarrow> write_since (tcp s i) + seconds 30 \<le> now s) \<and>
      (write_since (tcp s i) + seconds 30 \<le> now s \<longrightarrow> dl_step s (on_deadline_fired Output i s)))"
proof -
  have a: "alive_ok (tcp s i)" using reachable_session [OF assms(1,2)] assms(3) by (simp add: session_inv_def)
  have closes: "\<not> socket_open (tcp (on_deadline_fired w i s) i) \<longleftrightarrow> expiry (deadline w (tcp s i)) \<le> now s" for w
    using assms(3) by (simp add: on_deadline_fired_def stopped_def check_deadline_def Let_def)
  have "handlers (deadline w (tcp s i)) = 1" for w using a by (cases w) (simp_all add: alive_ok_def)
  then have "0 < handlers (deadline w (tcp s i))" for w by simp
  then have step: "dl_step s (on_deadline_fired w i s)" if "expiry (deadline w (tcp s i)) \<le> now s" for w
    using that by (intro dl_step.deadline_fires [OF assms(2)] fires_now)
  show ?thesis using closes [of Input] closes [of Output] step [of Input] step [of Output] a
    by (simp add: alive_ok_def)
qed

theorem deadlines_enforced_witness:
  "socket_open (tcp (on_deadline_fired Input 0 dl_started) 0) \<and>
   \<not> socket_open (tcp (on_deadline_fired Input 0 (dl_started\<lparr>now := seconds 31\<rparr>)) 0)"
proof -
  have "dl_step dl_started (dl_started\<lparr>now := seconds 31\<rparr>)"
    by (rule dl_step.tick) (simp_all add: dl_started seconds_def time_max_def)
  from dl_reachable.dl_more [OF dl_started(1) this] have r: "dl_reachable (dl_started\<lparr>now := seconds 31\<rparr>)" .
  have t: "socket_open (tcp dl_started 0)" "read_since (tcp dl_started 0) = 0" by (simp_all add: dl_started session_simps)
  show ?thesis using deadlines_enforced [OF dl_started(1), of 0] deadlines_enforced [OF r, of 0] t
    by (simp add: dl_started(2,3) seconds_def)
qed

text \<open>A stopped session stays stopped and silent, outside the channel, and each of its at most four pending
  handlers runs once without starting anything.\<close>

definition tcp_pending :: "tcp_session \<Rightarrow> nat" where
  "tcp_pending p = handlers (input_deadline p) + handlers (output_deadline p) + output_handlers p +
     (if ts_reading p then 1 else 0)"

theorem stopped_rests:
  assumes "dl_reachable s" and "i < tcp_so_far s" and "\<not> socket_open (tcp s i)" and "dl_step s t"
  shows "tcp_pending (tcp s i) \<le> 4 \<and> \<not> socket_open (tcp t i) \<and> Tcp_session i \<notin> subscribers t \<and>
    ts_written (tcp t i) = ts_written (tcp s i) \<and> ts_lines (tcp t i) = ts_lines (tcp s i) \<and>
    (tcp t i = tcp s i \<or> tcp_pending (tcp t i) < tcp_pending (tcp s i))"
proof -
  note pending = tcp_pending_def output_handlers_def
  have sub: "Tcp_session i \<notin> subscribers s" and l: "local_ok (tcp s i)"
    using reachable_session [OF assms(1,2)] assms(3) by (simp_all add: session_inv_def)
  have "tcp_pending (tcp s i) \<le> 4" using l by (simp add: local_ok_def tcp_pending_def)
  moreover have "\<not> socket_open (tcp t i) \<and> Tcp_session i \<notin> subscribers t \<and> ts_written (tcp t i) = ts_written (tcp s i) \<and>
    ts_lines (tcp t i) = ts_lines (tcp s i) \<and> (tcp t i = tcp s i \<or> tcp_pending (tcp t i) < tcp_pending (tcp s i))"
    using assms(4)
  proof cases
    case (line j error bytes)
    show ?thesis
    proof (cases "j = i")
      case True
      then show ?thesis using assms(3) sub line by (simp add: on_line_def stopped_def pending Let_def)
    next
      case False
      then show ?thesis using assms(3) sub line(1) by (simp add: on_line_def stopped_def Let_def)
    qed
  next
    case (output_ready j)
    then show ?thesis using assms(3) sub fires_handlers [of "now s" "non_empty_output_queue (tcp s j)"]
      by (cases "j = i") (simp_all add: on_output_ready_def stopped_def pending Let_def)
  next
    case (line_written j error)
    then show ?thesis using assms(3) sub
      by (cases "j = i") (simp_all add: on_line_written_def stopped_def pending Let_def)
  next
    case (deadline_fires j w)
    show ?thesis
    proof (cases "j = i")
      case True
      have "0 < handlers (deadline w (tcp s i))" using deadline_fires(3) fires_handlers True by simp
      then have "tcp_pending (on_deadline w fired (tcp s i)) < tcp_pending (tcp s i)"
        by (cases w) (simp_all add: pending)
      moreover have "t = on_tcp i (on_deadline w fired) s"
        using True assms(3) deadline_fires(1) by (simp add: on_deadline_fired_def stopped_def Let_def)
      moreover have "ts_written (on_deadline w fired (tcp s i)) = ts_written (tcp s i)" by (cases w) simp_all
      ultimately show ?thesis using assms(3) sub by simp
    next
      case False
      then have "tcp t i = tcp s i" "subscribers t \<subseteq> subscribers s"
        using deadline_fires(1) by (auto simp: on_deadline_fired_def Let_def)
      then show ?thesis using assms(3) sub by auto
    qed
  next
    case (dl_accepted error)
    then show ?thesis using assms(2,3) sub
      by (cases error) (simp_all add: on_dl_accept_def tcp_start_def channel_join_def Let_def)
  qed (use assms(3) sub in simp)
  ultimately show ?thesis by blast
qed

text \<open>The output deadline is set for a write and not taken back after it, so a session can be stopped although nothing
  is being written and nothing waits to be written, and its client sent a line ten seconds ago.\<close>

theorem write_deadline_outlives_write:
  "\<exists>s t. dl_reachable s \<and> socket_open (tcp s 0) \<and> \<not> ts_writing (tcp s 0) \<and> output_queue (tcp s 0) = [] \<and>
     now s - read_since (tcp s 0) = seconds 10 \<and> dl_step s t \<and> \<not> socket_open (tcp t 0)"
proof -
  define facts where "facts s n w q r d \<longleftrightarrow> dl_reachable s \<and> tcp_so_far s = 1 \<and> now s = n \<and> socket_open (tcp s 0) \<and>
    ts_writing (tcp s 0) = w \<and> output_queue (tcp s 0) = q \<and> input_buffer (tcp s 0) = [] \<and>
    read_since (tcp s 0) = r \<and> (d \<longrightarrow> expiry (output_deadline (tcp s 0)) = seconds 30)"
    for s n w q r d
  have alive: "alive_ok (tcp s 0)" if "facts s n w q r d" for s n w q r d
    using that reachable_session [of s 0] by (simp add: facts_def session_inv_def)
  have ready: "dl_step s (on_output_ready 0 s)" if "facts s n False q r d" and "expiry (non_empty_output_queue (tcp s 0)) = time_min"
    and "0 \<le> n" for s n q r d
    using that alive [OF that(1)]
    by (intro dl_step.output_ready fires_now) (simp_all add: facts_def alive_ok_def output_handlers_def time_min_def)
  have line: "dl_step s (on_line 0 False [NL] s)" if "facts s n w q r d" for s n w q r d
    using that alive [OF that] by (intro dl_step.line) (simp_all add: facts_def alive_ok_def)
  have f0: "facts dl_started 0 False [] 0 False" by (simp add: facts_def dl_started session_simps)
  define s1 where "s1 = on_line 0 False [NL] dl_started"
  have f1: "facts s1 0 False [[NL]] 0 False" and e1: "expiry (non_empty_output_queue (tcp s1 0)) = time_min"
    using f0 dl_reachable.dl_more [OF dl_started(1) line [OF f0]]
    by (simp_all add: facts_def s1_def on_line_def session_simps Let_def)
  define s2 where "s2 = on_output_ready 0 s1"
  have f2: "facts s2 0 True [[NL]] 0 True" and e2: "expiry (non_empty_output_queue (tcp s2 0)) = time_min"
    using f1 e1 dl_reachable.dl_more [OF _ ready [OF f1 e1]]
    by (simp_all add: facts_def s2_def on_output_ready_def session_simps Let_def)
  define s3 where "s3 = s2\<lparr>now := seconds 20\<rparr>"
  have ps3: "dl_step s2 s3" using f2 unfolding s3_def
    by (intro dl_step.tick) (simp_all add: facts_def seconds_def time_max_def)
  then have f3: "facts s3 (seconds 20) True [[NL]] 0 True" and e3: "expiry (non_empty_output_queue (tcp s3 0)) = time_min"
    using f2 e2 dl_reachable.dl_more [OF _ ps3] by (simp_all add: facts_def s3_def)
  define s4 where "s4 = on_line 0 False [NL] s3"
  have f4: "facts s4 (seconds 20) True [[NL]] (seconds 20) True" and e4: "expiry (non_empty_output_queue (tcp s4 0)) = time_min"
    using f3 e3 dl_reachable.dl_more [OF _ line [OF f3]]
    by (simp_all add: facts_def s4_def on_line_def session_simps Let_def)
  define s5 where "s5 = on_line_written 0 False s4"
  have ps5: "dl_step s4 s5" using f4 unfolding s5_def by (intro dl_step.line_written) (simp_all add: facts_def)
  then have f5: "facts s5 (seconds 20) False [] (seconds 20) True" and e5: "expiry (non_empty_output_queue (tcp s5 0)) = time_min"
    using f4 e4 dl_reachable.dl_more [OF _ ps5]
    by (simp_all add: facts_def s5_def on_line_written_def session_simps Let_def)
  define s6 where "s6 = s5\<lparr>now := seconds 30\<rparr>"
  have ps6: "dl_step s5 s6" using f5 unfolding s6_def
    by (intro dl_step.tick) (simp_all add: facts_def seconds_def time_max_def)
  then have f6: "facts s6 (seconds 30) False [] (seconds 20) True"
    using f5 dl_reachable.dl_more [OF _ ps6] by (simp add: facts_def s6_def)
  have "dl_step s6 (on_deadline_fired Output 0 s6)"
    using f6 alive [OF f6] by (intro dl_step.deadline_fires fires_now) (simp_all add: facts_def alive_ok_def)
  moreover have "\<not> socket_open (tcp (on_deadline_fired Output 0 s6) 0)"
    using f6 by (simp add: facts_def on_deadline_fired_def session_simps Let_def)
  moreover have "now s6 - read_since (tcp s6 0) = seconds 10" using f6 by (simp add: facts_def seconds_def)
  ultimately show ?thesis using f6 unfolding facts_def by blast
qed

end
