(* ===== verification/Deadline_Client_Properties.thy ===== *)
theory Deadline_Client_Properties
  imports Deadline_Client Deadline_Properties
begin

text \<open>
  The client with deadlines: the order in which endpoints are tried, what is printed of the lines
  received, that it always has something pending until it stops and then comes to rest, and what
  it prints when it is connected to the server with deadlines.
\<close>

subsection \<open>Frame\<close>

lemma print_simps [simp]:
  "cl_stopped (print e c) = cl_stopped c" "endpoints (print e c) = endpoints c" "cl_open (print e c) = cl_open c"
  "cl_input_buffer (print e c) = cl_input_buffer c" "cl_deadline (print e c) = cl_deadline c"
  "heartbeat_timer (print e c) = heartbeat_timer c" "connecting (print e c) = connecting c"
  "cl_reading (print e c) = cl_reading c" "cl_writing (print e c) = cl_writing c" "cl_now (print e c) = cl_now c"
  "cl_log (print e c) = cl_log c @ [e]" "cl_bytes (print e c) = cl_bytes c" "cl_lines (print e c) = cl_lines c"
  "op_since (print e c) = op_since c" "heartbeats (print e c) = heartbeats c"
  by (simp_all add: print_def)

lemma client_stop_simps [simp]:
  "cl_stopped (client_stop c)" "endpoints (client_stop c) = endpoints c" "\<not> cl_open (client_stop c)"
  "cl_input_buffer (client_stop c) = cl_input_buffer c" "cl_deadline (client_stop c) = cancel (cl_deadline c)"
  "heartbeat_timer (client_stop c) = cancel (heartbeat_timer c)" "connecting (client_stop c) = connecting c"
  "cl_reading (client_stop c) = cl_reading c" "cl_writing (client_stop c) = cl_writing c" "cl_now (client_stop c) = cl_now c"
  "cl_log (client_stop c) = cl_log c" "cl_bytes (client_stop c) = cl_bytes c" "cl_lines (client_stop c) = cl_lines c"
  "op_since (client_stop c) = op_since c" "heartbeats (client_stop c) = heartbeats c"
  by (simp_all add: client_stop_def)

subsection \<open>Invariant\<close>

definition busy :: "tcp_client \<Rightarrow> nat" where
  "busy c = handlers (heartbeat_timer c) + (if cl_writing c then 1 else 0)"

text \<open>At all times: at most one handler of each actor.\<close>

definition client_actors :: "tcp_client \<Rightarrow> bool" where
  "client_actors c \<longleftrightarrow> handlers (cl_deadline c) \<le> 1 \<and> busy c \<le> 1 \<and>
     (connecting c \<noteq> None \<longrightarrow> \<not> cl_reading c \<and> busy c = 0)"

text \<open>Before the client stops: exactly one, and the deadline of the operation that is going on.\<close>

definition client_alive :: "tcp_client \<Rightarrow> bool" where
  "client_alive c \<longleftrightarrow> handlers (cl_deadline c) = 1 \<and> (connecting c = None \<longrightarrow> cl_reading c \<and> busy c = 1) \<and>
     aborted (heartbeat_timer c) = 0 \<and>
     (cl_open c \<longrightarrow> expiry (cl_deadline c) = op_since c + (if connecting c = None then seconds 30 else seconds 60))"

text \<open>The log of the attempts to connect.\<close>

definition failure :: "client_event \<Rightarrow> bool" where
  "failure e \<longleftrightarrow> e = Connect_timed_out \<or> (\<exists>m. e = Connect_error m)"

definition attempts :: "string list \<Rightarrow> client_event list \<Rightarrow> client_event list" where
  "attempts es fs = concat (map2 (\<lambda>e f. [Trying e, f]) es fs)"

fun received :: "client_event \<Rightarrow> string list" where
  "received (Received l) = [l]"
| "received _ = []"

definition client_input :: "tcp_client \<Rightarrow> bool" where
  "client_input c \<longleftrightarrow> cl_bytes c = concat (map (\<lambda>l. l @ [NL]) (cl_lines c)) @ cl_input_buffer c \<and>
     (\<forall>l \<in> set (cl_lines c). NL \<notin> set l) \<and> concat (map received (cl_log c)) = filter (\<lambda>l. l \<noteq> []) (cl_lines c)"

definition client_tries :: "tcp_client \<Rightarrow> bool" where
  "client_tries c \<longleftrightarrow> (\<forall>k. connecting c = Some k \<longrightarrow> k < length (endpoints c) \<and>
     (\<exists>fs. length fs = k \<and> list_all failure fs \<and>
       cl_log c = attempts (take k (endpoints c)) fs @ [Trying (endpoints c ! k)]))"

definition client_paced :: "tcp_client \<Rightarrow> bool" where
  "client_paced c \<longleftrightarrow> (\<forall>t \<in> set (heartbeats c). t \<le> cl_now c) \<and>
     (\<forall>t \<in> set (heartbeats c). 0 < waiting (heartbeat_timer c) \<longrightarrow> t + seconds 10 \<le> expiry (heartbeat_timer c)) \<and>
     sorted_wrt (\<lambda>t u. t + seconds 10 \<le> u) (heartbeats c) \<and> (connecting c \<noteq> None \<longrightarrow> heartbeats c = [])"

definition client_inv :: "tcp_client \<Rightarrow> bool" where
  "client_inv c \<longleftrightarrow> 0 \<le> cl_now c \<and> cl_now c + seconds 60 < time_max \<and> client_actors c \<and>
     (\<not> cl_stopped c \<longrightarrow> client_alive c) \<and> client_input c \<and> (\<not> cl_stopped c \<longrightarrow> client_tries c) \<and> client_paced c"

lemmas client_parts = client_actors_def client_alive_def client_input_def client_paced_def busy_def

lemma attempts_snoc:
  "length fs = k \<Longrightarrow> k < length es \<Longrightarrow> attempts (take (Suc k) es) (fs @ [f]) = attempts (take k es) fs @ [Trying (es ! k), f]"
  by (simp add: attempts_def take_Suc_conv_app_nth zip_append)

lemma received_attempts: "list_all failure fs \<Longrightarrow> concat (map received (attempts es fs)) = []"
proof (induction fs arbitrary: es)
  case (Cons f fs)
  then show ?case by (cases es) (auto simp: attempts_def failure_def)
qed (simp add: attempts_def)

text \<open>The next endpoint, after a failed attempt.\<close>

lemma next_endpoint:
  assumes "client_inv c" and "\<not> cl_stopped c" and "connecting c = Some k" and "failure e"
  shows "client_inv (start_connect opens (Suc k) ((print e (c\<lparr>connecting := None\<rparr>))\<lparr>cl_open := b\<rparr>))"
proof -
  have r: "received e = []" using assms(4) by (auto simp: failure_def)
  obtain fs where fs: "length fs = k" "list_all failure fs" "k < length (endpoints c)"
    "cl_log c = attempts (take k (endpoints c)) fs @ [Trying (endpoints c ! k)]"
    using assms(1-3) by (auto simp: client_inv_def client_tries_def)
  show ?thesis
  proof (cases "Suc k < length (endpoints c)")
    case True
    have "length (fs @ [e]) = Suc k \<and> list_all failure (fs @ [e]) \<and>
      cl_log c @ [e] @ [Trying (endpoints c ! Suc k)] =
        attempts (take (Suc k) (endpoints c)) (fs @ [e]) @ [Trying (endpoints c ! Suc k)]"
      using fs assms(4) attempts_snoc [OF fs(1,3), of e] by simp
    then have "\<exists>fs. length fs = Suc k \<and> list_all failure fs \<and> cl_log c @ [e, Trying (endpoints c ! Suc k)] =
        attempts (take (Suc k) (endpoints c)) fs @ [Trying (endpoints c ! Suc k)]"
      by (intro exI [of _ "fs @ [e]"]) simp
    then show ?thesis using assms(1-3) True r
      by (simp add: client_inv_def client_parts client_tries_def start_connect_def)
  next
    case False
    then show ?thesis using assms(1-3) r by (simp add: client_inv_def client_parts start_connect_def)
  qed
qed

lemma client_inv_connect:
  assumes "client_inv c" and "connecting c = Some k"
  shows "client_inv (handle_connect error opens k c)"
proof -
  consider "cl_stopped c" | "\<not> cl_stopped c" "\<not> cl_open c" | m where "\<not> cl_stopped c" "cl_open c" "error = Some m"
    | "\<not> cl_stopped c" "cl_open c" "error = None" by (cases error) auto
  then show ?thesis
  proof cases
    case 1
    then show ?thesis using assms by (simp add: handle_connect_def client_inv_def client_parts)
  next
    case 2
    have "print Connect_timed_out (c\<lparr>connecting := None\<rparr>) = (print Connect_timed_out (c\<lparr>connecting := None\<rparr>))\<lparr>cl_open := False\<rparr>"
      using 2 by (simp add: print_def)
    with 2 next_endpoint [OF assms(1) 2(1) assms(2), of Connect_timed_out opens False] show ?thesis
      by (simp add: handle_connect_def failure_def Let_def)
  next
    case 3
    with next_endpoint [OF assms(1) 3(1) assms(2), of "Connect_error m" opens False] show ?thesis
      by (simp add: handle_connect_def failure_def Let_def)
  next
    case 4
    have "handlers (heartbeat_timer c) = 0" using assms by (simp add: client_inv_def client_actors_def busy_def)
    then have "waiting (heartbeat_timer c) = 0" by (simp add: handlers_def)
    with 4 show ?thesis using assms
      by (simp add: handle_connect_def client_inv_def client_parts client_tries_def start_write_def start_read_def Let_def)
  qed
qed

lemma client_inv_read:
  assumes "client_inv c" and "cl_reading c" and "error \<noteq> None \<or> NL \<in> set (cl_input_buffer c @ bytes)"
  shows "client_inv (handle_read error bytes c)"
proof (cases "cl_stopped c \<or> error \<noteq> None")
  case True
  show ?thesis
  proof (cases "cl_stopped c")
    case True
    then show ?thesis using assms(1) by (simp add: handle_read_def client_inv_def client_parts)
  next
    case False
    with True obtain m where "error = Some m" by blast
    then show ?thesis using assms(1) False by (simp add: handle_read_def client_inv_def client_parts Let_def)
  qed
next
  case False
  let ?b = "cl_input_buffer c @ bytes"
  define l where "l = takeWhile (\<lambda>x. x \<noteq> NL) ?b"
  have b: "?b = l @ NL # drop (Suc (length l)) ?b"
    unfolding l_def by (rule first_line) (use assms(3) False in simp)
  have tl: "take (length l) ?b = l" by (subst b) simp
  have nl: "NL \<notin> set l" unfolding l_def by (auto dest: set_takeWhileD)
  have c: "connecting c = None" using assms(1,2) by (auto simp: client_inv_def client_actors_def)
  let ?c = "c\<lparr>cl_reading := False, cl_bytes := cl_bytes c @ bytes, cl_input_buffer := drop (Suc (length l)) ?b,
    cl_lines := cl_lines c @ [l]\<rparr>"
  have "handle_read error bytes c = start_read (if l \<noteq> [] then print (Received l) ?c else ?c)"
    using False by (simp add: handle_read_def Let_def l_def [symmetric] tl del: take_append take_eq_Nil take_eq_Nil2 drop_append)
  moreover have "client_inv (start_read (if l \<noteq> [] then print (Received l) ?c else ?c))"
    using assms(1) False c nl b
    by (cases "l = []") (simp_all add: client_inv_def client_parts client_tries_def start_read_def del: drop_append)
  ultimately show ?thesis by simp
qed

lemma client_inv_write:
  assumes "client_inv c" and "cl_writing c"
  shows "client_inv (handle_write error c)"
proof -
  have w: "handlers (heartbeat_timer c) = 0" "connecting c = None"
    using assms by (auto simp: client_inv_def client_actors_def busy_def)
  then show ?thesis using assms w
    by (cases error) (auto simp: handle_write_def client_inv_def client_parts client_tries_def Let_def)
qed

lemma client_inv_heartbeat:
  assumes "client_inv c" and "fires (cl_now c) (heartbeat_timer c)"
  shows "client_inv (heartbeat_due c)"
proof -
  have "0 < handlers (heartbeat_timer c)" using fires_handlers [OF assms(2)] .
  then have h: "handlers (heartbeat_timer c) = 1" "\<not> cl_writing c" "connecting c = None"
    using assms(1) by (auto simp: client_inv_def client_actors_def busy_def split: if_splits)
  have f: "waiting (fired d) \<le> waiting d" for d by (simp add: fired_def)
  show ?thesis
  proof (cases "cl_stopped c")
    case True
    then show ?thesis using assms(1) h f [of "heartbeat_timer c"]
      by (auto simp: heartbeat_due_def start_write_def client_inv_def client_parts)
  next
    case False
    then have a: "aborted (heartbeat_timer c) = 0" using assms(1) by (simp add: client_inv_def client_alive_def)
    then have due: "waiting (heartbeat_timer c) = 1" "expiry (heartbeat_timer c) \<le> cl_now c"
      using assms(2) h(1) by (auto simp: fires_def handlers_def)
    then have "\<forall>t \<in> set (heartbeats c). t + seconds 10 \<le> cl_now c"
      using assms(1) by (force simp: client_inv_def client_paced_def)
    moreover have "waiting (fired (heartbeat_timer c)) = 0" "aborted (fired (heartbeat_timer c)) = 0"
      using a due by (simp_all add: fired_def)
    ultimately show ?thesis using assms(1) h False
      by (auto simp: heartbeat_due_def start_write_def client_inv_def client_parts client_tries_def sorted_wrt_append)
  qed
qed

lemma client_inv_deadline:
  assumes "client_inv c" and "fires (cl_now c) (cl_deadline c)"
  shows "client_inv (client_check_deadline c)"
proof -
  have "0 < handlers (cl_deadline c)" using fires_handlers [OF assms(2)] .
  then have "handlers (cl_deadline c) = 1" using assms(1) by (simp add: client_inv_def client_actors_def)
  then show ?thesis using assms(1)
    by (simp add: client_check_deadline_def wait_deadline_def client_inv_def client_parts client_tries_def Let_def)
qed

lemma client_inv_stop: "client_inv c \<Longrightarrow> client_inv (client_stop c)"
  by (simp add: client_inv_def client_parts)

lemma client_inv_step: "client_step c d \<Longrightarrow> client_inv c \<Longrightarrow> client_inv d"
proof (induction rule: client_step.induct)
  case (client_tick c t)
  then show ?case by (fastforce simp: client_inv_def client_parts client_tries_def)
qed (simp_all add: client_inv_connect client_inv_read client_inv_write client_inv_heartbeat client_inv_deadline
  client_inv_stop)

lemma client_inv_start:
  assumes "0 \<le> t" and "t + seconds 60 < time_max" and "es \<noteq> []"
  shows "client_inv (client_start es opens (fresh_client t))"
  using assms by (simp add: client_start_def start_connect_def wait_deadline_def fresh_client_def client_inv_def client_parts
    client_tries_def attempts_def)

lemma client_reachable_inv: "client_reachable es c \<Longrightarrow> client_inv c"
  by (induction rule: client_reachable.induct) (auto intro: client_inv_start client_inv_step)

lemma endpoints_step [simp]: "client_step c d \<Longrightarrow> endpoints d = endpoints c"
proof (induction rule: client_step.induct)
  case (connect_done c k error opens)
  then show ?case by (auto simp: handle_connect_def start_connect_def start_read_def start_write_def Let_def split: option.split)
qed (auto simp: handle_read_def handle_write_def heartbeat_due_def client_check_deadline_def wait_deadline_def
    start_read_def start_write_def Let_def split: option.split)

lemma endpoints_reachable: "client_reachable es c \<Longrightarrow> endpoints c = es"
  by (induction rule: client_reachable.induct)
    (auto simp: client_start_def wait_deadline_def start_connect_def)

subsection \<open>Properties\<close>

definition connecting_client :: tcp_client where
  "connecting_client = client_start [''a'', ''b''] True (fresh_client 0)"

lemma connecting_client:
  "client_reachable [''a'', ''b''] connecting_client" "\<not> cl_stopped connecting_client" "connecting connecting_client = Some 0"
  "cl_open connecting_client" "cl_now connecting_client = 0" "op_since connecting_client = 0"
  "cl_input_buffer connecting_client = []" "endpoints connecting_client = [''a'', ''b'']"
  unfolding connecting_client_def
  by (rule client_started) (simp_all add: seconds_def time_max_def client_start_def start_connect_def wait_deadline_def fresh_client_def)

definition connected_client :: tcp_client where
  "connected_client = handle_connect None True 0 connecting_client"

lemma connected_client:
  "client_reachable [''a'', ''b''] connected_client" "\<not> cl_stopped connected_client" "connecting connected_client = None"
  "cl_open connected_client" "cl_now connected_client = 0" "op_since connected_client = 0" "cl_reading connected_client"
  "cl_input_buffer connected_client = []" "cl_bytes connected_client = cl_bytes connecting_client"
proof -
  have "client_step connecting_client connected_client"
    unfolding connected_client_def by (rule connect_done) (rule connecting_client(3))
  then show "client_reachable [''a'', ''b''] connected_client" by (rule client_more [OF connecting_client(1)])
qed (simp_all add: connected_client_def handle_connect_def connecting_client start_read_def start_write_def Let_def)

text \<open>While the client is trying endpoint k, it has printed of each endpoint before it, in order, that it was
  tried and how that failed, and that endpoint k is being tried, and nothing else.\<close>

theorem client_tries_in_order:
  assumes "client_reachable es c" and "\<not> cl_stopped c" and "connecting c = Some k"
  shows "k < length es \<and> (\<exists>fs. length fs = k \<and> list_all failure fs \<and>
    cl_log c = attempts (take k es) fs @ [Trying (es ! k)])"
  using client_reachable_inv [OF assms(1)] assms(2,3) endpoints_reachable [OF assms(1)]
  by (simp add: client_inv_def client_tries_def)

theorem client_tries_in_order_witness:
  "\<exists>f. failure f \<and> cl_log (handle_connect (Some ''refused'') True 0 connecting_client) = [Trying ''a'', f, Trying ''b'']"
proof -
  let ?c = "handle_connect (Some ''refused'') True 0 connecting_client"
  have r: "client_reachable [''a'', ''b''] ?c"
    by (rule client_more [OF connecting_client(1)], rule connect_done, rule connecting_client(3))
  have "\<not> cl_stopped ?c" "connecting ?c = Some 1"
    by (simp_all add: handle_connect_def connecting_client start_connect_def Let_def)
  from client_tries_in_order [OF r this] show ?thesis by (auto simp: attempts_def length_Suc_conv)
qed

text \<open>C26. Until it stops the client is connecting or reading, and watched: once the connect was started 60 or the
  read 30 seconds ago its deadline handler can run and closes the socket, and not before; after that a connect moves
  on to the next endpoint or stops the client, and the error of a read stops it.\<close>

theorem client_watched:
  assumes "client_reachable es c" and "\<not> cl_stopped c"
  shows "(connecting c = None \<longleftrightarrow> cl_reading c) \<and>
    (cl_open c \<longrightarrow>
      (let limit = op_since c + (if connecting c = None then seconds 30 else seconds 60)
       in (\<not> cl_open (client_check_deadline c) \<longleftrightarrow> limit \<le> cl_now c) \<and>
          (limit \<le> cl_now c \<longrightarrow> client_step c (client_check_deadline c)))) \<and>
    (\<not> cl_open c \<longrightarrow>
      (\<forall>k error opens. connecting c = Some k \<longrightarrow>
         (if Suc k < length es then connecting (handle_connect error opens k c) = Some (Suc k)
          else cl_stopped (handle_connect error opens k c))) \<and>
      (\<forall>m. connecting c = None \<longrightarrow> client_step c (handle_read (Some m) [] c) \<and> cl_stopped (handle_read (Some m) [] c)))"
proof -
  have a: "client_alive c" "client_actors c" using client_reachable_inv [OF assms(1)] assms(2) by (simp_all add: client_inv_def)
  have h: "0 < handlers (cl_deadline c)" using a by (simp add: client_alive_def)
  have "connecting c = None \<longleftrightarrow> cl_reading c" using a by (auto simp: client_alive_def client_actors_def)
  moreover have "\<not> cl_open (client_check_deadline c) \<longleftrightarrow> expiry (cl_deadline c) \<le> cl_now c" if "cl_open c"
    using assms(2) that by (simp add: client_check_deadline_def wait_deadline_def Let_def)
  moreover have "client_step c (client_check_deadline c)" if "expiry (cl_deadline c) \<le> cl_now c"
    by (rule client_deadline_fires) (rule fires_now [OF h that])
  moreover have "expiry (cl_deadline c) = op_since c + (if connecting c = None then seconds 30 else seconds 60)" if "cl_open c"
    using a that by (simp add: client_alive_def)
  moreover have "if Suc k < length es then connecting (handle_connect error opens k c) = Some (Suc k)
      else cl_stopped (handle_connect error opens k c)" if "\<not> cl_open c" for k error opens
    using assms(2) that endpoints_reachable [OF assms(1)] by (simp add: handle_connect_def start_connect_def Let_def)
  moreover have "cl_stopped (handle_read (Some m) [] c)" for m by (simp add: handle_read_def Let_def)
  moreover have "client_step c (handle_read (Some m) [] c)" if "cl_reading c" for m using read_done [OF that] by blast
  ultimately show ?thesis by (simp add: Let_def)
qed

theorem client_watched_witness:
  "\<not> cl_open (client_check_deadline (connecting_client\<lparr>cl_now := seconds 61\<rparr>)) \<and> cl_open (client_check_deadline connecting_client)"
proof -
  let ?c = "connecting_client\<lparr>cl_now := seconds 61\<rparr>"
  have r: "client_reachable [''a'', ''b''] ?c"
    by (rule client_more [OF connecting_client(1)]) (rule client_tick; simp add: connecting_client seconds_def time_max_def)
  show ?thesis using client_watched [OF r] client_watched [OF connecting_client(1)]
    by (simp add: connecting_client Let_def seconds_def)
qed

text \<open>The client sends its heartbeats at least ten seconds apart, and none before it is connected.\<close>

theorem heartbeats_paced:
  assumes "client_reachable es c"
  shows "sorted_wrt (\<lambda>t u. t + seconds 10 \<le> u) (heartbeats c) \<and> (connecting c \<noteq> None \<longrightarrow> heartbeats c = [])"
  using client_reachable_inv [OF assms] by (simp add: client_inv_def client_paced_def)

theorem heartbeats_paced_witness: "heartbeats connecting_client = [] \<and> heartbeats connected_client = [0]"
  using heartbeats_paced [OF connecting_client(1)] connecting_client(3)
  by (simp add: connected_client_def handle_connect_def connecting_client start_write_def start_read_def Let_def)

text \<open>A stopped client stays stopped, prints and sends nothing more, and each of its at most three pending handlers runs
  once and starts nothing.\<close>

definition client_pending :: "tcp_client \<Rightarrow> nat" where
  "client_pending c = handlers (cl_deadline c) + busy c + (if cl_reading c then 1 else 0) + (if connecting c = None then 0 else 1)"

theorem stopped_client_rests:
  assumes "client_reachable es c" and "cl_stopped c" and "client_step c d"
  shows "client_pending c \<le> 3 \<and> cl_stopped d \<and> cl_log d = cl_log c \<and> heartbeats d = heartbeats c \<and>
    (client_pending d < client_pending c \<or> client_pending d = client_pending c \<and>
      (d = client_stop c \<or> (\<exists>t. d = c\<lparr>cl_now := t\<rparr>)))"
proof -
  note pending = client_pending_def busy_def
  have a: "client_actors c" using client_reachable_inv [OF assms(1)] by (simp add: client_inv_def)
  then have "client_pending c \<le> 3" by (auto simp: client_actors_def client_pending_def)
  moreover have "cl_stopped d \<and> cl_log d = cl_log c \<and> heartbeats d = heartbeats c \<and>
    (client_pending d < client_pending c \<or> client_pending d = client_pending c \<and>
      (d = client_stop c \<or> (\<exists>t. d = c\<lparr>cl_now := t\<rparr>)))"
    using assms(3)
  proof cases
    case (client_tick t)
    then show ?thesis using assms(2) by (auto simp: pending)
  next
    case (connect_done k error opens)
    then show ?thesis using assms(2) by (simp add: handle_connect_def pending)
  next
    case (read_done error bytes)
    then show ?thesis using assms(2) by (simp add: handle_read_def pending)
  next
    case (write_done error)
    then show ?thesis using assms(2) by (simp add: handle_write_def pending)
  next
    case heartbeat_fires
    have "0 < handlers (heartbeat_timer c)" using heartbeat_fires(2) by (rule fires_handlers)
    then show ?thesis using assms(2) heartbeat_fires(1) by (simp add: heartbeat_due_def start_write_def pending)
  next
    case client_deadline_fires
    have "0 < handlers (cl_deadline c)" using client_deadline_fires(2) by (rule fires_handlers)
    then show ?thesis using assms(2) client_deadline_fires(1) by (simp add: client_check_deadline_def pending)
  next
    case user_stops
    then show ?thesis using assms(2) by (simp add: pending)
  qed
  ultimately show ?thesis by blast
qed

theorem stopped_client_rests_witness:
  "cl_log (handle_connect None True 0 (client_stop connecting_client)) = [Trying ''a'']"
proof -
  have r: "client_reachable [''a'', ''b''] (client_stop connecting_client)"
    by (rule client_more [OF connecting_client(1)]) (rule user_stops)
  have "client_step (client_stop connecting_client) (handle_connect None True 0 (client_stop connecting_client))"
    by (rule connect_done) (simp add: connecting_client)
  from stopped_client_rests [OF r _ this] show ?thesis
    by (simp add: connecting_client_def client_start_def wait_deadline_def start_connect_def fresh_client_def)
qed

subsection \<open>Client and server together\<close>

lemma published_lines:
  assumes "dl_inv s" and "x \<in> set (published s)"
  shows "NL \<notin> set (snd x)" and "snd x \<noteq> []"
proof -
  have x: "fst x < tcp_so_far s" "snd x \<noteq> []" using assms by (auto simp: dl_inv_def)
  have "snd x \<in> set (map snd (filter (\<lambda>y. fst y = fst x) (published s)))" using assms(2) by auto
  also have "map snd (filter (\<lambda>y. fst y = fst x) (published s)) = filter (\<lambda>l. l \<noteq> []) (ts_lines (tcp s (fst x)))"
    using assms(1) x(1) by (simp add: dl_inv_def session_inv_def)
  finally have "snd x \<in> set (ts_lines (tcp s (fst x)))" by simp
  then show "NL \<notin> set (snd x)" using assms(1) x(1) by (auto simp: dl_inv_def session_inv_def local_ok_def)
  show "snd x \<noteq> []" by (rule x(2))
qed

text \<open>What a session has written is a text of lines, among them the first messages it was asked to deliver.\<close>

lemma written_lines:
  assumes "dl_reachable s" and "i < tcp_so_far s" and "socket_open (tcp s i)"
  obtains ls k n where "ts_written (tcp s i) = map (\<lambda>l. l @ [NL]) ls" "\<forall>l \<in> set ls. NL \<notin> set l"
    "filter (\<lambda>l. l \<noteq> []) ls = map snd (take n (drop k (published s)))"
proof -
  let ?w = "ts_written (tcp s i)" and ?q = "output_queue (tcp s i)" and ?d = "ts_delivered (tcp s i)"
  have inv: "dl_inv s" and si: "session_inv s i" using dl_reachable_inv reachable_session assms by blast+
  obtain k where d: "?d = drop k (map snd (published s))" using si assms(3) by (auto simp: session_inv_def suffix_of_def)
  have f: "filter (\<lambda>m. m \<noteq> [NL]) (?w @ ?q) = map (\<lambda>m. m @ [NL]) ?d" using si by (simp add: session_inv_def local_ok_def)
  define n where "n = length (filter (\<lambda>m. m \<noteq> [NL]) ?w)"
  have fw: "filter (\<lambda>m. m \<noteq> [NL]) ?w = map (\<lambda>m. m @ [NL]) (take n ?d)"
    using arg_cong [OF f, of "take n"] by (simp add: n_def take_map)
  have dn: "NL \<notin> set m \<and> m \<noteq> []" if "m \<in> set ?d" for m
  proof -
    have "m \<in> set (map snd (published s))" using that in_set_dropD unfolding d by metis
    then show ?thesis using published_lines [OF inv] by auto
  qed
  define ls where "ls = map butlast ?w"
  have each: "m = butlast m @ [NL] \<and> NL \<notin> set (butlast m)" if "m \<in> set ?w" for m
  proof (cases "m = [NL]")
    case False
    then have "m \<in> set (filter (\<lambda>m. m \<noteq> [NL]) ?w)" using that by simp
    then obtain l where "l \<in> set ?d" "m = l @ [NL]" unfolding fw by (auto dest: in_set_takeD)
    then show ?thesis using dn by auto
  qed simp
  have "?w = map (\<lambda>l. l @ [NL]) ls" unfolding ls_def using each by (simp add: map_idI)
  moreover have "\<forall>l \<in> set ls. NL \<notin> set l" unfolding ls_def using each by auto
  moreover have "filter (\<lambda>l. l \<noteq> []) ls = map snd (take n (drop k (published s)))"
  proof -
    have "map (\<lambda>l. l @ [NL]) (filter (\<lambda>l. l \<noteq> []) ls) = filter (\<lambda>m. m \<noteq> [NL]) (map (\<lambda>l. l @ [NL]) ls)"
      by (simp add: filter_map o_def)
    also have "\<dots> = map (\<lambda>m. m @ [NL]) (take n ?d)" using fw \<open>?w = map (\<lambda>l. l @ [NL]) ls\<close> by simp
    finally have "filter (\<lambda>l. l \<noteq> []) ls = take n ?d" by (simp add: map_injective inj_on_def inj_map_eq_map inj_def)
    then show ?thesis by (simp add: d drop_map take_map)
  qed
  ultimately show ?thesis by (rule that)
qed

text \<open>What a client prints as received, when it is connected to a session of the server and has received any part of
  what that session has written, is a run of the messages published on the channel: none lost between two
  others, none twice, none changed.\<close>

theorem client_prints_published:
  assumes "dl_reachable s" and "i < tcp_so_far s" and "socket_open (tcp s i)" and "client_reachable es c"
    and "cl_bytes c @ on_the_way = concat (ts_written (tcp s i))"
  shows "\<exists>k n. concat (map received (cl_log c)) = map snd (take n (drop k (published s)))"
proof -
  obtain ls k n where w: "ts_written (tcp s i) = map (\<lambda>l. l @ [NL]) ls" "\<forall>l \<in> set ls. NL \<notin> set l"
    "filter (\<lambda>l. l \<noteq> []) ls = map snd (take n (drop k (published s)))"
    using written_lines [OF assms(1-3)] by metis
  have c: "client_input c" using client_reachable_inv [OF assms(4)] by (simp add: client_inv_def)
  then have "concat (map (\<lambda>l. l @ [NL]) (cl_lines c)) @ (cl_input_buffer c @ on_the_way) = concat (map (\<lambda>l. l @ [NL]) ls)"
    using assms(5) w(1) by (simp add: client_input_def)
  from lines_of_prefix [OF this _ w(2)] c obtain j where "cl_lines c = take j ls" by (auto simp: client_input_def)
  then have "concat (map received (cl_log c)) = filter (\<lambda>l. l \<noteq> []) (take j ls)" using c by (simp add: client_input_def)
  also have "\<dots> = take (length (filter (\<lambda>l. l \<noteq> []) (take j ls))) (filter (\<lambda>l. l \<noteq> []) ls)"
    by (metis append_eq_conv_conj append_take_drop_id filter_append)
  also have "\<dots> = map snd (take (min (length (filter (\<lambda>l. l \<noteq> []) (take j ls))) n) (drop k (published s)))"
    unfolding w(3) by (simp add: take_map)
  finally show ?thesis by blast
qed

text \<open>One message on its way from a session back to its client.\<close>

definition dl_answered :: dl_state where
  "dl_answered = on_line_written 0 False (on_output_ready 0 (on_line 0 False (''hi'' @ [NL]) dl_started))"

lemma dl_answered:
  "dl_reachable dl_answered" "tcp_so_far dl_answered = 1" "socket_open (tcp dl_answered 0)"
  "ts_written (tcp dl_answered 0) = [''hi'' @ [NL]]" "published dl_answered = [(0, ''hi'')]"
proof -
  let ?s1 = "on_line 0 False (''hi'' @ [NL]) dl_started" and ?s2 = "on_output_ready 0 (on_line 0 False (''hi'' @ [NL]) dl_started)"
  have sub: "Tcp_session 0 \<in> subscribers dl_started" "published dl_started = []"
    by (simp_all add: dl_started_def on_dl_accept_def tcp_start_def channel_join_def dl_server_def Let_def)
  have t1: "tcp_so_far ?s1 = 1" "socket_open (tcp ?s1 0)" "output_queue (tcp ?s1 0) = [''hi'' @ [NL]]" "now ?s1 = 0"
    "published ?s1 = [(0, ''hi'')]" "ts_written (tcp ?s1 0) = []" "expiry (non_empty_output_queue (tcp ?s1 0)) = time_min"
    "0 < handlers (non_empty_output_queue (tcp ?s1 0))"
    using sub by (simp_all add: on_line_def Let_def dl_started tcp_deliver_def session_simps)
  have "dl_step dl_started ?s1" by (rule dl_step.line) (simp_all add: dl_started session_simps)
  then have r1: "dl_reachable ?s1" by (rule dl_reachable.dl_more [OF dl_started(1)])
  have "dl_step ?s1 ?s2" using t1 by (intro dl_step.output_ready fires_now) (simp_all add: time_min_def)
  then have r2: "dl_reachable ?s2" by (rule dl_reachable.dl_more [OF r1])
  have t2: "tcp_so_far ?s2 = 1" "ts_writing (tcp ?s2 0)" "socket_open (tcp ?s2 0)" "output_queue (tcp ?s2 0) = [''hi'' @ [NL]]"
    "ts_written (tcp ?s2 0) = []" "published ?s2 = [(0, ''hi'')]"
    using t1 unfolding on_output_ready_def [of 0 ?s1] by (simp_all add: session_simps Let_def)
  have "dl_step ?s2 dl_answered" unfolding dl_answered_def using t2 by (intro dl_step.line_written) simp_all
  then show "dl_reachable dl_answered" by (rule dl_reachable.dl_more [OF r2])
  show "tcp_so_far dl_answered = 1" "socket_open (tcp dl_answered 0)"
    "ts_written (tcp dl_answered 0) = [''hi'' @ [NL]]" "published dl_answered = [(0, ''hi'')]"
    using t2 unfolding dl_answered_def on_line_written_def [of 0 False ?s2] by (simp_all add: session_simps Let_def)
qed

theorem client_prints_published_witness:
  "\<exists>k n. concat (map received (cl_log (handle_read None (''hi'' @ [NL]) connected_client))) = map snd (take n (drop k (published dl_answered)))"
proof -
  let ?c = "handle_read None (''hi'' @ [NL]) connected_client"
  have r: "client_reachable [''a'', ''b''] ?c"
    by (rule client_more [OF connected_client(1)]) (rule read_done; simp add: connected_client)
  have "cl_bytes connecting_client = []"
    by (simp add: connecting_client_def client_start_def start_connect_def wait_deadline_def fresh_client_def)
  then have "cl_bytes ?c @ [] = concat (ts_written (tcp dl_answered 0))"
    by (simp add: handle_read_def connected_client dl_answered start_read_def Let_def)
  then show ?thesis
    using client_prints_published [OF dl_answered(1) _ dl_answered(3) r] dl_answered(2) by (metis less_one)
qed

end
