(* ===== verification/Icmp.thy ===== *)
theory Icmp
  imports Std_Streams Logging Std_Strings
begin

unbundle bit_operations_syntax

text \<open>
  The ping example (\<open>boost_asio/example/cpp11/icmp\<close>): the packet headers of
  \<open>icmp_header.hpp\<close> and \<open>ipv4_header.hpp\<close> as arrays of bytes with their accessors, the checksum,
  and the class \<open>pinger\<close> of \<open>ping.cpp\<close>. Bytes, \<open>short\<close> and \<open>int\<close> keep their widths.
\<close>

type_synonym u8 = "8 word"
type_synonym u16 = "16 word"
type_synonym u32 = "32 word"

definition byte :: "char \<Rightarrow> u8" where "byte c = word_of_nat (of_char c)"
definition char_of_byte :: "u8 \<Rightarrow> char" where "char_of_byte b = char_of (unat b)"

text \<open>Two bytes as a number and back; the same in both headers.\<close>

definition decode_bytes :: "u8 list \<Rightarrow> nat \<Rightarrow> nat \<Rightarrow> u16" where
  "decode_bytes rep a b = push_bit 8 (ucast (rep ! a)) + ucast (rep ! b)"

definition encode_bytes :: "nat \<Rightarrow> nat \<Rightarrow> u16 \<Rightarrow> u8 list \<Rightarrow> u8 list" where
  "encode_bytes a b n rep = rep[a := ucast (drop_bit 8 n), b := ucast (n AND 0xFF)]"

text \<open>\<open>is.read\<close> into the array from an offset on.\<close>

definition read_bytes :: "istream \<Rightarrow> nat \<Rightarrow> nat \<Rightarrow> u8 list \<Rightarrow> istream \<times> u8 list" where
  "read_bytes i off n rep =
     (let r = stream_read i n in (fst r, overwrite off (map byte (snd r)) rep))"

subsection \<open>ICMP header\<close>

datatype icmp_type = echo_reply | destination_unreachable | source_quench | redirect | echo_request
  | time_exceeded | parameter_problem | timestamp_request | timestamp_reply | info_request
  | info_reply | address_request | address_reply

primrec icmp_number :: "icmp_type \<Rightarrow> u8" where
  "icmp_number echo_reply = 0"
| "icmp_number destination_unreachable = 3"
| "icmp_number source_quench = 4"
| "icmp_number redirect = 5"
| "icmp_number echo_request = 8"
| "icmp_number time_exceeded = 11"
| "icmp_number parameter_problem = 12"
| "icmp_number timestamp_request = 13"
| "icmp_number timestamp_reply = 14"
| "icmp_number info_request = 15"
| "icmp_number info_reply = 16"
| "icmp_number address_request = 17"
| "icmp_number address_reply = 18"

record icmp_header =
  irep :: "u8 list"

definition new_icmp :: icmp_header where "new_icmp = \<lparr>irep = replicate 8 0\<rparr>"

definition icmp_get_type :: "icmp_header \<Rightarrow> u8" where "icmp_get_type h = irep h ! 0"
definition icmp_get_code :: "icmp_header \<Rightarrow> u8" where "icmp_get_code h = irep h ! 1"
definition icmp_checksum :: "icmp_header \<Rightarrow> u16" where "icmp_checksum h = decode_bytes (irep h) 2 3"
definition icmp_identifier :: "icmp_header \<Rightarrow> u16" where "icmp_identifier h = decode_bytes (irep h) 4 5"
definition icmp_sequence :: "icmp_header \<Rightarrow> u16" where "icmp_sequence h = decode_bytes (irep h) 6 7"

definition set_type :: "u8 \<Rightarrow> icmp_header \<Rightarrow> icmp_header" where "set_type n h = h\<lparr>irep := (irep h)[0 := n]\<rparr>"
definition set_code :: "u8 \<Rightarrow> icmp_header \<Rightarrow> icmp_header" where "set_code n h = h\<lparr>irep := (irep h)[1 := n]\<rparr>"
definition set_checksum :: "u16 \<Rightarrow> icmp_header \<Rightarrow> icmp_header" where "set_checksum n h = h\<lparr>irep := encode_bytes 2 3 n (irep h)\<rparr>"
definition set_identifier :: "u16 \<Rightarrow> icmp_header \<Rightarrow> icmp_header" where "set_identifier n h = h\<lparr>irep := encode_bytes 4 5 n (irep h)\<rparr>"
definition set_sequence :: "u16 \<Rightarrow> icmp_header \<Rightarrow> icmp_header" where "set_sequence n h = h\<lparr>irep := encode_bytes 6 7 n (irep h)\<rparr>"

definition icmp_read :: "istream \<Rightarrow> icmp_header \<Rightarrow> istream \<times> icmp_header" where
  "icmp_read i h = (let r = read_bytes i 0 8 (irep h) in (fst r, h\<lparr>irep := snd r\<rparr>))"

definition icmp_write :: "icmp_header \<Rightarrow> string" where
  "icmp_write h = map char_of_byte (take 8 (irep h))"

text \<open>The loop over the body, two bytes at a time.\<close>

fun body_sum :: "u32 \<Rightarrow> u8 list \<Rightarrow> u32" where
  "body_sum s [] = s"
| "body_sum s [a] = s + push_bit 8 (ucast a)"
| "body_sum s (a # b # r) = body_sum (s + push_bit 8 (ucast a) + ucast b) r"

definition compute_checksum :: "icmp_header \<Rightarrow> u8 list \<Rightarrow> icmp_header" where
  "compute_checksum h body =
     (let s = push_bit 8 (ucast (icmp_get_type h)) + ucast (icmp_get_code h) +
              ucast (icmp_identifier h) + ucast (icmp_sequence h);
          s = body_sum s body;
          s = drop_bit 16 s + (s AND 0xFFFF);
          s = s + drop_bit 16 s
      in set_checksum (ucast (NOT s)) h)"

subsection \<open>IPv4 header\<close>

record ipv4_header =
  prep :: "u8 list"

definition new_ipv4 :: ipv4_header where "new_ipv4 = \<lparr>prep = replicate 60 0\<rparr>"

definition ip_version :: "ipv4_header \<Rightarrow> u8" where "ip_version h = drop_bit 4 (prep h ! 0) AND 0xF"
definition ip_header_length :: "ipv4_header \<Rightarrow> u16" where "ip_header_length h = ucast (prep h ! 0 AND 0xF) * 4"
definition type_of_service :: "ipv4_header \<Rightarrow> u8" where "type_of_service h = prep h ! 1"
definition total_length :: "ipv4_header \<Rightarrow> u16" where "total_length h = decode_bytes (prep h) 2 3"
definition identification :: "ipv4_header \<Rightarrow> u16" where "identification h = decode_bytes (prep h) 4 5"
definition dont_fragment :: "ipv4_header \<Rightarrow> bool" where "dont_fragment h \<longleftrightarrow> prep h ! 6 AND 0x40 \<noteq> 0"
definition more_fragments :: "ipv4_header \<Rightarrow> bool" where "more_fragments h \<longleftrightarrow> prep h ! 6 AND 0x20 \<noteq> 0"
definition fragment_offset :: "ipv4_header \<Rightarrow> u16" where "fragment_offset h = decode_bytes (prep h) 6 7 AND 0x1FFF"
definition time_to_live :: "ipv4_header \<Rightarrow> u32" where "time_to_live h = ucast (prep h ! 8)"
definition protocol :: "ipv4_header \<Rightarrow> u8" where "protocol h = prep h ! 9"
definition header_checksum :: "ipv4_header \<Rightarrow> u16" where "header_checksum h = decode_bytes (prep h) 10 11"
definition source_address :: "ipv4_header \<Rightarrow> u8 list" where
  "source_address h = [prep h ! 12, prep h ! 13, prep h ! 14, prep h ! 15]"
definition destination_address :: "ipv4_header \<Rightarrow> u8 list" where
  "destination_address h = [prep h ! 16, prep h ! 17, prep h ! 18, prep h ! 19]"

definition ipv4_read :: "istream \<Rightarrow> ipv4_header \<Rightarrow> istream \<times> ipv4_header" where
  "ipv4_read i h =
     (let r = read_bytes i 0 20 (prep h);
          h = h\<lparr>prep := snd r\<rparr>;
          i = (if ip_version h \<noteq> 4 then (fst r)\<lparr>failbit := True\<rparr> else fst r);
          options_length = int (unat (ip_header_length h)) - 20
      in if options_length < 0 \<or> options_length > 40 then (i\<lparr>failbit := True\<rparr>, h)
         else let r = read_bytes i 20 (nat options_length) (prep h) in (fst r, h\<lparr>prep := snd r\<rparr>))"

subsection \<open>pinger\<close>

datatype timer_wait = Waiting_for_timeout | Waiting_to_send

record pinger =
  sequence_number :: u16
  num_replies :: nat
  timer_pending :: "timer_wait option"
  packets_sent :: "string list"
  printed :: string

text \<open>The process id, cut to 16 bits, is a parameter.\<close>

definition ping_body :: string where
  "ping_body = [CHR 0x22] @ ''Hello!'' @ [CHR 0x22] @ '' from Asio ping.''"

definition echo_packet :: "u16 \<Rightarrow> u16 \<Rightarrow> string" where
  "echo_packet pid n =
     (let h = set_type (icmp_number echo_request) new_icmp;
          h = set_code 0 h;
          h = set_identifier pid h;
          h = set_sequence n h;
          h = compute_checksum h (map byte ping_body)
      in icmp_write h @ ping_body)"

definition start_send :: "u16 \<Rightarrow> pinger \<Rightarrow> pinger" where
  "start_send pid p =
     (let n = sequence_number p + 1
      in p\<lparr>sequence_number := n, packets_sent := packets_sent p @ [echo_packet pid n],
           num_replies := 0, timer_pending := Some Waiting_for_timeout\<rparr>)"

definition new_pinger :: "u16 \<Rightarrow> pinger" where
  "new_pinger pid = start_send pid \<lparr>sequence_number = 0, num_replies = 0, timer_pending = None,
     packets_sent = [], printed = []\<rparr>"

text \<open>The handlers of the timer ignore the error code: a cancelled wait runs them too.\<close>

definition handle_timeout :: "pinger \<Rightarrow> pinger" where
  "handle_timeout p =
     (let p = (if num_replies p = 0 then p\<lparr>printed := printed p @ ''Request timed out'' @ [NL]\<rparr> else p)
      in p\<lparr>timer_pending := Some Waiting_to_send\<rparr>)"

definition dotted :: "u8 list \<Rightarrow> string" where
  "dotted a = concat (map (\<lambda>b. to_string (unat b) @ ''.'') (butlast a)) @ to_string (unat (last a))"

text \<open>
  \<open>cancelled\<close> says that this reply interrupts the wait; the elapsed time is a parameter.
  A packet is at most 64 KiB, so the subtraction of \<open>size_t\<close> values is exact once both headers
  have been read.
\<close>

definition handle_receive :: "u16 \<Rightarrow> nat \<Rightarrow> string \<Rightarrow> pinger \<Rightarrow> bool \<times> pinger" where
  "handle_receive pid elapsed packet p =
     (let (i, ip) = ipv4_read (open_stream packet) new_ipv4;
          (i, ic) = icmp_read i new_icmp
      in if \<not> failbit i \<and> icmp_get_type ic = icmp_number echo_reply \<and> icmp_identifier ic = pid \<and>
            icmp_sequence ic = sequence_number p
         then (num_replies p = 0,
               p\<lparr>num_replies := num_replies p + 1,
                 printed := printed p @ to_string (length packet - unat (ip_header_length ip)) @
                   '' bytes from '' @ dotted (source_address ip) @
                   '': icmp_seq='' @ to_string (unat (icmp_sequence ic)) @
                   '', ttl='' @ to_string (unat (time_to_live ip)) @
                   '', time='' @ to_string elapsed @ [NL]\<rparr>)
         else (False, p))"

definition ping_main :: "nat \<Rightarrow> string option \<Rightarrow> nat \<times> string" where
  "ping_main argc exception =
     (if argc \<noteq> 2
      then (1, ''Usage: ping <host>'' @ [NL] @ ''(You may need to run this program as root.)'' @ [NL])
      else (0, case exception of None \<Rightarrow> [] | Some w \<Rightarrow> ''Exception: '' @ w @ [NL]))"

end
