(* ===== verification/Icmp_Properties.thy ===== *)
theory Icmp_Properties
  imports Icmp
begin

text \<open>
  The packets of the ping example: fields and headers are read back as they were written, the
  checksum is the one a receiver expects, and a reply is counted exactly when it is ours.
\<close>

subsection \<open>Words of two bytes\<close>

lemma unat_byte: "unat b < 256" for b :: u8
  using unsigned_less [of b, where ?'a = nat] by simp

lemma unat_short: "unat n < 65536" for n :: u16
  using unsigned_less [of n, where ?'a = nat] by simp

lemma pair_word: "push_bit 8 (ucast a) + ucast b = (word_of_nat (256 * unat a + unat b) :: 'a :: len word)"
  for a b :: u8
proof -
  have "(word_of_nat (256 * unat a + unat b) :: 'a word) = 256 * word_of_nat (unat a) + word_of_nat (unat b)"
    by (simp only: of_nat_add of_nat_mult of_nat_numeral)
  also have "\<dots> = push_bit 8 (ucast a) + ucast b"
    by (simp add: push_bit_eq_mult mult.commute)
  finally show ?thesis by (rule sym)
qed

lemma unat_decode: "unat (decode_bytes rep a b) = 256 * unat (rep ! a) + unat (rep ! b)"
  using unat_byte [of "rep ! a"] unat_byte [of "rep ! b"]
  unfolding decode_bytes_def pair_word unat_of_nat by simp

lemma unat_high: "unat (ucast (drop_bit 8 n) :: u8) = unat n div 256" for n :: u16
proof -
  have "unat n div 256 < 256" using unat_short [of n] by simp
  then show ?thesis unfolding unsigned_ucast_eq unat_drop_bit_eq by (simp add: drop_bit_eq_div take_bit_eq_mod)
qed

lemma unat_low: "unat (ucast (n AND 0xFF) :: u8) = unat n mod 256" for n :: u16
proof -
  have "n AND 0xFF = take_bit 8 n" by (simp add: take_bit_eq_mask mask_eq_exp_minus_1)
  then show ?thesis unfolding unsigned_ucast_eq by (simp add: unsigned_take_bit_eq take_bit_eq_mod del: take_bit_eq_mod) (simp add: take_bit_eq_mod)?
qed

lemma encode_simps [simp]: "length (encode_bytes a b n rep) = length rep"
  by (simp add: encode_bytes_def)

lemma nth_encode:
  "a \<noteq> b \<Longrightarrow> a < length rep \<Longrightarrow> b < length rep \<Longrightarrow> unat (encode_bytes a b n rep ! a) = unat n div 256"
  "a \<noteq> b \<Longrightarrow> a < length rep \<Longrightarrow> b < length rep \<Longrightarrow> unat (encode_bytes a b n rep ! b) = unat n mod 256"
  "c \<noteq> a \<Longrightarrow> c \<noteq> b \<Longrightarrow> encode_bytes a b n rep ! c = rep ! c"
  by (simp_all add: encode_bytes_def unat_high unat_low)

lemma decode_bytes_encode [simp]:
  assumes "a \<noteq> b" and "a < length rep" and "b < length rep"
  shows "decode_bytes (encode_bytes a b n rep) a b = n"
proof -
  have "unat (decode_bytes (encode_bytes a b n rep) a b) = unat n"
    using nth_encode(1,2) [OF assms] by (simp add: unat_decode)
  then show ?thesis by (rule unsigned_word_eqI)
qed

lemma decode_bytes_encode_other [simp]:
  "c \<notin> {a, b} \<Longrightarrow> d \<notin> {a, b} \<Longrightarrow> decode_bytes (encode_bytes a b n rep) c d = decode_bytes rep c d"
  by (simp add: decode_bytes_def encode_bytes_def)

subsection \<open>The checksum\<close>

fun pair_sum :: "u8 list \<Rightarrow> nat" where
  "pair_sum [] = 0"
| "pair_sum [a] = 256 * unat a"
| "pair_sum (a # b # r) = 256 * unat a + unat b + pair_sum r"

lemma pair_sum_append: "even (length xs) \<Longrightarrow> pair_sum (xs @ ys) = pair_sum xs + pair_sum ys"
  by (induction xs rule: pair_sum.induct) simp_all

lemma pair_sum_le: "pair_sum xs \<le> 65535 * length xs"
proof (induction xs rule: pair_sum.induct)
  case (2 a)
  then show ?case using unat_byte [of a] by simp
next
  case (3 a b r)
  then show ?case using unat_byte [of a] unat_byte [of b] by simp
qed simp

lemma body_sum_nat: "body_sum s xs = s + word_of_nat (pair_sum xs)"
proof (induction s xs rule: body_sum.induct)
  case (2 s a)
  show ?case using pair_word [of a 0, where ?'a = 32] by simp
next
  case (3 s a b r)
  have "body_sum s (a # b # r) = s + (push_bit 8 (ucast a) + ucast b) + word_of_nat (pair_sum r)"
    unfolding body_sum.simps 3 by (simp only: add.assoc)
  then show ?case unfolding pair_word by (simp only: pair_sum.simps of_nat_add add.assoc)
qed simp

lemma fold_carries:
  fixes s :: nat
  assumes "s < 2 ^ 32"
  defines "t \<equiv> s div 65536 + s mod 65536"
  shows "\<exists>k > 0. s + 65535 - (t + t div 65536) mod 65536 = 65535 * k" and "t + t div 65536 < 2 ^ 32"
proof -
  define q where "q = s div 65536"
  have q: "q < 65536" "s mod 65536 < 65536" using assms(1) by (simp_all add: q_def)
  have t: "t = q + s mod 65536" by (simp add: t_def q_def)
  have "s = 65536 * q + s mod 65536" by (simp add: q_def)
  then have s: "s = 65535 * q + t" unfolding t by linarith
  have t_less: "t < 131071" using q unfolding t by linarith
  then show "t + t div 65536 < 2 ^ 32" by simp
  show "\<exists>k > 0. s + 65535 - (t + t div 65536) mod 65536 = 65535 * k"
  proof (cases "t < 65536")
    case True
    then have "(t + t div 65536) mod 65536 = t" by simp
    moreover have "s + 65535 = 65535 * (q + 1) + t" using s by simp
    ultimately have "s + 65535 - (t + t div 65536) mod 65536 = 65535 * (q + 1)"
      by (simp only: diff_add_inverse2)
    then show ?thesis by (intro exI [of _ "q + 1"]) simp
  next
    case False
    then obtain d where d: "t = 65536 + d" using le_Suc_ex by (metis linorder_not_less)
    with t_less have "d < 65535" by simp
    then have "t div 65536 = 1" using div_add_self1 [of 65536 d] by (simp add: d)
    then have "(t + t div 65536) mod 65536 = d + 1"
      using mod_add_self1 [of 65536 "d + 1"] \<open>d < 65535\<close> by (simp add: d)
    moreover have "s + 65535 = 65535 * (q + 2) + (d + 1)" using s d by simp
    ultimately have "s + 65535 - (t + t div 65536) mod 65536 = 65535 * (q + 2)"
      by (simp only: diff_add_inverse2)
    then show ?thesis by (intro exI [of _ "q + 2"]) simp
  qed
qed

lemma mod_sum_max:
  fixes x y :: nat
  assumes "(x + y) mod 65536 = 65535" and "x < 65536" and "y < 65536"
  shows "y = 65535 - x"
proof (cases "x + y < 65536")
  case False
  then have "(x + y) mod 65536 = x + y - 65536" using assms(2,3) by (simp add: le_mod_geq)
  with assms False show ?thesis by linarith
qed (use assms(1) in simp)

lemma unat_not_short: "unat (NOT n) = 65535 - unat n" for n :: u16
proof -
  have "unat (n + NOT n) = 65535" by (simp add: unsigned_minus_1_eq_mask mask_eq_exp_minus_1)
  then have "(unat n + unat (NOT n)) mod 65536 = 65535" by (simp only: unat_word_ariths) simp
  from mod_sum_max [OF this unat_short unat_short] show ?thesis .
qed

lemma checksum_value:
  assumes "s < 2 ^ 32"
  defines "t \<equiv> s div 65536 + s mod 65536"
  defines "w \<equiv> drop_bit 16 (word_of_nat s :: u32) + (word_of_nat s AND 0xFFFF)"
  shows "unat (ucast (NOT (w + drop_bit 16 w)) :: u16) = 65535 - (t + t div 65536) mod 65536"
proof -
  have u: "unat (word_of_nat s :: u32) = s" using assms(1) by (simp add: unat_of_nat take_bit_nat_eq_self)
  have m: "word_of_nat s AND 0xFFFF = take_bit 16 (word_of_nat s :: u32)"
    by (simp only: take_bit_eq_mask mask_eq_exp_minus_1) simp
  have "t < 2 ^ 32" using fold_carries(2) [OF assms(1)] unfolding t_def by linarith
  have w: "unat w = t"
    unfolding w_def m unat_word_ariths unat_drop_bit_eq unsigned_take_bit_eq u
    using \<open>t < 2 ^ 32\<close> by (simp add: t_def drop_bit_eq_div take_bit_eq_mod)
  have v: "unat (w + drop_bit 16 w) = t + t div 65536"
    unfolding unat_word_ariths unat_drop_bit_eq w
    using fold_carries(2) [OF assms(1)] by (simp add: t_def drop_bit_eq_div)
  have "(ucast (NOT (w + drop_bit 16 w)) :: u16) = NOT (ucast (w + drop_bit 16 w))"
    by (rule bit_word_eqI) (simp add: bit_simps)
  then show ?thesis
    by (simp only: unat_not_short unsigned_ucast_eq v) (simp add: take_bit_eq_mod)
qed

lemma set_checksum_frame [simp]:
  "length (irep (set_checksum n h)) = length (irep h)"
  "icmp_get_type (set_checksum n h) = icmp_get_type h" "icmp_get_code (set_checksum n h) = icmp_get_code h"
  "icmp_identifier (set_checksum n h) = icmp_identifier h" "icmp_sequence (set_checksum n h) = icmp_sequence h"
  by (simp_all add: set_checksum_def icmp_get_type_def icmp_get_code_def icmp_identifier_def icmp_sequence_def nth_encode)

lemma icmp_checksum_set [simp]: "length (irep h) = 8 \<Longrightarrow> icmp_checksum (set_checksum n h) = n"
  by (simp add: set_checksum_def icmp_checksum_def)

lemma pair_sum_header:
  assumes "length (irep h) = 8"
  shows "pair_sum (irep h) = 256 * unat (icmp_get_type h) + unat (icmp_get_code h) +
    unat (icmp_checksum h) + unat (icmp_identifier h) + unat (icmp_sequence h)"
proof -
  obtain a b c d e f g k where "irep h = [a, b, c, d, e, f, g, k]"
    using assms by (auto simp: length_Suc_conv numeral_eq_Suc)
  then show ?thesis
    by (simp add: icmp_get_type_def icmp_get_code_def icmp_checksum_def icmp_identifier_def icmp_sequence_def unat_decode)
qed

lemma ucast_word_of_nat: "(ucast n :: u32) = word_of_nat (unat n)" for n :: u16
  by simp

lemma compute_checksum_value:
  fixes h :: icmp_header and body :: "u8 list"
  assumes "length body \<le> 65507"
  defines "s \<equiv> 256 * unat (icmp_get_type h) + unat (icmp_get_code h) + unat (icmp_identifier h) +
    unat (icmp_sequence h) + pair_sum body"
  defines "t \<equiv> s div 65536 + s mod 65536"
  shows "s < 2 ^ 32"
    and "\<exists>n. compute_checksum h body = set_checksum n h \<and> unat n = 65535 - (t + t div 65536) mod 65536"
proof -
  show s: "s < 2 ^ 32"
    using assms(1) pair_sum_le [of body] unat_byte [of "icmp_get_type h"] unat_byte [of "icmp_get_code h"]
      unat_short [of "icmp_identifier h"] unat_short [of "icmp_sequence h"] unfolding s_def by simp
  have "push_bit 8 (ucast (icmp_get_type h)) + ucast (icmp_get_code h) + ucast (icmp_identifier h) +
      ucast (icmp_sequence h) + word_of_nat (pair_sum body) = (word_of_nat s :: u32)"
    unfolding pair_word ucast_word_of_nat s_def by (simp only: of_nat_add)
  then show "\<exists>n. compute_checksum h body = set_checksum n h \<and> unat n = 65535 - (t + t div 65536) mod 65536"
    using checksum_value [OF s] unfolding compute_checksum_def Let_def body_sum_nat t_def by auto
qed

subsection \<open>Reading what was written\<close>

lemma byte_char [simp]: "byte (char_of_byte b) = b"
proof -
  have "of_char (char_of (unat b)) = unat b" using unat_byte [of b] by simp
  then show ?thesis by (simp add: byte_def char_of_byte_def)
qed

lemma read_bytes_enough:
  assumes "good i" and "n \<le> length (rest i)" and "off + n \<le> length rep"
  shows "read_bytes i off n rep =
    (i\<lparr>rest := drop n (rest i)\<rparr>, take off rep @ map byte (take n (rest i)) @ drop (off + n) rep)"
  using assms by (simp add: read_bytes_def stream_read_def overwrite_def Let_def min_def)

lemma icmp_read_write:
  assumes "length (irep h) = 8" and "length (irep g) = 8" and "good i" and "rest i = icmp_write h @ r"
  shows "icmp_read i g = (i\<lparr>rest := r\<rparr>, h)"
  using assms by (cases h) (simp add: icmp_read_def read_bytes_enough icmp_write_def Let_def comp_def)

text \<open>An IPv4 header as it stands in a packet: version 4 and a length of 20 to 60 bytes.\<close>

definition ip_bytes :: "string \<Rightarrow> bool" where
  "ip_bytes b \<longleftrightarrow> b \<noteq> [] \<and> (\<exists>n. 5 \<le> n \<and> n \<le> 15 \<and> length b = 4 * n \<and> byte (hd b) = word_of_nat (64 + n))"

lemma first_byte:
  assumes "5 \<le> n" and "n \<le> 15" and "h = \<lparr>prep = word_of_nat (64 + n) # r\<rparr>"
  shows "ip_version h = 4 \<and> unat (ip_header_length h) = 4 * n"
proof -
  have "n \<in> set [5..<16]" using assms(1,2) by (simp del: upt_rec_numeral)
  moreover have "list_all (\<lambda>n. drop_bit 4 (word_of_nat (64 + n) :: u8) AND 0xF = 4 \<and>
      unat (ucast ((word_of_nat (64 + n) :: u8) AND 0xF) * 4 :: u16) = 4 * n) [5..<16]"
    by code_simp
  ultimately show ?thesis
    by (simp add: list_all_iff ip_version_def ip_header_length_def assms(3) del: set_upt upt_rec_numeral)
qed

lemma ipv4_read_steps:
  assumes "read_bytes i 0 20 (prep h) = (i1, p1)" and "ip_version \<lparr>prep = p1\<rparr> = 4"
    and "unat (ip_header_length \<lparr>prep = p1\<rparr>) = l" and "20 \<le> l" and "l \<le> 60"
    and "read_bytes i1 20 (l - 20) p1 = (i2, p2)"
  shows "ipv4_read i h = (i2, \<lparr>prep = p2\<rparr>)"
proof -
  have "uint (ip_header_length \<lparr>prep = p1\<rparr>) = int l" using assms(3) by auto
  then show ?thesis using assms by (cases h) (simp add: ipv4_read_def nat_diff_distrib Let_def)
qed

lemma ipv4_read_ok:
  assumes "ip_bytes b" and "good i" and "rest i = b @ r"
  shows "ipv4_read i new_ipv4 = (i\<lparr>rest := r\<rparr>, \<lparr>prep = map byte b @ replicate (60 - length b) 0\<rparr>)"
    and "unat (ip_header_length \<lparr>prep = map byte b @ replicate (60 - length b) 0\<rparr>) = length b"
proof -
  obtain n where n: "5 \<le> n" "n \<le> 15" "length b = 4 * n" "byte (hd b) = word_of_nat (64 + n)"
    using assms(1) by (auto simp: ip_bytes_def)
  have hd: "map byte b @ xs = word_of_nat (64 + n) # map byte (tl b) @ xs" for xs
    using n(4) assms(1) by (cases b) (simp_all add: ip_bytes_def)
  have hd20: "map byte (take 20 b) @ xs = word_of_nat (64 + n) # map byte (take 19 (tl b)) @ xs" for xs
    using n(4) assms(1) by (cases b) (simp_all add: ip_bytes_def)
  show len: "unat (ip_header_length \<lparr>prep = map byte b @ replicate (60 - length b) 0\<rparr>) = length b"
    unfolding hd using first_byte [OF n(1,2) refl] n(3) by simp
  have l20: "20 \<le> length b" "length b \<le> 60" using n by simp_all
  let ?h = "\<lparr>prep = map byte (take 20 b) @ replicate 40 0\<rparr>"
  have v: "ip_version ?h = 4" "unat (ip_header_length ?h) = length b"
    unfolding hd20 using first_byte [OF n(1,2) refl] n(3) by simp_all
  have r1: "read_bytes i 0 20 (prep new_ipv4) = (i\<lparr>rest := drop 20 b @ r\<rparr>, prep ?h)"
    using assms(2,3) l20 by (subst read_bytes_enough) (simp_all add: new_ipv4_def)
  have r2: "read_bytes (i\<lparr>rest := drop 20 b @ r\<rparr>) 20 (length b - 20) (prep ?h) =
      (i\<lparr>rest := r\<rparr>, map byte b @ replicate (60 - length b) 0)"
  proof -
    have "map byte (take 20 b) @ map byte (drop 20 b) = map byte b"
      by (simp only: map_append [symmetric] append_take_drop_id)
    then show ?thesis using assms(2) l20
      by (subst read_bytes_enough) (simp_all add: good_def flip: append_assoc)
  qed
  show "ipv4_read i new_ipv4 = (i\<lparr>rest := r\<rparr>, \<lparr>prep = map byte b @ replicate (60 - length b) 0\<rparr>)"
    by (rule ipv4_read_steps [OF r1 _ _ l20]) (use v r2 in simp_all)
qed

subsection \<open>Properties\<close>

text \<open>The checksum is right: for any header and any body of at most 65507 bytes the packet with
  the computed checksum has, read as numbers of two bytes, a positive sum that is a multiple of
  65535, which is what a receiver checks; nothing overflows; and no other field changes.\<close>

theorem checksum_valid:
  assumes "length (irep h) = 8" and "length body \<le> 65507"
  shows "(\<exists>k > 0. pair_sum (irep (compute_checksum h body) @ body) = 65535 * k) \<and>
    (\<forall>i. i \<notin> {2, 3} \<longrightarrow> irep (compute_checksum h body) ! i = irep h ! i)"
proof -
  define s where "s = 256 * unat (icmp_get_type h) + unat (icmp_get_code h) + unat (icmp_identifier h) +
    unat (icmp_sequence h) + pair_sum body"
  define l where "l = (s div 65536 + s mod 65536 + (s div 65536 + s mod 65536) div 65536) mod 65536"
  note c = compute_checksum_value [OF assms(2), of h, folded s_def]
  obtain n where n: "compute_checksum h body = set_checksum n h" "unat n = 65535 - l"
    using c(2) unfolding l_def by blast
  obtain k where k: "k > 0" "s + 65535 - l = 65535 * k"
    using fold_carries(1) [OF c(1)] unfolding l_def by blast
  have "l < 65536" unfolding l_def by (rule mod_less_divisor) simp
  then have "s + unat n = 65535 * k" using k(2) n(2) by linarith
  have "pair_sum (irep (set_checksum n h) @ body) = 256 * unat (icmp_get_type h) + unat (icmp_get_code h) +
      unat (icmp_identifier h) + unat (icmp_sequence h) + pair_sum body + unat n"
    using assms(1) by (simp add: pair_sum_append pair_sum_header)
  also have "\<dots> = 65535 * k" using \<open>s + unat n = 65535 * k\<close> unfolding s_def by linarith
  finally have "pair_sum (irep (compute_checksum h body) @ body) = 65535 * k" unfolding n(1) .
  moreover have "\<forall>i. i \<notin> {2, 3} \<longrightarrow> irep (compute_checksum h body) ! i = irep h ! i"
    unfolding n(1) by (simp add: set_checksum_def nth_encode)
  ultimately show ?thesis using k(1) by blast
qed

theorem checksum_valid_witness:
  "\<exists>k > 0. pair_sum (irep (compute_checksum (set_type 8 new_icmp) (map byte ping_body)) @ map byte ping_body) = 65535 * k"
proof -
  have "length (irep (set_type 8 new_icmp)) = 8" "length (map byte ping_body) \<le> 65507"
    by (simp_all add: set_type_def new_icmp_def ping_body_def)
  from checksum_valid [OF this] show ?thesis by blast
qed

text \<open>What is written is read: an ICMP header written into a packet is read back field by field,
  and so is each 16-bit field after it was set, whatever the header was.\<close>

theorem icmp_roundtrip:
  assumes "length (irep h) = 8"
  shows "icmp_read (open_stream (icmp_write h @ r)) new_icmp = ((open_stream (icmp_write h @ r))\<lparr>rest := r\<rparr>, h) \<and>
    icmp_checksum (set_checksum n h) = n \<and> icmp_identifier (set_identifier n h) = n \<and>
    icmp_sequence (set_sequence n h) = n \<and> icmp_get_type (set_type b h) = b \<and> icmp_get_code (set_code b h) = b"
proof
  show "icmp_read (open_stream (icmp_write h @ r)) new_icmp = ((open_stream (icmp_write h @ r))\<lparr>rest := r\<rparr>, h)"
    by (rule icmp_read_write [OF assms]) (simp_all add: new_icmp_def open_stream_def good_def)
qed (use assms in \<open>simp add: icmp_identifier_def set_identifier_def icmp_sequence_def set_sequence_def
    icmp_get_type_def set_type_def icmp_get_code_def set_code_def\<close>)

theorem icmp_roundtrip_witness:
  "icmp_read (open_stream (icmp_write (set_type 8 new_icmp) @ ''x'')) new_icmp =
     ((open_stream (icmp_write (set_type 8 new_icmp) @ ''x''))\<lparr>rest := ''x''\<rparr>, set_type 8 new_icmp)"
  using icmp_roundtrip [of "set_type 8 new_icmp" "''x''"] by (simp add: set_type_def new_icmp_def)

text \<open>A received packet, an IPv4 header of any length with an ICMP header and a body behind it, is
  counted and reported exactly when it is an echo reply with the identifier of the process and
  the number of the last request; the report names the size of the ICMP part, the source
  address, the number and the time to live. Any other packet changes nothing.\<close>

theorem reply_counted:
  assumes "ip_bytes b" and "length (irep h) = 8"
  shows "handle_receive pid elapsed (b @ icmp_write h @ body) p =
    (if icmp_get_type h = 0 \<and> icmp_identifier h = pid \<and> icmp_sequence h = sequence_number p
     then (num_replies p = 0,
       p\<lparr>num_replies := num_replies p + 1,
         printed := printed p @ to_string (8 + length body) @ '' bytes from '' @
           dotted [byte (b ! 12), byte (b ! 13), byte (b ! 14), byte (b ! 15)] @
           '': icmp_seq='' @ to_string (unat (icmp_sequence h)) @
           '', ttl='' @ to_string (unat (byte (b ! 8))) @ '', time='' @ to_string elapsed @ [NL]\<rparr>)
     else (False, p))"
proof -
  let ?i = "open_stream (b @ icmp_write h @ body)"
  let ?ip = "\<lparr>prep = map byte b @ replicate (60 - length b) 0\<rparr>"
  have g: "good ?i" "rest ?i = b @ icmp_write h @ body" "\<not> failbit ?i"
    by (simp_all add: open_stream_def good_def)
  have ip: "ipv4_read ?i new_ipv4 = (?i\<lparr>rest := icmp_write h @ body\<rparr>, ?ip)"
    "unat (ip_header_length ?ip) = length b"
    using ipv4_read_ok [OF assms(1) g(1,2)] by simp_all
  have ic: "icmp_read (?i\<lparr>rest := icmp_write h @ body\<rparr>) new_icmp = (?i\<lparr>rest := body\<rparr>, h)"
    using icmp_read_write [OF assms(2), of new_icmp "?i\<lparr>rest := icmp_write h @ body\<rparr>" body] g(1)
    by (simp add: new_icmp_def good_def)
  have "20 \<le> length b" using assms(1) by (auto simp: ip_bytes_def)
  then have f: "source_address ?ip = [byte (b ! 12), byte (b ! 13), byte (b ! 14), byte (b ! 15)]"
    "unat (time_to_live ?ip) = unat (byte (b ! 8))"
    by (simp_all add: source_address_def time_to_live_def nth_append unsigned_ucast_eq take_bit_nat_eq_self
        unat_byte [THEN less_trans])
  have "length (icmp_write h) = 8" using assms(2) by (simp add: icmp_write_def)
  then have l: "length (b @ icmp_write h @ body) - length b = 8 + length body" by simp
  show ?thesis
    unfolding handle_receive_def ip(1) ic Let_def prod.case ip(2) l f
    using g(3) by simp
qed

definition localhost_ip :: string where
  "localhost_ip = map char_of_byte [0x45, 0, 0, 28, 0, 0, 0, 0, 64, 1, 0, 0, 127, 0, 0, 1, 127, 0, 0, 1]"

lemma localhost_ip: "ip_bytes localhost_ip"
  unfolding ip_bytes_def by (intro conjI exI [of _ 5]) (simp_all add: localhost_ip_def)

theorem reply_counted_witness:
  "handle_receive 0 7 (localhost_ip @ icmp_write new_icmp @ []) \<lparr>sequence_number = 0, num_replies = 0,
      timer_pending = None, packets_sent = [], printed = []\<rparr> =
    (True, \<lparr>sequence_number = 0, num_replies = 1, timer_pending = None, packets_sent = [],
       printed = ''8 bytes from 127.0.0.1: icmp_seq=0, ttl=64, time=7'' @ [NL]\<rparr>)"
proof -
  have "length (irep new_icmp) = 8" "icmp_get_type new_icmp = 0" "icmp_identifier new_icmp = 0" "icmp_sequence new_icmp = 0"
    by (simp_all add: new_icmp_def icmp_get_type_def icmp_identifier_def icmp_sequence_def decode_bytes_def numeral_eq_Suc)
  moreover have "to_string 8 = ''8''" "to_string 7 = ''7''" "to_string 0 = ''0''" "to_string 64 = ''64''"
    "dotted [127, 0, 0, 1] = ''127.0.0.1''" by code_simp+
  moreover have "map byte localhost_ip = [0x45, 0, 0, 28, 0, 0, 0, 0, 64, 1, 0, 0, 127, 0, 0, 1, 127, 0, 0, 1]"
    by (simp add: localhost_ip_def)
  then have "byte (localhost_ip ! 12) = 127" "byte (localhost_ip ! 13) = 0" "byte (localhost_ip ! 14) = 0"
    "byte (localhost_ip ! 15) = 1" "byte (localhost_ip ! 8) = 64"
    by (simp_all add: localhost_ip_def)
  ultimately show ?thesis
    using reply_counted [OF localhost_ip, of new_icmp 0 7 "[]" "\<lparr>sequence_number = 0, num_replies = 0,
      timer_pending = None, packets_sent = [], printed = []\<rparr>"] by simp
qed

end
