(* ===== verification/Compiler_Id.thy ===== *)
theory Compiler_Id
  imports Std_Strings Logging
begin

unbundle bit_operations_syntax

text \<open>
  What the two compiler-identification programs under \<open>build/CMakeFiles/3.17.5\<close> share: the
  predefined macros of a compiler, the macros DEC and HEX, and the strings a compiled program
  carries. A version macro has a number; a macro that is only tested needs no value.
\<close>

subsection \<open>Macros\<close>

text \<open>The macros a compiler predefines, with their values.\<close>

type_synonym macros = "string \<Rightarrow> nat option"

definition defd :: "macros \<Rightarrow> string \<Rightarrow> bool" where
  "defd m x \<longleftrightarrow> m x \<noteq> None"

text \<open>In the expression of an \<open>#if\<close> a name that is no macro is 0.\<close>

definition val :: "macros \<Rightarrow> string \<Rightarrow> nat" where
  "val m x = (case m x of None \<Rightarrow> 0 | Some v \<Rightarrow> v)"

text \<open>
  The body of a version macro: DEC or HEX of an expression. \<open>None\<close> as expression is one that
  names an undefined macro, an undeclared identifier where the body is used.
\<close>

datatype part = DEC "nat option" | HEX "nat option"

abbreviation dec :: "nat option \<Rightarrow> part option" where "dec e \<equiv> Some (DEC e)"
abbreviation hex :: "nat option \<Rightarrow> part option" where "hex e \<equiv> Some (HEX e)"

text \<open>The macros a compiler is described by; \<open>None\<close>: not defined.\<close>

record compiler =
  compiler_id :: string
  simulate_id :: "string option"
  v_major :: "part option"
  v_minor :: "part option"
  v_patch :: "part option"
  v_tweak :: "part option"
  v_internal :: "part option"
  s_major :: "part option"
  s_minor :: "part option"
  s_patch :: "part option"
  s_tweak :: "part option"

definition unversioned :: "string \<Rightarrow> compiler" where
  "unversioned x = \<lparr>compiler_id = x, simulate_id = None, v_major = None, v_minor = None,
     v_patch = None, v_tweak = None, v_internal = None, s_major = None, s_minor = None,
     s_patch = None, s_tweak = None\<rparr>"

subsection \<open>Digits\<close>

definition dec_digits :: "nat \<Rightarrow> string" where
  "dec_digits n =
    [char_of (48 + n div 10000000 mod 10),
     char_of (48 + n div 1000000 mod 10),
     char_of (48 + n div 100000 mod 10),
     char_of (48 + n div 10000 mod 10),
     char_of (48 + n div 1000 mod 10),
     char_of (48 + n div 100 mod 10),
     char_of (48 + n div 10 mod 10),
     char_of (48 + n mod 10)]"

definition hex_digits :: "nat \<Rightarrow> string" where
  "hex_digits n =
    [char_of (48 + (drop_bit 28 n AND 0xF)),
     char_of (48 + (drop_bit 24 n AND 0xF)),
     char_of (48 + (drop_bit 20 n AND 0xF)),
     char_of (48 + (drop_bit 16 n AND 0xF)),
     char_of (48 + (drop_bit 12 n AND 0xF)),
     char_of (48 + (drop_bit 8 n AND 0xF)),
     char_of (48 + (drop_bit 4 n AND 0xF)),
     char_of (48 + (n AND 0xF))]"

subsection \<open>The compiled program\<close>

text \<open>The \<open>#error\<close> directive, and a name that is neither macro nor variable.\<close>

datatype compile_error = ErrorDirective | Undeclared

text \<open>The string constants of the compiled program; \<open>None\<close>: left out by an \<open>#ifdef\<close>.\<close>

record info =
  info_compiler :: string
  info_simulate :: "string option"
  qnxnto :: "string option"
  info_cray :: "string option"
  info_version :: "string option"
  info_version_internal :: "string option"
  info_simulate_version :: "string option"
  info_platform :: string
  info_arch :: string
  info_language_dialect_default :: string

fun expand :: "part \<Rightarrow> compile_error + string" where
  "expand (DEC (Some n)) = Inr (dec_digits n)"
| "expand (HEX (Some n)) = Inr (hex_digits n)"
| "expand _ = Inl Undeclared"

text \<open>The nested \<open>#ifdef\<close>s of a version string: it ends at the first macro not defined.\<close>

fun version_tail :: "part option list \<Rightarrow> compile_error + string" where
  "version_tail (Some p # ps) =
     (case (expand p, version_tail ps) of
        (Inr s, Inr t) \<Rightarrow> Inr (''.'' @ s @ t)
      | _ \<Rightarrow> Inl Undeclared)"
| "version_tail _ = Inr []"

definition version_string :: "string \<Rightarrow> part option \<Rightarrow> part option list \<Rightarrow> compile_error + string option" where
  "version_string name major ps =
     (case major of
        None \<Rightarrow> Inr None
      | Some p \<Rightarrow>
          (case (expand p, version_tail ps) of
             (Inr s, Inr t) \<Rightarrow> Inr (Some (''INFO:'' @ name @ ''['' @ s @ t @ '']''))
           | _ \<Rightarrow> Inl Undeclared))"

text \<open>The character at a position of a string constant; its terminating NUL is the last one.\<close>

definition char_at :: "string \<Rightarrow> nat \<Rightarrow> int option" where
  "char_at s n =
     (if n < length s then Some (char_int (s ! n)) else if n = length s then Some 0 else None)"

definition require :: "int option \<Rightarrow> string \<Rightarrow> nat \<Rightarrow> int option" where
  "require r s argc =
     (case (r, char_at s argc) of (Some v, Some c) \<Rightarrow> Some (v + c) | _ \<Rightarrow> None)"

definition require_if :: "int option \<Rightarrow> string option \<Rightarrow> nat \<Rightarrow> int option" where
  "require_if r s argc = (case s of None \<Rightarrow> r | Some t \<Rightarrow> require r t argc)"

text \<open>What a call of \<open>main\<close> does: \<open>argc\<close> indexes every string.\<close>

datatype main_result = Void | Returns int | OutOfBounds

definition result :: "int option \<Rightarrow> main_result" where
  "result r = (case r of Some v \<Rightarrow> Returns v | None \<Rightarrow> OutOfBounds)"

end
