(* ===== verification/Compiler_Id_CXX.thy ===== *)
theory Compiler_Id_CXX
  imports Compiler_Id
begin

text \<open>
  \<open>CompilerIdCXX/CMakeCXXCompilerId.cpp\<close>: the same for C++. The file repeats the one for C with
  other macros for some compilers, so its definitions are stated again and compared later.
\<close>

subsection \<open>Compilers\<close>

definition cxx_Comeau :: "macros \<Rightarrow> compiler" where
  "cxx_Comeau m = (unversioned ''Comeau'')\<lparr>
      v_major := dec (map_option (\<lambda>v. v div 100) (m ''__COMO_VERSION__'')),
      v_minor := dec (map_option (\<lambda>v. v mod 100) (m ''__COMO_VERSION__''))\<rparr>"

definition cxx_Intel :: "macros \<Rightarrow> compiler" where
  "cxx_Intel m = (unversioned ''Intel'')\<lparr>
      simulate_id := (if defd m ''__GNUC__'' then Some ''GNU'' else if defd m ''_MSC_VER'' then
        Some ''MSVC'' else None),
      v_major := dec (map_option (\<lambda>v. v div 100) (m ''__INTEL_COMPILER'')),
      v_minor := dec (map_option (\<lambda>v. v div 10 mod 10) (m ''__INTEL_COMPILER'')),
      v_patch := (if defd m ''__INTEL_COMPILER_UPDATE'' then dec (m ''__INTEL_COMPILER_UPDATE'')
        else dec (map_option (\<lambda>v. v mod 10) (m ''__INTEL_COMPILER''))),
      v_tweak := (if defd m ''__INTEL_COMPILER_BUILD_DATE'' then dec
        (m ''__INTEL_COMPILER_BUILD_DATE'') else None),
      s_major := (if defd m ''__GNUC__'' then dec (m ''__GNUC__'') else if defd m ''__GNUG__''
        then dec (m ''__GNUG__'') else if defd m ''_MSC_VER'' then dec (map_option (\<lambda>v. v
        div 100) (m ''_MSC_VER'')) else None),
      s_minor := (if defd m ''__GNUC_MINOR__'' then dec (m ''__GNUC_MINOR__'') else if
        defd m ''_MSC_VER'' then dec (map_option (\<lambda>v. v mod 100) (m ''_MSC_VER'')) else
        None),
      s_patch := (if defd m ''__GNUC_PATCHLEVEL__'' then dec (m ''__GNUC_PATCHLEVEL__'') else
        None)\<rparr>"

definition cxx_PathScale :: "macros \<Rightarrow> compiler" where
  "cxx_PathScale m = (unversioned ''PathScale'')\<lparr>
      v_major := dec (m ''__PATHCC__''),
      v_minor := dec (m ''__PATHCC_MINOR__''),
      v_patch := (if defd m ''__PATHCC_PATCHLEVEL__'' then dec (m ''__PATHCC_PATCHLEVEL__'') else
        None)\<rparr>"

definition cxx_Embarcadero :: "macros \<Rightarrow> compiler" where
  "cxx_Embarcadero m = (unversioned ''Embarcadero'')\<lparr>
      v_major := hex (map_option (\<lambda>v. drop_bit 24 v AND 0xFF)
        (m ''__CODEGEARC_VERSION__'')),
      v_minor := hex (map_option (\<lambda>v. drop_bit 16 v AND 0xFF)
        (m ''__CODEGEARC_VERSION__'')),
      v_patch := dec (map_option (\<lambda>v. v AND 0xFFFF) (m ''__CODEGEARC_VERSION__''))\<rparr>"

definition cxx_Borland :: "macros \<Rightarrow> compiler" where
  "cxx_Borland m = (unversioned ''Borland'')\<lparr>
      v_major := hex (map_option (\<lambda>v. drop_bit 8 v) (m ''__BORLANDC__'')),
      v_minor := hex (map_option (\<lambda>v. v AND 0xFF) (m ''__BORLANDC__''))\<rparr>"

definition cxx_Watcom :: "macros \<Rightarrow> compiler" where
  "cxx_Watcom m = (unversioned ''Watcom'')\<lparr>
      v_major := dec (map_option (\<lambda>v. v div 100) (m ''__WATCOMC__'')),
      v_minor := dec (map_option (\<lambda>v. (v div 10) mod 10) (m ''__WATCOMC__'')),
      v_patch := (if (val m ''__WATCOMC__'' mod 10) > 0 then dec (map_option (\<lambda>v. v mod
        10) (m ''__WATCOMC__'')) else None)\<rparr>"

definition cxx_OpenWatcom :: "macros \<Rightarrow> compiler" where
  "cxx_OpenWatcom m = (unversioned ''OpenWatcom'')\<lparr>
      v_major := dec (map_option (\<lambda>v. (v - 1100) div 100) (m ''__WATCOMC__'')),
      v_minor := dec (map_option (\<lambda>v. (v div 10) mod 10) (m ''__WATCOMC__'')),
      v_patch := (if (val m ''__WATCOMC__'' mod 10) > 0 then dec (map_option (\<lambda>v. v mod
        10) (m ''__WATCOMC__'')) else None)\<rparr>"

definition cxx_SunPro :: "macros \<Rightarrow> compiler" where
  "cxx_SunPro m = (unversioned ''SunPro'')\<lparr>
      v_major := (if val m ''__SUNPRO_CC'' \<ge> 0x5100 then hex (map_option (\<lambda>v.
        drop_bit 12 v) (m ''__SUNPRO_CC'')) else hex (map_option (\<lambda>v. drop_bit 8 v)
        (m ''__SUNPRO_CC''))),
      v_minor := (if val m ''__SUNPRO_CC'' \<ge> 0x5100 then hex (map_option (\<lambda>v.
        drop_bit 4 v AND 0xFF) (m ''__SUNPRO_CC'')) else hex (map_option (\<lambda>v. drop_bit 4
        v AND 0xF) (m ''__SUNPRO_CC''))),
      v_patch := (if val m ''__SUNPRO_CC'' \<ge> 0x5100 then hex (map_option (\<lambda>v. v AND
        0xF) (m ''__SUNPRO_CC'')) else hex (map_option (\<lambda>v. v AND 0xF)
        (m ''__SUNPRO_CC'')))\<rparr>"

definition cxx_HP :: "macros \<Rightarrow> compiler" where
  "cxx_HP m = (unversioned ''HP'')\<lparr>
      v_major := dec (map_option (\<lambda>v. v div 10000) (m ''__HP_aCC'')),
      v_minor := dec (map_option (\<lambda>v. v div 100 mod 100) (m ''__HP_aCC'')),
      v_patch := dec (map_option (\<lambda>v. v mod 100) (m ''__HP_aCC''))\<rparr>"

definition cxx_Compaq :: "macros \<Rightarrow> compiler" where
  "cxx_Compaq m = (unversioned ''Compaq'')\<lparr>
      v_major := dec (map_option (\<lambda>v. v div 10000000) (m ''__DECCXX_VER'')),
      v_minor := dec (map_option (\<lambda>v. v div 100000 mod 100) (m ''__DECCXX_VER'')),
      v_patch := dec (map_option (\<lambda>v. v mod 10000) (m ''__DECCXX_VER''))\<rparr>"

definition cxx_zOS :: "macros \<Rightarrow> compiler" where
  "cxx_zOS m = (unversioned ''zOS'')\<lparr>
      v_major := dec (map_option (\<lambda>v. v div 100) (m ''__IBMCPP__'')),
      v_minor := dec (map_option (\<lambda>v. v div 10 mod 10) (m ''__IBMCPP__'')),
      v_patch := dec (map_option (\<lambda>v. v mod 10) (m ''__IBMCPP__''))\<rparr>"

definition cxx_XLClang :: "macros \<Rightarrow> compiler" where
  "cxx_XLClang m = (unversioned ''XLClang'')\<lparr>
      v_major := dec (m ''__ibmxl_version__''),
      v_minor := dec (m ''__ibmxl_release__''),
      v_patch := dec (m ''__ibmxl_modification__''),
      v_tweak := dec (m ''__ibmxl_ptf_fix_level__'')\<rparr>"

definition cxx_XL :: "macros \<Rightarrow> compiler" where
  "cxx_XL m = (unversioned ''XL'')\<lparr>
      v_major := dec (map_option (\<lambda>v. v div 100) (m ''__IBMCPP__'')),
      v_minor := dec (map_option (\<lambda>v. v div 10 mod 10) (m ''__IBMCPP__'')),
      v_patch := dec (map_option (\<lambda>v. v mod 10) (m ''__IBMCPP__''))\<rparr>"

definition cxx_VisualAge :: "macros \<Rightarrow> compiler" where
  "cxx_VisualAge m = (unversioned ''VisualAge'')\<lparr>
      v_major := dec (map_option (\<lambda>v. v div 100) (m ''__IBMCPP__'')),
      v_minor := dec (map_option (\<lambda>v. v div 10 mod 10) (m ''__IBMCPP__'')),
      v_patch := dec (map_option (\<lambda>v. v mod 10) (m ''__IBMCPP__''))\<rparr>"

definition cxx_PGI :: "macros \<Rightarrow> compiler" where
  "cxx_PGI m = (unversioned ''PGI'')\<lparr>
      v_major := dec (m ''__PGIC__''),
      v_minor := dec (m ''__PGIC_MINOR__''),
      v_patch := (if defd m ''__PGIC_PATCHLEVEL__'' then dec (m ''__PGIC_PATCHLEVEL__'') else
        None)\<rparr>"

definition cxx_Cray :: "macros \<Rightarrow> compiler" where
  "cxx_Cray m = (unversioned ''Cray'')\<lparr>
      v_major := dec (m ''_RELEASE_MAJOR''),
      v_minor := dec (m ''_RELEASE_MINOR'')\<rparr>"

definition cxx_TI :: "macros \<Rightarrow> compiler" where
  "cxx_TI m = (unversioned ''TI'')\<lparr>
      v_major := dec (map_option (\<lambda>v. v div 1000000) (m ''__TI_COMPILER_VERSION__'')),
      v_minor := dec (map_option (\<lambda>v. v div 1000 mod 1000)
        (m ''__TI_COMPILER_VERSION__'')),
      v_patch := dec (map_option (\<lambda>v. v mod 1000) (m ''__TI_COMPILER_VERSION__''))\<rparr>"

definition cxx_GHS :: "macros \<Rightarrow> compiler" where
  "cxx_GHS m = (unversioned ''GHS'')\<lparr>
      v_major := (if defd m ''__GHS_VERSION_NUMBER'' then dec (map_option (\<lambda>v. v div 100)
        (m ''__GHS_VERSION_NUMBER'')) else None),
      v_minor := (if defd m ''__GHS_VERSION_NUMBER'' then dec (map_option (\<lambda>v. v div 10
        mod 10) (m ''__GHS_VERSION_NUMBER'')) else None),
      v_patch := (if defd m ''__GHS_VERSION_NUMBER'' then dec (map_option (\<lambda>v. v mod 10)
        (m ''__GHS_VERSION_NUMBER'')) else None)\<rparr>"

definition cxx_ARMCC :: "macros \<Rightarrow> compiler" where
  "cxx_ARMCC m = (unversioned ''ARMCC'')\<lparr>
      v_major := (if val m ''__ARMCC_VERSION'' \<ge> 1000000 then dec (map_option (\<lambda>v. v
        div 1000000) (m ''__ARMCC_VERSION'')) else dec (map_option (\<lambda>v. v div 100000)
        (m ''__ARMCC_VERSION''))),
      v_minor := (if val m ''__ARMCC_VERSION'' \<ge> 1000000 then dec (map_option (\<lambda>v. v
        div 10000 mod 100) (m ''__ARMCC_VERSION'')) else dec (map_option (\<lambda>v. v div 10000
        mod 10) (m ''__ARMCC_VERSION''))),
      v_patch := (if val m ''__ARMCC_VERSION'' \<ge> 1000000 then dec (map_option (\<lambda>v. v
        mod 10000) (m ''__ARMCC_VERSION'')) else dec (map_option (\<lambda>v. v mod 10000)
        (m ''__ARMCC_VERSION'')))\<rparr>"

definition cxx_AppleClang :: "macros \<Rightarrow> compiler" where
  "cxx_AppleClang m = (unversioned ''AppleClang'')\<lparr>
      simulate_id := (if defd m ''_MSC_VER'' then Some ''MSVC'' else None),
      v_major := dec (m ''__clang_major__''),
      v_minor := dec (m ''__clang_minor__''),
      v_patch := dec (m ''__clang_patchlevel__''),
      s_major := (if defd m ''_MSC_VER'' then dec (map_option (\<lambda>v. v div 100)
        (m ''_MSC_VER'')) else None),
      s_minor := (if defd m ''_MSC_VER'' then dec (map_option (\<lambda>v. v mod 100)
        (m ''_MSC_VER'')) else None),
      v_tweak := dec (m ''__apple_build_version__'')\<rparr>"

definition cxx_ARMClang :: "macros \<Rightarrow> compiler" where
  "cxx_ARMClang m = (unversioned ''ARMClang'')\<lparr>
      v_major := dec (map_option (\<lambda>v. v div 1000000) (m ''__ARMCOMPILER_VERSION'')),
      v_minor := dec (map_option (\<lambda>v. v div 10000 mod 100) (m ''__ARMCOMPILER_VERSION'')),
      v_patch := dec (map_option (\<lambda>v. v mod 10000) (m ''__ARMCOMPILER_VERSION'')),
      v_internal := dec (m ''__ARMCOMPILER_VERSION'')\<rparr>"

definition cxx_Clang :: "macros \<Rightarrow> compiler" where
  "cxx_Clang m = (unversioned ''Clang'')\<lparr>
      simulate_id := (if defd m ''_MSC_VER'' then Some ''MSVC'' else None),
      v_major := dec (m ''__clang_major__''),
      v_minor := dec (m ''__clang_minor__''),
      v_patch := dec (m ''__clang_patchlevel__''),
      s_major := (if defd m ''_MSC_VER'' then dec (map_option (\<lambda>v. v div 100)
        (m ''_MSC_VER'')) else None),
      s_minor := (if defd m ''_MSC_VER'' then dec (map_option (\<lambda>v. v mod 100)
        (m ''_MSC_VER'')) else None)\<rparr>"

definition cxx_GNU :: "macros \<Rightarrow> compiler" where
  "cxx_GNU m = (unversioned ''GNU'')\<lparr>
      v_major := (if defd m ''__GNUC__'' then dec (m ''__GNUC__'') else dec (m ''__GNUG__'')),
      v_minor := (if defd m ''__GNUC_MINOR__'' then dec (m ''__GNUC_MINOR__'') else None),
      v_patch := (if defd m ''__GNUC_PATCHLEVEL__'' then dec (m ''__GNUC_PATCHLEVEL__'') else
        None)\<rparr>"

definition cxx_MSVC :: "macros \<Rightarrow> compiler" where
  "cxx_MSVC m = (unversioned ''MSVC'')\<lparr>
      v_major := dec (map_option (\<lambda>v. v div 100) (m ''_MSC_VER'')),
      v_minor := dec (map_option (\<lambda>v. v mod 100) (m ''_MSC_VER'')),
      v_patch := (if defd m ''_MSC_FULL_VER'' then (if val m ''_MSC_VER'' \<ge> 1400 then dec
        (map_option (\<lambda>v. v mod 100000) (m ''_MSC_FULL_VER'')) else dec (map_option
        (\<lambda>v. v mod 10000) (m ''_MSC_FULL_VER''))) else None),
      v_tweak := (if defd m ''_MSC_BUILD'' then dec (m ''_MSC_BUILD'') else None)\<rparr>"

definition cxx_ADSP :: "macros \<Rightarrow> compiler" where
  "cxx_ADSP m = (unversioned ''ADSP'')\<lparr>
      v_major := (if defd m ''__VISUALDSPVERSION__'' then hex (map_option (\<lambda>v. drop_bit
        24 v) (m ''__VISUALDSPVERSION__'')) else None),
      v_minor := (if defd m ''__VISUALDSPVERSION__'' then hex (map_option (\<lambda>v. drop_bit
        16 v AND 0xFF) (m ''__VISUALDSPVERSION__'')) else None),
      v_patch := (if defd m ''__VISUALDSPVERSION__'' then hex (map_option (\<lambda>v. drop_bit 8
        v AND 0xFF) (m ''__VISUALDSPVERSION__'')) else None)\<rparr>"

definition cxx_IAR :: "macros \<Rightarrow> compiler" where
  "cxx_IAR m = (unversioned ''IAR'')\<lparr>
      v_major := (if defd m ''__VER__'' \<and> defd m ''__ICCARM__'' then dec (map_option
        (\<lambda>v. v div 1000000) (m ''__VER__'')) else if defd m ''__VER__'' \<and>
        (defd m ''__ICCAVR__'' \<or> defd m ''__ICCRX__'' \<or> defd m ''__ICCRH850__'' \<or>
        defd m ''__ICCRL78__'' \<or> defd m ''__ICC430__'' \<or> defd m ''__ICCRISCV__'' \<or>
        defd m ''__ICCV850__'' \<or> defd m ''__ICC8051__'') then dec (map_option (\<lambda>v. v
        div 100) (m ''__VER__'')) else None),
      v_minor := (if defd m ''__VER__'' \<and> defd m ''__ICCARM__'' then dec (map_option
        (\<lambda>v. (v div 1000) mod 1000) (m ''__VER__'')) else if defd m ''__VER__'' \<and>
        (defd m ''__ICCAVR__'' \<or> defd m ''__ICCRX__'' \<or> defd m ''__ICCRH850__'' \<or>
        defd m ''__ICCRL78__'' \<or> defd m ''__ICC430__'' \<or> defd m ''__ICCRISCV__'' \<or>
        defd m ''__ICCV850__'' \<or> defd m ''__ICC8051__'') then dec (map_option (\<lambda>v. v
        - ((v div 100) * 100)) (m ''__VER__'')) else None),
      v_patch := (if defd m ''__VER__'' \<and> defd m ''__ICCARM__'' then dec (map_option
        (\<lambda>v. v mod 1000) (m ''__VER__'')) else if defd m ''__VER__'' \<and>
        (defd m ''__ICCAVR__'' \<or> defd m ''__ICCRX__'' \<or> defd m ''__ICCRH850__'' \<or>
        defd m ''__ICCRL78__'' \<or> defd m ''__ICC430__'' \<or> defd m ''__ICCRISCV__'' \<or>
        defd m ''__ICCV850__'' \<or> defd m ''__ICC8051__'') then dec (m ''__SUBVERSION__'') else
        None),
      v_internal := (if defd m ''__VER__'' \<and> defd m ''__ICCARM__'' then dec
        (m ''__IAR_SYSTEMS_ICC__'') else if defd m ''__VER__'' \<and> (defd m ''__ICCAVR__''
        \<or> defd m ''__ICCRX__'' \<or> defd m ''__ICCRH850__'' \<or> defd m ''__ICCRL78__''
        \<or> defd m ''__ICC430__'' \<or> defd m ''__ICCRISCV__'' \<or> defd m ''__ICCV850__''
        \<or> defd m ''__ICC8051__'') then dec (m ''__IAR_SYSTEMS_ICC__'') else None)\<rparr>"

definition compiler_cxx :: "macros \<Rightarrow> compiler" where
  "compiler_cxx m =
     (if defd m ''__COMO__''
        then cxx_Comeau m
      else if defd m ''__INTEL_COMPILER'' \<or> defd m ''__ICC''
        then cxx_Intel m
      else if defd m ''__PATHCC__''
        then cxx_PathScale m
      else if defd m ''__BORLANDC__'' \<and> defd m ''__CODEGEARC_VERSION__''
        then cxx_Embarcadero m
      else if defd m ''__BORLANDC__''
        then cxx_Borland m
      else if defd m ''__WATCOMC__'' \<and> val m ''__WATCOMC__'' < 1200
        then cxx_Watcom m
      else if defd m ''__WATCOMC__''
        then cxx_OpenWatcom m
      else if defd m ''__SUNPRO_CC''
        then cxx_SunPro m
      else if defd m ''__HP_aCC''
        then cxx_HP m
      else if defd m ''__DECCXX''
        then cxx_Compaq m
      else if defd m ''__IBMCPP__'' \<and> defd m ''__COMPILER_VER__''
        then cxx_zOS m
      else if defd m ''__ibmxl__'' \<and> defd m ''__clang__''
        then cxx_XLClang m
      else if defd m ''__IBMCPP__'' \<and> \<not> defd m ''__COMPILER_VER__'' \<and>
        val m ''__IBMCPP__'' \<ge> 800
        then cxx_XL m
      else if defd m ''__IBMCPP__'' \<and> \<not> defd m ''__COMPILER_VER__'' \<and>
        val m ''__IBMCPP__'' < 800
        then cxx_VisualAge m
      else if defd m ''__PGI''
        then cxx_PGI m
      else if defd m ''_CRAYC''
        then cxx_Cray m
      else if defd m ''__TI_COMPILER_VERSION__''
        then cxx_TI m
      else if defd m ''__FUJITSU'' \<or> defd m ''__FCC_VERSION'' \<or> defd m ''__fcc_version''
        then unversioned ''Fujitsu''
      else if defd m ''__ghs__''
        then cxx_GHS m
      else if defd m ''__SCO_VERSION__''
        then unversioned ''SCO''
      else if defd m ''__ARMCC_VERSION'' \<and> \<not> defd m ''__clang__''
        then cxx_ARMCC m
      else if defd m ''__clang__'' \<and> defd m ''__apple_build_version__''
        then cxx_AppleClang m
      else if defd m ''__clang__'' \<and> defd m ''__ARMCOMPILER_VERSION''
        then cxx_ARMClang m
      else if defd m ''__clang__''
        then cxx_Clang m
      else if defd m ''__GNUC__'' \<or> defd m ''__GNUG__''
        then cxx_GNU m
      else if defd m ''_MSC_VER''
        then cxx_MSVC m
      else if defd m ''__VISUALDSPVERSION__'' \<or> defd m ''__ADSPBLACKFIN__'' \<or>
        defd m ''__ADSPTS__'' \<or> defd m ''__ADSP21000__''
        then cxx_ADSP m
      else if defd m ''__IAR_SYSTEMS_ICC__'' \<or> defd m ''__IAR_SYSTEMS_ICC''
        then cxx_IAR m
      else if defd m ''__hpux'' \<or> defd m ''__hpua''
        then unversioned ''HP''
      else unversioned '''')"

subsection \<open>Platform and architecture\<close>

definition platform_cxx :: "macros \<Rightarrow> string" where
  "platform_cxx m =
     (if defd m ''__linux'' \<or> defd m ''__linux__'' \<or> defd m ''linux'' then ''Linux''
      else if defd m ''__CYGWIN__'' then ''Cygwin''
      else if defd m ''__MINGW32__'' then ''MinGW''
      else if defd m ''__APPLE__'' then ''Darwin''
      else if defd m ''_WIN32'' \<or> defd m ''__WIN32__'' \<or> defd m ''WIN32''
       then ''Windows''
      else if defd m ''__FreeBSD__'' \<or> defd m ''__FreeBSD'' then ''FreeBSD''
      else if defd m ''__NetBSD__'' \<or> defd m ''__NetBSD'' then ''NetBSD''
      else if defd m ''__OpenBSD__'' \<or> defd m ''__OPENBSD'' then ''OpenBSD''
      else if defd m ''__sun'' \<or> defd m ''sun'' then ''SunOS''
      else if defd m ''_AIX'' \<or> defd m ''__AIX'' \<or> defd m ''__AIX__'' \<or>
        defd m ''__aix'' \<or> defd m ''__aix__''
       then ''AIX''
      else if defd m ''__hpux'' \<or> defd m ''__hpux__'' then ''HP-UX''
      else if defd m ''__HAIKU__'' then ''Haiku''
      else if defd m ''__BeOS'' \<or> defd m ''__BEOS__'' \<or> defd m ''_BEOS''
       then ''BeOS''
      else if defd m ''__QNX__'' \<or> defd m ''__QNXNTO__'' then ''QNX''
      else if defd m ''__tru64'' \<or> defd m ''_tru64'' \<or> defd m ''__TRU64__''
       then ''Tru64''
      else if defd m ''__riscos'' \<or> defd m ''__riscos__'' then ''RISCos''
      else if defd m ''__sinix'' \<or> defd m ''__sinix__'' \<or> defd m ''__SINIX__''
       then ''SINIX''
      else if defd m ''__UNIX_SV__'' then ''UNIX_SV''
      else if defd m ''__bsdos__'' then ''BSDOS''
      else if defd m ''_MPRAS'' \<or> defd m ''MPRAS'' then ''MP-RAS''
      else if defd m ''__osf'' \<or> defd m ''__osf__'' then ''OSF1''
      else if defd m ''_SCO_SV'' \<or> defd m ''SCO_SV'' \<or> defd m ''sco_sv''
       then ''SCO_SV''
      else if defd m ''__ultrix'' \<or> defd m ''__ultrix__'' \<or> defd m ''_ULTRIX''
       then ''ULTRIX''
      else if defd m ''__XENIX__'' \<or> defd m ''_XENIX'' \<or> defd m ''XENIX''
       then ''Xenix''
      else if defd m ''__WATCOMC__''
       then (if defd m ''__LINUX__'' then ''Linux''
          else if defd m ''__DOS__'' then ''DOS''
          else if defd m ''__OS2__'' then ''OS2''
          else if defd m ''__WINDOWS__'' then ''Windows3x''
          else [])
      else if defd m ''__INTEGRITY''
       then (if defd m ''INT_178B'' then ''Integrity178''
          else ''Integrity'')
      else [])"

definition architecture_cxx :: "macros \<Rightarrow> string" where
  "architecture_cxx m =
     (if defd m ''_WIN32'' \<and> defd m ''_MSC_VER''
       then (if defd m ''_M_IA64'' then ''IA64''
          else if defd m ''_M_X64'' \<or> defd m ''_M_AMD64'' then ''x64''
          else if defd m ''_M_IX86'' then ''X86''
          else if defd m ''_M_ARM64'' then ''ARM64''
          else if defd m ''_M_ARM''
           then (if val m ''_M_ARM'' = 4 then ''ARMV4I''
              else if val m ''_M_ARM'' = 5 then ''ARMV5I''
              else ''ARMV'' @ to_string (val m ''_M_ARM''))
          else if defd m ''_M_MIPS'' then ''MIPS''
          else if defd m ''_M_SH'' then ''SHx''
          else [])
      else if defd m ''__WATCOMC__''
       then (if defd m ''_M_I86'' then ''I86''
          else if defd m ''_M_IX86'' then ''X86''
          else [])
      else if defd m ''__IAR_SYSTEMS_ICC__'' \<or> defd m ''__IAR_SYSTEMS_ICC''
       then (if defd m ''__ICCARM__'' then ''ARM''
          else if defd m ''__ICCRX__'' then ''RX''
          else if defd m ''__ICCRH850__'' then ''RH850''
          else if defd m ''__ICCRL78__'' then ''RL78''
          else if defd m ''__ICCRISCV__'' then ''RISCV''
          else if defd m ''__ICCAVR__'' then ''AVR''
          else if defd m ''__ICC430__'' then ''MSP430''
          else if defd m ''__ICCV850__'' then ''V850''
          else if defd m ''__ICC8051__'' then ''8051''
          else [])
      else if defd m ''__ghs__''
       then (if defd m ''__PPC64__'' then ''PPC64''
          else if defd m ''__ppc__'' then ''PPC''
          else if defd m ''__ARM__'' then ''ARM''
          else if defd m ''__x86_64__'' then ''x64''
          else if defd m ''__i386__'' then ''X86''
          else [])
      else [])"

subsection \<open>The strings\<close>

definition id_strings_cxx :: "macros \<Rightarrow> compiler \<Rightarrow> string \<times> string option \<times> string option \<times> string option" where
  "id_strings_cxx m c =
     (''INFO'' @ '':'' @ ''compiler['' @ compiler_id c @ '']'',
      map_option (\<lambda>s. ''INFO'' @ '':'' @ ''simulate['' @ s @ '']'') (simulate_id c),
      if defd m ''__QNXNTO__'' then Some (''INFO'' @ '':'' @ ''qnxnto[]'') else None,
      if defd m ''__CRAYXE'' \<or> defd m ''__CRAYXC''
      then Some (''INFO'' @ '':'' @ ''compiler_wrapper[CrayPrgEnv]'') else None)"

definition version_strings_cxx ::
  "compiler \<Rightarrow> compile_error + string option \<times> string option \<times> string option" where
  "version_strings_cxx c =
     (case (version_string ''compiler_version'' (v_major c) [v_minor c, v_patch c, v_tweak c],
            version_string ''compiler_version_internal'' (v_internal c) [],
            version_string ''simulate_version'' (s_major c) [s_minor c, s_patch c, s_tweak c]) of
        (Inr v, Inr i, Inr s) \<Rightarrow> Inr (v, i, s)
      | _ \<Rightarrow> Inl Undeclared)"

definition target_strings_cxx :: "macros \<Rightarrow> string \<times> string" where
  "target_strings_cxx m =
     (''INFO'' @ '':'' @ ''platform['' @ platform_cxx m @ '']'',
      ''INFO'' @ '':'' @ ''arch['' @ architecture_cxx m @ '']'')"

definition cxx_std :: "macros \<Rightarrow> nat" where
  "cxx_std m =
     (if defd m ''__INTEL_COMPILER'' \<and> defd m ''_MSVC_LANG'' \<and> val m ''_MSVC_LANG'' < 201403
      then (if defd m ''__INTEL_CXX11_MODE__''
            then (if defd m ''__cpp_aggregate_nsdmi'' then 201402 else 201103)
            else 199711)
      else if defd m ''_MSC_VER'' \<and> defd m ''_MSVC_LANG'' then val m ''_MSVC_LANG''
      else val m ''__cplusplus'')"

definition dialect_cxx :: "macros \<Rightarrow> string" where
  "dialect_cxx m =
     (if cxx_std m > 201703 then ''20''
      else if cxx_std m \<ge> 201703 then ''17''
      else if cxx_std m \<ge> 201402 then ''14''
      else if cxx_std m \<ge> 201103 then ''11''
      else ''98'')"

definition dialect_string_cxx :: "macros \<Rightarrow> string" where
  "dialect_string_cxx m = ''INFO'' @ '':'' @ ''dialect_default['' @ dialect_cxx m @ '']''"

text \<open>The translation unit: an error of the preprocessor or the compiler, or the program.\<close>

definition compile_cxx :: "macros \<Rightarrow> compile_error + info" where
  "compile_cxx m =
     (if \<not> defd m ''__cplusplus'' then Inl ErrorDirective
      else
        let c = compiler_cxx m; (comp, sim, qnx, cray) = id_strings_cxx m c; (plat, arch) = target_strings_cxx m
        in case version_strings_cxx c of
             Inl e \<Rightarrow> Inl e
           | Inr (v, i, s) \<Rightarrow>
               Inr \<lparr>info_compiler = comp, info_simulate = sim, qnxnto = qnx, info_cray = cray,
                 info_version = v, info_version_internal = i, info_simulate_version = s,
                 info_platform = plat, info_arch = arch,
                 info_language_dialect_default = dialect_string_cxx m\<rparr>)"

subsection \<open>main\<close>

definition main_cxx :: "info \<Rightarrow> nat \<Rightarrow> main_result" where
  "main_cxx i argc =
     (let r = require (Some 0) (info_compiler i) argc;
          r = require r (info_platform i) argc;
          r = require_if r (info_version i) argc;
          r = require_if r (info_version_internal i) argc;
          r = require_if r (info_simulate i) argc;
          r = require_if r (info_simulate_version i) argc;
          r = require_if r (info_cray i) argc;
          r = require r (info_language_dialect_default i) argc
      in result r)"

end
