(* ===== verification/Compiler_Id_Properties.thy ===== *)
theory Compiler_Id_Properties
  imports Compiler_Id_C Compiler_Id_CXX
begin

text \<open>
  What the identification programs are good for: the digits of a version can be read back, the
  strings can be read by who looks for them, the two programs agree, and running them is safe.
\<close>

lemmas branches_c = c_Intel_def c_PathScale_def c_Embarcadero_def c_Borland_def c_Watcom_def
   c_OpenWatcom_def c_SunPro_def c_HP_def c_Compaq_def c_zOS_def c_XLClang_def c_XL_def
   c_VisualAge_def c_PGI_def c_Cray_def c_TI_def c_GHS_def c_ARMCC_def c_AppleClang_def
   c_ARMClang_def c_Clang_def c_GNU_def c_MSVC_def c_ADSP_def c_IAR_def c_SDCC_def

lemmas branches_cxx = cxx_Comeau_def cxx_Intel_def cxx_PathScale_def cxx_Embarcadero_def
   cxx_Borland_def cxx_Watcom_def cxx_OpenWatcom_def cxx_SunPro_def cxx_HP_def cxx_Compaq_def
   cxx_zOS_def cxx_XLClang_def cxx_XL_def cxx_VisualAge_def cxx_PGI_def cxx_Cray_def cxx_TI_def
   cxx_GHS_def cxx_ARMCC_def cxx_AppleClang_def cxx_ARMClang_def cxx_Clang_def cxx_GNU_def
   cxx_MSVC_def cxx_ADSP_def cxx_IAR_def

subsection \<open>Digits\<close>

text \<open>Reading digits, in which a digit above 9 is one of the characters after 9.\<close>

definition read_digits :: "nat \<Rightarrow> string \<Rightarrow> nat" where
  "read_digits b s = foldl (\<lambda>v c. v * b + (of_char c - 48)) 0 s"

lemma and_F: "(n::nat) AND 0xF = n mod 16"
  using take_bit_eq_mask [of 4 n] by (simp add: mask_eq_exp_minus_1 take_bit_eq_mod)

lemma foldl_digits:
  "list_all (\<lambda>d. d < 16) ds \<Longrightarrow>
     foldl (\<lambda>v c. v * b + (of_char c - 48)) a (map (\<lambda>d. char_of (48 + d)) ds) = foldl (\<lambda>v d. v * b + d) a ds"
  for a b :: nat
  by (induction ds arbitrary: a) simp_all

lemma mod_step: "n mod (k * b) = (n div k mod b) * k + n mod k" for n :: nat
  using mod_mult2_eq [of n k b] by (simp add: mult.commute)

lemma read_dec_digits: "read_digits 10 (dec_digits n) = n mod 10 ^ 8"
proof -
  let ?ds = "[n div 10000000 mod 10, n div 1000000 mod 10, n div 100000 mod 10, n div 10000 mod 10,
    n div 1000 mod 10, n div 100 mod 10, n div 10 mod 10, n mod 10]"
  have lt: "k mod 10 < (16 :: nat)" for k by (rule less_trans [of _ 10]) simp_all
  have "read_digits 10 (dec_digits n) = foldl (\<lambda>v c. v * 10 + (of_char c - 48)) 0 (map (\<lambda>d. char_of (48 + d)) ?ds)"
    by (simp only: read_digits_def dec_digits_def list.map)
  also have "\<dots> = foldl (\<lambda>v d. v * 10 + d) 0 ?ds"
    by (rule foldl_digits) (simp only: list.pred_inject lt HOL.simp_thms)
  also have "\<dots> = n mod (10000000 * 10)"
    using mod_step [of n 10 10] mod_step [of n 100 10] mod_step [of n 1000 10] mod_step [of n 10000 10]
      mod_step [of n 100000 10] mod_step [of n 1000000 10] mod_step [of n 10000000 10]
    by (simp only: foldl.simps mult_0 add_0 add_mult_distrib mult.assoc add.assoc arith_simps)
  finally show ?thesis by simp
qed


lemma read_hex_digits: "read_digits 16 (hex_digits n) = n mod 2 ^ 32"
proof -
  let ?ds = "[n div 268435456 mod 16, n div 16777216 mod 16, n div 1048576 mod 16, n div 65536 mod 16,
    n div 4096 mod 16, n div 256 mod 16, n div 16 mod 16, n mod 16]"
  have lt: "k mod 16 < (16 :: nat)" for k by simp
  have "hex_digits n = map (\<lambda>d. char_of (48 + d)) ?ds"
    by (simp add: hex_digits_def and_F drop_bit_eq_div)
  then have "read_digits 16 (hex_digits n) = foldl (\<lambda>v d. v * 16 + d) 0 ?ds"
    unfolding read_digits_def by (simp only:) (rule foldl_digits, simp only: list.pred_inject lt HOL.simp_thms)
  also have "\<dots> = n mod (268435456 * 16)"
    using mod_step [of n 16 16] mod_step [of n 256 16] mod_step [of n 4096 16] mod_step [of n 65536 16]
      mod_step [of n 1048576 16] mod_step [of n 16777216 16] mod_step [of n 268435456 16]
    by (simp only: foldl.simps mult_0 add_0 add_mult_distrib mult.assoc add.assoc arith_simps)
  finally show ?thesis by simp
qed

subsection \<open>Platforms and architectures\<close>

lemma platform_same: "platform_cxx m = platform_c m"
  by (simp only: platform_c_def platform_cxx_def)

lemma architecture_same: "architecture_cxx m = architecture_c m"
  by (simp only: architecture_c_def architecture_cxx_def)

text \<open>The macros by which the C++ compilers of a vendor differ from the C compilers.\<close>

definition cxx_name :: "string \<Rightarrow> string" where
  "cxx_name x =
     (if x = ''__SUNPRO_C'' then ''__SUNPRO_CC''
      else if x = ''__HP_cc'' then ''__HP_aCC''
      else if x = ''__DECC'' then ''__DECCXX''
      else if x = ''__DECC_VER'' then ''__DECCXX_VER''
      else if x = ''__IBMC__'' then ''__IBMCPP__''
      else x)"

definition only_c_or_cxx :: "string list" where
  "only_c_or_cxx = [''__COMO__'', ''__TINYC__'', ''__BCC__'', ''__SDCC_VERSION_MAJOR'', ''SDCC'']"

lemma cxx_names:
  "cxx_name ''__GNUC__'' = ''__GNUC__''"
  "cxx_name ''_MSC_VER'' = ''_MSC_VER''"
  "cxx_name ''__INTEL_COMPILER'' = ''__INTEL_COMPILER''"
  "cxx_name ''__INTEL_COMPILER_UPDATE'' = ''__INTEL_COMPILER_UPDATE''"
  "cxx_name ''__INTEL_COMPILER_BUILD_DATE'' = ''__INTEL_COMPILER_BUILD_DATE''"
  "cxx_name ''__GNUG__'' = ''__GNUG__''"
  "cxx_name ''__GNUC_MINOR__'' = ''__GNUC_MINOR__''"
  "cxx_name ''__GNUC_PATCHLEVEL__'' = ''__GNUC_PATCHLEVEL__''"
  "cxx_name ''__PATHCC__'' = ''__PATHCC__''"
  "cxx_name ''__PATHCC_MINOR__'' = ''__PATHCC_MINOR__''"
  "cxx_name ''__PATHCC_PATCHLEVEL__'' = ''__PATHCC_PATCHLEVEL__''"
  "cxx_name ''__CODEGEARC_VERSION__'' = ''__CODEGEARC_VERSION__''"
  "cxx_name ''__BORLANDC__'' = ''__BORLANDC__''"
  "cxx_name ''__WATCOMC__'' = ''__WATCOMC__''"
  "cxx_name ''__ibmxl_version__'' = ''__ibmxl_version__''"
  "cxx_name ''__ibmxl_release__'' = ''__ibmxl_release__''"
  "cxx_name ''__ibmxl_modification__'' = ''__ibmxl_modification__''"
  "cxx_name ''__ibmxl_ptf_fix_level__'' = ''__ibmxl_ptf_fix_level__''"
  "cxx_name ''__PGIC__'' = ''__PGIC__''"
  "cxx_name ''__PGIC_MINOR__'' = ''__PGIC_MINOR__''"
  "cxx_name ''__PGIC_PATCHLEVEL__'' = ''__PGIC_PATCHLEVEL__''"
  "cxx_name ''_RELEASE_MAJOR'' = ''_RELEASE_MAJOR''"
  "cxx_name ''_RELEASE_MINOR'' = ''_RELEASE_MINOR''"
  "cxx_name ''__TI_COMPILER_VERSION__'' = ''__TI_COMPILER_VERSION__''"
  "cxx_name ''__GHS_VERSION_NUMBER'' = ''__GHS_VERSION_NUMBER''"
  "cxx_name ''__ARMCC_VERSION'' = ''__ARMCC_VERSION''"
  "cxx_name ''__clang_major__'' = ''__clang_major__''"
  "cxx_name ''__clang_minor__'' = ''__clang_minor__''"
  "cxx_name ''__clang_patchlevel__'' = ''__clang_patchlevel__''"
  "cxx_name ''__apple_build_version__'' = ''__apple_build_version__''"
  "cxx_name ''__ARMCOMPILER_VERSION'' = ''__ARMCOMPILER_VERSION''"
  "cxx_name ''_MSC_FULL_VER'' = ''_MSC_FULL_VER''"
  "cxx_name ''_MSC_BUILD'' = ''_MSC_BUILD''"
  "cxx_name ''__VISUALDSPVERSION__'' = ''__VISUALDSPVERSION__''"
  "cxx_name ''__VER__'' = ''__VER__''"
  "cxx_name ''__ICCARM__'' = ''__ICCARM__''"
  "cxx_name ''__ICCAVR__'' = ''__ICCAVR__''"
  "cxx_name ''__ICCRX__'' = ''__ICCRX__''"
  "cxx_name ''__ICCRH850__'' = ''__ICCRH850__''"
  "cxx_name ''__ICCRL78__'' = ''__ICCRL78__''"
  "cxx_name ''__ICC430__'' = ''__ICC430__''"
  "cxx_name ''__ICCRISCV__'' = ''__ICCRISCV__''"
  "cxx_name ''__ICCV850__'' = ''__ICCV850__''"
  "cxx_name ''__ICC8051__'' = ''__ICC8051__''"
  "cxx_name ''__SUBVERSION__'' = ''__SUBVERSION__''"
  "cxx_name ''__IAR_SYSTEMS_ICC__'' = ''__IAR_SYSTEMS_ICC__''"
  "cxx_name ''__ICC'' = ''__ICC''"
  "cxx_name ''__COMPILER_VER__'' = ''__COMPILER_VER__''"
  "cxx_name ''__ibmxl__'' = ''__ibmxl__''"
  "cxx_name ''__clang__'' = ''__clang__''"
  "cxx_name ''__PGI'' = ''__PGI''"
  "cxx_name ''_CRAYC'' = ''_CRAYC''"
  "cxx_name ''__FUJITSU'' = ''__FUJITSU''"
  "cxx_name ''__FCC_VERSION'' = ''__FCC_VERSION''"
  "cxx_name ''__fcc_version'' = ''__fcc_version''"
  "cxx_name ''__ghs__'' = ''__ghs__''"
  "cxx_name ''__SCO_VERSION__'' = ''__SCO_VERSION__''"
  "cxx_name ''__ADSPBLACKFIN__'' = ''__ADSPBLACKFIN__''"
  "cxx_name ''__ADSPTS__'' = ''__ADSPTS__''"
  "cxx_name ''__ADSP21000__'' = ''__ADSP21000__''"
  "cxx_name ''__IAR_SYSTEMS_ICC'' = ''__IAR_SYSTEMS_ICC''"
  "cxx_name ''__hpux'' = ''__hpux''"
  "cxx_name ''__hpua'' = ''__hpua''"
  "cxx_name ''__SUNPRO_C'' = ''__SUNPRO_CC''"
  "cxx_name ''__HP_cc'' = ''__HP_aCC''"
  "cxx_name ''__DECC'' = ''__DECCXX''"
  "cxx_name ''__DECC_VER'' = ''__DECCXX_VER''"
  "cxx_name ''__IBMC__'' = ''__IBMCPP__''"
  "cxx_name ''__TINYC__'' = ''__TINYC__''"
  "cxx_name ''__BCC__'' = ''__BCC__''"
  "cxx_name ''__SDCC_VERSION_MAJOR'' = ''__SDCC_VERSION_MAJOR''"
  "cxx_name ''SDCC'' = ''SDCC''"
  by code_simp+

lemma defd_renamed: "defd (m \<circ> f) x = defd m (f x)" "val (m \<circ> f) x = val m (f x)"
  by (simp_all add: defd_def val_def)

lemma branches_same:
  "cxx_Intel m = c_Intel (m \<circ> cxx_name)"
  "cxx_PathScale m = c_PathScale (m \<circ> cxx_name)"
  "cxx_Embarcadero m = c_Embarcadero (m \<circ> cxx_name)"
  "cxx_Borland m = c_Borland (m \<circ> cxx_name)"
  "cxx_Watcom m = c_Watcom (m \<circ> cxx_name)"
  "cxx_OpenWatcom m = c_OpenWatcom (m \<circ> cxx_name)"
  "cxx_SunPro m = c_SunPro (m \<circ> cxx_name)"
  "cxx_HP m = c_HP (m \<circ> cxx_name)"
  "cxx_Compaq m = c_Compaq (m \<circ> cxx_name)"
  "cxx_zOS m = c_zOS (m \<circ> cxx_name)"
  "cxx_XLClang m = c_XLClang (m \<circ> cxx_name)"
  "cxx_XL m = c_XL (m \<circ> cxx_name)"
  "cxx_VisualAge m = c_VisualAge (m \<circ> cxx_name)"
  "cxx_PGI m = c_PGI (m \<circ> cxx_name)"
  "cxx_Cray m = c_Cray (m \<circ> cxx_name)"
  "cxx_TI m = c_TI (m \<circ> cxx_name)"
  "cxx_GHS m = c_GHS (m \<circ> cxx_name)"
  "cxx_ARMCC m = c_ARMCC (m \<circ> cxx_name)"
  "cxx_AppleClang m = c_AppleClang (m \<circ> cxx_name)"
  "cxx_ARMClang m = c_ARMClang (m \<circ> cxx_name)"
  "cxx_Clang m = c_Clang (m \<circ> cxx_name)"
  "cxx_MSVC m = c_MSVC (m \<circ> cxx_name)"
  "cxx_ADSP m = c_ADSP (m \<circ> cxx_name)"
  "cxx_IAR m = c_IAR (m \<circ> cxx_name)"
  by (simp_all only: branches_c branches_cxx defd_renamed cxx_names comp_apply)

lemma GNU_same:
  "(if defd m ''__GNUC__'' then cxx_GNU m else x) = (if defd m ''__GNUC__'' then c_GNU (m \<circ> cxx_name) else x)"
  by (simp add: c_GNU_def cxx_GNU_def defd_renamed cxx_names)

lemma compiler_same:
  assumes "\<forall>x \<in> set only_c_or_cxx. \<not> defd m x" and "defd m ''__GNUG__'' \<Longrightarrow> defd m ''__GNUC__''"
  shows "compiler_cxx m = compiler_c (m \<circ> cxx_name)"
proof -
  have n: "defd m ''__COMO__'' = False" "defd m ''__TINYC__'' = False" "defd m ''__BCC__'' = False"
    "defd m ''__SDCC_VERSION_MAJOR'' = False" "defd m ''SDCC'' = False"
    using assms(1) by (simp_all add: only_c_or_cxx_def)
  have g: "(defd m ''__GNUC__'' \<or> defd m ''__GNUG__'') = defd m ''__GNUC__''"
    using assms(2) by blast
  show ?thesis
    unfolding compiler_cxx_def compiler_c_def defd_renamed cxx_names n g GNU_same if_False HOL.simp_thms
    unfolding branches_same ..
qed

subsection \<open>The strings\<close>

text \<open>What is found in the brackets behind a key.\<close>

definition info_value :: "string \<Rightarrow> string \<Rightarrow> string option" where
  "info_value key s =
     (let p = ''INFO:'' @ key @ ''['' in
      if prefix p s then Some (takeWhile (\<lambda>c. c \<noteq> CHR '']'') (drop (length p) s)) else None)"

lemma info_value_string [simp]:
  "CHR '']'' \<notin> set s \<Longrightarrow> info_value key (''INFO:'' @ key @ ''['' @ s @ '']'') = Some s"
  by (auto simp: info_value_def takeWhile_append)

definition c_ids :: "string list" where
  "c_ids = [''Intel'', ''PathScale'', ''Embarcadero'', ''Borland'', ''Watcom'', ''OpenWatcom'', ''SunPro'',
     ''HP'', ''Compaq'', ''zOS'', ''XLClang'', ''XL'', ''VisualAge'', ''PGI'', ''Cray'', ''TI'',
     ''Fujitsu'', ''GHS'', ''TinyCC'', ''Bruce'', ''SCO'', ''ARMCC'', ''AppleClang'', ''ARMClang'',
     ''Clang'', ''GNU'', ''MSVC'', ''ADSP'', ''IAR'', ''SDCC'', []]"

lemma in_if: "P x \<Longrightarrow> P y \<Longrightarrow> P (if b then x else y)"
  by simp

lemma compiler_id_c: "compiler_id (compiler_c m) \<in> set c_ids"
  unfolding compiler_c_def
  by (intro in_if [where P = "\<lambda>c. compiler_id c \<in> set c_ids"];
      simp add: branches_c unversioned_def c_ids_def)

definition no_bracket :: "string \<Rightarrow> bool" where
  "no_bracket s \<longleftrightarrow> CHR '']'' \<notin> set s"

lemma no_bracket_id: "no_bracket (compiler_id (compiler_c m))"
proof -
  have "list_all no_bracket c_ids" by code_simp
  then show ?thesis using compiler_id_c [of m] by (simp add: list_all_iff)
qed

lemma no_bracket_digit: "n < 10 \<Longrightarrow> CHR '']'' \<noteq> digit n"
proof
  assume "n < 10" and "CHR '']'' = digit n"
  then have "(of_char (CHR '']'') :: nat) = 48 + n" by (simp add: digit_def)
  with \<open>n < 10\<close> show False by simp
qed

lemma no_bracket_to_string: "no_bracket (to_string n)"
proof (induction n rule: to_string.induct)
  case (1 n)
  have "n mod 10 < 10" by simp
  then show ?case using 1 no_bracket_digit by (subst to_string.simps) (auto simp: no_bracket_def)
qed

lemma no_bracket_number: "no_bracket (''ARMV'' @ to_string n)"
  using no_bracket_to_string by (simp add: no_bracket_def)

lemma no_bracket_target: "no_bracket (platform_c m)" "no_bracket (architecture_c m)" "no_bracket (dialect_c m)"
  unfolding platform_c_def architecture_c_def dialect_c_def
  by (intro in_if [where P = no_bracket] no_bracket_number; simp add: no_bracket_def)+

lemma compile_c_Inr:
  assumes "compile_c m = Inr i"
  shows "info_compiler i = ''INFO:'' @ ''compiler'' @ ''['' @ compiler_id (compiler_c m) @ '']''"
    and "info_platform i = ''INFO:'' @ ''platform'' @ ''['' @ platform_c m @ '']''"
    and "info_arch i = ''INFO:'' @ ''arch'' @ ''['' @ architecture_c m @ '']''"
    and "info_language_dialect_default i = ''INFO:'' @ ''dialect_default'' @ ''['' @ dialect_c m @ '']''"
    and "version_strings_c (compiler_c m) =
           Inr (info_version i, info_version_internal i, info_simulate_version i)"
    and "info_simulate i = map_option (\<lambda>s. ''INFO:simulate['' @ s @ '']'') (simulate_id (compiler_c m))"
    and "info_cray i = None \<or> info_cray i = Some ''INFO:compiler_wrapper[CrayPrgEnv]''"
  using assms
  by (auto simp: compile_c_def id_strings_c_def target_strings_c_def dialect_string_c_def Let_def
      split: if_splits sum.splits prod.splits)

text \<open>The same for C++.\<close>

lemma compiler_id_cxx: "compiler_id (compiler_cxx m) \<in> set (''Comeau'' # c_ids)"
  unfolding compiler_cxx_def
  by (intro in_if [where P = "\<lambda>c. compiler_id c \<in> set (''Comeau'' # c_ids)"];
      simp add: branches_cxx unversioned_def c_ids_def)

lemma no_bracket_cxx: "no_bracket (compiler_id (compiler_cxx m))" "no_bracket (dialect_cxx m)"
proof -
  have "list_all no_bracket (''Comeau'' # c_ids)" by code_simp
  then show "no_bracket (compiler_id (compiler_cxx m))"
    using compiler_id_cxx [of m] by (auto simp: list_all_iff)
  show "no_bracket (dialect_cxx m)"
    unfolding dialect_cxx_def by (intro in_if [where P = no_bracket]; simp add: no_bracket_def)
qed

lemma compile_cxx_Inr:
  assumes "compile_cxx m = Inr i"
  shows "info_compiler i = ''INFO:'' @ ''compiler'' @ ''['' @ compiler_id (compiler_cxx m) @ '']''"
    and "info_platform i = ''INFO:'' @ ''platform'' @ ''['' @ platform_cxx m @ '']''"
    and "info_arch i = ''INFO:'' @ ''arch'' @ ''['' @ architecture_cxx m @ '']''"
    and "info_language_dialect_default i = ''INFO:'' @ ''dialect_default'' @ ''['' @ dialect_cxx m @ '']''"
    and "version_strings_cxx (compiler_cxx m) =
           Inr (info_version i, info_version_internal i, info_simulate_version i)"
    and "info_simulate i = map_option (\<lambda>s. ''INFO:simulate['' @ s @ '']'') (simulate_id (compiler_cxx m))"
    and "info_cray i = None \<or> info_cray i = Some ''INFO:compiler_wrapper[CrayPrgEnv]''"
  using assms
  by (auto simp: compile_cxx_def id_strings_cxx_def target_strings_cxx_def dialect_string_cxx_def Let_def
      split: if_splits sum.splits prod.splits)

subsection \<open>main\<close>

lemma expand_length: "expand p = Inr s \<Longrightarrow> length s = 8"
  by (cases p rule: expand.cases) (auto simp: dec_digits_def hex_digits_def)

lemma version_string_length:
  "version_string name major ps = Inr (Some s) \<Longrightarrow> 11 \<le> length s"
  by (auto simp: version_string_def dest!: expand_length split: option.splits sum.splits)

definition in_bounds :: "int option \<Rightarrow> bool" where
  "in_bounds r \<longleftrightarrow> r \<noteq> None"

definition long_if :: "nat \<Rightarrow> string option \<Rightarrow> bool" where
  "long_if n s = (case s of None \<Rightarrow> True | Some t \<Rightarrow> n \<le> length t)"

lemma in_bounds_simps [simp]:
  "in_bounds (Some v)"
  "in_bounds (require r s argc) \<longleftrightarrow> in_bounds r \<and> argc \<le> length s"
  "in_bounds (require_if r t argc) \<longleftrightarrow> in_bounds r \<and> long_if argc t"
  "result r = OutOfBounds \<longleftrightarrow> \<not> in_bounds r"
  by (cases t; auto simp: in_bounds_def require_def require_if_def char_at_def long_if_def result_def
      split: option.splits)+

definition long_strings :: "nat \<Rightarrow> info \<Rightarrow> bool" where
  "long_strings n i \<longleftrightarrow> n \<le> length (info_compiler i) \<and> n \<le> length (info_platform i) \<and>
     n \<le> length (info_arch i) \<and> n \<le> length (info_language_dialect_default i) \<and>
     long_if n (info_version i) \<and> long_if n (info_version_internal i) \<and> long_if n (info_simulate i) \<and>
     long_if n (info_simulate_version i) \<and> long_if n (info_cray i)"

lemma main_ok: "long_strings argc i \<Longrightarrow> main_c m i argc \<noteq> OutOfBounds \<and> main_cxx i argc \<noteq> OutOfBounds"
  by (simp add: long_strings_def main_c_def main_cxx_def Let_def)

lemma version_strings_same: "version_strings_cxx c = version_strings_c c"
  by (simp only: version_strings_c_def version_strings_cxx_def)

lemma version_strings_long:
  assumes "version_strings_c c = Inr (v, i, s)"
  shows "long_if 11 v \<and> long_if 11 i \<and> long_if 11 s"
  using assms
  by (auto simp: version_strings_c_def long_if_def dest: version_string_length split: sum.splits option.splits)

lemma long_strings_c: "compile_c m = Inr i \<Longrightarrow> long_strings 11 i"
  using version_strings_long [OF compile_c_Inr(5), of m i] compile_c_Inr [of m i]
  by (auto simp: long_strings_def long_if_def split: option.split)

lemma long_strings_cxx: "compile_cxx m = Inr i \<Longrightarrow> long_strings 11 i"
  using version_strings_long [OF compile_cxx_Inr(5) [unfolded version_strings_same], of m i]
    compile_cxx_Inr [of m i]
  by (auto simp: long_strings_def long_if_def split: option.split)

lemma long_strings_mono: "long_strings n i \<Longrightarrow> k \<le> n \<Longrightarrow> long_strings k i"
  by (auto simp: long_strings_def long_if_def split: option.splits)

subsection \<open>Properties\<close>

text \<open>The version digits can be read back: DEC writes eight decimal digits of a number below
  10^8, and HEX eight digits in base 16, the digits above 9 as the characters after 9, so that
  reading them gives the number again (modulo what eight digits can hold).\<close>

theorem version_digits:
  "read_digits 10 (dec_digits n) = n mod 10 ^ 8 \<and> read_digits 16 (hex_digits n) = n mod 2 ^ 32 \<and>
   length (dec_digits n) = 8 \<and> length (hex_digits n) = 8"
  using read_dec_digits [of n] read_hex_digits [of n] by (simp add: dec_digits_def hex_digits_def)

text \<open>The two programs agree: platform and architecture are always the same, and the C++
  program finds the compiler, version and simulated compiler the C program finds when the
  C++ names of five macros are read for the C names, unless one of the compilers only one of
  the two knows is at work.\<close>

theorem same_identification:
  assumes "\<forall>x \<in> set only_c_or_cxx. \<not> defd m x" and "defd m ''__GNUG__'' \<Longrightarrow> defd m ''__GNUC__''"
  shows "compiler_cxx m = compiler_c (m \<circ> cxx_name) \<and>
         target_strings_cxx m = target_strings_c m"
  using compiler_same [OF assms] platform_same [of m] architecture_same [of m]
  by (simp add: target_strings_c_def target_strings_cxx_def)

definition xl_cxx :: macros where
  "xl_cxx = [''__IBMCPP__'' \<mapsto> 1301, ''__cplusplus'' \<mapsto> 199711, ''_AIX'' \<mapsto> 1]"

theorem same_identification_witness:
  "compiler_cxx xl_cxx = compiler_c (xl_cxx \<circ> cxx_name) \<and>
   target_strings_cxx xl_cxx = target_strings_c xl_cxx \<and> compiler_id (compiler_cxx xl_cxx) = ''XL''"
proof -
  have "\<forall>x \<in> set only_c_or_cxx. \<not> defd xl_cxx x" "\<not> defd xl_cxx ''__GNUG__''"
    by (simp_all add: only_c_or_cxx_def defd_def xl_cxx_def)
  moreover have "compiler_id (compiler_cxx xl_cxx) = ''XL''"
    by (simp add: compiler_cxx_def defd_def val_def xl_cxx_def cxx_XL_def unversioned_def)
  ultimately show ?thesis using same_identification [of xl_cxx] by blast
qed

definition reads :: "info \<Rightarrow> string \<Rightarrow> string \<Rightarrow> string \<Rightarrow> string \<Rightarrow> bool" where
  "reads i c plat arch dialect \<longleftrightarrow>
     info_value ''compiler'' (info_compiler i) = Some c \<and>
     info_value ''platform'' (info_platform i) = Some plat \<and>
     info_value ''arch'' (info_arch i) = Some arch \<and>
     info_value ''dialect_default'' (info_language_dialect_default i) = Some dialect"

text \<open>Whoever looks for a key in the strings of the compiled program finds, up to the closing
  bracket, exactly the value the macros chose: compiler, platform, architecture and dialect.\<close>

theorem strings_readable:
  "(case compile_c m of Inl _ \<Rightarrow> True | Inr i \<Rightarrow>
      reads i (compiler_id (compiler_c m)) (platform_c m) (architecture_c m) (dialect_c m)) \<and>
   (case compile_cxx m of Inl _ \<Rightarrow> True | Inr i \<Rightarrow>
      reads i (compiler_id (compiler_cxx m)) (platform_cxx m) (architecture_cxx m) (dialect_cxx m))"
proof
  show "case compile_c m of Inl _ \<Rightarrow> True | Inr i \<Rightarrow>
      reads i (compiler_id (compiler_c m)) (platform_c m) (architecture_c m) (dialect_c m)"
    using no_bracket_id [of m] no_bracket_target [of m]
    by (auto simp: reads_def compile_c_Inr(1-4) no_bracket_def simp del: append.simps split: sum.split)
  show "case compile_cxx m of Inl _ \<Rightarrow> True | Inr i \<Rightarrow>
      reads i (compiler_id (compiler_cxx m)) (platform_cxx m) (architecture_cxx m) (dialect_cxx m)"
    using no_bracket_cxx [of m] no_bracket_target [of m]
    by (auto simp: reads_def compile_cxx_Inr(1-4) platform_same architecture_same no_bracket_def
        simp del: append.simps split: sum.split)
qed

text \<open>GCC and Clang are told apart although Clang defines the macros of GCC too: with the macros
  of GCC the program for C carries the id GNU and the version of GCC, with those of Clang in
  addition the id Clang and the version of Clang, as long as no other compiler shows itself.\<close>

definition other_compilers :: "string list" where
  "other_compilers = [''__cplusplus'', ''__INTEL_COMPILER'', ''__ICC'', ''__PATHCC__'', ''__BORLANDC__'',
     ''__WATCOMC__'', ''__SUNPRO_C'', ''__HP_cc'', ''__DECC'', ''__IBMC__'', ''__ibmxl__'', ''__PGI'', ''_CRAYC'',
     ''__TI_COMPILER_VERSION__'', ''__FUJITSU'', ''__FCC_VERSION'', ''__fcc_version'', ''__ghs__'',
     ''__TINYC__'', ''__BCC__'', ''__SCO_VERSION__'', ''__ARMCC_VERSION'', ''__apple_build_version__'',
     ''__ARMCOMPILER_VERSION'', ''_MSC_VER'']"

theorem gcc_or_clang:
  assumes "\<forall>x \<in> set other_compilers. m x = None"
    and "m ''__GNUC__'' = Some a" and "m ''__GNUC_MINOR__'' = Some b" and "m ''__GNUC_PATCHLEVEL__'' = Some c"
    and "m ''__clang__'' \<noteq> None \<Longrightarrow>
      m ''__clang_major__'' = Some d \<and> m ''__clang_minor__'' = Some e \<and> m ''__clang_patchlevel__'' = Some f"
  shows "\<exists>i. compile_c m = Inr i \<and> info_simulate i = None \<and>
    (if m ''__clang__'' = None
     then info_compiler i = ''INFO:compiler[GNU]'' \<and> info_version i = Some (''INFO:compiler_version['' @
       dec_digits a @ ''.'' @ dec_digits b @ ''.'' @ dec_digits c @ '']'')
     else info_compiler i = ''INFO:compiler[Clang]'' \<and> info_version i = Some (''INFO:compiler_version['' @
       dec_digits d @ ''.'' @ dec_digits e @ ''.'' @ dec_digits f @ '']''))"
proof -
  have o: "m ''__cplusplus'' = None" "m ''__INTEL_COMPILER'' = None" "m ''__ICC'' = None"
    "m ''__PATHCC__'' = None" "m ''__BORLANDC__'' = None" "m ''__WATCOMC__'' = None" "m ''__SUNPRO_C'' = None"
    "m ''__HP_cc'' = None" "m ''__DECC'' = None" "m ''__IBMC__'' = None" "m ''__ibmxl__'' = None" "m ''__PGI'' = None"
    "m ''_CRAYC'' = None" "m ''__TI_COMPILER_VERSION__'' = None" "m ''__FUJITSU'' = None"
    "m ''__FCC_VERSION'' = None" "m ''__fcc_version'' = None" "m ''__ghs__'' = None" "m ''__TINYC__'' = None"
    "m ''__BCC__'' = None" "m ''__SCO_VERSION__'' = None" "m ''__ARMCC_VERSION'' = None"
    "m ''__apple_build_version__'' = None" "m ''__ARMCOMPILER_VERSION'' = None" "m ''_MSC_VER'' = None"
    using assms(1) unfolding other_compilers_def by (simp_all only: list.set ball_simps)
  have "compiler_c m = (if m ''__clang__'' = None then c_GNU m else c_Clang m)"
    unfolding compiler_c_def 
    by (cases "m ''__clang__''") (simp_all only: defd_def o assms(2) HOL.simp_thms if_True if_False option.simps)
  then show ?thesis using o(1,25) assms(2-5)
    by (cases "m ''__clang__''")
      (simp_all add: compile_c_def id_strings_c_def target_strings_c_def version_strings_c_def Let_def
        version_string_def c_GNU_def c_Clang_def unversioned_def defd_def)
qed

definition clang_7 :: macros where
  "clang_7 = [''__GNUC__'' \<mapsto> 4, ''__GNUC_MINOR__'' \<mapsto> 2, ''__GNUC_PATCHLEVEL__'' \<mapsto> 1, ''__clang__'' \<mapsto> 1,
     ''__clang_major__'' \<mapsto> 7, ''__clang_minor__'' \<mapsto> 0, ''__clang_patchlevel__'' \<mapsto> 1, ''__linux__'' \<mapsto> 1]"

theorem gcc_or_clang_witness:
  "\<exists>i. compile_c clang_7 = Inr i \<and> info_simulate i = None \<and> info_compiler i = ''INFO:compiler[Clang]'' \<and>
     info_version i = Some (''INFO:compiler_version['' @ dec_digits 7 @ ''.'' @ dec_digits 0 @ ''.'' @
       dec_digits 1 @ '']'')"
proof -
  have "\<forall>x \<in> set other_compilers. clang_7 x = None" by code_simp
  moreover have "clang_7 ''__GNUC__'' = Some 4" "clang_7 ''__GNUC_MINOR__'' = Some 2"
    "clang_7 ''__GNUC_PATCHLEVEL__'' = Some 1" "clang_7 ''__clang__'' \<noteq> None" "clang_7 ''__clang_major__'' = Some 7"
    "clang_7 ''__clang_minor__'' = Some 0" "clang_7 ''__clang_patchlevel__'' = Some 1"
    by code_simp+
  ultimately show ?thesis using gcc_or_clang [of clang_7 4 2 1 7 0 1] by (simp only: if_False HOL.simp_thms)
qed

text \<open>C40. Running a compiled identification program never reads behind the end of a string, whatever
  the compiler, as long as it has at most ten arguments; with more, the program for C does so
  when the architecture is not known.\<close>

theorem main_in_bounds:
  "(argc \<le> 11 \<longrightarrow> (\<forall>i. compile_c m = Inr i \<longrightarrow> main_c m i argc \<noteq> OutOfBounds) \<and>
     (\<forall>i. compile_cxx m = Inr i \<longrightarrow> main_cxx i argc \<noteq> OutOfBounds)) \<and>
   (11 < argc \<and> \<not> defd m ''__18CXX'' \<and> architecture_c m = [] \<longrightarrow>
     (\<forall>i. compile_c m = Inr i \<longrightarrow> main_c m i argc = OutOfBounds))"
proof (intro conjI impI allI)
  assume "argc \<le> 11"
  then show "main_c m i argc \<noteq> OutOfBounds" if "compile_c m = Inr i" for i
    using long_strings_c [OF that] long_strings_mono main_ok by blast
  show "main_cxx i argc \<noteq> OutOfBounds" if "compile_cxx m = Inr i" for i
    using \<open>argc \<le> 11\<close> long_strings_cxx [OF that] long_strings_mono main_ok by blast
next
  fix i assume a: "11 < argc \<and> \<not> defd m ''__18CXX'' \<and> architecture_c m = []" and "compile_c m = Inr i"
  then have "length (info_arch i) = 11" using compile_c_Inr(3) by fastforce
  with a show "main_c m i argc = OutOfBounds" by (simp add: main_c_def Let_def)
qed

theorem main_in_bounds_witness:
  "\<exists>i. compile_c Map.empty = Inr i \<and> main_c Map.empty i 1 \<noteq> OutOfBounds \<and>
     main_c Map.empty i 12 = OutOfBounds"
proof -
  have "compiler_c Map.empty = unversioned ''''"
    by (simp add: compiler_c_def defd_def)
  then have "\<exists>i. compile_c Map.empty = Inr i"
    by (simp add: compile_c_def id_strings_c_def target_strings_c_def version_strings_c_def
      version_string_def unversioned_def defd_def Let_def)
  then obtain i where i: "compile_c Map.empty = Inr i" ..
  have "architecture_c Map.empty = []" by (simp add: architecture_c_def defd_def)
  with i show ?thesis using main_in_bounds [of 1 Map.empty] main_in_bounds [of 12 Map.empty] by (auto simp: defd_def)
qed

text \<open>What is not compiled: the program of the other language, and a program that uses a version
  macro the compiler does not define; an Intel compiler known by __ICC alone is an example.
  Every other set of macros compiles.\<close>

theorem compile_errors:
  "(compile_c m = Inl ErrorDirective \<longleftrightarrow> m ''__cplusplus'' \<noteq> None) \<and>
   (compile_cxx m = Inl ErrorDirective \<longleftrightarrow> m ''__cplusplus'' = None) \<and>
   (m ''__ICC'' \<noteq> None \<and> m ''__INTEL_COMPILER'' = None \<and> m ''__COMO__'' = None \<longrightarrow>
      Inl Undeclared \<in> {compile_c m, compile_cxx m})"
proof (intro conjI impI)
  have v: "version_strings_c c \<noteq> Inl ErrorDirective" for c
    by (auto simp: version_strings_c_def split: sum.splits)
  show "compile_c m = Inl ErrorDirective \<longleftrightarrow> m ''__cplusplus'' \<noteq> None"
    using v [of "compiler_c m"] by (auto simp: compile_c_def defd_def Let_def split: sum.splits prod.splits)
  show "compile_cxx m = Inl ErrorDirective \<longleftrightarrow> m ''__cplusplus'' = None"
    using v [of "compiler_cxx m"]
    by (auto simp: compile_cxx_def version_strings_same defd_def Let_def split: sum.splits prod.splits)
  assume a: "m ''__ICC'' \<noteq> None \<and> m ''__INTEL_COMPILER'' = None \<and> m ''__COMO__'' = None"
  then have "compiler_c m = c_Intel m" "compiler_cxx m = cxx_Intel m"
    by (simp_all add: compiler_c_def compiler_cxx_def defd_def)
  moreover have "version_strings_c (c_Intel m) = Inl Undeclared" "version_strings_c (cxx_Intel m) = Inl Undeclared"
    using a by (simp_all add: version_strings_c_def version_string_def c_Intel_def cxx_Intel_def)
  ultimately show "Inl Undeclared \<in> {compile_c m, compile_cxx m}"
    by (cases "m ''__cplusplus''")
      (simp_all add: compile_c_def compile_cxx_def version_strings_same defd_def id_strings_c_def
        id_strings_cxx_def target_strings_c_def target_strings_cxx_def Let_def)
qed

definition old_icc :: macros where
  "old_icc = [''__ICC'' \<mapsto> 600, ''__linux__'' \<mapsto> 1]"

theorem compile_errors_witness:
  "compile_c old_icc = Inl Undeclared \<and> compile_cxx old_icc = Inl ErrorDirective"
proof -
  have "old_icc ''__ICC'' \<noteq> None \<and> old_icc ''__INTEL_COMPILER'' = None \<and> old_icc ''__COMO__'' = None"
    and "old_icc ''__cplusplus'' = None" by (simp_all add: old_icc_def)
  with compile_errors [of old_icc] show ?thesis by auto
qed

end
