(* ===== verification/Composed_Ops.thy ===== *)
theory Composed_Ops
  imports Logging
begin

text \<open>
  The composed operations of the Asio examples (\<open>boost_asio/example/cpp11/operations/composed_1.cpp\<close> to
  \<open>composed_8.cpp\<close>): operations made of \<open>async_write\<close>, timers and \<open>post\<close>, from the direct call to the state
  machine and the coroutine that send a message several times. An error code is \<open>None\<close> for success; its
  type, its text (\<open>message\<close>) and the text of the exception a future throws for it (\<open>what\<close>) are parameters.
\<close>

subsection \<open>Underlying operations\<close>

text \<open>
  What an activation of an operation starts last: a wait of so many seconds, a write, a write that may be
  partial, or a post of a handler with an error; or it calls the handler it was given, does nothing, or follows a null pointer.
\<close>

datatype 'e activity =
    Waits nat
  | Writes string
  | Writes_some string
  | Posts 'e
  | Completes "'e option"
  | Nothing_more
  | Null_pointer

text \<open>How an operation ends: with success, or with an error. The number is that of the bytes the network took.\<close>

datatype 'e ending = Succeeds nat | Fails nat 'e

text \<open>\<open>async_write\<close> succeeds when everything is written, \<open>async_write_some\<close> when at least one byte is.\<close>

fun written :: "'e activity \<Rightarrow> 'e ending \<Rightarrow> string" where
  "written (Writes m) (Succeeds _) = m"
| "written (Writes m) (Fails k _) = take k m"
| "written (Writes_some m) (Succeeds k) = take (max 1 k) m"
| "written (Writes_some m) (Fails _ _) = []"
| "written _ _ = []"

fun code_of :: "'e ending \<Rightarrow> 'e option" where
  "code_of (Succeeds _) = None"
| "code_of (Fails _ e) = Some e"

text \<open>What can be seen: a wait that has elapsed, bytes on the wire, and calls of the handler, with or without a number of bytes.\<close>

datatype 'e seen = Elapsed nat | On_wire string | Handled "'e option" | Handled_bytes "'e option" nat | Undefined_behaviour

text \<open>\<open>strlen\<close> and the buffer over a literal end at the first zero byte.\<close>

definition c_string :: "string \<Rightarrow> string" where
  "c_string m = takeWhile (\<lambda>c. c \<noteq> CHR 0x00) m"

subsection \<open>composed_1.cpp to composed_5.cpp: one underlying operation\<close>

definition initiate_1 :: "string \<Rightarrow> 'e activity" where
  "initiate_1 m = Writes (c_string m)"

definition initiate_2 :: "string \<Rightarrow> bool \<Rightarrow> 'e activity" where
  "initiate_2 m allow_partial_write = (if allow_partial_write then Writes_some (c_string m) else Writes (c_string m))"

definition initiate_3 :: "string \<Rightarrow> 'e activity \<times> unit" where
  "initiate_3 m = (Writes (c_string m), ())"

definition initiate_4 :: "'e \<Rightarrow> string \<Rightarrow> 'e activity \<times> unit" where
  "initiate_4 invalid_argument m =
     (let len = length (c_string m) in (if len = 0 then Posts invalid_argument else Writes (take len m), ()))"

text \<open>\<open>bind(handler, _1)\<close> passes on the error only.\<close>

definition bound_handler :: "'e option \<Rightarrow> unit \<Rightarrow> 'e activity \<times> unit" where
  "bound_handler error s = (Completes error, s)"

text \<open>The message is what the insertion of the value has put into the string stream; the intermediate handler holds it.\<close>

definition initiate_5 :: "('v \<Rightarrow> string) \<Rightarrow> 'v \<Rightarrow> 'e activity \<times> string option" where
  "initiate_5 insertion v = (let encoded = insertion v in (Writes encoded, Some encoded))"

definition call_5 :: "'e option \<Rightarrow> string option \<Rightarrow> 'e activity \<times> string option" where
  "call_5 error s = (Completes error, None)"

text \<open>The handler is called with the error and the number of bytes by the operation itself; it is not called while that goes on.\<close>

fun handler_with_bytes :: "'e activity \<Rightarrow> 'e ending list \<Rightarrow> 'e seen list" where
  "handler_with_bytes a [] = []"
| "handler_with_bytes a (r # rs) = [On_wire (written a r), Handled_bytes (code_of r) (length (written a r))]"

subsection \<open>State of the operations that repeat\<close>

datatype op_state = starting | waiting_op | writing_op

text \<open>The members: the buffer and the timer are unique pointers, the timer here only there or not.\<close>

record write_op =
  encoded_message :: "string option"
  repeat_count :: u64
  delay_timer :: bool
  op_at :: op_state

record write_op_6 = write_op +
  io_work :: bool

datatype coro = Coro_start | After_wait | After_write | Coro_end

record write_op_8 =
  co_message :: "string option"
  co_repeat :: u64
  co_timer :: bool
  co_at :: coro

subsection \<open>composed_6.cpp\<close>

text \<open>The intermediate completion handler.\<close>

definition call_6 :: "'e option \<Rightarrow> write_op_6 \<Rightarrow> 'e activity \<times> write_op_6" where
  "call_6 error s =
     (let complete = (Completes error, s\<lparr>io_work := False, encoded_message := None\<rparr>)
      in if error \<noteq> None then complete
         else case op_at s of
             waiting_op \<Rightarrow> (case encoded_message s of None \<Rightarrow> (Null_pointer, s) | Some m \<Rightarrow> (Writes m, s\<lparr>op_at := writing_op\<rparr>))
           | _ \<Rightarrow> if 0 < repeat_count s
                  then if delay_timer s then (Waits 1, s\<lparr>repeat_count := repeat_count s - 1, op_at := waiting_op\<rparr>) else (Null_pointer, s)
                  else complete)"

definition initiate_6 :: "string \<Rightarrow> u64 \<Rightarrow> 'e activity \<times> write_op_6" where
  "initiate_6 m n = (Writes m, \<lparr>encoded_message = Some m, repeat_count = n, delay_timer = True, op_at = starting, io_work = True\<rparr>)"

subsection \<open>composed_7.cpp\<close>

definition call_7 :: "'e option \<Rightarrow> write_op \<Rightarrow> 'e activity \<times> write_op" where
  "call_7 error s =
     (let complete = (Completes error, s\<lparr>encoded_message := None, delay_timer := False\<rparr>)
      in if error \<noteq> None then complete
         else case op_at s of
             waiting_op \<Rightarrow> (case encoded_message s of None \<Rightarrow> (Null_pointer, s) | Some m \<Rightarrow> (Writes m, s\<lparr>op_at := writing_op\<rparr>))
           | _ \<Rightarrow> if 0 < repeat_count s
                  then if delay_timer s then (Waits 1, s\<lparr>repeat_count := repeat_count s - 1, op_at := waiting_op\<rparr>) else (Null_pointer, s)
                  else complete)"

text \<open>\<open>async_compose\<close> calls the implementation once, without an error, to start it.\<close>

definition initiate_7 :: "string \<Rightarrow> u64 \<Rightarrow> 'e activity \<times> write_op" where
  "initiate_7 m n = call_7 None \<lparr>encoded_message = Some m, repeat_count = n, delay_timer = True, op_at = starting\<rparr>"

subsection \<open>composed_8.cpp\<close>

text \<open>The coroutine from the head of its loop, and after the loop; at its end a coroutine does nothing any more.\<close>

definition after_loop :: "'e option \<Rightarrow> write_op_8 \<Rightarrow> 'e activity \<times> write_op_8" where
  "after_loop error s = (Completes error, s\<lparr>co_message := None, co_timer := False, co_at := Coro_end\<rparr>)"

definition loop_head :: "'e option \<Rightarrow> write_op_8 \<Rightarrow> 'e activity \<times> write_op_8" where
  "loop_head error s =
     (if 0 < co_repeat s
      then if co_timer s then (Waits 1, s\<lparr>co_repeat := co_repeat s - 1, co_at := After_wait\<rparr>) else (Null_pointer, s)
      else after_loop error s)"

fun call_8 :: "'e option \<Rightarrow> write_op_8 \<Rightarrow> 'e activity \<times> write_op_8" where
  "call_8 error s =
     (case co_at s of
        Coro_start \<Rightarrow> loop_head error s
      | After_wait \<Rightarrow>
          if error \<noteq> None then after_loop error s
          else (case co_message s of None \<Rightarrow> (Null_pointer, s) | Some m \<Rightarrow> (Writes m, s\<lparr>co_at := After_write\<rparr>))
      | After_write \<Rightarrow> if error \<noteq> None then after_loop error s else loop_head error s
      | Coro_end \<Rightarrow> (Nothing_more, s))"

definition initiate_8 :: "string \<Rightarrow> u64 \<Rightarrow> 'e activity \<times> write_op_8" where
  "initiate_8 m n = call_8 None \<lparr>co_message = Some m, co_repeat = n, co_timer = True, co_at = Coro_start\<rparr>"

subsection \<open>Running an operation\<close>

text \<open>
  \<open>io_context.run\<close>: each underlying operation ends as the network and the timer will have it, and the implementation is called with the error.
  The list says how they end; when it is used up the operation is still going on. What is posted is the user's handler.
\<close>

fun run_op :: "('e option \<Rightarrow> 's \<Rightarrow> 'e activity \<times> 's) \<Rightarrow> 'e ending list \<Rightarrow> 'e activity \<times> 's \<Rightarrow> 'e seen list" where
  "run_op call rs (Completes e, s) = [Handled e]"
| "run_op call rs (Nothing_more, s) = []"
| "run_op call rs (Null_pointer, s) = [Undefined_behaviour]"
| "run_op call rs (Posts e, s) = [Handled (Some e)]"
| "run_op call [] _ = []"
| "run_op call (r # rs) (Waits k, s) = (if code_of r = None then [Elapsed k] else []) @ run_op call rs (call (code_of r) s)"
| "run_op call (r # rs) (a, s) = On_wire (written a r) # run_op call rs (call (code_of r) s)"

definition run_6 :: "string \<Rightarrow> u64 \<Rightarrow> 'e ending list \<Rightarrow> 'e seen list" where
  "run_6 m n rs = run_op call_6 rs (initiate_6 m n)"

definition run_7 :: "string \<Rightarrow> u64 \<Rightarrow> 'e ending list \<Rightarrow> 'e seen list" where
  "run_7 m n rs = run_op call_7 rs (initiate_7 m n)"

definition run_8 :: "string \<Rightarrow> u64 \<Rightarrow> 'e ending list \<Rightarrow> 'e seen list" where
  "run_8 m n rs = run_op call_8 rs (initiate_8 m n)"


text \<open>The operations with one underlying operation.\<close>

definition run_1 :: "string \<Rightarrow> 'e ending list \<Rightarrow> 'e seen list" where
  "run_1 m rs = handler_with_bytes (initiate_1 m) rs"

definition run_2 :: "string \<Rightarrow> bool \<Rightarrow> 'e ending list \<Rightarrow> 'e seen list" where
  "run_2 m allow_partial_write rs = handler_with_bytes (initiate_2 m allow_partial_write) rs"

definition run_3 :: "string \<Rightarrow> 'e ending list \<Rightarrow> 'e seen list" where
  "run_3 m rs = run_op bound_handler rs (initiate_3 m)"

definition run_4 :: "'e \<Rightarrow> string \<Rightarrow> 'e ending list \<Rightarrow> 'e seen list" where
  "run_4 invalid_argument m rs = run_op bound_handler rs (initiate_4 invalid_argument m)"

definition run_5 :: "('v \<Rightarrow> string) \<Rightarrow> 'v \<Rightarrow> 'e ending list \<Rightarrow> 'e seen list" where
  "run_5 insertion v rs = run_op call_5 rs (initiate_5 insertion v)"

subsection \<open>The test programs\<close>

text \<open>
  A test opens an acceptor and waits for a peer: an error of these is thrown, not caught, and ends the program; else the
  operation is started and \<open>run\<close> returns when its handler has been called. The handler, or the code after the
  \<open>get\<close> of a future, prints.
\<close>

datatype 'e test_end = Test_over | Test_blocked | Test_thrown 'e

fun is_handled :: "'e seen \<Rightarrow> bool" where
  "is_handled (Handled _) = True"
| "is_handled (Handled_bytes _ _) = True"
| "is_handled _ = False"

definition one_test :: "('e seen \<Rightarrow> string) \<Rightarrow> ('e ending list \<Rightarrow> 'e seen list) \<Rightarrow> 'e + 'e ending list \<Rightarrow> string \<times> 'e test_end" where
  "one_test say run peer =
     (case peer of
        Inl e \<Rightarrow> ([], Test_thrown e)
      | Inr rs \<Rightarrow> (concat (map say (run rs)), if list_ex is_handled (run rs) then Test_over else Test_blocked))"

text \<open>\<open>main\<close>: the tests in their order.\<close>

fun tests_in_turn :: "(string \<times> 'e test_end) list \<Rightarrow> string \<times> 'e test_end" where
  "tests_in_turn [] = ([], Test_over)"
| "tests_in_turn ((out, Test_over) # ts) = (let (out', e) = tests_in_turn ts in (out @ out', e))"
| "tests_in_turn ((out, e) # ts) = (out, e)"

text \<open>What the handlers and the code behind a future print.\<close>

fun say_bytes :: "('e \<Rightarrow> string) \<Rightarrow> 'e seen \<Rightarrow> string" where
  "say_bytes error_text (Handled_bytes None n) = to_string n @ '' bytes transferred'' @ [CHR 0x0A]"
| "say_bytes error_text (Handled_bytes (Some e) n) = ''Error: '' @ error_text e @ [CHR 0x0A]"
| "say_bytes error_text _ = []"

fun say_sent :: "string \<Rightarrow> string \<Rightarrow> ('e \<Rightarrow> string) \<Rightarrow> 'e seen \<Rightarrow> string" where
  "say_sent done prefix error_text (Handled None) = done @ [CHR 0x0A]"
| "say_sent done prefix error_text (Handled (Some e)) = prefix @ error_text e @ [CHR 0x0A]"
| "say_sent done prefix error_text _ = []"

definition text_callback :: string where "text_callback = ''Testing callback'' @ [CHR 0x0D, CHR 0x0A]"
definition text_deferred :: string where "text_deferred = ''Testing deferred'' @ [CHR 0x0D, CHR 0x0A]"
definition text_future :: string where "text_future = ''Testing future'' @ [CHR 0x0D, CHR 0x0A]"

definition main_1 :: "('e \<Rightarrow> string) \<Rightarrow> ('e \<Rightarrow> string) \<Rightarrow> 'e + 'e ending list \<Rightarrow> 'e + 'e ending list \<Rightarrow> 'e + 'e ending list \<Rightarrow> string \<times> 'e test_end" where
  "main_1 message what a b c = tests_in_turn
     [one_test (say_bytes message) (run_1 text_callback) a, one_test (say_bytes message) (run_1 text_deferred) b,
      one_test (say_bytes what) (run_1 text_future) c]"

definition main_2 :: "('e \<Rightarrow> string) \<Rightarrow> ('e \<Rightarrow> string) \<Rightarrow> 'e + 'e ending list \<Rightarrow> 'e + 'e ending list \<Rightarrow> 'e + 'e ending list \<Rightarrow> string \<times> 'e test_end" where
  "main_2 message what a b c = tests_in_turn
     [one_test (say_bytes message) (run_2 text_callback False) a, one_test (say_bytes message) (run_2 text_deferred False) b,
      one_test (say_bytes what) (run_2 text_future False) c]"

definition main_3 :: "('e \<Rightarrow> string) \<Rightarrow> ('e \<Rightarrow> string) \<Rightarrow> 'e + 'e ending list \<Rightarrow> 'e + 'e ending list \<Rightarrow> 'e + 'e ending list \<Rightarrow> string \<times> 'e test_end" where
  "main_3 message what a b c = tests_in_turn
     [one_test (say_sent ''Message sent'' ''Error: '' message) (run_3 text_callback) a,
      one_test (say_sent ''Message sent'' ''Error: '' message) (run_3 text_deferred) b,
      one_test (say_sent ''Message sent'' ''Error: '' what) (run_3 text_future) c]"

definition main_4 :: "'e \<Rightarrow> ('e \<Rightarrow> string) \<Rightarrow> ('e \<Rightarrow> string) \<Rightarrow> 'e + 'e ending list \<Rightarrow> 'e + 'e ending list \<Rightarrow> 'e + 'e ending list \<Rightarrow> string \<times> 'e test_end" where
  "main_4 invalid_argument message what a b c = tests_in_turn
     [one_test (say_sent ''Message sent'' ''Error: '' message) (run_4 invalid_argument []) a,
      one_test (say_sent ''Message sent'' ''Error: '' message) (run_4 invalid_argument []) b,
      one_test (say_sent ''Message sent'' ''Exception: '' what) (run_4 invalid_argument []) c]"

text \<open>The messages of \<open>composed_5.cpp\<close> are an integer, a string and a double; how the double is printed is a parameter.\<close>

definition main_5 :: "('d \<Rightarrow> string) \<Rightarrow> 'd \<Rightarrow> ('e \<Rightarrow> string) \<Rightarrow> ('e \<Rightarrow> string) \<Rightarrow> 'e + 'e ending list \<Rightarrow> 'e + 'e ending list \<Rightarrow> 'e + 'e ending list \<Rightarrow> string \<times> 'e test_end" where
  "main_5 print_double d message what a b c = tests_in_turn
     [one_test (say_sent ''Message sent'' ''Error: '' message) (run_5 to_string 123456) a,
      one_test (say_sent ''Message sent'' ''Error: '' message) (run_5 id ''abcdef'') b,
      one_test (say_sent ''Message sent'' ''Exception: '' what) (run_5 print_double d) c]"

definition main_6 :: "('e \<Rightarrow> string) \<Rightarrow> ('e \<Rightarrow> string) \<Rightarrow> 'e + 'e ending list \<Rightarrow> 'e + 'e ending list \<Rightarrow> 'e + 'e ending list \<Rightarrow> string \<times> 'e test_end" where
  "main_6 message what a b c = tests_in_turn
     [one_test (say_sent ''Messages sent'' ''Error: '' message) (run_6 text_callback 5) a,
      one_test (say_sent ''Messages sent'' ''Error: '' message) (run_6 text_deferred 5) b,
      one_test (say_sent ''Messages sent'' ''Error: '' what) (run_6 text_future 5) c]"

definition main_7 :: "('e \<Rightarrow> string) \<Rightarrow> ('e \<Rightarrow> string) \<Rightarrow> 'e + 'e ending list \<Rightarrow> 'e + 'e ending list \<Rightarrow> 'e + 'e ending list \<Rightarrow> string \<times> 'e test_end" where
  "main_7 message what a b c = tests_in_turn
     [one_test (say_sent ''Messages sent'' ''Error: '' message) (run_7 text_callback 5) a,
      one_test (say_sent ''Messages sent'' ''Error: '' message) (run_7 text_deferred 5) b,
      one_test (say_sent ''Messages sent'' ''Error: '' what) (run_7 text_future 5) c]"

definition main_8 :: "('e \<Rightarrow> string) \<Rightarrow> ('e \<Rightarrow> string) \<Rightarrow> 'e + 'e ending list \<Rightarrow> 'e + 'e ending list \<Rightarrow> 'e + 'e ending list \<Rightarrow> string \<times> 'e test_end" where
  "main_8 message what a b c = tests_in_turn
     [one_test (say_sent ''Messages sent'' ''Error: '' message) (run_8 text_callback 5) a,
      one_test (say_sent ''Messages sent'' ''Error: '' message) (run_8 text_deferred 5) b,
      one_test (say_sent ''Messages sent'' ''Error: '' what) (run_8 text_future 5) c]"

subsection \<open>What the operations do\<close>

text \<open>The specification: wait and write, \<open>n\<close> times, until something fails; then the handler is called, once.\<close>

fun delayed_writes :: "string \<Rightarrow> nat \<Rightarrow> 'e ending list \<Rightarrow> 'e seen list" where
  "delayed_writes m 0 rs = [Handled None]"
| "delayed_writes m (Suc n) [] = []"
| "delayed_writes m (Suc n) (Fails k e # rs) = [Handled (Some e)]"
| "delayed_writes m (Suc n) [Succeeds _] = [Elapsed 1]"
| "delayed_writes m (Suc n) (Succeeds _ # Fails k e # rs) = [Elapsed 1, On_wire (take k m), Handled (Some e)]"
| "delayed_writes m (Suc n) (Succeeds _ # Succeeds _ # rs) = Elapsed 1 # On_wire m # delayed_writes m n rs"

section \<open>Properties\<close>

text \<open>
  The composed operations against their specification: the state machine and the coroutine are the same
  operation, and the hand-written one with its undelayed first write sends once more.
\<close>

subsection \<open>One underlying operation\<close>

lemma single_ops:
  "run_3 m [] = []" "run_3 m (r # rs) = [On_wire (written (Writes (c_string m)) r), Handled (code_of r)]"
  "run_5 ins v [] = []" "run_5 ins v (r # rs) = [On_wire (written (Writes (ins v)) r), Handled (code_of r)]"
  by (simp_all add: run_3_def run_5_def initiate_3_def initiate_5_def bound_handler_def call_5_def Let_def)

lemma take_c_string: "take (length (c_string m)) m = c_string m"
  by (metis c_string_def takeWhile_eq_take)

text \<open>Only an empty message makes a difference to the operation that checks for it, and it then needs no network.\<close>

lemma run_4_eq: "run_4 inv m rs = (if c_string m = [] then [Handled (Some inv)] else run_3 m rs)"
  by (simp add: run_4_def initiate_4_def run_3_def initiate_3_def take_c_string)

lemma take_min_length: "take (min (length xs) k) xs = take k xs"
  by (simp add: min_def)

text \<open>A partial write puts a beginning of the message on the wire and says how long it is.\<close>

lemma partial_write:
  assumes "c_string m \<noteq> []"
  shows "\<exists>n. run_2 m True (Succeeds k # rs) = [On_wire (take n (c_string m)), Handled_bytes None n] \<and> 0 < n \<and> n \<le> length (c_string m)"
proof -
  have "0 < length (c_string m)" using assms by simp
  then have "0 < min (length (c_string m)) (max 1 k)" by simp
  then show ?thesis
    by (intro exI [of _ "min (length (c_string m)) (max 1 k)"])
      (simp add: run_2_def initiate_2_def take_min_length)
qed

lemma whole_write: "run_2 m False rs = run_1 m rs"
  by (simp add: run_1_def run_2_def initiate_1_def initiate_2_def)

subsection \<open>Operations that repeat\<close>

lemma unat_pred:
  fixes n :: u64
  assumes "unat n = Suc k"
  shows "0 < n" "unat (n - 1) = k"
proof -
  show "0 < n" using assms by (metis nat.distinct(1) unsigned_0 word_gt_0)
  then show "unat (n - 1) = k" using assms by (simp add: unat_minus_one word_gt_0)
qed

lemma call_7_simps:
  "call_7 (Some e) s = (Completes (Some e), s\<lparr>encoded_message := None, delay_timer := False\<rparr>)"
  "op_at s = waiting_op \<Longrightarrow> encoded_message s = Some m \<Longrightarrow> call_7 None s = (Writes m, s\<lparr>op_at := writing_op\<rparr>)"
  "op_at s \<noteq> waiting_op \<Longrightarrow> repeat_count s = 0 \<Longrightarrow> call_7 None s = (Completes None, s\<lparr>encoded_message := None, delay_timer := False\<rparr>)"
  "op_at s \<noteq> waiting_op \<Longrightarrow> 0 < repeat_count s \<Longrightarrow> delay_timer s \<Longrightarrow>
     call_7 None s = (Waits 1, s\<lparr>repeat_count := repeat_count s - 1, op_at := waiting_op\<rparr>)"
  by (cases "op_at s"; simp add: call_7_def Let_def)+

lemma run_7_from:
  "encoded_message s = Some m \<Longrightarrow> delay_timer s \<Longrightarrow> op_at s \<noteq> waiting_op \<Longrightarrow> unat (repeat_count s) = n \<Longrightarrow>
   run_op call_7 rs (call_7 None s) = delayed_writes m n rs"
proof (induction m n rs arbitrary: s rule: delayed_writes.induct)
  case (6 m n k k' rs)
  have u: "0 < repeat_count s" "unat (repeat_count s - 1) = n" using unat_pred [OF 6(5)] by simp_all
  with 6(2,3,4) 6(1) [of "s\<lparr>repeat_count := repeat_count s - 1, op_at := writing_op\<rparr>"] show ?case
    by (simp add: call_7_simps)
qed (simp_all add: call_7_simps unat_eq_0 unat_pred(1))

lemma call_6_simps:
  "call_6 (Some e) s = (Completes (Some e), s\<lparr>io_work := False, encoded_message := None\<rparr>)"
  "op_at s = waiting_op \<Longrightarrow> encoded_message s = Some m \<Longrightarrow> call_6 None s = (Writes m, s\<lparr>op_at := writing_op\<rparr>)"
  "op_at s \<noteq> waiting_op \<Longrightarrow> repeat_count s = 0 \<Longrightarrow> call_6 None s = (Completes None, s\<lparr>io_work := False, encoded_message := None\<rparr>)"
  "op_at s \<noteq> waiting_op \<Longrightarrow> 0 < repeat_count s \<Longrightarrow> delay_timer s \<Longrightarrow>
     call_6 None s = (Waits 1, s\<lparr>repeat_count := repeat_count s - 1, op_at := waiting_op\<rparr>)"
  by (cases "op_at s"; simp add: call_6_def Let_def)+

lemma run_6_from:
  "encoded_message s = Some m \<Longrightarrow> delay_timer s \<Longrightarrow> op_at s \<noteq> waiting_op \<Longrightarrow> unat (repeat_count s) = n \<Longrightarrow>
   run_op call_6 rs (call_6 None s) = delayed_writes m n rs"
proof (induction m n rs arbitrary: s rule: delayed_writes.induct)
  case (6 m n k k' rs)
  have u: "0 < repeat_count s" "unat (repeat_count s - 1) = n" using unat_pred [OF 6(5)] by simp_all
  with 6(2,3,4) 6(1) [of "s\<lparr>repeat_count := repeat_count s - 1, op_at := writing_op\<rparr>"] show ?case
    by (simp add: call_6_simps)
qed (simp_all add: call_6_simps unat_eq_0 unat_pred(1))

lemma loop_8_from:
  "co_message s = Some m \<Longrightarrow> co_timer s \<Longrightarrow> unat (co_repeat s) = n \<Longrightarrow>
   run_op call_8 rs (loop_head None s) = delayed_writes m n rs"
proof (induction m n rs arbitrary: s rule: delayed_writes.induct)
  case (1 m rs)
  then show ?case by (simp add: loop_head_def after_loop_def unat_eq_0)
next
  case (6 m n k k' rs)
  have u: "0 < co_repeat s" "unat (co_repeat s - 1) = n" using unat_pred [OF 6(4)] by simp_all
  with 6(2,3) 6(1) [of "s\<lparr>co_repeat := co_repeat s - 1, co_at := After_write\<rparr>"] show ?case
    by (simp add: loop_head_def)
qed (auto simp: loop_head_def after_loop_def dest: unat_pred)

lemma run_7_eq: "run_7 m n rs = delayed_writes m (unat n) rs"
  by (simp add: run_7_def initiate_7_def run_7_from)

lemma run_8_eq: "run_8 m n rs = delayed_writes m (unat n) rs"
  by (simp add: run_8_def initiate_8_def loop_8_from)

lemma run_6_eq:
  "run_6 m n [] = []"
  "run_6 m n (Succeeds k # rs) = On_wire m # delayed_writes m (unat n) rs"
  "run_6 m n (Fails k e # rs) = [On_wire (take k m), Handled (Some e)]"
  by (simp_all add: run_6_def initiate_6_def run_6_from call_6_simps)

subsection \<open>Properties\<close>

text \<open>The bytes on the wire, the seconds waited for, and the calls of the handler.\<close>

fun bytes_on_wire :: "'e seen list \<Rightarrow> string" where
  "bytes_on_wire [] = []"
| "bytes_on_wire (On_wire b # es) = b @ bytes_on_wire es"
| "bytes_on_wire (_ # es) = bytes_on_wire es"

lemma wire_append [simp]: "bytes_on_wire (xs @ ys) = bytes_on_wire xs @ bytes_on_wire ys"
  by (induction xs rule: bytes_on_wire.induct) simp_all

fun handler_calls :: "'e seen list \<Rightarrow> 'e option list" where
  "handler_calls [] = []"
| "handler_calls (Handled c # es) = c # handler_calls es"
| "handler_calls (_ # es) = handler_calls es"

definition all_succeed :: "'e ending list \<Rightarrow> bool" where
  "all_succeed rs \<longleftrightarrow> (\<forall>r \<in> set rs. code_of r = None)"

lemma code_of_None: "code_of r = None \<longleftrightarrow> (\<exists>k. r = Succeeds k)"
  by (cases r) simp_all

text \<open>As long as everything succeeds.\<close>

lemma delayed_writes_succeed:
  "all_succeed rs \<Longrightarrow> length rs = 2 * n \<Longrightarrow>
   delayed_writes m n (rs @ rs') = concat (replicate n [Elapsed 1, On_wire m]) @ [Handled None]"
proof (induction n arbitrary: rs)
  case (Suc n)
  from Suc.prems(2) obtain a b us where rs: "rs = a # b # us" "length us = 2 * n"
    by (cases rs; cases "tl rs") auto
  from Suc.prems(1) rs obtain i j where "a = Succeeds i" "b = Succeeds j" "all_succeed us"
    by (auto simp: all_succeed_def code_of_None)
  with rs Suc.IH show ?case by simp
qed simp

lemma delayed_writes_fail:
  "all_succeed rs \<Longrightarrow> length rs < 2 * n \<Longrightarrow>
   bytes_on_wire (delayed_writes m n (rs @ Fails k e # rs')) = concat (replicate (length rs div 2) m) @ (if odd (length rs) then take k m else []) \<and>
   handler_calls (delayed_writes m n (rs @ Fails k e # rs')) = [Some e]"
proof (induction m n rs rule: delayed_writes.induct)
  case (6 m n i j rs)
  then have "all_succeed rs" "length rs < 2 * n" by (simp_all add: all_succeed_def)
  with 6 show ?case by simp
qed (auto simp: all_succeed_def)

lemma delayed_writes_pending:
  "all_succeed rs \<Longrightarrow> length rs < 2 * n \<Longrightarrow>
   bytes_on_wire (delayed_writes m n rs) = concat (replicate (length rs div 2) m) \<and> handler_calls (delayed_writes m n rs) = []"
proof (induction m n rs rule: delayed_writes.induct)
  case (6 m n i j rs)
  then have "all_succeed rs" "length rs < 2 * n" by (simp_all add: all_succeed_def)
  with 6 show ?case by simp
qed (auto simp: all_succeed_def)


text \<open>The tests with the empty message print the error and use no network.\<close>

lemma main_4_prints:
  "main_4 inv message what (Inr a) (Inr b) (Inr c) =
     (''Error: '' @ message inv @ [CHR 0x0A] @ ''Error: '' @ message inv @ [CHR 0x0A] @ ''Exception: '' @ what inv @ [CHR 0x0A], Test_over)"
  by (simp add: main_4_def one_test_def run_4_eq c_string_def)

lemma main_6_prints:
  "main_6 message what (Inr [Fails k e]) (Inl e') p = (''Error: '' @ message e @ [CHR 0x0A], Test_thrown e')"
  by (simp add: main_6_def one_test_def run_6_eq)

text \<open>A test ends exactly when its operation does, and both ways to repeat print the same.\<close>

lemma mains_agree:
  fixes message :: "'e \<Rightarrow> string"
  shows "main_7 message what a b c = main_8 message what a b c"
proof -
  have "run_7 = (run_8 :: string \<Rightarrow> u64 \<Rightarrow> 'e ending list \<Rightarrow> 'e seen list)" by (intro ext) (simp add: run_7_eq run_8_eq)
  then show ?thesis by (simp add: main_7_def main_8_def)
qed

text \<open>The operation of \<open>composed_6.cpp\<close>: a first write, then what \<open>composed_7.cpp\<close> does.\<close>

lemma composed_same:
  "run_8 m n rs = run_7 m n rs"
  "run_6 m n rs = (case rs of [] \<Rightarrow> []
     | r # rs' \<Rightarrow> On_wire (written (Writes m) r) # (if code_of r = None then run_7 m n rs' else [Handled (code_of r)]))"
proof -
  show "run_8 m n rs = run_7 m n rs" by (simp add: run_7_eq run_8_eq)
  show "run_6 m n rs = (case rs of [] \<Rightarrow> []
      | r # rs' \<Rightarrow> On_wire (written (Writes m) r) # (if code_of r = None then run_7 m n rs' else [Handled (code_of r)]))"
  proof (cases rs)
    case (Cons r rs')
    then show ?thesis by (cases r) (simp_all add: run_6_eq run_7_eq)
  qed (simp add: run_6_eq)
qed

lemma takeWhile_succeeds:
  fixes rs :: "'e ending list"
  defines "ok \<equiv> takeWhile (\<lambda>r. code_of r = None) rs"
  shows "all_succeed ok" "length ok < length rs \<Longrightarrow> \<exists>k e rs'. rs ! length ok = Fails k e \<and> rs = ok @ Fails k e # rs'"
    "length ok = length rs \<Longrightarrow> ok = rs"
proof -
  show "all_succeed ok" by (auto simp: ok_def all_succeed_def dest: set_takeWhileD)
  show "\<exists>k e rs'. rs ! length ok = Fails k e \<and> rs = ok @ Fails k e # rs'" if l: "length ok < length rs"
  proof -
    have "code_of (rs ! length ok) \<noteq> None" using nth_length_takeWhile [of "\<lambda>r. code_of r = None" rs] l by (simp add: ok_def)
    then obtain k e where f: "rs ! length ok = Fails k e" by (cases "rs ! length ok") auto
    have "rs = take (length ok) rs @ rs ! length ok # drop (Suc (length ok)) rs" using l by (simp add: id_take_nth_drop)
    moreover have "take (length ok) rs = ok" by (metis ok_def takeWhile_eq_take)
    ultimately show ?thesis using f by metis
  qed
  show "ok = rs" if "length ok = length rs" using that by (metis ok_def takeWhile_eq_take take_all order_refl)
qed

lemma run_7_closed:
  "let ok = length (takeWhile (\<lambda>r. code_of r = None) rs); failed = ok < length rs; es = run_7 m n rs
   in if 2 * unat n \<le> ok then es = concat (replicate (unat n) [Elapsed 1, On_wire m]) @ [Handled None]
      else bytes_on_wire es = concat (replicate (ok div 2) m) @ (if failed \<and> odd ok then written (Writes m) (rs ! ok) else []) \<and>
           handler_calls es = (if failed then [code_of (rs ! ok)] else [])"
proof -
  define ok where "ok = takeWhile (\<lambda>r. code_of r = None) rs"
  note ok = takeWhile_succeeds [of rs, folded ok_def]
  consider (all) "2 * unat n \<le> length ok" | (fails) "length ok < 2 * unat n" "length ok < length rs"
    | (pending) "length ok < 2 * unat n" "length ok = length rs"
    using length_takeWhile_le [of "\<lambda>r. code_of r = None" rs] by (fastforce simp: ok_def)
  then show ?thesis
  proof cases
    case all
    have "all_succeed (take (2 * unat n) ok)" using ok(1) by (auto simp: all_succeed_def dest: in_set_takeD)
    moreover have "rs = take (2 * unat n) ok @ drop (2 * unat n) ok @ dropWhile (\<lambda>r. code_of r = None) rs"
      by (simp add: ok_def flip: append_assoc)
    ultimately have "delayed_writes m (unat n) rs = concat (replicate (unat n) [Elapsed 1, On_wire m]) @ [Handled None]"
      using delayed_writes_succeed [of "take (2 * unat n) ok" "unat n" m] all by (metis length_take min.absorb2)
    with all show ?thesis by (simp add: run_7_eq ok_def Let_def)
  next
    case fails
    then obtain k e rs' where rs: "rs ! length ok = Fails k e" "rs = ok @ Fails k e # rs'" using ok(2) by blast
    have "bytes_on_wire (delayed_writes m (unat n) rs) = concat (replicate (length ok div 2) m) @ (if odd (length ok) then take k m else [])"
      "handler_calls (delayed_writes m (unat n) rs) = [Some e]"
      using delayed_writes_fail [OF ok(1) fails(1), of m k e rs'] by (simp_all flip: rs(2))
    with fails rs(1) show ?thesis by (simp add: run_7_eq Let_def flip: ok_def)
  next
    case pending
    with delayed_writes_pending [OF ok(1) pending(1), of m] ok(3) show ?thesis
      by (simp add: run_7_eq Let_def flip: ok_def)
  qed
qed

text \<open>C38. The state machine of \<open>composed_7.cpp\<close> and the coroutine of \<open>composed_8.cpp\<close> are the same operation, and that of
  \<open>composed_6.cpp\<close> is a write without a delay followed, when it succeeds, by the same operation, so that it sends the message once more than asked.
  The operation sends a message \<open>n\<close> times: when the first \<open>2 * n\<close> waits and writes succeed, each write comes after a wait of a second and
  the handler is called with success; when one of them fails, the whole messages written by then are on the wire, of a write that
  failed its beginning, and the handler is called once, with that error; while only fewer have ended, all with success, the handler has not been called.\<close>

theorem repeated_writes:
  "run_8 m n rs = run_7 m n rs \<and>
   run_6 m n rs = (case rs of [] \<Rightarrow> []
     | r # rs' \<Rightarrow> On_wire (written (Writes m) r) # (if code_of r = None then run_7 m n rs' else [Handled (code_of r)])) \<and>
   (let ok = length (takeWhile (\<lambda>r. code_of r = None) rs); failed = ok < length rs; es = run_7 m n rs
    in if 2 * unat n \<le> ok then es = concat (replicate (unat n) [Elapsed 1, On_wire m]) @ [Handled None]
       else bytes_on_wire es = concat (replicate (ok div 2) m) @ (if failed \<and> odd ok then written (Writes m) (rs ! ok) else []) \<and>
            handler_calls es = (if failed then [code_of (rs ! ok)] else []))"
  using composed_same run_7_closed by (intro conjI)

end
