(* ===== verification/Locked_Session.thy ===== *)
theory Locked_Session
  imports Std_Strings
begin

text \<open>
  The line-based sessions of the Asio examples on channels (\<open>boost_asio/example/cpp20/channels/mutual_exclusion_1.cpp\<close>
  and \<open>mutual_exclusion_2.cpp\<close>): one coroutine echoes lines, another sends heartbeats, and a channel
  with room for one message is the lock under which they write to the same socket. The two programs differ in how the
  lock is claimed: with \<open>async_send\<close>, or with \<open>try_send\<close> first. One thread runs the coroutines; a step
  is the resumption of one of them, or a piece of bytes moved by an operation that goes on.
\<close>

subsection \<open>State\<close>

datatype lock_actor = Messages | Heartbeats

text \<open>Where a coroutine waits; with a line its length, with a write the bytes still to be written.\<close>

datatype line_pc = Reading_line | Claiming nat | Writing_tag nat string | Writing_line nat string | Messages_ended
datatype beat_pc = Ticking | Beat_claiming | Beating string | Heartbeats_ended

text \<open>
  The socket; the channel with its buffered message, the sends that wait for room, and the sends that have completed, with success or
  cancelled, and whose coroutine will be resumed; the string \<open>data\<close>. An operation can only succeed if it was started on an
  open socket (\<open>valid_ops\<close>). For the statements: who holds the lock, all bytes received and sent, the frames sent
  whole, and what is sent of the next.
\<close>

datatype frame_sent = Line_frame string | Beat_frame

record lsession =
  lk_open :: bool
  lock_buffer :: nat
  lock_queue :: "lock_actor list"
  granted :: "lock_actor set"
  refused :: "lock_actor set"
  line_data :: string
  line_at :: line_pc
  beat_at :: beat_pc
  valid_ops :: "lock_actor set"
  holder :: "lock_actor option"
  bytes_in :: string
  bytes_out :: string
  frames_out :: "frame_sent list"
  frame_part :: string

definition line_tag :: string where "line_tag = ''<line>''"
definition heartbeat_text :: string where "heartbeat_text = ''<heartbeat>'' @ [CHR 0x0A]"
definition max_line_length :: nat where "max_line_length = 1024"

subsection \<open>The channel\<close>

definition async_send :: "lock_actor \<Rightarrow> lsession \<Rightarrow> lsession" where
  "async_send a s =
     (if lock_buffer s < 1 then s\<lparr>lock_buffer := lock_buffer s + 1, granted := insert a (granted s), holder := Some a\<rparr>
      else s\<lparr>lock_queue := lock_queue s @ [a]\<rparr>)"

text \<open>\<open>try_send\<close> succeeds at once or not at all.\<close>

definition try_send :: "lock_actor \<Rightarrow> lsession \<Rightarrow> lsession option" where
  "try_send a s = (if lock_buffer s < 1 then Some (s\<lparr>lock_buffer := lock_buffer s + 1, holder := Some a\<rparr>) else None)"

text \<open>Receiving makes room, into which the first send that waits puts its message.\<close>

definition try_receive :: "lsession \<Rightarrow> lsession" where
  "try_receive s =
     (if lock_buffer s = 0 then s
      else case lock_queue s of
          [] \<Rightarrow> s\<lparr>lock_buffer := lock_buffer s - 1, holder := None\<rparr>
        | a # q \<Rightarrow> s\<lparr>lock_queue := q, granted := insert a (granted s), holder := Some a\<rparr>)"

text \<open>\<open>cancel\<close> ends the sends that wait; the buffered message stays.\<close>

definition cancel_sends :: "lsession \<Rightarrow> lsession" where
  "cancel_sends s = s\<lparr>lock_queue := [], refused := refused s \<union> set (lock_queue s)\<rparr>"

definition stop_session :: "lsession \<Rightarrow> lsession" where
  "stop_session s = cancel_sends (s\<lparr>lk_open := False\<rparr>)"

text \<open>An operation on the socket is started.\<close>

definition begin_op :: "lock_actor \<Rightarrow> lsession \<Rightarrow> lsession" where
  "begin_op a s = s\<lparr>valid_ops := (if lk_open s then insert a (valid_ops s) else valid_ops s - {a})\<rparr>"

subsection \<open>handle_messages\<close>

definition read_until :: "lsession \<Rightarrow> lsession" where
  "read_until s = begin_op Messages (s\<lparr>line_at := Reading_line\<rparr>)"

definition write_tag :: "nat \<Rightarrow> lsession \<Rightarrow> lsession" where
  "write_tag len s = begin_op Messages (s\<lparr>line_at := Writing_tag len line_tag, granted := granted s - {Messages}\<rparr>)"

text \<open>A line has been found: the lock is claimed, in the one or the other way.\<close>

definition claim_for_line_1 :: "nat \<Rightarrow> lsession \<Rightarrow> lsession" where
  "claim_for_line_1 len s = async_send Messages (s\<lparr>line_at := Claiming len\<rparr>)"

definition claim_for_line_2 :: "nat \<Rightarrow> lsession \<Rightarrow> lsession" where
  "claim_for_line_2 len s =
     (case try_send Messages s of Some s' \<Rightarrow> write_tag len s' | None \<Rightarrow> async_send Messages (s\<lparr>line_at := Claiming len\<rparr>))"

definition claim_for_line :: "bool \<Rightarrow> nat \<Rightarrow> lsession \<Rightarrow> lsession" where
  "claim_for_line try_first = (if try_first then claim_for_line_2 else claim_for_line_1)"

definition write_body :: "nat \<Rightarrow> lsession \<Rightarrow> lsession" where
  "write_body len s = begin_op Messages (s\<lparr>line_at := Writing_line len (take len (line_data s))\<rparr>)"

text \<open>The line has been written, and consumed: release, and around the loop.\<close>

definition line_done :: "nat \<Rightarrow> lsession \<Rightarrow> lsession" where
  "line_done len s = read_until (try_receive (s\<lparr>line_data := drop len (line_data s),
     frames_out := frames_out s @ [Line_frame (take len (line_data s))], frame_part := []\<rparr>))"

definition messages_fail :: "lsession \<Rightarrow> lsession" where
  "messages_fail s = stop_session (s\<lparr>line_at := Messages_ended, refused := refused s - {Messages}\<rparr>)"

subsection \<open>send_heartbeats\<close>

definition tick :: "lsession \<Rightarrow> lsession" where
  "tick s = s\<lparr>beat_at := Ticking\<rparr>"

definition write_beat :: "lsession \<Rightarrow> lsession" where
  "write_beat s = begin_op Heartbeats (s\<lparr>beat_at := Beating heartbeat_text, granted := granted s - {Heartbeats}\<rparr>)"

definition claim_for_beat_1 :: "lsession \<Rightarrow> lsession" where
  "claim_for_beat_1 s = async_send Heartbeats (s\<lparr>beat_at := Beat_claiming\<rparr>)"

definition claim_for_beat_2 :: "lsession \<Rightarrow> lsession" where
  "claim_for_beat_2 s =
     (case try_send Heartbeats s of Some s' \<Rightarrow> write_beat s' | None \<Rightarrow> async_send Heartbeats (s\<lparr>beat_at := Beat_claiming\<rparr>))"

definition claim_for_beat :: "bool \<Rightarrow> lsession \<Rightarrow> lsession" where
  "claim_for_beat try_first = (if try_first then claim_for_beat_2 else claim_for_beat_1)"

definition beat_done :: "lsession \<Rightarrow> lsession" where
  "beat_done s = tick (try_receive (s\<lparr>frames_out := frames_out s @ [Beat_frame], frame_part := []\<rparr>))"

definition heartbeats_fail :: "lsession \<Rightarrow> lsession" where
  "heartbeats_fail s = stop_session (s\<lparr>beat_at := Heartbeats_ended, refused := refused s - {Heartbeats}\<rparr>)"

subsection \<open>Steps\<close>

text \<open>A piece of a write goes out.\<close>

definition put :: "string \<Rightarrow> lsession \<Rightarrow> lsession" where
  "put bs s = s\<lparr>bytes_out := bytes_out s @ bs, frame_part := frame_part s @ bs\<rparr>"

definition start_session :: lsession where
  "start_session = read_until (tick \<lparr>lk_open = True, lock_buffer = 0, lock_queue = [], granted = {}, refused = {}, line_data = [],
     line_at = Reading_line, beat_at = Ticking, valid_ops = {}, holder = None, bytes_in = [], bytes_out = [], frames_out = [], frame_part = []\<rparr>)"

inductive lock_step :: "bool \<Rightarrow> lsession \<Rightarrow> lsession \<Rightarrow> bool" for try_first where
  bytes_arrive: "line_at s = Reading_line \<Longrightarrow> CHR 0x0A \<notin> set (line_data s) \<Longrightarrow> Messages \<in> valid_ops s \<Longrightarrow> bs \<noteq> [] \<Longrightarrow>
    length (line_data s @ bs) \<le> max_line_length \<Longrightarrow>
    lock_step try_first s (s\<lparr>line_data := line_data s @ bs, bytes_in := bytes_in s @ bs\<rparr>)"
| line_found: "line_at s = Reading_line \<Longrightarrow> line_data s = l @ CHR 0x0A # rs \<Longrightarrow> CHR 0x0A \<notin> set l \<Longrightarrow>
    lock_step try_first s (claim_for_line try_first (Suc (length l)) s)"
| read_fails: "line_at s = Reading_line \<Longrightarrow> CHR 0x0A \<notin> set (line_data s) \<Longrightarrow> lock_step try_first s (messages_fail s)"
| line_granted: "line_at s = Claiming len \<Longrightarrow> Messages \<in> granted s \<Longrightarrow> lock_step try_first s (write_tag len s)"
| line_refused: "line_at s = Claiming len \<Longrightarrow> Messages \<in> refused s \<Longrightarrow> lock_step try_first s (messages_fail s)"
| tag_piece: "line_at s = Writing_tag len (bs @ rs) \<Longrightarrow> bs \<noteq> [] \<Longrightarrow> Messages \<in> valid_ops s \<Longrightarrow>
    lock_step try_first s (put bs (s\<lparr>line_at := Writing_tag len rs\<rparr>))"
| tag_written: "line_at s = Writing_tag len [] \<Longrightarrow> lock_step try_first s (write_body len s)"
| tag_fails: "line_at s = Writing_tag len rs \<Longrightarrow> rs \<noteq> [] \<Longrightarrow> lock_step try_first s (messages_fail s)"
| line_piece: "line_at s = Writing_line len (bs @ rs) \<Longrightarrow> bs \<noteq> [] \<Longrightarrow> Messages \<in> valid_ops s \<Longrightarrow>
    lock_step try_first s (put bs (s\<lparr>line_at := Writing_line len rs\<rparr>))"
| line_written: "line_at s = Writing_line len [] \<Longrightarrow> lock_step try_first s (line_done len s)"
| line_fails: "line_at s = Writing_line len rs \<Longrightarrow> rs \<noteq> [] \<Longrightarrow> lock_step try_first s (messages_fail s)"
| second_over: "beat_at s = Ticking \<Longrightarrow> lock_step try_first s (claim_for_beat try_first s)"
| beat_granted: "beat_at s = Beat_claiming \<Longrightarrow> Heartbeats \<in> granted s \<Longrightarrow> lock_step try_first s (write_beat s)"
| beat_refused: "beat_at s = Beat_claiming \<Longrightarrow> Heartbeats \<in> refused s \<Longrightarrow> lock_step try_first s (heartbeats_fail s)"
| beat_piece: "beat_at s = Beating (bs @ rs) \<Longrightarrow> bs \<noteq> [] \<Longrightarrow> Heartbeats \<in> valid_ops s \<Longrightarrow>
    lock_step try_first s (put bs (s\<lparr>beat_at := Beating rs\<rparr>))"
| beat_written: "beat_at s = Beating [] \<Longrightarrow> lock_step try_first s (beat_done s)"
| beat_fails: "beat_at s = Beating rs \<Longrightarrow> rs \<noteq> [] \<Longrightarrow> lock_step try_first s (heartbeats_fail s)"

subsection \<open>listen and main\<close>

text \<open>An accepted socket gets a session; an error is ignored and the loop accepts again.\<close>

definition listen_once :: "'e + unit \<Rightarrow> lsession list \<Rightarrow> lsession list" where
  "listen_once accepted ss = (case accepted of Inl e \<Rightarrow> ss | Inr _ \<Rightarrow> ss @ [start_session])"

text \<open>Exit status and error output, up to the loop of the context; resolver and acceptor may throw, with a text.\<close>

definition mutual_exclusion_main :: "string \<Rightarrow> nat \<Rightarrow> string + unit \<Rightarrow> nat \<times> string" where
  "mutual_exclusion_main name argc opened =
     (if argc \<noteq> 3 then (1, ''Usage: '' @ name @ '' <listen_address> <listen_port>'' @ [CHR 0x0A])
      else case opened of Inl what \<Rightarrow> (0, ''Exception: '' @ what @ [CHR 0x0A]) | Inr _ \<Rightarrow> (0, []))"

section \<open>Properties\<close>

text \<open>
  Two coroutines, one socket: the lock keeps their frames apart; where both can end, and where one
  waits for ever.
\<close>

subsection \<open>Invariants\<close>

fun frame_text :: "frame_sent \<Rightarrow> string" where
  "frame_text (Line_frame l) = line_tag @ l"
| "frame_text Beat_frame = heartbeat_text"

fun frame_line :: "frame_sent \<Rightarrow> string" where
  "frame_line (Line_frame l) = l"
| "frame_line Beat_frame = []"

text \<open>A line ends with its only newline.\<close>

definition one_line :: "string \<Rightarrow> bool" where
  "one_line l \<longleftrightarrow> (\<exists>x. l = x @ [CHR 0x0A] \<and> CHR 0x0A \<notin> set x)"

fun lines_only :: "frame_sent \<Rightarrow> bool" where
  "lines_only (Line_frame l) = one_line l"
| "lines_only Beat_frame = True"

fun claims :: "lock_actor \<Rightarrow> lsession \<Rightarrow> bool" where
  "claims Messages s = (case line_at s of Claiming _ \<Rightarrow> True | _ \<Rightarrow> False)"
| "claims Heartbeats s = (beat_at s = Beat_claiming)"

fun writes :: "lock_actor \<Rightarrow> lsession \<Rightarrow> bool" where
  "writes Messages s = (case line_at s of Writing_tag _ _ \<Rightarrow> True | Writing_line _ _ \<Rightarrow> True | _ \<Rightarrow> False)"
| "writes Heartbeats s = (case beat_at s of Beating _ \<Rightarrow> True | _ \<Rightarrow> False)"

fun has_ended :: "lock_actor \<Rightarrow> lsession \<Rightarrow> bool" where
  "has_ended Messages s = (line_at s = Messages_ended)"
| "has_ended Heartbeats s = (beat_at s = Heartbeats_ended)"

text \<open>The lock: who holds it has claimed it and will be resumed, is writing, or has ended; who waits for it is not who holds it.\<close>

definition lock_ok :: "lsession \<Rightarrow> bool" where
  "lock_ok s \<longleftrightarrow>
     lock_buffer s = (if holder s = None then 0 else 1) \<and> (holder s = None \<longrightarrow> lock_queue s = []) \<and> distinct (lock_queue s) \<and>
     (\<forall>a. (claims a s \<longleftrightarrow> a \<in> set (lock_queue s) \<or> a \<in> granted s \<or> a \<in> refused s) \<and>
          (a \<in> granted s \<or> writes a s \<longrightarrow> holder s = Some a) \<and>
          (holder s = Some a \<longrightarrow> a \<in> granted s \<or> writes a s \<or> has_ended a s) \<and>
          (a \<in> set (lock_queue s) \<longrightarrow> a \<notin> refused s \<and> a \<notin> granted s) \<and> (a \<in> refused s \<longrightarrow> a \<notin> granted s) \<and>
          (has_ended a s \<longrightarrow> \<not> lk_open s))"

definition part_of_frame :: "string \<Rightarrow> bool" where
  "part_of_frame p \<longleftrightarrow> (\<exists>f rs. lines_only f \<and> p @ rs = frame_text f)"

text \<open>What is on the wire: whole frames, and a part of one.\<close>

definition wire_ok :: "lsession \<Rightarrow> bool" where
  "wire_ok s \<longleftrightarrow>
     bytes_out s = concat (map frame_text (frames_out s)) @ frame_part s \<and> list_all lines_only (frames_out s) \<and>
     bytes_in s = concat (map frame_line (frames_out s)) @ line_data s \<and>
     (\<forall>len. line_at s = Claiming len \<longrightarrow> one_line (take len (line_data s))) \<and>
     (\<forall>len rs. line_at s = Writing_tag len rs \<longrightarrow> one_line (take len (line_data s)) \<and> frame_part s @ rs = line_tag) \<and>
     (\<forall>len rs. line_at s = Writing_line len rs \<longrightarrow> one_line (take len (line_data s)) \<and> frame_part s @ rs = line_tag @ take len (line_data s)) \<and>
     (\<forall>rs. beat_at s = Beating rs \<longrightarrow> frame_part s @ rs = heartbeat_text) \<and>
     (\<forall>a. holder s = Some a \<and> a \<in> granted s \<longrightarrow> frame_part s = []) \<and> (holder s = None \<longrightarrow> frame_part s = []) \<and>
     part_of_frame (frame_part s)"

lemma part_of_frame_intros:
  "part_of_frame []" "p @ rs = line_tag \<Longrightarrow> part_of_frame p" "p @ rs = line_tag @ l \<Longrightarrow> one_line l \<Longrightarrow> part_of_frame p"
  "p @ rs = heartbeat_text \<Longrightarrow> part_of_frame p"
proof -
  have h: "part_of_frame p" if "p @ rs = heartbeat_text" for p rs
    using that by (auto simp: part_of_frame_def intro!: exI [of _ Beat_frame])
  have l: "part_of_frame p" if "p @ rs = line_tag @ l" "one_line l" for p rs l
    using that by (auto simp: part_of_frame_def intro!: exI [of _ "Line_frame l"])
  show "part_of_frame []" by (rule h [of "[]" heartbeat_text]) simp
  have "one_line [CHR 0x0A]" by (simp add: one_line_def)
  then show "part_of_frame p" if "p @ rs = line_tag" using l [of p "rs @ [CHR 0x0A]" "[CHR 0x0A]"] that by simp
  show "part_of_frame p" if "p @ rs = line_tag @ l" "one_line l" using l that .
  show "part_of_frame p" if "p @ rs = heartbeat_text" using h that .
qed

lemmas lock_defs = async_send_def try_receive_def cancel_sends_def stop_session_def begin_op_def read_until_def write_tag_def
  claim_for_line_def claim_for_line_1_def claim_for_line_2_def try_send_def write_body_def line_done_def messages_fail_def tick_def write_beat_def claim_for_beat_def claim_for_beat_1_def claim_for_beat_2_def beat_done_def
  heartbeats_fail_def put_def

lemma claims_waits: "claims a s \<Longrightarrow> \<not> has_ended a s \<and> \<not> writes a s"
  by (cases a) (auto split: line_pc.splits)

lemma all_actors: "(\<forall>a. P a) \<longleftrightarrow> P Messages \<and> P Heartbeats"
  by (metis lock_actor.exhaust)

lemma lock_ok_start: "lock_ok start_session"
  by (simp add: lock_ok_def start_session_def read_until_def tick_def begin_op_def all_actors)

lemma lock_ok_step:
  assumes "lock_step v s t" "lock_ok s"
  shows "lock_ok t"
proof -
  obtain op lb q g r d la ba vo h bi bo fo fp where s: "s = \<lparr>lk_open = op, lock_buffer = lb, lock_queue = q, granted = g, refused = r, line_data = d,
     line_at = la, beat_at = ba, valid_ops = vo, holder = h, bytes_in = bi, bytes_out = bo, frames_out = fo, frame_part = fp\<rparr>"
    by (cases s) blast
  from assms show ?thesis
  proof cases
    case (line_found l rs)
    with assms(2) show ?thesis by (cases h) (auto simp: s lock_ok_def all_actors lock_defs split: if_splits)
  next
    case second_over
    with assms(2) show ?thesis by (cases h) (auto simp: s lock_ok_def all_actors lock_defs split: if_splits)
  next
    case (line_written len)
    with assms(2) show ?thesis by (cases q) (auto simp: s lock_ok_def all_actors lock_defs)
  next
    case beat_written
    with assms(2) show ?thesis by (cases q) (auto simp: s lock_ok_def all_actors lock_defs)
  qed (use assms(2) in \<open>cases h; auto simp: s lock_ok_def all_actors lock_defs\<close>)+
qed

lemma lock_ok_reachable: "(lock_step v)\<^sup>*\<^sup>* start_session s \<Longrightarrow> lock_ok s"
  by (induction rule: rtranclp_induct) (simp_all add: lock_ok_start lock_ok_step)

lemma lock_okD:
  assumes "lock_ok s"
  shows "claims a s \<longleftrightarrow> a \<in> set (lock_queue s) \<or> a \<in> granted s \<or> a \<in> refused s" "writes a s \<Longrightarrow> holder s = Some a"
    "a \<in> granted s \<Longrightarrow> holder s = Some a" "holder s = Some a \<Longrightarrow> a \<in> granted s \<or> writes a s \<or> has_ended a s"
    "a \<in> set (lock_queue s) \<Longrightarrow> a \<notin> refused s \<and> a \<notin> granted s" "a \<in> refused s \<Longrightarrow> a \<notin> granted s" "has_ended a s \<Longrightarrow> \<not> lk_open s"
    "holder s = None \<Longrightarrow> lock_queue s = []" "lock_buffer s = (if holder s = None then 0 else 1)" "distinct (lock_queue s)"
  using assms unfolding lock_ok_def by blast+

subsection \<open>Who can act\<close>

lemma actor_can_act:
  assumes "lock_ok s" "\<not> has_ended a s" "a \<notin> set (lock_queue s)"
  shows "\<exists>t. lock_step v s t"
proof (cases a)
  case Messages
  note m = this
  show ?thesis
  proof (cases "line_at s")
    case Reading_line
    show ?thesis
    proof (cases "CHR 0x0A \<in> set (line_data s)")
      case True
      then obtain l rs where "line_data s = l @ CHR 0x0A # rs" "CHR 0x0A \<notin> set l" by (meson split_list_first)
      then show ?thesis using lock_step.line_found [OF Reading_line] by blast
    next
      case False
      then show ?thesis using lock_step.read_fails [OF Reading_line] by blast
    qed
  next
    case (Claiming len)
    then have "Messages \<in> granted s \<or> Messages \<in> refused s" using assms(3) lock_okD(1) [OF assms(1), of Messages] m by simp
    then show ?thesis using Claiming lock_step.line_granted lock_step.line_refused by blast
  next
    case (Writing_tag len rs)
    then show ?thesis using lock_step.tag_written lock_step.tag_fails by (cases rs) blast+
  next
    case (Writing_line len rs)
    then show ?thesis using lock_step.line_written lock_step.line_fails by (cases rs) blast+
  qed (use assms m in simp)
next
  case Heartbeats
  note h = this
  show ?thesis
  proof (cases "beat_at s")
    case Ticking
    then show ?thesis using lock_step.second_over by blast
  next
    case Beat_claiming
    then have "Heartbeats \<in> granted s \<or> Heartbeats \<in> refused s" using assms(3) lock_okD(1) [OF assms(1), of Heartbeats] h by simp
    then show ?thesis using Beat_claiming lock_step.beat_granted lock_step.beat_refused by blast
  next
    case (Beating rs)
    then show ?thesis using lock_step.beat_written lock_step.beat_fails by (cases rs) blast+
  qed (use assms h in simp)
qed

lemma queued_cannot_act:
  assumes "lock_ok s" "\<forall>a. has_ended a s \<or> a \<in> set (lock_queue s)"
  shows "\<not> lock_step v s t"
proof -
  have m: "line_at s = Messages_ended \<or> (\<exists>len. line_at s = Claiming len \<and> Messages \<notin> granted s \<and> Messages \<notin> refused s)"
  proof (cases "has_ended Messages s")
    case False
    with assms have "Messages \<in> set (lock_queue s)" by blast
    with lock_okD(1,5) [OF assms(1), of Messages] show ?thesis by (simp split: line_pc.splits)
  qed simp
  have b: "beat_at s = Heartbeats_ended \<or> (beat_at s = Beat_claiming \<and> Heartbeats \<notin> granted s \<and> Heartbeats \<notin> refused s)"
  proof (cases "has_ended Heartbeats s")
    case False
    with assms have "Heartbeats \<in> set (lock_queue s)" by blast
    with lock_okD(1,5) [OF assms(1), of Heartbeats] show ?thesis by simp
  qed simp
  show ?thesis
  proof
    assume "lock_step v s t"
    then show False using m b by cases auto
  qed
qed

lemma wire_ok_start: "wire_ok start_session"
  by (simp add: wire_ok_def start_session_def read_until_def tick_def begin_op_def part_of_frame_intros(1))

lemma wire_ok_step:
  assumes "lock_step v s t" "lock_ok s" "wire_ok s"
  shows "wire_ok t"
proof -
  obtain op lb q g r d la ba vo h bi bo fo fp where s: "s = \<lparr>lk_open = op, lock_buffer = lb, lock_queue = q, granted = g, refused = r, line_data = d,
     line_at = la, beat_at = ba, valid_ops = vo, holder = h, bytes_in = bi, bytes_out = bo, frames_out = fo, frame_part = fp\<rparr>"
    by (cases s) blast
  note D = lock_okD [OF assms(2)]
  have ok: "writes Messages s \<longrightarrow> holder s = Some Messages" "writes Heartbeats s \<longrightarrow> holder s = Some Heartbeats"
    "Messages \<in> granted s \<longrightarrow> holder s = Some Messages" "Heartbeats \<in> granted s \<longrightarrow> holder s = Some Heartbeats"
    "Messages \<in> granted s \<longrightarrow> claims Messages s" "Heartbeats \<in> granted s \<longrightarrow> claims Heartbeats s"
    "lock_buffer s = (if holder s = None then 0 else 1)" "wire_ok s"
    using D(1,2,3,9) assms(3) by blast+
  from assms(1) show ?thesis
  proof cases
    case (bytes_arrive bs)
    with ok show ?thesis by (simp add: s wire_ok_def lock_defs)
  next
    case (line_found l rs)
    with ok show ?thesis by (cases h) (auto simp: s wire_ok_def lock_defs one_line_def)
  next
    case second_over
    with ok show ?thesis by (cases h) (auto simp: s wire_ok_def lock_defs)
  next
    case (line_granted len)
    with ok show ?thesis by (auto simp: s wire_ok_def lock_defs)
  next
    case read_fails
    with ok show ?thesis by (simp add: s wire_ok_def lock_defs)
  next
    case (line_refused len)
    with ok show ?thesis by (simp add: s wire_ok_def lock_defs)
  next
    case (tag_piece len bs rs)
    with ok show ?thesis by (auto simp: s wire_ok_def lock_defs intro: part_of_frame_intros)
  next
    case (tag_written len)
    with ok show ?thesis by (auto simp: s wire_ok_def lock_defs)
  next
    case (tag_fails len rs)
    with ok show ?thesis by (simp add: s wire_ok_def lock_defs)
  next
    case (line_piece len bs rs)
    with ok show ?thesis by (auto simp: s wire_ok_def lock_defs intro: part_of_frame_intros)
  next
    case (line_written len)
    with ok show ?thesis by (cases q) (auto simp: s wire_ok_def lock_defs part_of_frame_intros(1))
  next
    case (line_fails len rs)
    with ok show ?thesis by (simp add: s wire_ok_def lock_defs)
  next
    case beat_granted
    with ok show ?thesis by (auto simp: s wire_ok_def lock_defs)
  next
    case beat_refused
    with ok show ?thesis by (simp add: s wire_ok_def lock_defs)
  next
    case (beat_piece bs rs)
    with ok show ?thesis by (auto simp: s wire_ok_def lock_defs intro: part_of_frame_intros)
  next
    case beat_written
    with ok show ?thesis by (cases q) (auto simp: s wire_ok_def lock_defs part_of_frame_intros(1))
  next
    case (beat_fails rs)
    with ok show ?thesis by (simp add: s wire_ok_def lock_defs)
  qed
qed

lemma wire_ok_reachable: "(lock_step v)\<^sup>*\<^sup>* start_session s \<Longrightarrow> wire_ok s"
proof (induction rule: rtranclp_induct)
  case base
  then show ?case by (rule wire_ok_start)
next
  case (step s t)
  then show ?case using wire_ok_step lock_ok_reachable by blast
qed

text \<open>A session that leaks: a line arrives, writing its answer fails while the lock is held, then the next heartbeat is due.\<close>

definition one_line_in :: lsession where
  "one_line_in = start_session\<lparr>line_data := line_data start_session @ [CHR ''x'', CHR 0x0A], bytes_in := bytes_in start_session @ [CHR ''x'', CHR 0x0A]\<rparr>"

definition leaked :: "bool \<Rightarrow> lsession" where
  "leaked v = (let s = claim_for_line v 2 one_line_in; s = (if v then s else write_tag 2 s) in claim_for_beat v (messages_fail s))"

lemma leaked_reachable: "(lock_step v)\<^sup>*\<^sup>* start_session (leaked v)"
proof -
  have start: "line_at start_session = Reading_line" "line_data start_session = []" "Messages \<in> valid_ops start_session"
    by (simp_all add: start_session_def lock_defs)
  have "lock_step v start_session one_line_in" unfolding one_line_in_def
    using start by (intro lock_step.bytes_arrive) (simp_all add: max_line_length_def)
  moreover have "lock_step v one_line_in (claim_for_line v (Suc (length [CHR ''x''])) one_line_in)"
    using start by (intro lock_step.line_found [where rs = "[]"]) (simp_all add: one_line_in_def)
  ultimately have two: "(lock_step v)\<^sup>*\<^sup>* start_session (claim_for_line v 2 one_line_in)"
    by (simp add: numeral_2_eq_2)
  define s where "s = (if v then claim_for_line v 2 one_line_in else write_tag 2 (claim_for_line v 2 one_line_in))"
  have "(lock_step v)\<^sup>*\<^sup>* start_session s"
  proof (cases v)
    case False
    have "lock_step v (claim_for_line v 2 one_line_in) (write_tag 2 (claim_for_line v 2 one_line_in))"
      by (rule lock_step.line_granted) (simp_all add: False one_line_in_def start_session_def lock_defs)
    with two False show ?thesis by (simp add: s_def)
  qed (use two in \<open>simp add: s_def\<close>)
  moreover have "lock_step v s (messages_fail s)"
    by (rule lock_step.tag_fails [where rs = line_tag]) (auto simp: s_def one_line_in_def start_session_def lock_defs line_tag_def)
  moreover have "lock_step v (messages_fail s) (claim_for_beat v (messages_fail s))"
    by (rule lock_step.second_over) (auto simp: s_def one_line_in_def start_session_def lock_defs)
  ultimately show ?thesis by (simp add: leaked_def Let_def flip: s_def)
qed

lemma leaked_state: "has_ended Messages (leaked v) \<and> holder (leaked v) = Some Messages \<and> lock_queue (leaked v) = [Heartbeats]"
  by (cases v) (simp_all add: leaked_def Let_def one_line_in_def start_session_def lock_defs)

subsection \<open>Properties\<close>

text \<open>C35. The lock keeps the frames of a session apart: whatever the network does and however the two coroutines are resumed, what has been
  sent is a sequence of whole frames, each a heartbeat or the tag with one line, followed by a beginning of one more; the lines sent are
  the first lines received, in order and unchanged, and what is left of the input is in the buffer.\<close>

theorem frames_whole:
  assumes "(lock_step v)\<^sup>*\<^sup>* start_session s"
  shows "\<exists>f part rest. bytes_out s = concat (map frame_text (frames_out s)) @ part \<and> part @ rest = frame_text f \<and> lines_only f \<and>
    list_all lines_only (frames_out s) \<and> bytes_in s = concat (map frame_line (frames_out s)) @ line_data s"
  using wire_ok_reachable [OF assms] unfolding wire_ok_def part_of_frame_def by blast

theorem frames_whole_witness:
  "\<exists>f part rest. bytes_out (leaked True) = concat (map frame_text (frames_out (leaked True))) @ part \<and> part @ rest = frame_text f \<and> lines_only f \<and>
    list_all lines_only (frames_out (leaked True)) \<and> bytes_in (leaked True) = concat (map frame_line (frames_out (leaked True))) @ line_data (leaked True)"
  by (rule frames_whole [OF leaked_reachable])

text \<open>C36. When a session comes to a stop: nothing can happen any more exactly when both coroutines have ended, or one has ended holding the
  lock and the other waits for the lock, which is never released, so that the session with its closed socket is never destroyed. The second does happen.\<close>

theorem session_stops:
  assumes "(lock_step v)\<^sup>*\<^sup>* start_session s"
  shows "(\<nexists>t. lock_step v s t) \<longleftrightarrow>
    (\<forall>a. has_ended a s) \<or>
    (\<exists>a b. has_ended a s \<and> holder s = Some a \<and> lock_queue s = [b] \<and> claims b s \<and> \<not> lk_open s)"
proof -
  have ok: "lock_ok s" using assms by (rule lock_ok_reachable)
  note D = lock_okD [OF ok]
  have stuck: "(\<nexists>t. lock_step v s t) \<longleftrightarrow> (\<forall>a. has_ended a s \<or> a \<in> set (lock_queue s))"
    using actor_can_act [OF ok] queued_cannot_act [OF ok] by blast
  have other: "lock_queue s = [b] \<and> has_ended a s \<and> holder s = Some a"
    if "\<forall>c. has_ended c s \<or> c \<in> set (lock_queue s)" "b \<in> set (lock_queue s)" "holder s = Some a" for a b
  proof -
    have a: "a \<notin> set (lock_queue s)"
    proof
      assume "a \<in> set (lock_queue s)"
      then have "claims a s" "a \<notin> granted s" using D(1,5) by blast+
      then have "\<not> writes a s" "\<not> has_ended a s" using claims_waits by blast+
      then show False using D(4) [OF that(3)] \<open>a \<notin> granted s\<close> by blast
    qed
    moreover have "c = b" if "c \<in> set (lock_queue s)" for c using a that \<open>b \<in> set (lock_queue s)\<close> by (metis lock_actor.exhaust)
    ultimately have "set (lock_queue s) = {b}" using that(2) by blast
    with D(10) have "lock_queue s = [b]" by (metis distinct_card length_0_conv length_Suc_conv list.set_intros(1) One_nat_def card.empty
          card.insert empty_iff finite.emptyI singletonD)
    with a that show ?thesis by blast
  qed
  show ?thesis
  proof (cases "lock_queue s")
    case Nil
    then show ?thesis unfolding stuck by simp
  next
    case (Cons b q)
    then obtain a where a: "holder s = Some a" using D(8) by (cases "holder s") auto
    have b: "b \<in> set (lock_queue s)" using Cons by simp
    then have cb: "claims b s" using D(1) by blast
    then have nb: "\<not> has_ended b s" using claims_waits by blast
    show ?thesis unfolding stuck
    proof
      assume "\<forall>c. has_ended c s \<or> c \<in> set (lock_queue s)"
      then show "(\<forall>a. has_ended a s) \<or> (\<exists>a b. has_ended a s \<and> holder s = Some a \<and> lock_queue s = [b] \<and> claims b s \<and> \<not> lk_open s)"
        using other [OF _ b a] cb D(7) by blast
    next
      assume "(\<forall>a. has_ended a s) \<or> (\<exists>a b. has_ended a s \<and> holder s = Some a \<and> lock_queue s = [b] \<and> claims b s \<and> \<not> lk_open s)"
      with nb obtain a b where ab: "has_ended a s" "lock_queue s = [b]" "claims b s" by blast
      then have "a \<noteq> b" using claims_waits by blast
      then show "\<forall>c. has_ended c s \<or> c \<in> set (lock_queue s)" using ab by (metis lock_actor.exhaust list.set_intros(1))
    qed
  qed
qed

theorem session_stops_witness: "\<nexists>t. lock_step False (leaked False) t"
  using session_stops [OF leaked_reachable [of False]] leaked_state [of False] lock_okD(1,7) [OF lock_ok_reachable [OF leaked_reachable [of False]]]
  by (metis list.set_intros(1))

end
