(* ===== verification/Echo_Sessions.thy ===== *)
theory Echo_Sessions
  imports Prelude
begin

text \<open>
  Sessions that send back what they receive. What they have in common is the locale \<open>echo_session\<close>; in this theory it
  is interpreted on the server that gives its handlers memory of their own
  (\<open>boost_asio/example/cpp11/allocation/server.cpp\<close>).
\<close>

subsection \<open>Sessions that echo\<close>

text \<open>
  Received and sent bytes, and those the session still holds: until it is over a step takes bytes in at the end, sends
  some from the front, or is the end; afterwards nothing is sent.
\<close>

locale echo_session =
  fixes start :: 's and step :: "'s \<Rightarrow> 's \<Rightarrow> bool" and received sent held :: "'s \<Rightarrow> string" and over :: "'s \<Rightarrow> bool"
  assumes starts: "received start = []" "sent start = []" "held start = []"
    and steps: "step s t \<Longrightarrow> \<not> over s \<Longrightarrow>
      (\<exists>bs. received t = received s @ bs \<and> held t = held s @ bs \<and> sent t = sent s) \<or>
      (\<exists>bs. held s = bs @ held t \<and> sent t = sent s @ bs \<and> received t = received s) \<or>
      over t \<and> sent t = sent s \<and> received t = received s"
    and stays_over: "step s t \<Longrightarrow> over s \<Longrightarrow> over t \<and> sent t = sent s \<and> (\<exists>bs. received t = received s @ bs)"
begin

lemma echoes:
  assumes "step\<^sup>*\<^sup>* start s"
  shows "(\<not> over s \<longrightarrow> received s = sent s @ held s) \<and> (\<exists>bs. received s = sent s @ bs)"
  using assms
proof (induction rule: rtranclp_induct)
  case (step s t)
  show ?case
  proof (cases "over s")
    case True
    with stays_over [OF step(2)] step(3) show ?thesis by auto
  next
    case False
    with steps [OF step(2)] step(3) show ?thesis by auto
  qed
qed (simp add: starts)

lemma sent_grows: "step\<^sup>*\<^sup>* s t \<Longrightarrow> \<exists>bs. sent t = sent s @ bs"
proof (induction rule: rtranclp_induct)
  case (step t u)
  from steps [OF step(2)] stays_over [OF step(2)] step(3) show ?case by (cases "over t") auto
qed simp

end

subsection \<open>handler_memory\<close>

text \<open>A block is the storage of the object or one of the heap. The state is the flag and the live heap blocks; which free one the heap hands out is its choice.\<close>

datatype block = Storage | Heap_block nat

record handler_memory =
  in_use :: bool
  heap_live :: "nat set"

definition storage_size :: nat where "storage_size = 1024"

definition new_handler_memory :: handler_memory where
  "new_handler_memory = \<lparr>in_use = False, heap_live = {}\<rparr>"

definition mem_allocate :: "nat \<Rightarrow> nat \<Rightarrow> handler_memory \<Rightarrow> block \<times> handler_memory" where
  "mem_allocate fresh sz m =
     (if \<not> in_use m \<and> sz < storage_size then (Storage, m\<lparr>in_use := True\<rparr>)
      else (Heap_block fresh, m\<lparr>heap_live := insert fresh (heap_live m)\<rparr>))"

fun mem_deallocate :: "block \<Rightarrow> handler_memory \<Rightarrow> handler_memory" where
  "mem_deallocate Storage m = m\<lparr>in_use := False\<rparr>"
| "mem_deallocate (Heap_block i) m = m\<lparr>heap_live := heap_live m - {i}\<rparr>"

text \<open>\<open>handler_allocator\<close>: objects of a type of \<open>sizeof\<close> bytes; two are equal when they share the memory.\<close>

definition allocator_allocate :: "nat \<Rightarrow> nat \<Rightarrow> nat \<Rightarrow> handler_memory \<Rightarrow> block \<times> handler_memory" where
  "allocator_allocate fresh type_size n m = mem_allocate fresh (type_size * n) m"

definition allocator_deallocate :: "block \<Rightarrow> nat \<Rightarrow> handler_memory \<Rightarrow> handler_memory" where
  "allocator_deallocate p n m = mem_deallocate p m"

subsection \<open>The session\<close>

text \<open>
  An operation that has been started has its block, which is given back before its handler runs. A write of several pieces starts an
  operation for each.
\<close>

datatype alloc_pc = Alloc_reading block | Alloc_writing block string | Alloc_ended

record alloc_session =
  alloc_at :: alloc_pc
  alloc_data :: string
  alloc_mem :: handler_memory
  alloc_in :: string
  alloc_out :: string

definition alloc_do_read :: "nat \<Rightarrow> nat \<Rightarrow> alloc_session \<Rightarrow> alloc_session" where
  "alloc_do_read fresh sz s = (let (b, m) = allocator_allocate fresh sz 1 (alloc_mem s) in s\<lparr>alloc_at := Alloc_reading b, alloc_mem := m\<rparr>)"

definition alloc_write_some :: "nat \<Rightarrow> nat \<Rightarrow> string \<Rightarrow> alloc_session \<Rightarrow> alloc_session" where
  "alloc_write_some fresh sz bs s = (let (b, m) = allocator_allocate fresh sz 1 (alloc_mem s) in s\<lparr>alloc_at := Alloc_writing b bs, alloc_mem := m\<rparr>)"

definition alloc_do_write :: "nat \<Rightarrow> nat \<Rightarrow> nat \<Rightarrow> alloc_session \<Rightarrow> alloc_session" where
  "alloc_do_write fresh sz len s = alloc_write_some fresh sz (take len (alloc_data s)) s"

text \<open>\<open>None\<close> is an error; otherwise the bytes are at the beginning of the array.\<close>

definition alloc_on_read :: "nat \<Rightarrow> nat \<Rightarrow> string option \<Rightarrow> alloc_session \<Rightarrow> alloc_session" where
  "alloc_on_read fresh sz got s =
     (case got of
        None \<Rightarrow> s\<lparr>alloc_at := Alloc_ended\<rparr>
      | Some bs \<Rightarrow> alloc_do_write fresh sz (length bs) (s\<lparr>alloc_data := bs @ drop (length bs) (alloc_data s), alloc_in := alloc_in s @ bs\<rparr>))"

definition alloc_on_write :: "nat \<Rightarrow> nat \<Rightarrow> bool \<Rightarrow> alloc_session \<Rightarrow> alloc_session" where
  "alloc_on_write fresh sz failed s = (if failed then s\<lparr>alloc_at := Alloc_ended\<rparr> else alloc_do_read fresh sz s)"

definition give_back :: "block \<Rightarrow> alloc_session \<Rightarrow> alloc_session" where
  "give_back b s = s\<lparr>alloc_mem := allocator_deallocate b 1 (alloc_mem s)\<rparr>"

definition alloc_start :: "nat \<Rightarrow> nat \<Rightarrow> alloc_session" where
  "alloc_start fresh sz = alloc_do_read fresh sz
     \<lparr>alloc_at = Alloc_ended, alloc_data = replicate 1024 (CHR 0x00), alloc_mem = new_handler_memory, alloc_in = [], alloc_out = []\<rparr>"

inductive alloc_step :: "(nat \<Rightarrow> bool) \<Rightarrow> alloc_session \<Rightarrow> alloc_session \<Rightarrow> bool" for sizes where
  alloc_read: "alloc_at s = Alloc_reading b \<Longrightarrow> fresh \<notin> heap_live (alloc_mem (give_back b s)) \<Longrightarrow> sizes sz \<Longrightarrow>
    (\<forall>bs. got = Some bs \<longrightarrow> bs \<noteq> [] \<and> length bs \<le> 1024) \<Longrightarrow> alloc_step sizes s (alloc_on_read fresh sz got (give_back b s))"
| alloc_piece: "alloc_at s = Alloc_writing b (bs @ rs) \<Longrightarrow> bs \<noteq> [] \<Longrightarrow> rs \<noteq> [] \<Longrightarrow> fresh \<notin> heap_live (alloc_mem (give_back b s)) \<Longrightarrow> sizes sz \<Longrightarrow>
    alloc_step sizes s (alloc_write_some fresh sz rs (give_back b s\<lparr>alloc_out := alloc_out s @ bs\<rparr>))"
| alloc_written: "alloc_at s = Alloc_writing b bs \<Longrightarrow> fresh \<notin> heap_live (alloc_mem (give_back b s)) \<Longrightarrow> sizes sz \<Longrightarrow>
    alloc_step sizes s (alloc_on_write fresh sz False (give_back b s\<lparr>alloc_out := alloc_out s @ bs\<rparr>))"
| alloc_write_fails: "alloc_at s = Alloc_writing b bs \<Longrightarrow> sizes sz \<Longrightarrow> alloc_step sizes s (alloc_on_write fresh sz True (give_back b s))"

text \<open>\<open>do_accept\<close>: a session for every accepted socket, and on with accepting.\<close>

definition alloc_accept :: "nat \<Rightarrow> nat \<Rightarrow> bool \<Rightarrow> alloc_session list \<Rightarrow> alloc_session list" where
  "alloc_accept fresh sz failed ss = (if failed then ss else ss @ [alloc_start fresh sz])"

definition alloc_server_main :: "nat \<Rightarrow> string + unit \<Rightarrow> nat \<times> string" where
  "alloc_server_main argc run =
     (if argc \<noteq> 2 then (1, ''Usage: server <port>'' @ [CHR 0x0A])
      else case run of Inl what \<Rightarrow> (0, ''Exception: '' @ what @ [CHR 0x0A]) | Inr _ \<Rightarrow> (0, []))"

subsection \<open>What the session does\<close>

fun alloc_held :: "alloc_pc \<Rightarrow> string" where
  "alloc_held (Alloc_writing b bs) = bs"
| "alloc_held _ = []"

fun pc_block :: "alloc_pc \<Rightarrow> block option" where
  "pc_block (Alloc_reading b) = Some b"
| "pc_block (Alloc_writing b bs) = Some b"
| "pc_block Alloc_ended = None"

definition memory_exact :: "alloc_session \<Rightarrow> bool" where
  "memory_exact s \<longleftrightarrow> (case pc_block (alloc_at s) of
      None \<Rightarrow> alloc_mem s = new_handler_memory
    | Some Storage \<Rightarrow> alloc_mem s = \<lparr>in_use = True, heap_live = {}\<rparr>
    | Some (Heap_block i) \<Rightarrow> alloc_mem s = \<lparr>in_use = False, heap_live = {i}\<rparr>)"

text \<open>Giving back the one block and asking for another.\<close>

lemma given_back: "memory_exact s \<Longrightarrow> pc_block (alloc_at s) = Some b \<Longrightarrow> mem_deallocate b (alloc_mem s) = new_handler_memory"
  by (cases b) (simp_all add: memory_exact_def new_handler_memory_def)

lemma fresh_block:
  "mem_allocate fresh sz new_handler_memory =
     (if sz < 1024 then (Storage, \<lparr>in_use = True, heap_live = {}\<rparr>) else (Heap_block fresh, \<lparr>in_use = False, heap_live = {fresh}\<rparr>))"
  by (simp add: mem_allocate_def new_handler_memory_def storage_size_def)

lemmas alloc_defs = alloc_on_read_def alloc_on_write_def alloc_do_read_def alloc_do_write_def alloc_write_some_def give_back_def
  allocator_allocate_def allocator_deallocate_def

lemma alloc_start_eq:
  "alloc_start fresh sz = \<lparr>alloc_at = Alloc_reading (if sz < 1024 then Storage else Heap_block fresh), alloc_data = replicate 1024 (CHR 0x00),
     alloc_mem = (if sz < 1024 then \<lparr>in_use = True, heap_live = {}\<rparr> else \<lparr>in_use = False, heap_live = {fresh}\<rparr>), alloc_in = [], alloc_out = []\<rparr>"
  by (simp add: alloc_start_def alloc_defs fresh_block)

lemma memory_exact_step:
  assumes "alloc_step sizes s t" "memory_exact s"
  shows "memory_exact t \<and> (\<exists>sz. sizes sz \<and> (sz < 1024 \<longrightarrow> (\<forall>i. pc_block (alloc_at t) \<noteq> Some (Heap_block i))))"
  using assms
proof cases
  case (alloc_read b fresh sz got)
  with given_back [OF assms(2), of b] show ?thesis
    by (cases got) (auto simp: alloc_defs fresh_block memory_exact_def intro!: exI [of _ sz])
next
  case (alloc_piece b bs rs fresh sz)
  with given_back [OF assms(2), of b] show ?thesis
    by (auto simp: alloc_defs fresh_block memory_exact_def intro!: exI [of _ sz])
next
  case (alloc_written b bs fresh sz)
  with given_back [OF assms(2), of b] show ?thesis
    by (auto simp: alloc_defs fresh_block memory_exact_def intro!: exI [of _ sz])
next
  case (alloc_write_fails b bs sz)
  with given_back [OF assms(2), of b] show ?thesis
    by (auto simp: alloc_defs memory_exact_def intro!: exI [of _ sz])
qed

interpretation alloc_echo: echo_session "alloc_start 0 sz" "alloc_step sizes" alloc_in alloc_out "\<lambda>s. alloc_held (alloc_at s)" "\<lambda>s. alloc_at s = Alloc_ended"
proof unfold_locales
  fix s t
  assume st: "alloc_step sizes s t"
  then show "(\<exists>bs. alloc_in t = alloc_in s @ bs \<and> alloc_held (alloc_at t) = alloc_held (alloc_at s) @ bs \<and> alloc_out t = alloc_out s) \<or>
      (\<exists>bs. alloc_held (alloc_at s) = bs @ alloc_held (alloc_at t) \<and> alloc_out t = alloc_out s @ bs \<and> alloc_in t = alloc_in s) \<or>
      alloc_at t = Alloc_ended \<and> alloc_out t = alloc_out s \<and> alloc_in t = alloc_in s"
    by cases (auto simp: alloc_defs split: option.splits prod.splits)
  show "alloc_at t = Alloc_ended \<and> alloc_out t = alloc_out s \<and> (\<exists>bs. alloc_in t = alloc_in s @ bs)" if "alloc_at s = Alloc_ended"
    using st that by cases auto
qed (simp_all add: alloc_start_eq)

text \<open>A session whose handlers ask for less than 1024 bytes never uses the heap: while an operation is pending exactly the storage of the
  session is in use, and it is free when the session has ended; whatever the sizes, exactly one block is live while an operation is
  pending and none afterwards. And what it sends is the beginning of what it received, all but what it is writing.\<close>

theorem memory_reused:
  assumes "(alloc_step sizes)\<^sup>*\<^sup>* (alloc_start 0 sz) s" "sizes sz"
  shows "memory_exact s \<and>
    ((\<exists>n. sizes n \<and> 1024 \<le> n) \<or> heap_live (alloc_mem s) = {} \<and> in_use (alloc_mem s) = (alloc_at s \<noteq> Alloc_ended)) \<and>
    (if alloc_at s = Alloc_ended then \<exists>bs. alloc_in s = alloc_out s @ bs else alloc_in s = alloc_out s @ alloc_held (alloc_at s))"
proof -
  have "memory_exact s \<and> ((\<exists>n. sizes n \<and> 1024 \<le> n) \<or> (\<forall>i. pc_block (alloc_at s) \<noteq> Some (Heap_block i)))"
    using assms(1)
  proof (induction rule: rtranclp_induct)
    case base
    then show ?case using assms(2) by (cases "sz < 1024") (auto simp: memory_exact_def alloc_start_eq)
  next
    case (step s t)
    then show ?case using memory_exact_step [of sizes s t] by (meson linorder_not_less)
  qed
  then show ?thesis using alloc_echo.echoes [OF assms(1)]
    by (cases "alloc_at s") (auto simp: memory_exact_def new_handler_memory_def split: block.splits)
qed

text \<open>A session in the middle of a write.\<close>

definition half_written :: alloc_session where
  "half_written = alloc_write_some 1 2000 ''b'' (give_back Storage (alloc_on_read 0 100 (Some ''ab'') (give_back Storage (alloc_start 0 100)))
     \<lparr>alloc_out := ''a''\<rparr>)"

lemma half_written_reachable: "(alloc_step (\<lambda>n. n = 100 \<or> n = 2000))\<^sup>*\<^sup>* (alloc_start 0 100) half_written"
proof -
  define s where "s = alloc_on_read 0 100 (Some ''ab'') (give_back Storage (alloc_start 0 100))"
  have "alloc_step (\<lambda>n. n = 100 \<or> n = 2000) (alloc_start 0 100) s" unfolding s_def
    by (rule alloc_step.alloc_read) (simp_all add: alloc_start_eq give_back_def allocator_deallocate_def)
  moreover have "alloc_step (\<lambda>n. n = 100 \<or> n = 2000) s half_written"
    using alloc_step.alloc_piece [of s Storage "''a''" "''b''" 1 "\<lambda>n. n = 100 \<or> n = 2000" 2000]
    by (simp add: s_def half_written_def alloc_start_eq alloc_defs fresh_block new_handler_memory_def [symmetric])
      (simp add: new_handler_memory_def mem_allocate_def storage_size_def)
  ultimately show ?thesis by simp
qed

theorem memory_reused_witness:
  "memory_exact half_written \<and> alloc_in half_written = alloc_out half_written @ alloc_held (alloc_at half_written)"
proof -
  have "alloc_at half_written \<noteq> Alloc_ended"
    by (simp add: half_written_def alloc_write_some_def allocator_allocate_def split: prod.split)
  then show ?thesis using memory_reused [OF half_written_reachable] by simp
qed

end
