(* ===== verification/Third_Party.thy ===== *)
theory Third_Party
  imports Echo_Sessions
begin

text \<open>
  The server that lets a foreign library read and write the socket (\<open>boost_asio/example/cpp11/nonblocking/third_party_lib.cpp\<close>): the
  library says whether it wants to read or to write, the connection waits until the socket is ready for that and tells it.
\<close>

subsection \<open>third_party_lib::session\<close>

datatype io_error = No_error | Would_block | Other_error
datatype tp_state = tp_reading | tp_writing

text \<open>The write buffer is a part of the array: where it begins and how long it is. For the statements: the bytes read and written.\<close>

record tp_session =
  tp_at :: tp_state
  tp_data :: string
  write_buffer :: "nat \<times> nat"
  tp_in :: string
  tp_out :: string

definition new_tp_session :: tp_session where
  "new_tp_session = \<lparr>tp_at = tp_reading, tp_data = replicate 128 (CHR 0x00), write_buffer = (0, 0), tp_in = [], tp_out = []\<rparr>"

definition want_read :: "tp_session \<Rightarrow> bool" where "want_read s \<longleftrightarrow> tp_at s = tp_reading"
definition want_write :: "tp_session \<Rightarrow> bool" where "want_write s \<longleftrightarrow> tp_at s = tp_writing"

text \<open>\<open>read_some\<close> has brought \<open>bs\<close>.\<close>

definition tp_do_read :: "string \<Rightarrow> tp_session \<Rightarrow> tp_session" where
  "tp_do_read bs s =
     (if length bs \<noteq> 0
      then s\<lparr>tp_data := bs @ drop (length bs) (tp_data s), write_buffer := (0, length bs), tp_at := tp_writing, tp_in := tp_in s @ bs\<rparr>
      else s)"

definition buffer_bytes :: "tp_session \<Rightarrow> string" where
  "buffer_bytes s = take (snd (write_buffer s)) (drop (fst (write_buffer s)) (tp_data s))"

text \<open>\<open>write_some\<close> has taken \<open>n\<close> bytes.\<close>

definition tp_do_write :: "nat \<Rightarrow> tp_session \<Rightarrow> tp_session" where
  "tp_do_write n s =
     (if n \<noteq> 0
      then let b = (fst (write_buffer s) + n, snd (write_buffer s) - n)
           in s\<lparr>write_buffer := b, tp_at := (if snd b > 0 then tp_writing else tp_reading), tp_out := tp_out s @ take n (buffer_bytes s)\<rparr>
      else s)"

subsection \<open>connection\<close>

record tp_connection =
  tp_open :: bool
  session_impl :: tp_session
  read_in_progress :: bool
  write_in_progress :: bool

definition do_operations :: "tp_connection \<Rightarrow> tp_connection" where
  "do_operations c =
     (let c = (if want_read (session_impl c) \<and> \<not> read_in_progress c then c\<lparr>read_in_progress := True\<rparr> else c)
      in if want_write (session_impl c) \<and> \<not> write_in_progress c then c\<lparr>write_in_progress := True\<rparr> else c)"

definition tp_start :: tp_connection where
  "tp_start = do_operations \<lparr>tp_open = True, session_impl = new_tp_session, read_in_progress = False, write_in_progress = False\<rparr>"

text \<open>The two handlers: \<open>ec\<close> is how the wait has ended, the other two how the operation of the library ends if it is done.\<close>

definition on_ready :: "io_error \<Rightarrow> tp_connection \<Rightarrow> tp_connection" where
  "on_ready ec c = (if ec = No_error \<or> ec = Would_block then do_operations c else c\<lparr>tp_open := False\<rparr>)"

definition on_read_ready :: "io_error \<Rightarrow> io_error \<Rightarrow> string \<Rightarrow> tp_connection \<Rightarrow> tp_connection" where
  "on_read_ready ec ec' bs c =
     (let c = c\<lparr>read_in_progress := False\<rparr>
      in if ec = No_error then on_ready ec' (c\<lparr>session_impl := tp_do_read bs (session_impl c)\<rparr>) else on_ready ec c)"

definition on_write_ready :: "io_error \<Rightarrow> io_error \<Rightarrow> nat \<Rightarrow> tp_connection \<Rightarrow> tp_connection" where
  "on_write_ready ec ec' n c =
     (let c = c\<lparr>write_in_progress := False\<rparr>
      in if ec = No_error then on_ready ec' (c\<lparr>session_impl := tp_do_write n (session_impl c)\<rparr>) else on_ready ec c)"

text \<open>A wait ends; a read brings at most the 128 bytes of the array, a write takes at most the buffer, and with an error nothing is moved.\<close>

inductive tp_step :: "tp_connection \<Rightarrow> tp_connection \<Rightarrow> bool" where
  read_ready: "read_in_progress c \<Longrightarrow> length bs \<le> 128 \<Longrightarrow> (ec' \<noteq> No_error \<longrightarrow> bs = []) \<Longrightarrow> tp_step c (on_read_ready ec ec' bs c)"
| write_ready: "write_in_progress c \<Longrightarrow> n \<le> snd (write_buffer (session_impl c)) \<Longrightarrow> (ec' \<noteq> No_error \<longrightarrow> n = 0) \<Longrightarrow>
    tp_step c (on_write_ready ec ec' n c)"

subsection \<open>server\<close>

definition tp_accept :: "bool \<Rightarrow> tp_connection list \<Rightarrow> tp_connection list" where
  "tp_accept failed cs = (if failed then cs else cs @ [tp_start])"

definition third_party_main :: "nat \<Rightarrow> string + unit \<Rightarrow> nat \<times> string" where
  "third_party_main argc run =
     (if argc \<noteq> 2 then (1, ''Usage: third_party_lib <port>'' @ [CHR 0x0A])
      else case run of Inl what \<Rightarrow> (0, ''Exception: '' @ what @ [CHR 0x0A]) | Inr _ \<Rightarrow> (0, []))"

subsection \<open>What a connection does\<close>

definition tp_held :: "tp_connection \<Rightarrow> string" where
  "tp_held c = (if want_write (session_impl c) then buffer_bytes (session_impl c) else [])"

text \<open>One wait at a time, for what the library wants; the buffer lies in the array, and is not empty while it is to be written.\<close>

definition tp_ok :: "tp_connection \<Rightarrow> bool" where
  "tp_ok c \<longleftrightarrow>
     (let s = session_impl c in
      length (tp_data s) = 128 \<and> fst (write_buffer s) + snd (write_buffer s) \<le> 128 \<and> (want_write s \<longrightarrow> 0 < snd (write_buffer s)) \<and>
      (if tp_open c then read_in_progress c = want_read s \<and> write_in_progress c = want_write s
       else \<not> read_in_progress c \<and> \<not> write_in_progress c))"

lemmas tp_defs = on_read_ready_def on_write_ready_def on_ready_def do_operations_def tp_do_read_def tp_do_write_def want_read_def want_write_def Let_def

lemma tp_want: "want_write s \<longleftrightarrow> \<not> want_read s"
  by (cases "tp_at s") (simp_all add: want_read_def want_write_def)

lemma tp_ok_step:
  assumes "tp_step c d" "tp_ok c"
  shows "tp_ok d"
  using assms
proof cases
  case (read_ready bs ec' ec)
  with assms(2) have "tp_open c" "want_read (session_impl c)" "\<not> write_in_progress c" by (auto simp: tp_ok_def tp_want Let_def split: if_splits)
  with read_ready assms(2) show ?thesis by (auto simp: tp_ok_def tp_defs)
next
  case (write_ready n ec' ec)
  with assms(2) have "tp_open c" "want_write (session_impl c)" "\<not> read_in_progress c" by (auto simp: tp_ok_def tp_want Let_def split: if_splits)
  with write_ready assms(2) show ?thesis by (auto simp: tp_ok_def tp_defs)
qed

lemma tp_ok_start: "tp_ok tp_start"
  by (simp add: tp_ok_def tp_start_def tp_defs new_tp_session_def)

text \<open>The steps that keep the invariant, for the interpretation.\<close>

definition tp_good_step :: "tp_connection \<Rightarrow> tp_connection \<Rightarrow> bool" where
  "tp_good_step c d \<longleftrightarrow> tp_step c d \<and> tp_ok c"

lemma good_steps: "tp_step\<^sup>*\<^sup>* tp_start c \<Longrightarrow> tp_good_step\<^sup>*\<^sup>* tp_start c \<and> tp_ok c"
proof (induction rule: rtranclp_induct)
  case base
  then show ?case by (simp add: tp_ok_start)
next
  case (step c d)
  then have "tp_good_step c d" by (simp add: tp_good_step_def)
  with step show ?case using tp_ok_step by (meson rtranclp.rtrancl_into_rtrancl)
qed

lemma buffer_split:
  assumes "n \<le> snd (write_buffer s)"
  shows "buffer_bytes s = take n (buffer_bytes s) @ take (snd (write_buffer s) - n) (drop (fst (write_buffer s) + n) (tp_data s))"
proof -
  obtain k where k: "snd (write_buffer s) = n + k" using assms le_Suc_ex by blast
  have "take (n + k) xs = take n (take (n + k) xs) @ take k (drop n xs)" for xs :: string
    by (subst take_add) simp
  from this [of "drop (fst (write_buffer s)) (tp_data s)"] show ?thesis by (simp add: buffer_bytes_def k add.commute del: take_take)
qed

text \<open>What the operations of the library do to the bytes it holds.\<close>

lemma write_moves:
  assumes "n \<le> snd (write_buffer s)" "want_write s" "d = tp_do_write n s"
  shows "tp_in d = tp_in s" "tp_out d = tp_out s @ take n (buffer_bytes s)"
    "buffer_bytes s = take n (buffer_bytes s) @ (if want_write d then buffer_bytes d else [])"
proof -
  show "tp_in d = tp_in s" "tp_out d = tp_out s @ take n (buffer_bytes s)" by (simp_all add: assms(3) tp_do_write_def Let_def)
  show "buffer_bytes s = take n (buffer_bytes s) @ (if want_write d then buffer_bytes d else [])"
  proof (cases "n = 0")
    case False
    have "want_write d \<longleftrightarrow> n < snd (write_buffer s)" using False assms(2) by (simp add: assms(3) tp_do_write_def want_write_def Let_def)
    moreover have "buffer_bytes d = take (snd (write_buffer s) - n) (drop (fst (write_buffer s) + n) (tp_data s))"
      using False by (simp add: assms(3) tp_do_write_def buffer_bytes_def Let_def)
    moreover have "n = snd (write_buffer s)" if "\<not> n < snd (write_buffer s)" using that assms(1) by simp
    then have "take n (buffer_bytes s) = buffer_bytes s" if "\<not> n < snd (write_buffer s)" using that by (simp add: buffer_bytes_def)
    ultimately show ?thesis using buffer_split [OF assms(1)] by auto
  qed (use assms in \<open>simp add: tp_do_write_def\<close>)
qed

lemma read_moves:
  assumes "want_read s" "d = tp_do_read bs s"
  shows "tp_in d = tp_in s @ bs" "tp_out d = tp_out s" "(if want_write d then buffer_bytes d else []) = bs"
  using assms by (auto simp: tp_do_read_def buffer_bytes_def want_read_def want_write_def)

lemma on_ready_impl [simp]: "session_impl (on_ready ec c) = session_impl c" "tp_open (on_ready ec c) = (tp_open c \<and> ec \<noteq> Other_error)"
  by (cases ec; simp add: on_ready_def do_operations_def Let_def)+

lemma handlers_impl:
  "session_impl (on_read_ready ec ec' bs c) = (if ec = No_error then tp_do_read bs (session_impl c) else session_impl c)"
  "session_impl (on_write_ready ec ec' n c) = (if ec = No_error then tp_do_write n (session_impl c) else session_impl c)"
  by (simp_all add: on_read_ready_def on_write_ready_def Let_def)

interpretation tp_echo: echo_session tp_start tp_good_step "\<lambda>c. tp_in (session_impl c)" "\<lambda>c. tp_out (session_impl c)" tp_held "\<lambda>c. \<not> tp_open c"
proof unfold_locales
  fix c d
  assume cd: "tp_good_step c d"
  then have ok: "tp_ok c" and st: "tp_step c d" by (simp_all add: tp_good_step_def)
  show "\<not> tp_open d \<and> tp_out (session_impl d) = tp_out (session_impl c) \<and> (\<exists>bs. tp_in (session_impl d) = tp_in (session_impl c) @ bs)" if "\<not> tp_open c"
    using st ok that by cases (auto simp: tp_ok_def Let_def)
  show "(\<exists>bs. tp_in (session_impl d) = tp_in (session_impl c) @ bs \<and> tp_held d = tp_held c @ bs \<and> tp_out (session_impl d) = tp_out (session_impl c)) \<or>
      (\<exists>bs. tp_held c = bs @ tp_held d \<and> tp_out (session_impl d) = tp_out (session_impl c) @ bs \<and> tp_in (session_impl d) = tp_in (session_impl c)) \<or>
      \<not> tp_open d \<and> tp_out (session_impl d) = tp_out (session_impl c) \<and> tp_in (session_impl d) = tp_in (session_impl c)" if "\<not> \<not> tp_open c"
    using st
  proof cases
    case (read_ready bs ec' ec)
    with ok that have r: "want_read (session_impl c)" by (auto simp: tp_ok_def Let_def)
    show ?thesis
    proof (cases "ec = No_error")
      case True
      with read_ready r read_moves [OF r refl, of bs] have "tp_held c = []" "tp_held d = bs"
        "tp_in (session_impl d) = tp_in (session_impl c) @ bs" "tp_out (session_impl d) = tp_out (session_impl c)"
        by (auto simp: tp_held_def handlers_impl tp_want split: if_splits)
      then show ?thesis by simp
    qed (use read_ready in \<open>simp add: tp_held_def handlers_impl\<close>)
  next
    case (write_ready n ec' ec)
    with ok that have w: "want_write (session_impl c)" by (auto simp: tp_ok_def Let_def)
    show ?thesis
    proof (cases "ec = No_error")
      case True
      have d: "session_impl d = tp_do_write n (session_impl c)" using write_ready(1) True by (simp add: handlers_impl)
      have h: "tp_held c = buffer_bytes (session_impl c)" "tp_held d = (if want_write (session_impl d) then buffer_bytes (session_impl d) else [])"
        using w by (simp_all add: tp_held_def)
      note m = write_moves [OF write_ready(3) w d, folded h]
      from m show ?thesis by blast
    qed (use write_ready in \<open>simp add: tp_held_def handlers_impl\<close>)
  qed
qed (simp_all add: tp_start_def tp_defs new_tp_session_def tp_held_def)

text \<open>A connection with the foreign library echoes: until the socket is closed what has been read is what has been written followed by the
  bytes in the write buffer, and afterwards what was written is a beginning of it. While the socket is open exactly one wait is
  pending, for what the library wants, so that the connection neither stops by itself nor waits for two things; when it is closed none is.\<close>

theorem library_served:
  assumes "tp_step\<^sup>*\<^sup>* tp_start c"
  shows "(if tp_open c
      then tp_in (session_impl c) = tp_out (session_impl c) @ tp_held c \<and> read_in_progress c = (tp_at (session_impl c) = tp_reading) \<and>
           write_in_progress c = (tp_at (session_impl c) = tp_writing) \<and> (tp_held c = []) = read_in_progress c
      else (\<exists>bs. tp_in (session_impl c) = tp_out (session_impl c) @ bs) \<and> \<not> read_in_progress c \<and> \<not> write_in_progress c)"
proof -
  have "tp_ok c" and "tp_good_step\<^sup>*\<^sup>* tp_start c" using good_steps [OF assms] by simp_all
  with tp_echo.echoes show ?thesis
    by (cases "tp_at (session_impl c)") (auto simp: tp_ok_def want_read_def want_write_def tp_held_def buffer_bytes_def Let_def)
qed

text \<open>Two bytes read, one of them written.\<close>

definition tp_half :: tp_connection where
  "tp_half = on_write_ready No_error No_error 1 (on_read_ready No_error No_error ''ab'' tp_start)"

lemma tp_half_reachable: "tp_step\<^sup>*\<^sup>* tp_start tp_half"
proof -
  have "tp_step tp_start (on_read_ready No_error No_error ''ab'' tp_start)"
    by (rule tp_step.read_ready) (simp_all add: tp_start_def tp_defs new_tp_session_def)
  moreover have "tp_step (on_read_ready No_error No_error ''ab'' tp_start) tp_half" unfolding tp_half_def
    by (rule tp_step.write_ready) (simp_all add: tp_start_def tp_defs new_tp_session_def)
  ultimately show ?thesis by simp
qed

theorem library_served_witness:
  "tp_in (session_impl tp_half) = tp_out (session_impl tp_half) @ tp_held tp_half \<and> \<not> read_in_progress tp_half \<and> write_in_progress tp_half"
  using library_served [OF tp_half_reachable]
  by (simp add: tp_half_def tp_start_def tp_defs new_tp_session_def)

end
