(* ===== verification/Fork_Echo.thy ===== *)
theory Fork_Echo
  imports Echo_Sessions
begin

text \<open>
  The server that forks a process for each connection (\<open>boost_asio/example/cpp11/fork/process_per_connection.cpp\<close>): the child
  gets a copy of everything, gives up what is the parent's, and echoes; the parent gives up the connection and goes
  on accepting, and collects the children that have ended.
\<close>

subsection \<open>A process\<close>

text \<open>The members, and the operations that are pending in its context: the signal wait, the accept, a read or a write.\<close>

datatype fork_pc = No_echo | Fork_reading | Fork_writing string

record process =
  acceptor_open :: bool
  signal_wait :: bool
  accepting :: bool
  conn_socket :: "nat option"
  echo_op :: fork_pc
  fork_data :: string
  fork_in :: string
  fork_out :: string

definition wait_for_signal :: "process \<Rightarrow> process" where "wait_for_signal p = p\<lparr>signal_wait := True\<rparr>"
definition fork_accept :: "process \<Rightarrow> process" where "fork_accept p = p\<lparr>accepting := True\<rparr>"
definition fork_read :: "process \<Rightarrow> process" where "fork_read p = p\<lparr>echo_op := Fork_reading\<rparr>"
definition fork_write :: "nat \<Rightarrow> process \<Rightarrow> process" where "fork_write n p = p\<lparr>echo_op := Fork_writing (take n (fork_data p))\<rparr>"

definition new_fork_server :: process where
  "new_fork_server = fork_accept (wait_for_signal
     \<lparr>acceptor_open = True, signal_wait = False, accepting = False, conn_socket = None, echo_op = No_echo,
      fork_data = replicate 1024 (CHR 0x00), fork_in = [], fork_out = []\<rparr>)"

text \<open>After the fork, in the child and in the parent. Cancelling the signal wait leaves its handler to be run.\<close>

definition in_child :: "process \<Rightarrow> process" where
  "in_child p = fork_read (p\<lparr>acceptor_open := False\<rparr>)"

definition in_parent :: "process \<Rightarrow> process" where
  "in_parent p = fork_accept (p\<lparr>conn_socket := None\<rparr>)"

text \<open>The accept handler up to the fork.\<close>

definition on_fork_accept :: "nat \<Rightarrow> process \<Rightarrow> process" where
  "on_fork_accept c p = p\<lparr>accepting := False, conn_socket := Some c\<rparr>"

definition on_fork_accept_error :: "string \<Rightarrow> process \<Rightarrow> string \<times> process" where
  "on_fork_accept_error message p = (''Accept error: '' @ message @ [CHR 0x0A], fork_accept (p\<lparr>accepting := False\<rparr>))"

definition on_fork_read :: "string option \<Rightarrow> process \<Rightarrow> process" where
  "on_fork_read got p =
     (case got of None \<Rightarrow> p\<lparr>echo_op := No_echo\<rparr>
      | Some bs \<Rightarrow> fork_write (length bs) (p\<lparr>fork_data := bs @ drop (length bs) (fork_data p), fork_in := fork_in p @ bs\<rparr>))"

definition on_fork_written :: "bool \<Rightarrow> process \<Rightarrow> process" where
  "on_fork_written failed p = (if failed then p\<lparr>echo_op := No_echo\<rparr> else fork_read p)"

text \<open>What runs in the context of a child: the handler of the cancelled wait, reads, pieces of writes.\<close>

inductive child_step :: "process \<Rightarrow> process \<Rightarrow> bool" where
  wait_cancelled: "signal_wait p \<Longrightarrow> \<not> acceptor_open p \<Longrightarrow> child_step p (p\<lparr>signal_wait := False\<rparr>)"
| child_read: "echo_op p = Fork_reading \<Longrightarrow> (\<forall>bs. got = Some bs \<longrightarrow> bs \<noteq> [] \<and> length bs \<le> 1024) \<Longrightarrow> child_step p (on_fork_read got p)"
| child_piece: "echo_op p = Fork_writing (bs @ rs) \<Longrightarrow> bs \<noteq> [] \<Longrightarrow> child_step p (p\<lparr>echo_op := Fork_writing rs, fork_out := fork_out p @ bs\<rparr>)"
| child_written: "echo_op p = Fork_writing [] \<Longrightarrow> child_step p (on_fork_written False p)"
| child_write_fails: "echo_op p = Fork_writing bs \<Longrightarrow> child_step p (on_fork_written True p)"

text \<open>\<open>run\<close> returns, and the process ends, when nothing is pending.\<close>

definition no_work :: "process \<Rightarrow> bool" where
  "no_work p \<longleftrightarrow> \<not> signal_wait p \<and> \<not> accepting p \<and> echo_op p = No_echo"

subsection \<open>Parent and children\<close>

text \<open>
  The running children, the number of those that have ended and have not been waited for, whether a \<open>SIGCHLD\<close> is due, what the parent has written to
  its error stream; for the statements the connections accepted, served to the end, and closed because \<open>fork\<close> failed.
\<close>

record fork_system =
  parent :: process
  children :: "process list"
  zombies :: nat
  sigchld :: bool
  fork_cerr :: string
  accepted :: "nat list"
  finished_conns :: "nat list"
  dropped_conns :: "nat list"

text \<open>The handler of the signal in the parent: the loop over \<open>waitpid\<close> collects every child that has ended.\<close>

definition on_sigchld :: "fork_system \<Rightarrow> fork_system" where
  "on_sigchld s =
     (let p = (parent s)\<lparr>signal_wait := False\<rparr>; s = s\<lparr>sigchld := False, parent := p\<rparr>
      in if acceptor_open p then s\<lparr>zombies := 0, parent := wait_for_signal p\<rparr> else s)"

inductive fork_step :: "fork_system \<Rightarrow> fork_system \<Rightarrow> bool" where
  accepts: "accepting (parent s) \<Longrightarrow> c \<notin> set (accepted s) \<Longrightarrow> p = on_fork_accept c (parent s) \<Longrightarrow>
    fork_step s (s\<lparr>parent := in_parent p, children := children s @ [in_child p], accepted := accepted s @ [c]\<rparr>)"
| fork_fails: "accepting (parent s) \<Longrightarrow> c \<notin> set (accepted s) \<Longrightarrow> p = on_fork_accept c (parent s) \<Longrightarrow>
    fork_step s (s\<lparr>parent := in_parent p, accepted := accepted s @ [c], dropped_conns := dropped_conns s @ [c]\<rparr>)"
| accept_fails: "accepting (parent s) \<Longrightarrow> on_fork_accept_error message (parent s) = (out, p) \<Longrightarrow>
    fork_step s (s\<lparr>parent := p, fork_cerr := fork_cerr s @ out\<rparr>)"
| child_acts: "children s = us @ p # vs \<Longrightarrow> child_step p q \<Longrightarrow> fork_step s (s\<lparr>children := us @ q # vs\<rparr>)"
| child_exits: "children s = us @ p # vs \<Longrightarrow> no_work p \<Longrightarrow>
    fork_step s (s\<lparr>children := us @ vs, zombies := Suc (zombies s), sigchld := True,
      finished_conns := finished_conns s @ (case conn_socket p of None \<Rightarrow> [] | Some c \<Rightarrow> [c])\<rparr>)"
| signalled: "sigchld s \<Longrightarrow> signal_wait (parent s) \<Longrightarrow> fork_step s (on_sigchld s)"

definition fork_start :: fork_system where
  "fork_start = \<lparr>parent = new_fork_server, children = [], zombies = 0, sigchld = False, fork_cerr = [], accepted = [], finished_conns = [], dropped_conns = []\<rparr>"

text \<open>\<open>main\<close> up to the loop of the context, with exit status and error output.\<close>

definition process_per_connection_main :: "nat \<Rightarrow> string + unit \<Rightarrow> nat \<times> string" where
  "process_per_connection_main argc run =
     (if argc \<noteq> 2 then (1, ''Usage: process_per_connection <port>'' @ [CHR 0x0A])
      else case run of Inl what \<Rightarrow> (0, ''Exception: '' @ what @ [CHR 0x0A]) | Inr _ \<Rightarrow> (0, []))"

subsection \<open>What the processes do\<close>

lemmas fork_defs = wait_for_signal_def fork_accept_def fork_read_def fork_write_def new_fork_server_def in_child_def in_parent_def
  on_fork_accept_def on_fork_accept_error_def on_fork_read_def on_fork_written_def on_sigchld_def

fun fork_held :: "fork_pc \<Rightarrow> string" where
  "fork_held (Fork_writing bs) = bs"
| "fork_held _ = []"

interpretation child_echo: echo_session "in_child (on_fork_accept c new_fork_server)" child_step fork_in fork_out
    "\<lambda>p. fork_held (echo_op p)" "\<lambda>p. echo_op p = No_echo"
proof unfold_locales
  fix p q
  assume pq: "child_step p q"
  then show "(\<exists>bs. fork_in q = fork_in p @ bs \<and> fork_held (echo_op q) = fork_held (echo_op p) @ bs \<and> fork_out q = fork_out p) \<or>
      (\<exists>bs. fork_held (echo_op p) = bs @ fork_held (echo_op q) \<and> fork_out q = fork_out p @ bs \<and> fork_in q = fork_in p) \<or>
      echo_op q = No_echo \<and> fork_out q = fork_out p \<and> fork_in q = fork_in p"
    by cases (auto simp: fork_defs split: option.splits)
  show "echo_op q = No_echo \<and> fork_out q = fork_out p \<and> (\<exists>bs. fork_in q = fork_in p @ bs)" if "echo_op p = No_echo"
    using pq that by cases auto
qed (simp_all add: fork_defs)

text \<open>A child comes from the fork of a parent that was only accepting.\<close>

definition is_child :: "process \<Rightarrow> bool" where
  "is_child p \<longleftrightarrow> (\<exists>c. conn_socket p = Some c \<and> child_step\<^sup>*\<^sup>* (in_child (on_fork_accept c new_fork_server)) p)"

lemma child_keeps: "child_step p q \<Longrightarrow> conn_socket q = conn_socket p \<and> acceptor_open q = acceptor_open p \<and> accepting q = accepting p"
  by (cases rule: child_step.cases) (auto simp: fork_defs split: option.splits)

lemma is_child_step: "is_child p \<Longrightarrow> child_step p q \<Longrightarrow> is_child q"
  using child_keeps unfolding is_child_def by (metis rtranclp.rtrancl_into_rtrancl)

lemma is_child_new: "is_child (in_child (on_fork_accept c new_fork_server))"
  by (simp add: is_child_def fork_defs)

lemma child_closed: "child_step\<^sup>*\<^sup>* (in_child (on_fork_accept c new_fork_server)) p \<Longrightarrow> \<not> acceptor_open p \<and> \<not> accepting p"
  by (induction rule: rtranclp_induct) (auto simp: fork_defs dest: child_keeps)

definition fork_ok :: "fork_system \<Rightarrow> bool" where
  "fork_ok s \<longleftrightarrow> parent s = new_fork_server \<and> list_all is_child (children s) \<and> (0 < zombies s \<longrightarrow> sigchld s) \<and> distinct (accepted s) \<and>
     mset (map Some (accepted s)) = mset (map conn_socket (children s)) + mset (map Some (finished_conns s)) + mset (map Some (dropped_conns s))"

lemma fork_ok_step: "fork_step s t \<Longrightarrow> fork_ok s \<Longrightarrow> fork_ok t"
proof (induction rule: fork_step.induct)
  case (accepts s c p)
  moreover have "in_parent (on_fork_accept c new_fork_server) = new_fork_server" "conn_socket (in_child (on_fork_accept c new_fork_server)) = Some c"
    by (simp_all add: fork_defs)
  ultimately show ?case by (simp add: fork_ok_def is_child_new)
next
  case (fork_fails s c p)
  moreover have "in_parent (on_fork_accept c new_fork_server) = new_fork_server" by (simp add: fork_defs)
  ultimately show ?case by (simp add: fork_ok_def)
next
  case (accept_fails s message out p)
  then show ?case by (auto simp: fork_ok_def fork_defs)
next
  case (child_acts s us p vs q)
  then show ?case using child_keeps is_child_step by (fastforce simp: fork_ok_def)
next
  case (child_exits s us p vs)
  then show ?case by (auto simp: fork_ok_def is_child_def)
next
  case (signalled s)
  then show ?case by (simp add: fork_ok_def fork_defs Let_def)
qed

lemma fork_ok_reachable: "fork_step\<^sup>*\<^sup>* fork_start s \<Longrightarrow> fork_ok s"
proof (induction rule: rtranclp_induct)
  case base
  then show ?case by (simp add: fork_ok_def fork_start_def)
qed (rule fork_ok_step)

text \<open>Parent and children stay apart: the parent always has its acceptor open, one accept and one signal wait pending and no connection; every child has
  its acceptor closed and one connection, which it echoes; each accepted connection is served by exactly one child, running or ended, unless the fork
  failed; and while a child that has ended has not been waited for, a signal is due that will make the parent wait for it.\<close>

theorem processes_apart:
  assumes "fork_step\<^sup>*\<^sup>* fork_start s"
  shows "acceptor_open (parent s) \<and> accepting (parent s) \<and> signal_wait (parent s) \<and> conn_socket (parent s) = None \<and>
    list_all (\<lambda>p. \<not> acceptor_open p \<and> \<not> accepting p \<and> (\<exists>bs. fork_in p = fork_out p @ bs) \<and>
      (if echo_op p = No_echo then True else fork_in p = fork_out p @ fork_held (echo_op p))) (children s) \<and>
    distinct (accepted s) \<and>
    mset (map Some (accepted s)) = mset (map conn_socket (children s)) + mset (map Some (finished_conns s)) + mset (map Some (dropped_conns s)) \<and>
    (zombies s = 0 \<or> sigchld s \<and> zombies (on_sigchld s) = 0)"
proof -
  have ok: "fork_ok s" using fork_ok_reachable [OF assms] .
  have c: "\<not> acceptor_open p \<and> \<not> accepting p \<and> (\<exists>bs. fork_in p = fork_out p @ bs) \<and>
      (if echo_op p = No_echo then True else fork_in p = fork_out p @ fork_held (echo_op p))" if "is_child p" for p
    using that child_closed child_echo.echoes unfolding is_child_def by (simp, blast)
  have "list_all (\<lambda>p. \<not> acceptor_open p \<and> \<not> accepting p \<and> (\<exists>bs. fork_in p = fork_out p @ bs) \<and>
      (if echo_op p = No_echo then True else fork_in p = fork_out p @ fork_held (echo_op p))) (children s)"
    using ok c unfolding fork_ok_def by (auto simp: list_all_iff)
  with ok show ?thesis by (auto simp: fork_ok_def fork_defs)
qed

text \<open>One connection, of which the child has read two bytes.\<close>

definition one_child :: process where
  "one_child = on_fork_read (Some ''hi'') (in_child (on_fork_accept 7 new_fork_server))"

definition one_served :: fork_system where
  "one_served = fork_start\<lparr>children := [one_child], accepted := [7]\<rparr>"

lemma one_served_reachable: "fork_step\<^sup>*\<^sup>* fork_start one_served"
proof -
  define s where "s = fork_start\<lparr>parent := in_parent (on_fork_accept 7 new_fork_server), children := [in_child (on_fork_accept 7 new_fork_server)], accepted := [7]\<rparr>"
  have "fork_step fork_start s"
    using fork_step.accepts [of fork_start 7 "on_fork_accept 7 new_fork_server"] by (simp add: s_def fork_start_def fork_defs)
  moreover have "child_step (in_child (on_fork_accept 7 new_fork_server)) one_child" unfolding one_child_def
    by (rule child_step.child_read) (simp_all add: fork_defs)
  then have "fork_step s (s\<lparr>children := [] @ one_child # []\<rparr>)"
    by (intro fork_step.child_acts [where p = "in_child (on_fork_accept 7 new_fork_server)"]) (simp_all add: s_def)
  moreover have "s\<lparr>children := [] @ one_child # []\<rparr> = one_served"
    by (simp add: s_def one_served_def fork_start_def fork_defs)
  ultimately show ?thesis by simp
qed

theorem processes_apart_witness:
  "accepting (parent one_served) \<and> fork_in one_child = fork_out one_child @ fork_held (echo_op one_child) \<and> \<not> acceptor_open one_child"
  using processes_apart [OF one_served_reachable] by (simp add: one_served_def one_child_def fork_defs)

end
