(* ===== verification/Blocking_Clients.thy ===== *)
theory Blocking_Clients
  imports Logging
begin

text \<open>
  The clients that wait for their operations with a timeout: \<open>boost_asio/example/cpp11/timeouts/blocking_tcp_client.cpp\<close>, the same
  client with a completion token of its own, \<open>blocking_token_tcp_client.cpp\<close>, and \<open>blocking_udp_client.cpp\<close>. They run the
  context for the time given and, when the operation is not complete by then, close the socket, or cancel the operation, and run the context to the end.
\<close>

subsection \<open>Operations and time\<close>

text \<open>
  When an operation would complete if it were left alone, if ever, and with which code; an operation that became ready just as the time was over completes with
  its own code although the socket is being closed. Times are in seconds since the operation was started.
\<close>

record 'e timed_op =
  op_time :: "nat option"
  op_code :: "'e option"
  op_ready :: bool

text \<open>What Asio says of a cancelled operation and of one on a closed socket.\<close>

record 'e asio_codes =
  operation_aborted :: 'e
  bad_descriptor :: 'e

text \<open>\<open>client::run\<close>, with the code the handler stores and whether the socket is still open.\<close>

definition run_for :: "'e asio_codes \<Rightarrow> nat \<Rightarrow> 'e timed_op \<Rightarrow> 'e option \<times> bool" where
  "run_for A timeout r =
     (case op_time r of
        Some t \<Rightarrow> if t \<le> timeout then (op_code r, True) else if op_ready r then (op_code r, False) else (Some (operation_aborted A), False)
      | None \<Rightarrow> (Some (operation_aborted A), False))"

definition client_run :: "'e asio_codes \<Rightarrow> nat \<Rightarrow> 'e timed_op \<Rightarrow> bool \<Rightarrow> 'e option \<times> bool" where
  "client_run A timeout r opened = (if opened then run_for A timeout r else (Some (bad_descriptor A), False))"

subsection \<open>blocking_tcp_client.cpp\<close>

text \<open>The members, and for the statements what was given to \<open>async_write\<close>.\<close>

record bclient =
  bc_open :: bool
  bc_input :: string
  bc_sent :: string

definition newline_at :: "string \<Rightarrow> nat option" where
  "newline_at s = (if CHR 0x0A \<in> set s then Some (length (takeWhile (\<lambda>c. c \<noteq> CHR 0x0A) s)) else None)"

text \<open>What an operation that reads up to a newline meets: the bytes that arrive, and how it ends. It completes with success only when there is a newline.\<close>

type_synonym 'e net_read = "string \<times> 'e timed_op"

definition until_newline :: "'e net_read \<Rightarrow> 'e timed_op" where
  "until_newline r = (if op_code (snd r) = None \<and> newline_at (fst r) = None then (snd r)\<lparr>op_time := None\<rparr> else snd r)"

definition bc_connect :: "'e asio_codes \<Rightarrow> 'e + unit \<Rightarrow> nat \<Rightarrow> 'e timed_op \<Rightarrow> bclient \<Rightarrow> ('e + unit) \<times> bclient" where
  "bc_connect A resolved timeout r c =
     (case resolved of
        Inl e \<Rightarrow> (Inl e, c)
      | Inr _ \<Rightarrow> (case run_for A timeout r of
          (Some e, opened) \<Rightarrow> (Inl e, c\<lparr>bc_open := opened\<rparr>)
        | (None, opened) \<Rightarrow> (Inr (), c\<lparr>bc_open := opened\<rparr>)))"

text \<open>The read starts with what is in the buffer; when that has a newline nothing is read. Left is what is needed of the network after this.\<close>

definition bc_read_line :: "'e asio_codes \<Rightarrow> nat \<Rightarrow> 'e net_read list \<Rightarrow> bclient \<Rightarrow> (('e + string) \<times> 'e net_read list \<times> bclient) option" where
  "bc_read_line A timeout rs c =
     (case newline_at (bc_input c) of
        Some k \<Rightarrow> Some (Inr (take k (bc_input c)), rs, c\<lparr>bc_input := drop (Suc k) (bc_input c)\<rparr>)
      | None \<Rightarrow>
          (case rs of
             [] \<Rightarrow> None
           | r # rs' \<Rightarrow>
               let (error, opened) = client_run A timeout (until_newline r) (bc_open c);
                   buf = bc_input c @ (if bc_open c then fst r else []); n = newline_at buf
               in Some (case error of
                    Some e \<Rightarrow> (Inl e, rs', c\<lparr>bc_open := opened, bc_input := buf\<rparr>)
                  | None \<Rightarrow> (Inr (take (the n) buf), rs', c\<lparr>bc_open := opened, bc_input := drop (Suc (the n)) buf\<rparr>))))"

definition bc_write_line :: "'e asio_codes \<Rightarrow> string \<Rightarrow> nat \<Rightarrow> 'e timed_op \<Rightarrow> bclient \<Rightarrow> ('e + unit) \<times> bclient" where
  "bc_write_line A line timeout r c =
     (let c = c\<lparr>bc_sent := bc_sent c @ line @ [CHR 0x0A]\<rparr>
      in case client_run A timeout r (bc_open c) of
        (Some e, opened) \<Rightarrow> (Inl e, c\<lparr>bc_open := opened\<rparr>)
      | (None, opened) \<Rightarrow> (Inr (), c\<lparr>bc_open := opened\<rparr>))"

lemma newline_in: "newline_at s = Some k \<Longrightarrow> k < length s"
proof -
  have "x \<in> set s \<Longrightarrow> length (takeWhile (\<lambda>c. c \<noteq> x) s) < length s" for x by (induction s) auto
  then show "newline_at s = Some k \<Longrightarrow> k < length s" by (auto simp: newline_at_def split: if_splits)
qed

lemma read_line_shrinks:
  "bc_read_line A timeout rs c = Some (res, rs', c') \<Longrightarrow> length rs' < length rs \<or> rs' = rs \<and> length (bc_input c') < length (bc_input c)"
  by (auto simp: bc_read_line_def Let_def dest: newline_in split: list.splits prod.splits option.splits)

text \<open>The loop of \<open>main\<close>: until the line is the message. \<open>None\<close>: the network has no more to say.\<close>

function read_lines :: "'e asio_codes \<Rightarrow> string \<Rightarrow> 'e net_read list \<Rightarrow> bclient \<Rightarrow> ('e + unit) option" where
  "read_lines A msg rs c =
     (case bc_read_line A 10 rs c of
        None \<Rightarrow> None
      | Some (Inl e, rs', c') \<Rightarrow> Some (Inl e)
      | Some (Inr line, rs', c') \<Rightarrow> if line = msg then Some (Inr ()) else read_lines A msg rs' c')"
  by pat_completeness auto

termination
  by (relation "measures [\<lambda>(A, msg, rs, c). length rs, \<lambda>(A, msg, rs, c). length (bc_input c)]") (auto dest!: read_line_shrinks)

text \<open>
  \<open>main\<close>: what it prints and its status. \<open>what\<close> is the text of an error, \<open>us\<close> the microseconds between the two looks at
  the clock.
\<close>

definition round_trip :: "nat \<Rightarrow> string" where
  "round_trip us = ''Round trip time: '' @ to_string us @ '' microseconds'' @ [CHR 0x0A]"

definition caught :: "('e \<Rightarrow> string) \<Rightarrow> 'e \<Rightarrow> nat \<times> string \<times> string" where
  "caught what e = (0, [], ''Exception: '' @ what e @ [CHR 0x0A])"

definition usage_tcp :: "nat \<times> string \<times> string" where
  "usage_tcp = (1, [], ''Usage: blocking_tcp_client <host> <port> <message>'' @ [CHR 0x0A])"

definition blocking_tcp_main :: "'e asio_codes \<Rightarrow> ('e \<Rightarrow> string) \<Rightarrow> nat \<Rightarrow> nat \<Rightarrow> string \<Rightarrow> 'e + unit \<Rightarrow> 'e timed_op \<Rightarrow> 'e timed_op \<Rightarrow> 'e net_read list \<Rightarrow>
    (nat \<times> string \<times> string) option" where
  "blocking_tcp_main A what us argc message resolved connecting writing rs =
     (if argc \<noteq> 4 then Some usage_tcp
      else case bc_connect A resolved 10 connecting \<lparr>bc_open = False, bc_input = [], bc_sent = []\<rparr> of
          (Inl e, c) \<Rightarrow> Some (caught what e)
        | (Inr _, c) \<Rightarrow>
            (case bc_write_line A message 10 writing c of
               (Inl e, c) \<Rightarrow> Some (caught what e)
             | (Inr _, c) \<Rightarrow>
                 (case read_lines A message rs c of
                    None \<Rightarrow> None
                  | Some (Inl e) \<Rightarrow> Some (caught what e)
                  | Some (Inr _) \<Rightarrow> Some (0, round_trip us, []))))"

subsection \<open>blocking_token_tcp_client.cpp\<close>

text \<open>\<open>async_result<close_after, ...>::initiate\<close>: start the operation, run, and throw or return.\<close>

definition close_after :: "'e asio_codes \<Rightarrow> nat \<Rightarrow> 'e timed_op \<Rightarrow> bool \<Rightarrow> ('e + unit) \<times> bool" where
  "close_after A timeout r opened =
     (let (error, opened') = client_run A timeout r opened
      in (case error of Some e \<Rightarrow> Inl e | None \<Rightarrow> Inr (), opened'))"

text \<open>The operation that connects opens the socket first.\<close>

definition connect_close_after :: "'e asio_codes \<Rightarrow> nat \<Rightarrow> 'e timed_op \<Rightarrow> ('e + unit) \<times> bool" where
  "connect_close_after A timeout r = close_after A timeout r True"

text \<open>The loop, with its buffer; an operation that finds its newline in the buffer completes at once.\<close>

function token_lines :: "'e asio_codes \<Rightarrow> string \<Rightarrow> 'e net_read list \<Rightarrow> bool \<Rightarrow> string \<Rightarrow> ('e + unit) option" where
  "token_lines A msg rs opened input_buffer =
     (case newline_at input_buffer of
        Some k \<Rightarrow> if take k input_buffer = msg then Some (Inr ()) else token_lines A msg rs opened (drop (Suc k) input_buffer)
      | None \<Rightarrow>
          (case rs of
             [] \<Rightarrow> None
           | r # rs' \<Rightarrow>
               (case close_after A 10 (until_newline r) opened of
                  (Inl e, _) \<Rightarrow> Some (Inl e)
                | (Inr _, opened') \<Rightarrow>
                    let input_buffer = input_buffer @ fst r; k = the (newline_at input_buffer)
                    in if take k input_buffer = msg then Some (Inr ()) else token_lines A msg rs' opened' (drop (Suc k) input_buffer))))"
  by pat_completeness auto

termination
  by (relation "measures [\<lambda>(A, msg, rs, opened, buf). length rs, \<lambda>(A, msg, rs, opened, buf). length buf]") (auto dest: newline_in)

definition blocking_token_main :: "'e asio_codes \<Rightarrow> ('e \<Rightarrow> string) \<Rightarrow> nat \<Rightarrow> nat \<Rightarrow> string \<Rightarrow> 'e + unit \<Rightarrow> 'e timed_op \<Rightarrow> 'e timed_op \<Rightarrow> 'e net_read list \<Rightarrow>
    (nat \<times> string \<times> string) option" where
  "blocking_token_main A what us argc message resolved connecting writing rs =
     (if argc \<noteq> 4 then Some usage_tcp
      else case resolved of
          Inl e \<Rightarrow> Some (caught what e)
        | Inr _ \<Rightarrow>
            (case connect_close_after A 10 connecting of
               (Inl e, opened) \<Rightarrow> Some (caught what e)
             | (Inr _, opened) \<Rightarrow>
                 (case close_after A 10 writing opened of
                    (Inl e, opened) \<Rightarrow> Some (caught what e)
                  | (Inr _, opened) \<Rightarrow>
                      (case token_lines A message rs opened [] of
                         None \<Rightarrow> None
                       | Some (Inl e) \<Rightarrow> Some (caught what e)
                       | Some (Inr _) \<Rightarrow> Some (0, round_trip us, [])))))"

subsection \<open>blocking_udp_client.cpp\<close>

text \<open>\<open>receive\<close>, whose operation is cancelled when it is late: the error and the length; a datagram longer than the buffer is cut.\<close>

definition udp_receive :: "'e asio_codes \<Rightarrow> nat \<Rightarrow> nat \<Rightarrow> 'e net_read \<Rightarrow> 'e option \<times> string" where
  "udp_receive A buffer_size timeout r =
     (case run_for A timeout (snd r) of (Some e, _) \<Rightarrow> (Some e, []) | (None, _) \<Rightarrow> (None, take buffer_size (fst r)))"

definition show_datagram :: "('e \<Rightarrow> string) \<Rightarrow> 'e option \<times> string \<Rightarrow> string" where
  "show_datagram message x =
     (case fst x of
        Some e \<Rightarrow> ''Receive error: '' @ message e @ [CHR 0x0A]
      | None \<Rightarrow> ''Received: '' @ snd x @ [CHR 0x0A])"

text \<open>What \<open>main\<close> has printed after some rounds of its endless loop, or its end before the loop.\<close>

definition blocking_udp_main :: "'e asio_codes \<Rightarrow> ('e \<Rightarrow> string) \<Rightarrow> ('e \<Rightarrow> string) \<Rightarrow> nat \<Rightarrow> 'e + unit \<Rightarrow> 'e net_read list \<Rightarrow> nat \<times> string \<times> string" where
  "blocking_udp_main A what message argc opened rs =
     (if argc \<noteq> 3 then (1, [], ''Usage: blocking_udp_client <listen_addr> <listen_port>'' @ [CHR 0x0A])
      else case opened of
          Inl e \<Rightarrow> caught what e
        | Inr _ \<Rightarrow> (0, concat (map (\<lambda>r. show_datagram message (udp_receive A 1024 10 r)) rs), []))"

section \<open>Properties\<close>

text \<open>
  The two TCP clients with timeouts are the same program; when they see the round trip, and that they never wait for ever
  longer than their timeouts allow.
\<close>

declare read_lines.simps [simp del] token_lines.simps [simp del]

lemma client_run_success:
  "client_run A timeout r opened = (None, opened') \<Longrightarrow> opened"
  by (auto simp: client_run_def split: if_splits)

text \<open>The loops agree.\<close>

lemma same_lines: "read_lines A msg rs c = token_lines A msg rs (bc_open c) (bc_input c)"
proof (induction A msg rs c rule: read_lines.induct)
  case (1 A msg rs c)
  show ?case
  proof (cases "newline_at (bc_input c)")
    case (Some k)
    then have read: "bc_read_line A 10 rs c = Some (Inr (take k (bc_input c)), rs, c\<lparr>bc_input := drop (Suc k) (bc_input c)\<rparr>)"
      by (simp add: bc_read_line_def)
    with 1 [OF read refl refl refl] Some show ?thesis by (simp add: read_lines.simps [of A msg rs c] token_lines.simps [of A msg rs "bc_open c"])
  next
    case None
    show ?thesis
    proof (cases rs)
      case Nil
      with None show ?thesis by (simp add: read_lines.simps [of A msg "[]" c] token_lines.simps [of A msg "[]" "bc_open c"] bc_read_line_def)
    next
      case (Cons r rs')
      obtain e opened where e: "client_run A 10 (until_newline r) (bc_open c) = (e, opened)" by (cases "client_run A 10 (until_newline r) (bc_open c)")
      show ?thesis
      proof (cases e)
        case None
        let ?buf = "bc_input c @ fst r" and ?k = "the (newline_at (bc_input c @ fst r))"
        from e None have "bc_open c" using client_run_success by blast
        with \<open>newline_at (bc_input c) = None\<close> Cons e None
        have read: "bc_read_line A 10 rs c = Some (Inr (take ?k ?buf), rs', c\<lparr>bc_open := opened, bc_input := drop (Suc ?k) ?buf\<rparr>)"
          by (simp add: bc_read_line_def Let_def)
        with 1 [OF read refl refl refl] \<open>newline_at (bc_input c) = None\<close> Cons e None show ?thesis
          by (simp add: read_lines.simps [of A msg "r # rs'" c] token_lines.simps [of A msg "r # rs'" "bc_open c"] close_after_def Let_def)
      next
        case (Some x)
        with \<open>newline_at (bc_input c) = None\<close> Cons e show ?thesis
          by (simp add: read_lines.simps [of A msg "r # rs'" c] token_lines.simps [of A msg "r # rs'" "bc_open c"] close_after_def bc_read_line_def Let_def)
      qed
    qed
  qed
qed

lemma same_client:
  "blocking_token_main A what micros argc message resolved connecting writing rs = blocking_tcp_main A what micros argc message resolved connecting writing rs"
proof (cases "argc = 4 \<and> resolved = Inr ()")
  case True
  obtain e opened where e: "run_for A 10 connecting = (e, opened)" by fastforce
  obtain e' opened' where e': "client_run A 10 writing opened = (e', opened')" by fastforce
  show ?thesis
  proof (cases e)
    case None
    note c = this
    show ?thesis
    proof (cases e')
      case None
      with c e e' True show ?thesis
        by (simp add: blocking_token_main_def blocking_tcp_main_def bc_connect_def bc_write_line_def connect_close_after_def close_after_def
            client_run_def [of A 10 connecting] same_lines)
    qed (use c e e' True in \<open>simp add: blocking_token_main_def blocking_tcp_main_def bc_connect_def bc_write_line_def connect_close_after_def
        close_after_def client_run_def [of A 10 connecting]\<close>)
  qed (use e True in \<open>simp add: blocking_token_main_def blocking_tcp_main_def bc_connect_def connect_close_after_def close_after_def
      client_run_def [of A 10 connecting]\<close>)
next
  case False
  then show ?thesis by (cases resolved) (auto simp: blocking_token_main_def blocking_tcp_main_def bc_connect_def)
qed

text \<open>The complete lines of a text.\<close>

function complete_lines :: "string \<Rightarrow> string list" where
  "complete_lines s = (case newline_at s of None \<Rightarrow> [] | Some k \<Rightarrow> take k s # complete_lines (drop (Suc k) s))"
  by pat_completeness auto

termination
  by (relation "measure length") (auto dest: newline_in)

declare complete_lines.simps [simp del]

lemma newline_append: "newline_at s = Some k \<Longrightarrow> newline_at (s @ t) = Some k"
  by (auto simp: newline_at_def takeWhile_append1 split: if_splits)

lemma complete_lines_append:
  "newline_at s = Some k \<Longrightarrow> complete_lines (s @ t) = take k s # complete_lines (drop (Suc k) s @ t)"
  using newline_in [of s k] by (subst complete_lines.simps) (simp add: newline_append Suc_le_eq)

text \<open>A read that brings at least one newline within the ten seconds.\<close>

definition in_time :: "'e net_read \<Rightarrow> bool" where
  "in_time r \<longleftrightarrow> newline_at (fst r) \<noteq> None \<and> op_code (snd r) = None \<and> (\<exists>t \<le> 10. op_time (snd r) = Some t)"

lemma newline_append_right: "newline_at t \<noteq> None \<Longrightarrow> newline_at (s @ t) \<noteq> None"
  by (simp add: newline_at_def split: if_splits)

lemma in_time_run: "in_time r \<Longrightarrow> client_run A 10 (until_newline r) True = (None, True)"
  by (auto simp: in_time_def client_run_def run_for_def until_newline_def)

text \<open>What follows the last newline.\<close>

function unfinished :: "string \<Rightarrow> string" where
  "unfinished s = (case newline_at s of None \<Rightarrow> s | Some k \<Rightarrow> unfinished (drop (Suc k) s))"
  by pat_completeness auto

termination
  by (relation "measure length") (auto dest: newline_in)

declare unfinished.simps [simp del]

lemma unfinished_append: "newline_at s = Some k \<Longrightarrow> unfinished (s @ t) = unfinished (drop (Suc k) s @ t)"
  using newline_in [of s k] by (subst unfinished.simps) (simp add: newline_append Suc_le_eq)

lemma unfinished_none: "newline_at (unfinished s) = None"
proof (induction s rule: unfinished.induct)
  case (1 s)
  then show ?case by (cases "newline_at s") (simp_all add: unfinished.simps [of s])
qed

text \<open>While reads are in time, the loop goes through exactly the complete lines received.\<close>

lemma lines_in_time:
  assumes "list_all in_time rs"
  shows "token_lines A msg (rs @ us) True buf =
    (if msg \<in> set (complete_lines (buf @ concat (map fst rs))) then Some (Inr ())
     else token_lines A msg us True (unfinished (buf @ concat (map fst rs))))"
  using assms
proof (induction "length rs" arbitrary: rs buf rule: less_induct)
  case outer: less
  show ?case
  proof (induction "length buf" arbitrary: buf rule: less_induct)
    case less
    show ?case
    proof (cases "newline_at buf")
      case (Some k)
      then have "length (drop (Suc k) buf) < length buf" using newline_in [of buf k] by simp
      from less [OF this] Some show ?thesis
        by (subst token_lines.simps) (simp add: complete_lines_append unfinished_append)
    next
      case None
      note no = this
      show ?thesis
      proof (cases rs)
        case Nil
        with no show ?thesis by (simp add: complete_lines.simps [of buf] unfinished.simps [of buf])
      next
        case (Cons r rs')
        with outer.prems have r: "in_time r" "list_all in_time rs'" by simp_all
        then obtain k where k: "newline_at (buf @ fst r) = Some k" using newline_append_right [of "fst r" buf] unfolding in_time_def by blast
        have "token_lines A msg (rs @ us) True buf =
            (if take k (buf @ fst r) = msg then Some (Inr ()) else token_lines A msg (rs' @ us) True (drop (Suc k) (buf @ fst r)))"
          using no Cons k in_time_run [OF r(1), of A] by (simp add: token_lines.simps [of A msg "r # rs' @ us"] close_after_def Let_def)
        also have "\<dots> = (if msg \<in> set (complete_lines ((buf @ fst r) @ concat (map fst rs'))) then Some (Inr ())
            else token_lines A msg us True (unfinished ((buf @ fst r) @ concat (map fst rs'))))"
          using outer.hyps [of rs' "drop (Suc k) (buf @ fst r)"] r(2) Cons
          by (simp only: complete_lines_append [OF k] unfinished_append [OF k]) auto
        finally show ?thesis using Cons by simp
      qed
    qed
  qed
qed

text \<open>C37. The client with the token of its own is the client of \<open>blocking_tcp_client.cpp\<close>: whatever happens on the network, and when, both print the same
  with the same status. And once connect and write have succeeded in time, and reads have until one fails or is late, the round trip is
  printed exactly when the message is one of the complete lines received by then; otherwise the error, which for a late read is that of an aborted operation.\<close>

theorem blocking_clients:
  assumes "list_all in_time rs" "run_for A 10 connecting = (None, True)" "run_for A 10 writing = (None, True)"
    and "run_for A 10 (until_newline r) = (Some e, opened)"
  shows "blocking_token_main A what micros argc message resolved connecting' writing' rs' =
      blocking_tcp_main A what micros argc message resolved connecting' writing' rs' \<and>
    blocking_tcp_main A what micros 4 message (Inr ()) connecting writing (rs @ r # rs'') =
      Some (if message \<in> set (complete_lines (concat (map fst rs))) then (0, round_trip micros, []) else (0, [], ''Exception: '' @ what e @ [CHR 0x0A]))"
proof (rule conjI [OF same_client])
  have "token_lines A message (r # rs'') True (unfinished (concat (map fst rs))) = Some (Inl e)"
    using assms(4) by (simp add: token_lines.simps [of A message "r # rs''"] unfinished_none close_after_def client_run_def)
  then show "blocking_tcp_main A what micros 4 message (Inr ()) connecting writing (rs @ r # rs'') =
      Some (if message \<in> set (complete_lines (concat (map fst rs))) then (0, round_trip micros, []) else (0, [], ''Exception: '' @ what e @ [CHR 0x0A]))"
    using assms(2,3) lines_in_time [OF assms(1), of A message "r # rs''" "[]"]
    by (simp add: blocking_tcp_main_def bc_connect_def bc_write_line_def client_run_def same_lines caught_def)
qed

definition demo_codes :: "nat asio_codes" where "demo_codes = \<lparr>operation_aborted = 125, bad_descriptor = 9\<rparr>"
definition at_second :: "nat \<Rightarrow> nat timed_op" where "at_second t = \<lparr>op_time = Some t, op_code = None, op_ready = False\<rparr>"

theorem blocking_clients_witness:
  "blocking_tcp_main demo_codes (\<lambda>e. ''late'') 7 4 ''ab'' (Inr ()) (at_second 1) (at_second 0)
     ([([CHR ''x'', CHR 0x0A, CHR ''a'', CHR ''b'', CHR 0x0A], at_second 3)] @ ([], at_second 11) # []) = Some (0, round_trip 7, []) \<and>
   blocking_token_main demo_codes (\<lambda>e. ''late'') 7 3 ''ab'' (Inr ()) (at_second 1) (at_second 0) [] =
   blocking_tcp_main demo_codes (\<lambda>e. ''late'') 7 3 ''ab'' (Inr ()) (at_second 1) (at_second 0) []"
proof -
  let ?r = "([CHR ''x'', CHR 0x0A, CHR ''a'', CHR ''b'', CHR 0x0A], at_second 3) :: nat net_read"
  have "list_all in_time [?r]" by (simp add: in_time_def newline_at_def at_second_def)
  moreover have "run_for demo_codes 10 (at_second t) = (None, True)" if "t \<le> 10" for t using that by (simp add: run_for_def at_second_def)
  moreover have "run_for demo_codes 10 (until_newline ([], at_second 11)) = (Some 125, False)"
    by (simp add: run_for_def until_newline_def newline_at_def at_second_def demo_codes_def)
  moreover have "''ab'' \<in> set (complete_lines (fst ?r))"
    by (simp add: complete_lines.simps [of "[CHR ''x'', CHR 0x0A, CHR ''a'', CHR ''b'', CHR 0x0A]"] complete_lines.simps [of "[CHR ''a'', CHR ''b'', CHR 0x0A]"] newline_at_def)
  ultimately show ?thesis
    using blocking_clients [of "[?r]" demo_codes "at_second 1" "at_second 0" "([], at_second 11)" 125 False "\<lambda>e. ''late''" 7 3 "''ab''" "Inr ()" "at_second 1" "at_second 0" "[]" "[]"]
    by simp
qed

text \<open>A line has no newline: a message with one is never recognised when it comes back.\<close>

lemma complete_lines_one_line: "l \<in> set (complete_lines s) \<Longrightarrow> CHR 0x0A \<notin> set l"
proof (induction s rule: complete_lines.induct)
  case (1 s)
  show ?case
  proof (cases "newline_at s")
    case (Some k)
    then have "take k s = takeWhile (\<lambda>c. c \<noteq> CHR 0x0A) s" by (auto simp: newline_at_def takeWhile_eq_take [symmetric] split: if_splits)
    with 1 Some show ?thesis by (auto simp: complete_lines.simps [of s] dest: set_takeWhileD)
  qed (use 1 in \<open>simp add: complete_lines.simps [of s]\<close>)
qed

end
