(* ===== verification/Socks4.thy ===== *)
theory Socks4
  imports Prelude
begin

text \<open>
  The SOCKS 4 client (\<open>boost_asio/example/cpp11/socks4/socks4.hpp\<close>, \<open>sync_client.cpp\<close>): requests and replies as the buffers they are sent and
  received through, and the client that asks a proxy for a connection and fetches a page through it.
\<close>

unbundle bit_operations_syntax

subsection \<open>socks4.hpp\<close>

text \<open>An \<open>unsigned char\<close> as it is sent.\<close>

definition octet :: "8 word \<Rightarrow> char" where "octet b = char_of (unat b)"
definition of_octet :: "char \<Rightarrow> 8 word" where "of_octet c = word_of_nat (of_char c)"

lemma of_octet_octet [simp]: "of_octet (octet b) = b"
  using unsigned_less [of b, where ?'a = nat] by (simp add: octet_def of_octet_def)

datatype socks_command = socks_connect | socks_bind

primrec command_byte :: "socks_command \<Rightarrow> 8 word" where
  "command_byte socks_connect = 0x01"
| "command_byte socks_bind = 0x02"

text \<open>An endpoint: the bytes of an address of one of the two protocols, and a port.\<close>

datatype address_bytes = V4_bytes "8 word list" | V6_bytes "8 word list"
type_synonym tcp_endpoint = "address_bytes \<times> 16 word"

record socks_request =
  rq_version :: "8 word"
  rq_command :: "8 word"
  rq_port_high :: "8 word"
  rq_port_low :: "8 word"
  rq_address :: "8 word list"
  rq_user :: string
  rq_null :: "8 word"

text \<open>The constructor; \<open>None\<close> is the exception for an address family that is not supported.\<close>

definition make_request :: "socks_command \<Rightarrow> tcp_endpoint \<Rightarrow> string \<Rightarrow> socks_request option" where
  "make_request cmd endpoint user_id =
     (case fst endpoint of
        V6_bytes _ \<Rightarrow> None
      | V4_bytes bs \<Rightarrow>
          let port = snd endpoint
          in Some \<lparr>rq_version = 0x04, rq_command = command_byte cmd, rq_port_high = ucast (drop_bit 8 port AND 0xff),
               rq_port_low = ucast (port AND 0xff), rq_address = bs, rq_user = user_id, rq_null = 0\<rparr>)"

definition request_buffers :: "socks_request \<Rightarrow> string" where
  "request_buffers r = [octet (rq_version r), octet (rq_command r), octet (rq_port_high r), octet (rq_port_low r)] @
     map octet (rq_address r) @ rq_user r @ [octet (rq_null r)]"

record socks_reply =
  rp_null :: "8 word"
  socks_status :: "8 word"
  rp_port_high :: "8 word"
  rp_port_low :: "8 word"
  rp_address :: "8 word list"

definition request_granted :: "8 word" where "request_granted = 0x5a"

text \<open>Reading into the buffers of a reply: eight bytes, or an error.\<close>

definition reply_buffers :: "string \<Rightarrow> (socks_reply \<times> string) option" where
  "reply_buffers s =
     (if length s < 8 then None
      else Some (\<lparr>rp_null = of_octet (s ! 0), socks_status = of_octet (s ! 1), rp_port_high = of_octet (s ! 2), rp_port_low = of_octet (s ! 3),
             rp_address = map of_octet (take 4 (drop 4 s))\<rparr>, drop 8 s))"

definition socks_success :: "socks_reply \<Rightarrow> bool" where
  "socks_success r \<longleftrightarrow> rp_null r = 0 \<and> socks_status r = request_granted"

definition reply_endpoint :: "socks_reply \<Rightarrow> tcp_endpoint" where
  "reply_endpoint r =
     (let port = ucast (rp_port_high r) :: 16 word; port = push_bit 8 port AND 0xff00; port = port OR ucast (rp_port_low r)
      in (V4_bytes (rp_address r), port))"

subsection \<open>sync_client.cpp\<close>

definition http_request :: string where
  "http_request = ''GET / HTTP/1.0'' @ [CHR 0x0D, CHR 0x0A] @ ''Host: www.boost.org'' @ [CHR 0x0D, CHR 0x0A] @ ''Accept: */*'' @ [CHR 0x0D, CHR 0x0A] @
     ''Connection: close'' @ [CHR 0x0D, CHR 0x0A, CHR 0x0D, CHR 0x0A]"

definition usage_socks :: string where
  "usage_socks = ''Usage: sync_client <socks4server> <socks4port> <user>'' @ [CHR 0x0A] @ ''Examples:'' @ [CHR 0x0A] @
     ''  sync_client 127.0.0.1 1080 chris'' @ [CHR 0x0A] @ ''  sync_client localhost socks chris'' @ [CHR 0x0A]"

text \<open>
  \<open>main\<close>: the status, what it prints and what it writes to the connection. Arguments: whether resolving and connecting succeed, the endpoint of the
  web site, what the connection brings and with which error it ends, \<open>None\<close> for its regular end. The hexadecimal manipulator has no effect on an
  \<open>unsigned char\<close>, which is printed as a character.
\<close>

definition socks_main :: "('e \<Rightarrow> string) \<Rightarrow> nat \<Rightarrow> string \<Rightarrow> 'e \<Rightarrow> 'e \<Rightarrow> 'e + tcp_endpoint \<Rightarrow> string \<Rightarrow> 'e option \<Rightarrow> nat \<times> string \<times> string" where
  "socks_main what argc user not_supported eof connected input ends =
     (let exception = (\<lambda>e. ''Exception: '' @ what e @ [CHR 0x0A])
      in if argc \<noteq> 4 then (1, usage_socks, [])
         else case connected of
           Inl e \<Rightarrow> (0, exception e, [])
         | Inr http_endpoint \<Rightarrow>
             (case make_request socks_connect http_endpoint user of
                None \<Rightarrow> (0, exception not_supported, [])
              | Some rq \<Rightarrow>
                  let sent = request_buffers rq
                  in case reply_buffers input of
                    None \<Rightarrow> (0, exception (case ends of None \<Rightarrow> eof | Some e \<Rightarrow> e), sent)
                  | Some (rp, page) \<Rightarrow>
                      if \<not> socks_success rp then (1, ''Connection failed.'' @ [CHR 0x0A] @ ''status = 0x'' @ [octet (socks_status rp)], sent)
                      else (0, page @ (case ends of None \<Rightarrow> [] | Some e \<Rightarrow> exception e), sent @ http_request)))"

subsection \<open>What a proxy sees, and what the client makes of its answer\<close>

text \<open>How the protocol has a proxy read a request: the fields of fixed size, and the user up to the first zero byte.\<close>

definition proxy_reads :: "string \<Rightarrow> (8 word \<times> 8 word \<times> 16 word \<times> 8 word list \<times> string) option" where
  "proxy_reads s =
     (if length s < 9 \<or> octet 0 \<notin> set (drop 8 s) then None
      else Some (of_octet (s ! 0), of_octet (s ! 1), push_bit 8 (ucast (of_octet (s ! 2))) OR ucast (of_octet (s ! 3)),
        map of_octet (take 4 (drop 4 s)), takeWhile (\<lambda>c. c \<noteq> octet 0) (drop 8 s)))"

text \<open>The answer of a proxy.\<close>

definition proxy_answers :: "8 word \<Rightarrow> tcp_endpoint \<Rightarrow> string" where
  "proxy_answers status e = [octet 0, octet status, octet (ucast (drop_bit 8 (snd e))), octet (ucast (snd e))] @
     (case fst e of V4_bytes bs \<Rightarrow> map octet bs | V6_bytes bs \<Rightarrow> [])"

lemma port_bytes:
  fixes p :: "16 word"
  shows "push_bit 8 (ucast (ucast (drop_bit 8 p AND 0xff) :: 8 word)) OR ucast (ucast (p AND 0xff) :: 8 word) = p"
    "push_bit 8 (ucast (ucast (drop_bit 8 p) :: 8 word)) AND 0xff00 OR ucast (ucast p :: 8 word) = p"
proof -
  have m: "(0xff :: 16 word) = mask 8" "(0xff00 :: 16 word) = push_bit 8 (mask 8)" by (simp_all add: mask_eq_exp_minus_1)
  show "push_bit 8 (ucast (ucast (drop_bit 8 p AND 0xff) :: 8 word)) OR ucast (ucast (p AND 0xff) :: 8 word) = p" unfolding m
    by (rule bit_word_eqI) (auto simp: bit_simps)
  show "push_bit 8 (ucast (ucast (drop_bit 8 p) :: 8 word)) AND 0xff00 OR ucast (ucast p :: 8 word) = p" unfolding m
    by (rule bit_word_eqI) (auto simp: bit_simps)
qed

lemma four: "length bs = 4 \<Longrightarrow> \<exists>a b c d. bs = [a, b, c, d]"
  by (simp add: eval_nat_numeral length_Suc_conv) blast

lemma takeWhile_no_null: "octet 0 \<notin> set u \<Longrightarrow> takeWhile (\<lambda>c. c \<noteq> octet 0) (u @ octet 0 # s) = u"
  by (induction u) auto

text \<open>A proxy reads the request the client has made of an endpoint and a user.\<close>

lemma proxy_reads_request:
  assumes "length bs = 4" "octet 0 \<notin> set user" "make_request cmd (V4_bytes bs, port) user = Some rq"
  shows "proxy_reads (request_buffers rq) = Some (0x04, command_byte cmd, port, bs, user)"
proof -
  obtain a b c d where bs: "bs = [a, b, c, d]" using four [OF assms(1)] by blast
  from assms(3) have "rq = \<lparr>rq_version = 0x04, rq_command = command_byte cmd, rq_port_high = ucast (drop_bit 8 port AND 0xff),
      rq_port_low = ucast (port AND 0xff), rq_address = bs, rq_user = user, rq_null = 0\<rparr>" by (simp add: make_request_def Let_def)
  then show ?thesis using port_bytes(1) [of port] takeWhile_no_null [OF assms(2), of "[]"]
    by (simp add: request_buffers_def proxy_reads_def bs numeral_eq_Suc)
qed

text \<open>The client reads the answer of a proxy, with its endpoint, and leaves what follows.\<close>

lemma client_reads_answer:
  assumes "length bs = 4"
  shows "\<exists>rp. reply_buffers (proxy_answers status (V4_bytes bs, port) @ page) = Some (rp, page) \<and> socks_status rp = status \<and>
    (socks_success rp \<longleftrightarrow> status = 0x5a) \<and> reply_endpoint rp = (V4_bytes bs, port)"
proof -
  obtain a b c d where bs: "bs = [a, b, c, d]" using four [OF assms] by blast
  show ?thesis using port_bytes(2) [of port]
    by (simp add: reply_buffers_def proxy_answers_def bs numeral_eq_Suc socks_success_def request_granted_def reply_endpoint_def Let_def)
qed

text \<open>Client and proxy together: a proxy is asked for what the client wants to reach; when it grants that the page it passes on is printed,
  and otherwise the status, as a character after \<open>0x\<close>.\<close>

theorem socks_exchange:
  assumes "length bs = 4" "octet 0 \<notin> set user" "length as = 4"
  shows "\<exists>sent. socks_main what 4 user nv4 eof (Inr (V4_bytes bs, port)) (proxy_answers 0x5a (V4_bytes as, p) @ page) None = (0, page, sent @ http_request) \<and>
    proxy_reads sent = Some (0x04, 0x01, port, bs, user) \<and>
    (status = 0x5a \<or> socks_main what 4 user nv4 eof (Inr (V4_bytes bs, port)) (proxy_answers status (V4_bytes as, p) @ page) None =
      (1, ''Connection failed.'' @ [CHR 0x0A] @ ''status = 0x'' @ [octet status], sent))"
proof -
  obtain rq where rq: "make_request socks_connect (V4_bytes bs, port) user = Some rq" by (simp add: make_request_def Let_def)
  obtain rp where rp: "reply_buffers (proxy_answers 0x5a (V4_bytes as, p) @ page) = Some (rp, page)" "socks_success rp"
    using client_reads_answer [OF assms(3), of "0x5a" p page] by auto
  obtain rp' where rp': "reply_buffers (proxy_answers status (V4_bytes as, p) @ page) = Some (rp', page)"
      "socks_success rp' \<longleftrightarrow> status = 0x5a" "socks_status rp' = status"
    using client_reads_answer [OF assms(3), of status p page] by auto
  show ?thesis using rq rp rp' proxy_reads_request [OF assms(1,2) rq]
    by (intro exI [of _ "request_buffers rq"]) (auto simp: socks_main_def Let_def)
qed

end
