(* ===== verification/Coro_Chat.thy ===== *)
theory Coro_Chat
  imports Prelude "HOL-Library.Sublist"
begin

text \<open>
  The chat server made of coroutines (\<open>boost_asio/example/cpp20/coroutines/chat_server.cpp\<close>): a room in the frame of each listener, and
  sessions with a coroutine that reads lines and one that writes messages, which waits on a timer that is never due for
  somebody to cancel its wait. One thread resumes the coroutines one after another.
\<close>

subsection \<open>State\<close>

text \<open>Where the coroutines of a session are: not begun, suspended in an operation, about to be resumed from the wait, ended.\<close>

datatype reader_pc = Reader_new | Reader_reading | Reader_ended
datatype writer_pc = Writer_new | Writer_waiting | Writer_woken | Writer_writing | Writer_ended

text \<open>A session, and for the statements what it was asked to deliver, what it has sent, and all bytes received.\<close>

record coro_session =
  cr_open :: bool
  write_queue :: "string list"
  read_buffer :: string
  reader_at :: reader_pc
  writer_at :: writer_pc
  cr_delivered :: "string list"
  cr_sent :: "string list"

text \<open>A listener with its room, which lives in its frame. \<open>dangling\<close>: a session has used the room after the frame was gone.\<close>

record coro_chat =
  in_room :: "nat set"
  recent_lines :: "string list"
  sessions_at :: "nat \<Rightarrow> coro_session"
  session_count :: nat
  listening :: bool
  said :: "string list"
  dangling :: bool

definition recent_limit :: nat where "recent_limit = 100"

definition with_session :: "nat \<Rightarrow> (coro_session \<Rightarrow> coro_session) \<Rightarrow> coro_chat \<Rightarrow> coro_chat" where
  "with_session i f s = s\<lparr>sessions_at := (sessions_at s)(i := f (sessions_at s i))\<rparr>"

definition use_room :: "coro_chat \<Rightarrow> coro_chat" where
  "use_room s = s\<lparr>dangling := dangling s \<or> \<not> listening s\<rparr>"

subsection \<open>chat_session\<close>

text \<open>Cancelling the timer wakes the writer if it waits; \<open>cancel_one\<close> and \<open>cancel\<close> are the same here.\<close>

definition wake_writer :: "coro_session \<Rightarrow> coro_session" where
  "wake_writer p = (if writer_at p = Writer_waiting then p\<lparr>writer_at := Writer_woken\<rparr> else p)"

definition coro_deliver :: "string \<Rightarrow> coro_session \<Rightarrow> coro_session" where
  "coro_deliver m p = wake_writer (p\<lparr>write_queue := write_queue p @ [m], cr_delivered := cr_delivered p @ [m]\<rparr>)"

interpretation coro_participant: message_sink coro_deliver cr_delivered
  by unfold_locales (simp add: coro_deliver_def wake_writer_def)

text \<open>The loop of \<open>writer\<close>, to where it is suspended or left.\<close>

definition writer_loop :: "coro_session \<Rightarrow> coro_session" where
  "writer_loop p = p\<lparr>writer_at := (if cr_open p then if write_queue p = [] then Writer_waiting else Writer_writing else Writer_ended)\<rparr>"

definition new_coro_session :: coro_session where
  "new_coro_session = \<lparr>cr_open = True, write_queue = [], read_buffer = [], reader_at = Reader_new, writer_at = Writer_new, cr_delivered = [], cr_sent = []\<rparr>"

subsection \<open>chat_room\<close>

definition coro_join :: "nat \<Rightarrow> coro_chat \<Rightarrow> coro_chat" where
  "coro_join i s = (let s = use_room s in with_session i (fold coro_deliver (recent_lines s)) (s\<lparr>in_room := insert i (in_room s)\<rparr>))"

definition coro_leave :: "nat \<Rightarrow> coro_chat \<Rightarrow> coro_chat" where
  "coro_leave i s = (use_room s)\<lparr>in_room := in_room s - {i}\<rparr>"

text \<open>The loop drops from the front what is too much; the order in which the set is traversed makes no difference.\<close>

definition last_lines :: "string list \<Rightarrow> string list" where
  "last_lines ms = drop (length ms - recent_limit) ms"

definition coro_room_deliver :: "string \<Rightarrow> coro_chat \<Rightarrow> coro_chat" where
  "coro_room_deliver m s =
     (use_room s)\<lparr>recent_lines := last_lines (recent_lines s @ [m]), said := said s @ [m],
        sessions_at := (\<lambda>i. if i \<in> in_room s then coro_deliver m (sessions_at s i) else sessions_at s i)\<rparr>"

definition coro_stop :: "nat \<Rightarrow> coro_chat \<Rightarrow> coro_chat" where
  "coro_stop i s = with_session i (\<lambda>p. wake_writer (p\<lparr>cr_open := False\<rparr>)) (coro_leave i s)"

subsection \<open>Resumption of the coroutines\<close>

text \<open>A line of \<open>n\<close> characters has been read.\<close>

definition reader_got :: "nat \<Rightarrow> nat \<Rightarrow> coro_chat \<Rightarrow> coro_chat" where
  "reader_got i n s =
     (let m = take n (read_buffer (sessions_at s i))
      in with_session i (\<lambda>p. p\<lparr>read_buffer := drop n (read_buffer p)\<rparr>) (coro_room_deliver m s))"

definition reader_failed :: "nat \<Rightarrow> coro_chat \<Rightarrow> coro_chat" where
  "reader_failed i s = coro_stop i (with_session i (\<lambda>p. p\<lparr>reader_at := Reader_ended\<rparr>) s)"

definition writer_sent :: "coro_session \<Rightarrow> coro_session" where
  "writer_sent p = writer_loop (p\<lparr>write_queue := tl (write_queue p), cr_sent := cr_sent p @ [hd (write_queue p)]\<rparr>)"

definition writer_failed :: "nat \<Rightarrow> coro_chat \<Rightarrow> coro_chat" where
  "writer_failed i s = coro_stop i (with_session i (\<lambda>p. p\<lparr>writer_at := Writer_ended\<rparr>) s)"

text \<open>The listener accepts, or its \<open>co_await\<close> throws: then its frame, with the room, is destroyed.\<close>

definition listener_accepted :: "coro_chat \<Rightarrow> coro_chat" where
  "listener_accepted s =
     (let i = session_count s in coro_join i (with_session i (\<lambda>_. new_coro_session) (s\<lparr>session_count := Suc i\<rparr>)))"

definition listener_failed :: "coro_chat \<Rightarrow> coro_chat" where
  "listener_failed s = s\<lparr>listening := False\<rparr>"

definition coro_init :: "coro_chat \<Rightarrow> bool" where
  "coro_init s \<longleftrightarrow> in_room s = {} \<and> recent_lines s = [] \<and> said s = [] \<and> session_count s = 0 \<and> listening s \<and> \<not> dangling s"

inductive coro_step :: "coro_chat \<Rightarrow> coro_chat \<Rightarrow> bool" where
  reader_begins: "i < session_count s \<Longrightarrow> reader_at (sessions_at s i) = Reader_new \<Longrightarrow>
    coro_step s (with_session i (\<lambda>p. p\<lparr>reader_at := Reader_reading\<rparr>) s)"
| reader_bytes: "i < session_count s \<Longrightarrow> reader_at (sessions_at s i) = Reader_reading \<Longrightarrow> cr_open (sessions_at s i) \<Longrightarrow>
    CHR 0x0A \<notin> set (read_buffer (sessions_at s i)) \<Longrightarrow> length (read_buffer (sessions_at s i) @ bs) \<le> 1024 \<Longrightarrow> bs \<noteq> [] \<Longrightarrow>
    coro_step s (with_session i (\<lambda>p. p\<lparr>read_buffer := read_buffer p @ bs\<rparr>) s)"
| reader_line: "i < session_count s \<Longrightarrow> reader_at (sessions_at s i) = Reader_reading \<Longrightarrow>
    read_buffer (sessions_at s i) = l @ CHR 0x0A # rs \<Longrightarrow> CHR 0x0A \<notin> set l \<Longrightarrow> coro_step s (reader_got i (Suc (length l)) s)"
| reader_fails: "i < session_count s \<Longrightarrow> reader_at (sessions_at s i) = Reader_reading \<Longrightarrow> CHR 0x0A \<notin> set (read_buffer (sessions_at s i)) \<Longrightarrow>
    coro_step s (reader_failed i s)"
| writer_runs: "i < session_count s \<Longrightarrow> writer_at (sessions_at s i) = Writer_new \<or> writer_at (sessions_at s i) = Writer_woken \<Longrightarrow>
    coro_step s (with_session i writer_loop s)"
| writer_writes: "i < session_count s \<Longrightarrow> writer_at (sessions_at s i) = Writer_writing \<Longrightarrow> coro_step s (with_session i writer_sent s)"
| writer_fails: "i < session_count s \<Longrightarrow> writer_at (sessions_at s i) = Writer_writing \<Longrightarrow> coro_step s (writer_failed i s)"
| accept_succeeds: "listening s \<Longrightarrow> coro_step s (listener_accepted s)"
| accept_throws: "listening s \<Longrightarrow> coro_step s (listener_failed s)"

text \<open>\<open>main\<close>: a listener, with a room of its own, for every port; the context stops at a signal.\<close>

definition coro_chat_main :: "coro_chat \<Rightarrow> nat \<Rightarrow> string + unit \<Rightarrow> coro_chat list \<times> nat \<times> string" where
  "coro_chat_main fresh argc opened =
     (if argc < 2 then ([], 1, ''Usage: chat_server <port> [<port> ...]'' @ [CHR 0x0A])
      else case opened of
        Inl what \<Rightarrow> ([], 0, ''Exception: '' @ what @ [CHR 0x0A])
      | Inr _ \<Rightarrow> (replicate (argc - 1) fresh, 0, []))"

section \<open>Properties\<close>

text \<open>
  The sessions made of coroutines: messages in order, no lost wake-up, both coroutines end when the session is stopped; and
  the room that is gone while sessions still use it.
\<close>

definition whole_line :: "string \<Rightarrow> bool" where
  "whole_line m \<longleftrightarrow> (\<exists>l. m = l @ [CHR 0x0A] \<and> CHR 0x0A \<notin> set l)"

text \<open>A session, against what has been said in the room: in the room it has been given everything from some point on.\<close>

definition given :: "bool \<Rightarrow> string list \<Rightarrow> string list \<Rightarrow> bool" where
  "given member h d \<longleftrightarrow> (if member then \<exists>k \<le> length h. d = drop k h else \<exists>k n. d = take n (drop k h))"

definition coro_session_ok :: "bool \<Rightarrow> string list \<Rightarrow> coro_session \<Rightarrow> bool" where
  "coro_session_ok member h p \<longleftrightarrow>
     cr_open p = member \<and> given member h (cr_delivered p) \<and>
     cr_delivered p = cr_sent p @ write_queue p \<and>
     (writer_at p = Writer_waiting \<longrightarrow> write_queue p = [] \<and> cr_open p) \<and> (writer_at p = Writer_writing \<longrightarrow> write_queue p \<noteq> []) \<and>
     (reader_at p = Reader_ended \<or> writer_at p = Writer_ended \<longrightarrow> \<not> cr_open p)"

definition coro_ok :: "coro_chat \<Rightarrow> bool" where
  "coro_ok s \<longleftrightarrow> recent_lines s = last_lines (said s) \<and> list_all whole_line (said s) \<and> in_room s \<subseteq> {..<session_count s} \<and>
     (\<forall>i < session_count s. coro_session_ok (i \<in> in_room s) (said s) (sessions_at s i))"

lemma wake_writer_simps [simp]:
  "cr_open (wake_writer p) = cr_open p" "write_queue (wake_writer p) = write_queue p" "cr_delivered (wake_writer p) = cr_delivered p"
  "cr_sent (wake_writer p) = cr_sent p" "reader_at (wake_writer p) = reader_at p"
  "writer_at (wake_writer p) = (if writer_at p = Writer_waiting then Writer_woken else writer_at p)"
  by (simp_all add: wake_writer_def)

lemma coro_deliver_simps [simp]:
  "cr_open (coro_deliver m p) = cr_open p" "write_queue (coro_deliver m p) = write_queue p @ [m]" "cr_delivered (coro_deliver m p) = cr_delivered p @ [m]"
  "cr_sent (coro_deliver m p) = cr_sent p" "reader_at (coro_deliver m p) = reader_at p"
  "writer_at (coro_deliver m p) = (if writer_at p = Writer_waiting then Writer_woken else writer_at p)"
  by (simp_all add: coro_deliver_def)

lemma last_lines_append: "last_lines (last_lines h @ [m]) = last_lines (h @ [m])"
  by (auto simp: last_lines_def recent_limit_def intro!: arg_cong [of _ _ "\<lambda>n. drop n h"])

lemma given_more: "given member h d \<Longrightarrow> given member (h @ [m]) (if member then d @ [m] else d)"
proof (cases member)
  case True
  assume "given member h d"
  with True obtain k where k: "k \<le> length h" "d = drop k h" by (auto simp: given_def)
  then have "d @ [m] = drop k (h @ [m])" by simp
  with k True show ?thesis unfolding given_def by (metis le_SucI length_append_singleton)
next
  case False
  assume "given member h d"
  with False obtain k n where "d = take n (drop k h)" by (auto simp: given_def)
  then have "d = take (min n (length (drop k h))) (drop k (h @ [m]))" by (simp add: min_def)
  with False show ?thesis unfolding given_def by (simp only: if_False) blast
qed

lemma given_left: "given member h d \<Longrightarrow> given False h d"
  by (auto simp: given_def split: if_splits) (metis take_all order_refl)

lemma given_later: "given True (drop k h) d \<Longrightarrow> k \<le> length h \<Longrightarrow> given True h d"
proof -
  assume "given True (drop k h) d" "k \<le> length h"
  then obtain j where "j \<le> length h - k" "d = drop j (drop k h)" "k \<le> length h" by (auto simp: given_def)
  then have "j + k \<le> length h" "d = drop (j + k) h" by auto
  then show ?thesis by (auto simp: given_def)
qed

lemma coro_session_ok_delivered:
  "coro_session_ok member h p \<Longrightarrow> coro_session_ok member (h @ [m]) (if member then coro_deliver m p else p)"
  using given_more [of member h "cr_delivered p" m] by (auto simp: coro_session_ok_def)

lemma coro_session_ok_stopped:
  "coro_session_ok member h p \<Longrightarrow> coro_session_ok False h (wake_writer (p\<lparr>cr_open := False\<rparr>))"
  using given_left [of member h "cr_delivered p"] by (auto simp: coro_session_ok_def)

lemma coro_session_ok_writer:
  "coro_session_ok member h p \<Longrightarrow> coro_session_ok member h (writer_loop p)"
  "coro_session_ok member h p \<Longrightarrow> writer_at p = Writer_writing \<Longrightarrow> coro_session_ok member h (writer_sent p)"
  by (auto simp: coro_session_ok_def writer_loop_def writer_sent_def split: if_splits)

lemma coro_joined:
  "coro_session_ok True (last_lines h) (fold coro_deliver (last_lines h) new_coro_session)"
proof -
  have q: "cr_open (fold coro_deliver ms p) = cr_open p \<and> write_queue (fold coro_deliver ms p) = write_queue p @ ms \<and>
      cr_sent (fold coro_deliver ms p) = cr_sent p \<and> reader_at (fold coro_deliver ms p) = reader_at p \<and>
      (writer_at p = Writer_new \<longrightarrow> writer_at (fold coro_deliver ms p) = Writer_new)" for ms p
    by (induction ms arbitrary: p) simp_all
  show ?thesis using q [of "last_lines h" new_coro_session] coro_participant.taken_all [of "last_lines h" new_coro_session]
    by (auto simp: coro_session_ok_def new_coro_session_def given_def intro!: exI [of _ 0])
qed

lemma coro_session_ok_longer: "coro_session_ok True (drop k h) p \<Longrightarrow> k \<le> length h \<Longrightarrow> coro_session_ok True h p"
  using given_later by (auto simp: coro_session_ok_def)

text \<open>A change of one session.\<close>

lemma coro_ok_session:
  assumes "coro_ok s" "i < session_count s" "coro_session_ok (i \<in> in_room s) (said s) (sessions_at s i) \<Longrightarrow> coro_session_ok (i \<in> in_room s) (said s) (f (sessions_at s i))"
  shows "coro_ok (with_session i f s)"
  using assms by (auto simp: coro_ok_def with_session_def)

lemma coro_ok_stop:
  assumes "coro_ok s" "i < session_count s" "\<And>p. f p = p\<lparr>reader_at := Reader_ended\<rparr> \<or> f p = p\<lparr>writer_at := Writer_ended\<rparr>"
  shows "coro_ok (coro_stop i (with_session i f s))"
proof -
  have "coro_session_ok (i \<in> in_room s) (said s) (sessions_at s i)" using assms(1,2) by (simp add: coro_ok_def)
  then have "coro_session_ok False (said s) (wake_writer (sessions_at s i\<lparr>cr_open := False\<rparr>))" by (rule coro_session_ok_stopped)
  then have "coro_session_ok False (said s) (wake_writer (f (sessions_at s i)\<lparr>cr_open := False\<rparr>))"
    using assms(3) [of "sessions_at s i"] by (auto simp: coro_session_ok_def)
  with assms(1,2) show ?thesis by (auto simp: coro_ok_def coro_stop_def coro_leave_def use_room_def with_session_def)
qed

lemma coro_ok_step: "coro_step s t \<Longrightarrow> coro_ok s \<Longrightarrow> coro_ok t"
proof (induction rule: coro_step.induct)
  case (reader_begins i s)
  then show ?case by (intro coro_ok_session) (auto simp: coro_session_ok_def)
next
  case (reader_bytes i s bs)
  then show ?case by (intro coro_ok_session) (auto simp: coro_session_ok_def)
next
  case (reader_line i s l rs)
  let ?m = "take (Suc (length l)) (read_buffer (sessions_at s i))"
  have "whole_line ?m" using reader_line by (simp add: whole_line_def)
  moreover have "coro_session_ok (j \<in> in_room s) (said s @ [?m]) (if j \<in> in_room s then coro_deliver ?m (sessions_at s j) else sessions_at s j)"
    if "j < session_count s" for j using reader_line(5) that coro_session_ok_delivered by (simp add: coro_ok_def)
  ultimately have "coro_ok (coro_room_deliver ?m s)"
    using reader_line(5) by (simp add: coro_ok_def coro_room_deliver_def use_room_def last_lines_append)
  then show ?case unfolding reader_got_def Let_def
    by (rule coro_ok_session) (use reader_line in \<open>auto simp: coro_session_ok_def coro_room_deliver_def use_room_def\<close>)
next
  case (reader_fails i s)
  then show ?case unfolding reader_failed_def by (intro coro_ok_stop) simp_all
next
  case (writer_runs i s)
  then show ?case by (intro coro_ok_session) (simp_all add: coro_session_ok_writer)
next
  case (writer_writes i s)
  then show ?case by (intro coro_ok_session) (simp_all add: coro_session_ok_writer)
next
  case (writer_fails i s)
  then show ?case unfolding writer_failed_def by (intro coro_ok_stop) simp_all
next
  case (accept_succeeds s)
  let ?h = "said s"
  have "coro_session_ok True ?h (fold coro_deliver (last_lines ?h) new_coro_session)"
    using coro_session_ok_longer [of "length ?h - recent_limit" ?h] coro_joined [of ?h] by (simp add: last_lines_def)
  with accept_succeeds show ?case
    by (auto simp: coro_ok_def listener_accepted_def coro_join_def use_room_def with_session_def Let_def less_Suc_eq)
next
  case (accept_throws s)
  then show ?case by (simp add: coro_ok_def listener_failed_def)
qed

lemma coro_ok_reachable:
  assumes "coro_init s0" "coro_step\<^sup>*\<^sup>* s0 s"
  shows "coro_ok s"
  using assms(2)
proof (induction rule: rtranclp_induct)
  case base
  then show ?case using assms(1) by (simp add: coro_init_def coro_ok_def last_lines_def)
qed (rule coro_ok_step)

text \<open>In the room as long as it is open, a session is given everything that is said from some point on, afterwards nothing more; what it was given it has sent,
  in order, or holds; a message never waits for a writer that sleeps, and the writer of a session that is closed does not sleep, so that both coroutines come to their ends. This holds
  while the room is there.\<close>

theorem coro_sessions:
  assumes "coro_init s0" "coro_step\<^sup>*\<^sup>* s0 s" "i < session_count s" "\<not> dangling s"
  shows "(i \<in> in_room s \<longleftrightarrow> cr_open (sessions_at s i)) \<and>
    (if i \<in> in_room s then \<exists>k \<le> length (said s). cr_delivered (sessions_at s i) = drop k (said s)
     else \<exists>k n. cr_delivered (sessions_at s i) = take n (drop k (said s))) \<and>
    cr_delivered (sessions_at s i) = cr_sent (sessions_at s i) @ write_queue (sessions_at s i) \<and>
    (writer_at (sessions_at s i) = Writer_waiting \<longrightarrow> write_queue (sessions_at s i) = [] \<and> cr_open (sessions_at s i)) \<and>
    (reader_at (sessions_at s i) = Reader_ended \<or> writer_at (sessions_at s i) = Writer_ended \<longrightarrow> i \<notin> in_room s)"
  using coro_ok_reachable [OF assms(1,2)] assms(3) unfolding coro_ok_def coro_session_ok_def given_def by (auto split: if_splits)

text \<open>When accepting fails once, the listener ends with its room, which a session uses at the latest when it ends.\<close>

lemma room_gone:
  assumes "coro_init s0"
  shows "\<exists>s. coro_step\<^sup>*\<^sup>* s0 s \<and> dangling s"
proof -
  define a where "a = listener_accepted s0"
  define b where "b = listener_failed a"
  define c where "c = with_session 0 (\<lambda>p. p\<lparr>reader_at := Reader_reading\<rparr>) b"
  note defs = a_def b_def c_def listener_accepted_def listener_failed_def coro_join_def use_room_def with_session_def Let_def
  have init: "session_count s0 = 0" "listening s0" "recent_lines s0 = []" using assms by (simp_all add: coro_init_def)
  then have "coro_step s0 a" "coro_step a b" unfolding a_def b_def
    by (intro coro_step.intros; simp add: listener_accepted_def coro_join_def use_room_def with_session_def Let_def)+
  moreover have "coro_step b c" unfolding c_def using init by (intro coro_step.reader_begins) (simp_all add: a_def b_def defs new_coro_session_def)
  moreover have "coro_step c (reader_failed 0 c)" using init by (intro coro_step.reader_fails) (simp_all add: defs new_coro_session_def)
  moreover have "dangling (reader_failed 0 c)"
    by (simp add: reader_failed_def coro_stop_def coro_leave_def defs)
  ultimately show ?thesis by (meson converse_rtranclp_into_rtranclp rtranclp.rtrancl_refl)
qed

end
