(* ===== verification/Http_Server4.thy ===== *)
theory Http_Server4
  imports Asio_Handler Asio_Request_Correct
begin

text \<open>
  The HTTP server as one stackless coroutine (\<open>boost_asio/example/cpp11/http/server4/server.cpp\<close>): its call operator is the completion
  handler of everything, and a connection is a forked copy of the coroutine. Parser and replies are those of \<open>http/server\<close>, the
  request handler is a member.
\<close>

datatype s4_point = S4_start | S4_accepting | S4_reading | S4_writing | S4_finished | S4_dropped

text \<open>
  The object: where it will be reentered, whether it is the parent, its members; for the statements the bytes received and the buffers sent. An
  object whose operation failed is not reentered: nothing refers to it any more.
\<close>

record s4_coroutine =
  s4_point :: s4_point
  s4_is_parent :: bool
  s4_request :: request
  s4_parser :: parser_state
  s4_result :: result_type
  s4_reply :: reply
  s4_shutdown :: bool
  s4_received :: string
  s4_sent :: "string list option"

type_synonym request_handler = "request \<Rightarrow> reply \<Rightarrow> reply"

text \<open>From the head of the first loop: a new socket, and accept.\<close>

definition s4_accept :: "s4_coroutine \<Rightarrow> s4_coroutine" where
  "s4_accept s = s\<lparr>s4_point := S4_accepting\<rparr>"

text \<open>After the first loop: new request, and on to the first read. The numbers of a new request and a new reply's status are not initialised.\<close>

definition s4_begin_request :: "request \<Rightarrow> s4_coroutine \<Rightarrow> s4_coroutine" where
  "s4_begin_request fresh s = s\<lparr>s4_request := fresh, s4_point := S4_reading\<rparr>"

text \<open>After the second loop.\<close>

definition s4_answer :: "request_handler \<Rightarrow> reply \<Rightarrow> s4_coroutine \<Rightarrow> s4_coroutine" where
  "s4_answer handle fresh_reply s =
     (let r = (if s4_result s = Good then handle (s4_request s) fresh_reply else stock_reply bad_request)
      in s\<lparr>s4_reply := r, s4_sent := Some (to_buffers r), s4_point := S4_writing\<rparr>)"

text \<open>
  \<open>server::operator()\<close>: the object as it goes on, and the copy \<open>fork\<close> makes, which runs at once to its first read. The read has brought \<open>bytes\<close>.
\<close>

definition s4_call :: "request_handler \<Rightarrow> request \<Rightarrow> reply \<Rightarrow> bool \<Rightarrow> string \<Rightarrow> s4_coroutine \<Rightarrow> s4_coroutine \<times> s4_coroutine option" where
  "s4_call handle fresh fresh_reply failed bytes s =
     (if failed then (s\<lparr>s4_point := S4_dropped\<rparr>, None)
      else case s4_point s of
          S4_start \<Rightarrow> (s4_accept s, None)
        | S4_accepting \<Rightarrow>
            (let child = s\<lparr>s4_is_parent := False\<rparr>
             in (s4_accept s, Some (s4_begin_request fresh child)))
        | S4_reading \<Rightarrow>
            (case parse (s4_parser s) (s4_request s) bytes of
               (res, _, p, r) \<Rightarrow>
                 let s = s\<lparr>s4_parser := p, s4_request := r, s4_result := res, s4_received := s4_received s @ bytes\<rparr>
                 in (if res = Indeterminate then s\<lparr>s4_point := S4_reading\<rparr> else s4_answer handle fresh_reply s, None))
        | S4_writing \<Rightarrow> (s\<lparr>s4_shutdown := True, s4_point := S4_finished\<rparr>, None)
        | S4_finished \<Rightarrow> (s, None)
        | S4_dropped \<Rightarrow> (s, None))"

definition new_s4_server :: "request \<Rightarrow> reply \<Rightarrow> s4_coroutine" where
  "new_s4_server fresh fresh_reply = \<lparr>s4_point = S4_start, s4_is_parent = True, s4_request = fresh, s4_parser = parser_start, s4_result = Indeterminate,
     s4_reply = fresh_reply, s4_shutdown = False, s4_received = [], s4_sent = None\<rparr>"

text \<open>The server, launched, with all the coroutines there are; the first is the one that accepts. An operation of one of them completes.\<close>

inductive s4_step :: "request_handler \<Rightarrow> request \<Rightarrow> reply \<Rightarrow> s4_coroutine list \<Rightarrow> s4_coroutine list \<Rightarrow> bool" for handle fresh fresh_reply where
  s4_completes: "i < length cs \<Longrightarrow> s4_point (cs ! i) \<in> {S4_accepting, S4_reading, S4_writing} \<Longrightarrow>
    length bytes \<le> 8192 \<Longrightarrow> (\<not> failed \<and> s4_point (cs ! i) = S4_reading \<longrightarrow> bytes \<noteq> []) \<Longrightarrow>
    s4_call handle fresh fresh_reply failed bytes (cs ! i) = (c, child) \<Longrightarrow>
    s4_step handle fresh fresh_reply cs (cs[i := c] @ (case child of None \<Rightarrow> [] | Some d \<Rightarrow> [d]))"

definition s4_launch :: "request_handler \<Rightarrow> request \<Rightarrow> reply \<Rightarrow> s4_coroutine list" where
  "s4_launch handle fresh fresh_reply = [fst (s4_call handle fresh fresh_reply False [] (new_s4_server fresh fresh_reply))]"

subsection \<open>What is answered\<close>

text \<open>A connection against what it has received: it reads on while that is the beginning of a request, else it has answered, once.\<close>

definition s4_ok :: "request_handler \<Rightarrow> request \<Rightarrow> reply \<Rightarrow> s4_coroutine \<Rightarrow> bool" where
  "s4_ok handle fresh fresh_reply s \<longleftrightarrow>
     (case parse parser_start fresh (s4_received s) of
        (Indeterminate, _, p, r) \<Rightarrow> s4_sent s = None \<and> (s4_point s = S4_reading \<and> s4_parser s = p \<and> s4_request s = r \<or> s4_point s = S4_dropped)
      | (Good, _, p, r) \<Rightarrow> s4_sent s = Some (to_buffers (handle r fresh_reply)) \<and> s4_point s \<in> {S4_writing, S4_finished, S4_dropped}
      | (Bad, _, p, r) \<Rightarrow> s4_sent s = Some (to_buffers (stock_reply bad_request)) \<and> s4_point s \<in> {S4_writing, S4_finished, S4_dropped})"

definition s4_acceptor :: "request \<Rightarrow> reply \<Rightarrow> s4_coroutine \<Rightarrow> bool" where
  "s4_acceptor fresh fresh_reply s \<longleftrightarrow>
     s = (new_s4_server fresh fresh_reply)\<lparr>s4_point := S4_accepting\<rparr> \<or> s = (new_s4_server fresh fresh_reply)\<lparr>s4_point := S4_dropped\<rparr>"

definition s4_all_ok :: "request_handler \<Rightarrow> request \<Rightarrow> reply \<Rightarrow> s4_coroutine list \<Rightarrow> bool" where
  "s4_all_ok handle fresh fresh_reply cs \<longleftrightarrow> (\<exists>a ds. cs = a # ds \<and> s4_acceptor fresh fresh_reply a \<and> list_all (s4_ok handle fresh fresh_reply) ds)"

lemma s4_ok_call:
  assumes "s4_ok handle fresh fresh_reply s" "s4_call handle fresh fresh_reply failed bytes s = (c, child)"
  shows "s4_ok handle fresh fresh_reply c \<and> child = None"
proof (cases "s4_point s = S4_reading \<and> \<not> failed")
  case True
  obtain e p r where p: "parse parser_start fresh (s4_received s) = (Indeterminate, e, p, r)" "s4_parser s = p" "s4_request s = r" "s4_sent s = None"
    using assms(1) True by (auto simp: s4_ok_def split: prod.splits result_type.splits)
  obtain res rest p' r' where n: "parse p r bytes = (res, rest, p', r')" by (cases "parse p r bytes")
  have "parse parser_start fresh (s4_received s @ bytes) = (res, rest, p', r')" by (simp add: parse_append_lemma p(1) n)
  with assms(2) True p n show ?thesis
    by (cases res) (auto simp: s4_ok_def s4_call_def s4_answer_def Let_def)
next
  case False
  with assms show ?thesis
    by (cases "s4_point s") (auto simp: s4_ok_def s4_call_def split: prod.splits result_type.splits if_splits)
qed

lemma s4_acceptor_call:
  assumes "s4_acceptor fresh fresh_reply s" "s4_point s = S4_accepting" "s4_call handle fresh fresh_reply failed bytes s = (c, child)"
  shows "s4_acceptor fresh fresh_reply c \<and> (\<forall>d. child = Some d \<longrightarrow> s4_ok handle fresh fresh_reply d)"
  using assms by (auto simp: s4_acceptor_def s4_call_def s4_accept_def s4_begin_request_def new_s4_server_def s4_ok_def Let_def split: if_splits)

lemma s4_all_ok_step:
  assumes "s4_step handle fresh fresh_reply cs ds" "s4_all_ok handle fresh fresh_reply cs"
  shows "s4_all_ok handle fresh fresh_reply ds"
  using assms(1)
proof cases
  case (s4_completes i bytes failed c child)
  obtain a es where cs: "cs = a # es" "s4_acceptor fresh fresh_reply a" "list_all (s4_ok handle fresh fresh_reply) es"
    using assms(2) unfolding s4_all_ok_def by blast
  show ?thesis
  proof (cases i)
    case 0
    then have "s4_point a = S4_accepting" using s4_completes(3) cs by (auto simp: s4_acceptor_def new_s4_server_def)
    with s4_acceptor_call [OF cs(2)] s4_completes(6) 0 cs(1)
    have "s4_acceptor fresh fresh_reply c \<and> (\<forall>d. child = Some d \<longrightarrow> s4_ok handle fresh fresh_reply d)" by simp
    with s4_completes(1) 0 cs show ?thesis by (auto simp: s4_all_ok_def split: option.split)
  next
    case (Suc j)
    then have j: "j < length es" "cs ! i = es ! j" using s4_completes(2) cs by simp_all
    then have "s4_ok handle fresh fresh_reply (es ! j)" using cs(3) by (simp add: list_all_length)
    then have "s4_ok handle fresh fresh_reply c" "child = None" using s4_ok_call s4_completes(6) j(2) by metis+
    with s4_completes(1) Suc cs j(1) show ?thesis by (auto simp: s4_all_ok_def list_all_length nth_list_update)
  qed
qed

lemma s4_reachable_ok: "(s4_step handle fresh fresh_reply)\<^sup>*\<^sup>* (s4_launch handle fresh fresh_reply) cs \<Longrightarrow> s4_all_ok handle fresh fresh_reply cs"
proof (induction rule: rtranclp_induct)
  case base
  then show ?case by (simp add: s4_all_ok_def s4_launch_def s4_call_def s4_accept_def s4_acceptor_def new_s4_server_def)
qed (rule s4_all_ok_step)

text \<open>The coroutine answers what it received as a whole, however it was cut: with the reply of the handler to the request it parses to, or with the
  stock reply to a bad one, once; and it reads on while what it received is only the beginning of a request.\<close>

theorem server4_answers:
  assumes "(s4_step (handle_request fs doc_root) fresh fresh_reply)\<^sup>*\<^sup>* (s4_launch (handle_request fs doc_root) fresh fresh_reply) cs"
    "0 < i" "i < length cs"
  shows "s4_sent (cs ! i) = (case parse parser_start fresh (s4_received (cs ! i)) of
      (Indeterminate, _) \<Rightarrow> None
    | (Good, _, _, r) \<Rightarrow> Some (to_buffers (handle_request fs doc_root r fresh_reply))
    | (Bad, _) \<Rightarrow> Some (to_buffers (stock_reply bad_request)))"
proof -
  obtain a es where cs: "cs = a # es" "list_all (s4_ok (handle_request fs doc_root) fresh fresh_reply) es"
    using s4_reachable_ok [OF assms(1)] unfolding s4_all_ok_def by blast
  then have "s4_ok (handle_request fs doc_root) fresh fresh_reply (cs ! i)" using assms(2,3) by (cases i) (simp_all add: list_all_length)
  then show ?thesis by (auto simp: s4_ok_def split: prod.splits result_type.splits)
qed

text \<open>When accepting fails once, the server never accepts again, although it serves the connections it has.\<close>

lemma accept_error_is_final:
  assumes "s4_point (hd cs) = S4_dropped" "(s4_step handle fresh fresh_reply)\<^sup>*\<^sup>* cs ds" "s4_all_ok handle fresh fresh_reply cs"
  shows "s4_point (hd ds) = S4_dropped \<and> length ds = length cs"
  using assms(2)
proof (induction rule: rtranclp_induct)
  case (step ds es)
  have ok: "s4_all_ok handle fresh fresh_reply ds" using step(1) assms(3)
    by (induction rule: rtranclp_induct) (use s4_all_ok_step in blast)+
  from step(2) show ?case
  proof cases
    case (s4_completes i bytes failed c child)
    obtain a us where ds: "ds = a # us" "list_all (s4_ok handle fresh fresh_reply) us" using ok unfolding s4_all_ok_def by blast
    then obtain j where j: "i = Suc j" "j < length us" using s4_completes step(3) by (cases i) auto
    then have "s4_ok handle fresh fresh_reply (ds ! i)" using ds by (simp add: list_all_length)
    then have "child = None" using s4_ok_call s4_completes(6) by metis
    with s4_completes(1) j ds step(3) show ?thesis by simp
  qed
qed (use assms(1) in simp)

end
