(* ===== verification/Throttling_Proxy.thy ===== *)
theory Throttling_Proxy
  imports Prelude
begin

text \<open>
  The proxy that limits the rate (\<open>boost_asio/example/cpp20/channels/throttling_proxy.cpp\<close>): for each direction a coroutine sends a token
  every interval into a channel, and another receives them and may transfer so many bytes for each. One direction is modelled; the other is the same
  code on its own channel. Times are in milliseconds.
\<close>

subsection \<open>State\<close>

datatype producer_pc = Sending_token | Sleeping_until nat | Producer_over
datatype transfer_pc = Receiving_token | Reading_bytes nat | Writing_bytes nat nat string | Transfer_over

text \<open>A write knows the bytes available before it, the bytes read, and what is still to be written. For the statements: tokens sent, and the bytes read and written.\<close>

record throttle =
  thr_now :: nat
  producer_at :: producer_pc
  token_buffer :: "nat list"
  transfer_at :: transfer_pc
  tokens_sent :: nat
  taken_bytes :: string
  passed_bytes :: string

definition number_of_tokens :: nat where "number_of_tokens = 100"
definition bytes_per_token :: nat where "bytes_per_token = 20 * 1024"
definition token_interval :: nat where "token_interval = 100"

definition start_throttle :: throttle where
  "start_throttle = \<lparr>thr_now = 0, producer_at = Sending_token, token_buffer = [], transfer_at = Receiving_token, tokens_sent = 0, taken_bytes = [], passed_bytes = []\<rparr>"

subsection \<open>The coroutines\<close>

text \<open>\<open>produce_tokens\<close>: the send completes when the channel has room; then the timer.\<close>

definition token_accepted :: "throttle \<Rightarrow> throttle" where
  "token_accepted s = s\<lparr>token_buffer := token_buffer s @ [bytes_per_token], tokens_sent := Suc (tokens_sent s),
     producer_at := Sleeping_until (thr_now s + token_interval)\<rparr>"

text \<open>\<open>transfer\<close>: the inner loop goes on while bytes are available, the outer receives the next token.\<close>

definition more_bytes :: "nat \<Rightarrow> throttle \<Rightarrow> throttle" where
  "more_bytes available s = s\<lparr>transfer_at := (if 0 < available then Reading_bytes available else Receiving_token)\<rparr>"

definition token_received :: "throttle \<Rightarrow> throttle" where
  "token_received s = more_bytes (hd (token_buffer s)) (s\<lparr>token_buffer := tl (token_buffer s)\<rparr>)"

definition bytes_read :: "nat \<Rightarrow> string \<Rightarrow> throttle \<Rightarrow> throttle" where
  "bytes_read available bs s = s\<lparr>transfer_at := Writing_bytes available (length bs) bs, taken_bytes := taken_bytes s @ bs\<rparr>"

definition bytes_written :: "nat \<Rightarrow> nat \<Rightarrow> throttle \<Rightarrow> throttle" where
  "bytes_written available n s = more_bytes (available - n) s"

text \<open>Time passes; a timer may be late. A read brings at most the 4096 bytes of the array and at most what is available. A failure ends the coroutines of both directions.\<close>

inductive throttle_step :: "throttle \<Rightarrow> throttle \<Rightarrow> bool" where
  time_passes: "throttle_step s (s\<lparr>thr_now := thr_now s + d\<rparr>)"
| send_done: "producer_at s = Sending_token \<Longrightarrow> length (token_buffer s) < number_of_tokens \<Longrightarrow> throttle_step s (token_accepted s)"
| timer_done: "producer_at s = Sleeping_until t \<Longrightarrow> t \<le> thr_now s \<Longrightarrow> throttle_step s (s\<lparr>producer_at := Sending_token\<rparr>)"
| receive_done: "transfer_at s = Receiving_token \<Longrightarrow> token_buffer s \<noteq> [] \<Longrightarrow> throttle_step s (token_received s)"
| read_done: "transfer_at s = Reading_bytes a \<Longrightarrow> 0 < length bs \<Longrightarrow> length bs \<le> min 4096 a \<Longrightarrow> throttle_step s (bytes_read a bs s)"
| write_piece: "transfer_at s = Writing_bytes a n (bs @ rs) \<Longrightarrow> bs \<noteq> [] \<Longrightarrow>
    throttle_step s (s\<lparr>transfer_at := Writing_bytes a n rs, passed_bytes := passed_bytes s @ bs\<rparr>)"
| write_done: "transfer_at s = Writing_bytes a n [] \<Longrightarrow> throttle_step s (bytes_written a n s)"
| fails: "throttle_step s (s\<lparr>producer_at := Producer_over, transfer_at := Transfer_over\<rparr>)"

subsection \<open>listen and main\<close>

text \<open>An accepted client gets a proxy; an error is reported, and the loop waits for a tenth of a second.\<close>

definition listen_proxy :: "('e \<Rightarrow> string) \<Rightarrow> 'e + unit \<Rightarrow> throttle list \<Rightarrow> string \<times> nat \<times> throttle list" where
  "listen_proxy message accepted ps =
     (case accepted of
        Inr _ \<Rightarrow> ([], 0, ps @ [start_throttle, start_throttle])
      | Inl e \<Rightarrow> (''Accept failed: '' @ message e @ [CHR 0x0A], 100, ps))"

definition throttling_main :: "nat \<Rightarrow> string + unit \<Rightarrow> nat \<times> string" where
  "throttling_main argc opened =
     (if argc \<noteq> 5
      then (1, ''Usage: throttling_proxy'' @ '' <listen_address> <listen_port>'' @ '' <target_address> <target_port>'' @ [CHR 0x0A])
      else case opened of Inl what \<Rightarrow> (0, ''Exception: '' @ what @ [CHR 0x0A]) | Inr _ \<Rightarrow> (0, []))"

subsection \<open>The rate\<close>

text \<open>Bytes a transfer may still take or has in its hands, and bytes it holds.\<close>

fun in_hand :: "transfer_pc \<Rightarrow> nat" where
  "in_hand (Reading_bytes a) = a"
| "in_hand (Writing_bytes a n rs) = a - n"
| "in_hand _ = 0"

fun holds :: "transfer_pc \<Rightarrow> string" where
  "holds (Writing_bytes a n rs) = rs"
| "holds _ = []"

definition throttle_ok :: "throttle \<Rightarrow> bool" where
  "throttle_ok s \<longleftrightarrow>
     length (taken_bytes s) + in_hand (transfer_at s) + sum_list (token_buffer s) \<le> bytes_per_token * tokens_sent s \<and>
     length (token_buffer s) \<le> number_of_tokens \<and>
     (case producer_at s of
        Sending_token \<Rightarrow> token_interval * tokens_sent s \<le> thr_now s
      | Sleeping_until t \<Rightarrow> token_interval * tokens_sent s \<le> t \<and> t \<le> thr_now s + token_interval
      | Producer_over \<Rightarrow> token_interval * tokens_sent s \<le> thr_now s + token_interval) \<and>
     (transfer_at s \<noteq> Transfer_over \<longrightarrow> taken_bytes s = passed_bytes s @ holds (transfer_at s)) \<and>
     (\<exists>bs. taken_bytes s = passed_bytes s @ bs) \<and>
     (case transfer_at s of Reading_bytes a \<Rightarrow> 0 < a | Writing_bytes a n rs \<Rightarrow> n \<le> a \<and> length rs \<le> n | _ \<Rightarrow> True)"

lemma throttle_ok_step: "throttle_step s t \<Longrightarrow> throttle_ok s \<Longrightarrow> throttle_ok t"
proof (induction rule: throttle_step.induct)
  case (receive_done s)
  then show ?case by (cases "token_buffer s") (auto simp: throttle_ok_def token_received_def more_bytes_def split: producer_pc.splits)
qed (auto simp: throttle_ok_def token_accepted_def bytes_read_def bytes_written_def more_bytes_def token_interval_def
      split: producer_pc.splits transfer_pc.splits)

lemma throttle_ok_reachable: "throttle_step\<^sup>*\<^sup>* start_throttle s \<Longrightarrow> throttle_ok s"
proof (induction rule: rtranclp_induct)
  case base
  then show ?case by (simp add: throttle_ok_def start_throttle_def)
qed (rule throttle_ok_step)

text \<open>Within \<open>n\<close> milliseconds at most \<open>n / 100 + 1\<close> tokens are sent, and for each at most 20 kB read; tokens not used can be saved up to a hundred. What is
  passed on is what was read, in order; no count of available bytes wraps around.\<close>

theorem rate_limited:
  assumes "throttle_step\<^sup>*\<^sup>* start_throttle s"
  shows "tokens_sent s \<le> thr_now s div 100 + 1 \<and> length (passed_bytes s) \<le> 20480 * tokens_sent s \<and>
    length (token_buffer s) \<le> 100 \<and> (\<exists>bs. taken_bytes s = passed_bytes s @ bs) \<and>
    (case transfer_at s of Writing_bytes a n rs \<Rightarrow> n \<le> a | _ \<Rightarrow> True)"
proof -
  have ok: "throttle_ok s" using throttle_ok_reachable [OF assms] .
  have "100 * tokens_sent s \<le> thr_now s + 100" using ok by (auto simp: throttle_ok_def token_interval_def split: producer_pc.splits)
  then have "tokens_sent s \<le> thr_now s div 100 + 1" by simp
  moreover have "length (passed_bytes s) \<le> length (taken_bytes s)" using ok by (auto simp: throttle_ok_def)
  ultimately show ?thesis using ok by (auto simp: throttle_ok_def bytes_per_token_def number_of_tokens_def split: transfer_pc.splits)
qed

end
