(* ===== verification/Local_Filter.thy ===== *)
theory Local_Filter
  imports Prelude
begin

text \<open>
  The filter on one end of a connected pair of sockets (\<open>boost_asio/example/cpp11/local/connect_pair.cpp\<close>): a thread runs the filter, \<open>main\<close>
  writes a line, reads as many bytes back, and prints them. The pair holds a limited number of bytes in each direction.
\<close>

subsection \<open>State\<close>

datatype filter_pc = Filter_reading | Filter_writing string
datatype asker_pc = Asking string | Awaiting nat | Shown

text \<open>What is on the way in each direction; what \<open>main\<close> has still to write, and how much to read, and what it has read.\<close>

record connected_pair =
  to_filter :: string
  to_asker :: string
  filter_at :: filter_pc
  asker_at :: asker_pc
  asked :: string
  reply_bytes :: string

text \<open>\<open>toupper\<close> in the C locale; it is undefined for a negative argument, and characters above 127 are left alone here.\<close>

definition upper_case :: "char \<Rightarrow> char" where
  "upper_case c = (let n = (of_char c :: nat) in if 97 \<le> n \<and> n \<le> 122 then char_of (n - 32) else c)"

definition filter_size :: nat where "filter_size = 512"

subsection \<open>uppercase_filter\<close>

definition filter_read :: "connected_pair \<Rightarrow> connected_pair" where
  "filter_read s = s\<lparr>filter_at := Filter_reading\<rparr>"

definition filter_write :: "string \<Rightarrow> connected_pair \<Rightarrow> connected_pair" where
  "filter_write bs s = s\<lparr>filter_at := Filter_writing bs\<rparr>"

text \<open>The handler of the read of \<open>n\<close> bytes, and that of the write; an error is thrown, and ends the program.\<close>

definition filter_got :: "nat \<Rightarrow> connected_pair \<Rightarrow> connected_pair" where
  "filter_got n s = filter_write (map upper_case (take n (to_filter s))) (s\<lparr>to_filter := drop n (to_filter s)\<rparr>)"

definition filter_wrote :: "connected_pair \<Rightarrow> connected_pair" where
  "filter_wrote s = filter_read s"

subsection \<open>main\<close>

definition ask :: "string \<Rightarrow> connected_pair \<Rightarrow> connected_pair" where
  "ask request s = s\<lparr>asker_at := Asking request, asked := request, reply_bytes := []\<rparr>"

definition new_pair :: connected_pair where
  "new_pair = \<lparr>to_filter = [], to_asker = [], filter_at = Filter_reading, asker_at = Shown, asked = [], reply_bytes = []\<rparr>"

text \<open>What a round prints; the address of the first byte of an empty reply is taken, which is undefined (\<open>None\<close>).\<close>

definition show_result :: "string \<Rightarrow> string option" where
  "show_result reply = (if reply = [] then None else Some (''Result: '' @ reply @ [CHR 0x0A]))"

text \<open>Bytes move as far as there is room: \<open>cap\<close> in each direction.\<close>

inductive pair_step :: "nat \<Rightarrow> connected_pair \<Rightarrow> connected_pair \<Rightarrow> bool" for cap where
  asker_writes: "asker_at s = Asking (bs @ rs) \<Longrightarrow> bs \<noteq> [] \<Longrightarrow> length (to_filter s @ bs) \<le> cap \<Longrightarrow>
    pair_step cap s (s\<lparr>asker_at := Asking rs, to_filter := to_filter s @ bs\<rparr>)"
| asker_has_written: "asker_at s = Asking [] \<Longrightarrow> pair_step cap s (s\<lparr>asker_at := Awaiting (length (asked s))\<rparr>)"
| asker_reads: "asker_at s = Awaiting n \<Longrightarrow> to_asker s = bs @ rs \<Longrightarrow> bs \<noteq> [] \<Longrightarrow> length bs \<le> n \<Longrightarrow>
    pair_step cap s (s\<lparr>asker_at := Awaiting (n - length bs), to_asker := rs, reply_bytes := reply_bytes s @ bs\<rparr>)"
| asker_has_read: "asker_at s = Awaiting 0 \<Longrightarrow> pair_step cap s (s\<lparr>asker_at := Shown\<rparr>)"
| filter_reads: "filter_at s = Filter_reading \<Longrightarrow> 0 < n \<Longrightarrow> n \<le> length (to_filter s) \<Longrightarrow> n \<le> filter_size \<Longrightarrow> pair_step cap s (filter_got n s)"
| filter_writes: "filter_at s = Filter_writing (bs @ rs) \<Longrightarrow> bs \<noteq> [] \<Longrightarrow> length (to_asker s @ bs) \<le> cap \<Longrightarrow>
    pair_step cap s (s\<lparr>filter_at := Filter_writing rs, to_asker := to_asker s @ bs\<rparr>)"
| filter_has_written: "filter_at s = Filter_writing [] \<Longrightarrow> pair_step cap s (filter_wrote s)"

subsection \<open>A round\<close>

fun filter_holds :: "filter_pc \<Rightarrow> string" where
  "filter_holds Filter_reading = []"
| "filter_holds (Filter_writing bs) = bs"

fun asker_holds :: "asker_pc \<Rightarrow> string" where
  "asker_holds (Asking bs) = bs"
| "asker_holds _ = []"

text \<open>Every byte of the request is in one place: the reply read, on the way back, with the filter, on the way there, or not yet written.\<close>

definition pair_ok :: "nat \<Rightarrow> connected_pair \<Rightarrow> bool" where
  "pair_ok cap s \<longleftrightarrow>
     map upper_case (asked s) = reply_bytes s @ to_asker s @ filter_holds (filter_at s) @ map upper_case (to_filter s) @ map upper_case (asker_holds (asker_at s)) \<and>
     length (to_filter s) \<le> cap \<and> length (to_asker s) \<le> cap \<and>
     (case asker_at s of Asking bs \<Rightarrow> reply_bytes s = [] | Awaiting n \<Rightarrow> n + length (reply_bytes s) = length (asked s)
      | Shown \<Rightarrow> length (reply_bytes s) = length (asked s))"

lemma pair_ok_step: "pair_step cap s t \<Longrightarrow> pair_ok cap s \<Longrightarrow> pair_ok cap t"
proof (induction rule: pair_step.induct)
  case (filter_reads s n)
  have "map upper_case (to_filter s) = map upper_case (take n (to_filter s)) @ map upper_case (drop n (to_filter s))"
    by (simp flip: map_append)
  with filter_reads show ?case by (auto simp: pair_ok_def filter_got_def filter_write_def split: asker_pc.splits)
qed (auto simp: pair_ok_def filter_wrote_def filter_read_def split: asker_pc.splits)

lemma pair_ok_asked: "pair_step cap s t \<Longrightarrow> asked t = asked s"
  by (induction rule: pair_step.induct) (simp_all add: filter_got_def filter_write_def filter_wrote_def filter_read_def)

lemma pair_ok_reachable:
  "(pair_step cap)\<^sup>*\<^sup>* (ask request new_pair) s \<Longrightarrow> pair_ok cap s \<and> asked s = request"
proof (induction rule: rtranclp_induct)
  case base
  then show ?case by (simp add: pair_ok_def ask_def new_pair_def)
qed (use pair_ok_step pair_ok_asked in blast)

lemma moves:
  assumes "0 < cap" "pair_ok cap s" "asker_at s \<noteq> Shown" "\<nexists>t. pair_step cap s t"
  shows "\<exists>rest. asker_at s = Asking rest \<and> rest \<noteq> [] \<and> length (to_filter s) = cap \<and> length (to_asker s) = cap \<and>
    filter_holds (filter_at s) \<noteq> []"
proof -
  have f: "\<exists>bs. filter_at s = Filter_writing bs \<and> bs \<noteq> [] \<and> length (to_asker s) = cap" if "to_filter s \<noteq> [] \<or> filter_holds (filter_at s) \<noteq> []"
  proof (cases "filter_at s")
    case Filter_reading
    with that have "0 < length (to_filter s)" by simp
    then have "pair_step cap s (filter_got 1 s)" using Filter_reading by (intro pair_step.filter_reads) (auto simp: filter_size_def Suc_le_eq)
    with assms(4) show ?thesis by blast
  next
    case (Filter_writing bs)
    show ?thesis
    proof (cases bs)
      case Nil
      then show ?thesis using Filter_writing assms(4) pair_step.filter_has_written by blast
    next
      case (Cons b rs)
      then have "\<not> length (to_asker s @ [b]) \<le> cap"
        using Filter_writing assms(4) pair_step.filter_writes [of s "[b]" rs cap] by auto
      with Cons Filter_writing assms(2) show ?thesis by (auto simp: pair_ok_def)
    qed
  qed
  show ?thesis
  proof (cases "asker_at s")
    case (Asking rest)
    show ?thesis
    proof (cases rest)
      case Nil
      then show ?thesis using Asking assms(4) pair_step.asker_has_written by blast
    next
      case (Cons b rs)
      then have "\<not> length (to_filter s @ [b]) \<le> cap"
        using Asking assms(4) pair_step.asker_writes [of s "[b]" rs cap] by auto
      then have "length (to_filter s) = cap" using assms(2) by (simp add: pair_ok_def)
      with f assms(1) Asking Cons show ?thesis by fastforce
    qed
  next
    case (Awaiting n)
    show ?thesis
    proof (cases "n = 0")
      case True
      then show ?thesis using Awaiting assms(4) pair_step.asker_has_read by blast
    next
      case False
      have "to_asker s = []"
      proof (rule ccontr)
        assume "to_asker s \<noteq> []"
        then obtain b rs where "to_asker s = [b] @ rs" by (cases "to_asker s") auto
        then show False using pair_step.asker_reads [OF Awaiting, of "[b]" rs cap] False assms(4) by auto
      qed
      moreover have "length (asked s) = length (map upper_case (asked s))" by simp
      then have "n = length (to_asker s) + length (filter_holds (filter_at s)) + length (to_filter s)"
        using assms(2) Awaiting unfolding pair_ok_def by (simp del: length_map) (metis add_left_cancel length_append length_map add.assoc add.commute)
      ultimately have "to_filter s \<noteq> [] \<or> filter_holds (filter_at s) \<noteq> []" using False by auto
      with f \<open>to_asker s = []\<close> assms(1) show ?thesis by auto
    qed
  qed (use assms(3) in simp)
qed

text \<open>A round ends with the request in upper case. It comes to a halt before only for a request that is longer than both directions of the pair
  hold together, when \<open>main\<close> cannot write on before it has read and the filter cannot read on before it has written.\<close>

theorem filter_round:
  assumes "(pair_step cap)\<^sup>*\<^sup>* (ask request new_pair) s" "0 < cap"
  shows "(if asker_at s = Shown then reply_bytes s = map upper_case request else (\<exists>t. pair_step cap s t) \<or> 2 * cap + 2 \<le> length request)"
proof -
  have ok: "pair_ok cap s" "asked s = request" using pair_ok_reachable [OF assms(1)] by simp_all
  show ?thesis
  proof (cases "asker_at s = Shown")
    case True
    have e: "map upper_case request = reply_bytes s @ to_asker s @ filter_holds (filter_at s) @ map upper_case (to_filter s)"
      using conjunct1 [OF ok(1) [unfolded pair_ok_def]] ok(2) True by simp
    have "case asker_at s of Asking bs \<Rightarrow> reply_bytes s = [] | Awaiting n \<Rightarrow> n + length (reply_bytes s) = length (asked s)
      | Shown \<Rightarrow> length (reply_bytes s) = length (asked s)" using ok(1) unfolding pair_ok_def by (elim conjE)
    then have l: "length (reply_bytes s) = length (map upper_case request)" using ok(2) True by simp
    have "reply_bytes s = take (length (reply_bytes s)) (map upper_case request)" by (subst e) simp
    then have "reply_bytes s = map upper_case request" unfolding l by simp
    with True show ?thesis by simp
  next
    case False
    show ?thesis
    proof (cases "\<exists>t. pair_step cap s t")
      case stuck: False
      obtain rest where r: "asker_at s = Asking rest" "rest \<noteq> []" "length (to_filter s) = cap" "length (to_asker s) = cap"
        "filter_holds (filter_at s) \<noteq> []" using moves [OF assms(2) ok(1) False stuck] by blast
      have "length (map upper_case request) = length (reply_bytes s @ to_asker s @ filter_holds (filter_at s) @ map upper_case (to_filter s) @ map upper_case rest)"
        using ok r(1) by (simp add: pair_ok_def del: length_map length_append)
      then have "length request = length (reply_bytes s) + cap + length (filter_holds (filter_at s)) + cap + length rest" using r(3,4) by simp
      moreover have "0 < length rest" "0 < length (filter_holds (filter_at s))" using r(2,5) by simp_all
      ultimately have "2 * cap + 2 \<le> length request" by linarith
      with False show ?thesis by simp
    qed (use False in simp)
  qed
qed

end
