(* ===== verification/Log_Service.thy ===== *)
theory Log_Service
  imports Asio_Handler
begin

text \<open>
  The logger whose work is done by a thread of its own (\<open>boost_asio/example/cpp11/services/logger_service.hpp\<close>,
  \<open>basic_logger.hpp\<close>) and the client that uses it (\<open>daytime_client.cpp\<close>). Calls post tasks into a private context;
  one thread runs them in the order in which they were posted, until the destructor has taken back the work and no task is left.
\<close>

subsection \<open>State\<close>

datatype log_task = Use_file_task string | Log_task string

text \<open>The path the stream writes to, when it is open; \<open>posted_tasks\<close> is for the statements: all tasks so far.\<close>

record log_service =
  work_queue :: "log_task list"
  work_guard :: bool
  work_running :: bool
  log_files :: filesys
  log_stream :: "string option"
  posted_tasks :: "log_task list"

type_synonym logger_impl = "string option" \<comment> \<open>a pointer to an identifier\<close>

definition new_log_service :: "filesys \<Rightarrow> log_service" where
  "new_log_service fs = \<lparr>work_queue = [], work_guard = True, work_running = True, log_files = fs, log_stream = None, posted_tasks = []\<rparr>"

subsection \<open>logger_service\<close>

definition logger_null :: logger_impl where "logger_null = None"
definition logger_create :: "string \<Rightarrow> logger_impl" where "logger_create identifier = Some identifier"
definition logger_destroy :: "logger_impl \<Rightarrow> logger_impl" where "logger_destroy impl = logger_null"

definition post_task :: "log_task \<Rightarrow> log_service \<Rightarrow> log_service" where
  "post_task t s = s\<lparr>work_queue := work_queue s @ [t], posted_tasks := posted_tasks s @ [t]\<rparr>"

definition service_use_file :: "logger_impl \<Rightarrow> string \<Rightarrow> log_service \<Rightarrow> log_service" where
  "service_use_file impl file s = post_task (Use_file_task file) s"

text \<open>The identifier behind a null pointer is undefined.\<close>

definition service_log :: "logger_impl \<Rightarrow> string \<Rightarrow> log_service \<Rightarrow> log_service option" where
  "service_log impl message s =
     (case impl of None \<Rightarrow> None | Some identifier \<Rightarrow> Some (post_task (Log_task (identifier @ '': '' @ message)) s))"

text \<open>
  The tasks. A file that cannot be opened leaves the stream in a failed state, and so is the stream before the first file: what is written then is lost.
\<close>

definition use_file_impl :: "string \<Rightarrow> log_service \<Rightarrow> log_service" where
  "use_file_impl file s =
     (let path = c_str file
      in if creatable (log_files s) path
         then s\<lparr>log_files := write_file path [] (log_files s), log_stream := Some path\<rparr>
         else s\<lparr>log_stream := None\<rparr>)"

definition log_impl :: "string \<Rightarrow> log_service \<Rightarrow> log_service" where
  "log_impl msg s =
     (case log_stream s of
        None \<Rightarrow> s
      | Some path \<Rightarrow>
          (case readable (log_files s) path of
             None \<Rightarrow> s
           | Some content \<Rightarrow> s\<lparr>log_files := write_file path (content @ msg @ [CHR 0x0A]) (log_files s)\<rparr>))"

fun run_task :: "log_task \<Rightarrow> log_service \<Rightarrow> log_service" where
  "run_task (Use_file_task file) s = use_file_impl file s"
| "run_task (Log_task msg) s = log_impl msg s"

text \<open>
  Other threads post while the service exists; the thread of the service runs one task after another and ends when the work has been
  taken back. The destructor returns when it has ended.
\<close>

inductive log_step :: "log_service \<Rightarrow> log_service \<Rightarrow> bool" where
  task_posted: "work_guard s \<Longrightarrow> log_step s (post_task t s)"
| task_run: "work_running s \<Longrightarrow> work_queue s = t # ts \<Longrightarrow> log_step s (run_task t (s\<lparr>work_queue := ts\<rparr>))"
| work_reset: "work_guard s \<Longrightarrow> log_step s (s\<lparr>work_guard := False\<rparr>)"
| thread_ends: "work_running s \<Longrightarrow> \<not> work_guard s \<Longrightarrow> work_queue s = [] \<Longrightarrow> log_step s (s\<lparr>work_running := False\<rparr>)"

text \<open>The destructor, when the thread has run nothing before it.\<close>

definition service_destroy :: "log_service \<Rightarrow> log_service" where
  "service_destroy s = (fold run_task (work_queue s) (s\<lparr>work_queue := [], work_guard := False\<rparr>))\<lparr>work_running := False\<rparr>"

subsection \<open>basic_logger\<close>

definition new_logger :: "string \<Rightarrow> logger_impl" where
  "new_logger identifier = logger_create identifier"

definition logger_use_file :: "logger_impl \<Rightarrow> string \<Rightarrow> log_service \<Rightarrow> log_service" where
  "logger_use_file impl file s = service_use_file impl file s"

definition logger_log :: "logger_impl \<Rightarrow> string \<Rightarrow> log_service \<Rightarrow> log_service option" where
  "logger_log impl message s = service_log impl message s"

subsection \<open>The client\<close>

text \<open>Handlers get an error or a success; the second component says whether the next read has been started.\<close>

definition daytime_connect_handler :: "('e \<Rightarrow> string) \<Rightarrow> 'e + unit \<Rightarrow> log_service \<Rightarrow> (log_service \<times> bool) option" where
  "daytime_connect_handler message e s =
     (let logger = new_logger ''connect_handler''
      in case e of
           Inr _ \<Rightarrow> map_option (\<lambda>s. (s, True)) (logger_log logger ''Connection established'' s)
         | Inl e \<Rightarrow> map_option (\<lambda>s. (s, False)) (logger_log logger (''Unable to establish connection: '' @ message e) s))"

definition daytime_read_handler :: "('e \<Rightarrow> string) \<Rightarrow> 'e + string \<Rightarrow> log_service \<Rightarrow> (string \<times> log_service \<times> bool) option" where
  "daytime_read_handler message e s =
     (case e of
        Inr bytes \<Rightarrow> Some (bytes, s, True)
      | Inl e \<Rightarrow> map_option (\<lambda>s. ([], s, False)) (logger_log (new_logger ''read_handler'') (''Read error: '' @ message e) s))"

text \<open>The reads that succeed, each of at most 1024 bytes, and the error that ends them (as the end of the data does).\<close>

primrec daytime_reads :: "('e \<Rightarrow> string) \<Rightarrow> string list \<Rightarrow> 'e \<Rightarrow> log_service \<Rightarrow> (string \<times> log_service) option" where
  "daytime_reads message [] e s = map_option (\<lambda>(out, s, on). (out, s)) (daytime_read_handler message (Inl e) s)"
| "daytime_reads message (bs # rs) e s =
     (case daytime_read_handler message (Inr bs) s of
        None \<Rightarrow> None
      | Some (out, s, on) \<Rightarrow> map_option (\<lambda>(out', s). (out @ out', s)) (daytime_reads message rs e s))"

text \<open>\<open>main\<close>: status, standard output, standard error, and the files when the context has been destroyed.\<close>

definition daytime_main :: "('e \<Rightarrow> string) \<Rightarrow> filesys \<Rightarrow> nat \<Rightarrow> string + unit \<Rightarrow> 'e + unit \<Rightarrow> string list \<Rightarrow> 'e \<Rightarrow> (nat \<times> string \<times> string \<times> filesys) option" where
  "daytime_main message fs argc resolved connected rs e =
     (if argc \<noteq> 2 then Some (1, [], ''Usage: daytime_client <host>'' @ [CHR 0x0A], fs)
      else
        let s = logger_use_file (new_logger []) ''log.txt'' (new_log_service fs)
        in case resolved of
             Inl what \<Rightarrow> Some (0, [], what @ [CHR 0x0A], log_files (service_destroy s))
           | Inr _ \<Rightarrow>
               (case daytime_connect_handler message connected s of
                  None \<Rightarrow> None
                | Some (s, reading) \<Rightarrow>
                    (if reading
                     then map_option (\<lambda>(out, s). (0, out, [], log_files (service_destroy s))) (daytime_reads message rs e s)
                     else Some (0, [], [], log_files (service_destroy s)))))"

subsection \<open>What is in the file\<close>

text \<open>Files and stream are those after the tasks that have left the queue, in the order of posting.\<close>

definition file_of :: "log_service \<Rightarrow> filesys \<times> string option" where
  "file_of s = (log_files s, log_stream s)"

definition ran :: "filesys \<Rightarrow> log_task list \<Rightarrow> log_service" where
  "ran fs ts = fold run_task ts (new_log_service fs)"

lemma run_task_frame [simp]:
  "work_queue (run_task t s) = work_queue s" "work_guard (run_task t s) = work_guard s"
  "work_running (run_task t s) = work_running s" "posted_tasks (run_task t s) = posted_tasks s"
  by (cases t; simp add: use_file_impl_def log_impl_def Let_def split: option.split)+

lemma run_task_file:
  assumes "file_of s = file_of t"
  shows "file_of (run_task u s) = file_of (run_task u t)"
proof -
  have "log_files s = log_files t" "log_stream s = log_stream t" using assms by (simp_all add: file_of_def)
  then show ?thesis by (cases u) (simp_all add: file_of_def use_file_impl_def log_impl_def Let_def split: option.split)
qed

lemma fold_run_frame [simp]: "posted_tasks (fold run_task us s) = posted_tasks s"
  by (induction us arbitrary: s) simp_all

definition log_ok :: "filesys \<Rightarrow> log_service \<Rightarrow> bool" where
  "log_ok fs s \<longleftrightarrow> (\<exists>ts. posted_tasks s = ts @ work_queue s \<and> file_of s = file_of (ran fs ts)) \<and> (\<not> work_running s \<longrightarrow> work_queue s = [] \<and> \<not> work_guard s)"

lemma log_ok_step: "log_step s t \<Longrightarrow> log_ok fs s \<Longrightarrow> log_ok fs t"
proof (induction rule: log_step.induct)
  case (task_run s t ts)
  then obtain us where us: "posted_tasks s = (us @ [t]) @ ts" "file_of s = file_of (ran fs us)" by (auto simp: log_ok_def)
  then have "file_of (run_task t (s\<lparr>work_queue := ts\<rparr>)) = file_of (run_task t (ran fs us))"
    by (intro run_task_file) (simp add: file_of_def)
  then have "file_of (run_task t (s\<lparr>work_queue := ts\<rparr>)) = file_of (ran fs (us @ [t]))" by (simp add: ran_def)
  then show ?case using us(1) task_run unfolding log_ok_def by (intro conjI exI [of _ "us @ [t]"]) simp_all
qed (auto simp: log_ok_def post_task_def file_of_def)

lemma log_ok_reachable: "log_step\<^sup>*\<^sup>* (new_log_service fs) s \<Longrightarrow> log_ok fs s"
proof (induction rule: rtranclp_induct)
  case base
  then show ?case by (simp add: log_ok_def new_log_service_def ran_def)
qed (rule log_ok_step)

lemma creatable_run [simp]: "creatable (log_files (fold run_task ts s)) = creatable (log_files s)"
proof (induction ts arbitrary: s)
  case (Cons t ts)
  have "creatable (log_files (run_task t s)) = creatable (log_files s)"
    by (cases t) (simp_all add: use_file_impl_def log_impl_def Let_def split: option.split)
  with Cons show ?case by simp
qed simp

lemma run_messages:
  "log_stream s = Some f \<Longrightarrow> readable (log_files s) f = Some c \<Longrightarrow>
   log_files (fold run_task (map Log_task msgs) s) = write_file f (c @ concat (map (\<lambda>m. m @ [CHR 0x0A]) msgs)) (log_files s)"
proof (induction msgs arbitrary: s c)
  case Nil
  then have "(readable (log_files s))(f \<mapsto> c) = readable (log_files s)" by auto
  with Nil show ?case by (simp add: write_file_def)
next
  case (Cons m ms)
  let ?s = "s\<lparr>log_files := write_file f (c @ m @ [CHR 0x0A]) (log_files s)\<rparr>"
  have "run_task (Log_task m) s = ?s" using Cons.prems by (simp add: log_impl_def)
  moreover have "log_files (fold run_task (map Log_task ms) ?s) =
      write_file f ((c @ m @ [CHR 0x0A]) @ concat (map (\<lambda>m. m @ [CHR 0x0A]) ms)) (log_files ?s)"
    by (rule Cons.IH) (use Cons.prems in simp_all)
  ultimately show ?case by (simp add: write_file_def)
qed

text \<open>When the destructor has returned, everything posted is in the file, in the order of posting, whatever the threads did in between; until then it can go on.\<close>

theorem log_complete:
  assumes "log_step\<^sup>*\<^sup>* (new_log_service fs) s"
    and "posted_tasks s = ts @ Use_file_task f # map Log_task msgs" "creatable fs (c_str f)"
  shows "if work_running s then \<exists>t. log_step s t
    else readable (log_files s) (c_str f) = Some (concat (map (\<lambda>m. m @ [CHR 0x0A]) msgs))"
proof (cases "work_running s")
  case True
  have "\<exists>t. log_step s t"
  proof (cases "work_queue s")
    case Nil
    then show ?thesis using True log_step.work_reset log_step.thread_ends by blast
  next
    case (Cons u us)
    then show ?thesis using True log_step.task_run by blast
  qed
  with True show ?thesis by simp
next
  case False
  have "log_ok fs s" using log_ok_reachable [OF assms(1)] .
  with False have "file_of s = file_of (ran fs (ts @ Use_file_task f # map Log_task msgs))"
    using assms(2) by (auto simp: log_ok_def)
  then have "log_files s = log_files (fold run_task (map Log_task msgs) (use_file_impl f (ran fs ts)))"
    by (simp add: file_of_def ran_def)
  also have "\<dots> = write_file (c_str f) ([] @ concat (map (\<lambda>m. m @ [CHR 0x0A]) msgs)) (log_files (use_file_impl f (ran fs ts)))"
    by (rule run_messages) (use assms(3) in \<open>simp_all add: use_file_impl_def ran_def new_log_service_def Let_def\<close>)
  finally show ?thesis using False by simp
qed

text \<open>Every step after the work has been taken back brings the destructor nearer to its end.\<close>

lemma destructor_ends:
  "log_step s t \<Longrightarrow> \<not> work_guard s \<Longrightarrow>
   \<not> work_guard t \<and> length (work_queue t) + (if work_running t then 1 else 0) < length (work_queue s) + (if work_running s then 1 else (0 :: nat))"
  by (induction rule: log_step.induct) auto

lemma service_destroy_run:
  assumes "work_guard s" "work_running s"
  shows "log_step\<^sup>*\<^sup>* s (service_destroy s)"
proof -
  have tasks: "work_running u \<Longrightarrow> \<not> work_guard u \<Longrightarrow> log_step\<^sup>*\<^sup>* u (fold run_task (work_queue u) (u\<lparr>work_queue := []\<rparr>))" for u
  proof (induction "work_queue u" arbitrary: u)
    case Nil
    then show ?case by (cases u) simp
  next
    case (Cons t ts)
    let ?v = "run_task t (u\<lparr>work_queue := ts\<rparr>)"
    have swap: "run_task t (u\<lparr>work_queue := ts\<rparr>)\<lparr>work_queue := []\<rparr> = run_task t (u\<lparr>work_queue := []\<rparr>)"
      by (cases u, cases t) (simp_all add: use_file_impl_def log_impl_def Let_def split: option.split)
    have "log_step u ?v" using Cons.prems Cons.hyps(2) by (intro log_step.task_run) simp_all
    moreover have "log_step\<^sup>*\<^sup>* ?v (fold run_task (work_queue ?v) (?v\<lparr>work_queue := []\<rparr>))"
      using Cons.hyps(1) [of ?v] Cons.prems by simp
    moreover have "fold run_task (work_queue ?v) (?v\<lparr>work_queue := []\<rparr>) = fold run_task (work_queue u) (u\<lparr>work_queue := []\<rparr>)"
      by (simp flip: Cons.hyps(2) add: swap)
    ultimately show ?case by (metis converse_rtranclp_into_rtranclp)
  qed
  let ?u = "s\<lparr>work_guard := False\<rparr>"
  let ?w = "fold run_task (work_queue s) (s\<lparr>work_queue := [], work_guard := False\<rparr>)"
  have keep: "work_queue (fold run_task us v) = work_queue v \<and> work_running (fold run_task us v) = work_running v \<and>
      work_guard (fold run_task us v) = work_guard v" for us v
    by (induction us arbitrary: v) simp_all
  have "log_step\<^sup>*\<^sup>* s ?u" using log_step.work_reset [OF assms(1)] by blast
  also have "log_step\<^sup>*\<^sup>* ?u ?w" using tasks [of ?u] assms(2) by (cases s) simp
  also have "log_step ?w (?w\<lparr>work_running := False\<rparr>)" by (rule log_step.thread_ends) (use keep assms(2) in simp_all)
  finally show ?thesis by (simp add: service_destroy_def)
qed

text \<open>The client: what it received is on the standard output, and the log says how it went. \<open>service_destroy\<close> stands for every interleaving of the two threads, by \<open>log_complete\<close>.\<close>

lemma daytime_reads_eq:
  "daytime_reads message rs e s = Some (concat rs, post_task (Log_task (''read_handler: Read error: '' @ message e)) s)"
  by (induction rs) (simp_all add: daytime_read_handler_def logger_log_def service_log_def new_logger_def logger_create_def)

theorem daytime_logs:
  assumes "creatable fs ''log.txt''"
  shows "daytime_main message fs 2 (Inr ()) connected rs e =
    Some (0, (case connected of Inl _ \<Rightarrow> [] | Inr _ \<Rightarrow> concat rs), [],
      write_file ''log.txt''
        (case connected of
           Inl c \<Rightarrow> ''connect_handler: Unable to establish connection: '' @ message c @ [CHR 0x0A]
         | Inr _ \<Rightarrow> ''connect_handler: Connection established'' @ [CHR 0x0A] @ ''read_handler: Read error: '' @ message e @ [CHR 0x0A]) fs)"
  using assms
  by (cases connected)
    (simp_all add: daytime_main_def daytime_connect_handler_def daytime_reads_eq logger_use_file_def service_use_file_def logger_log_def
      service_log_def new_logger_def logger_create_def post_task_def new_log_service_def service_destroy_def use_file_impl_def log_impl_def
      c_str_def Let_def write_file_def)

end
