(* ===== verification/Handler_Tracking.thy ===== *)
theory Handler_Tracking
  imports Logging
begin

text \<open>
  The handler tracking of the Asio examples (\<open>boost_asio/example/cpp11/handler_tracking/custom_tracking.hpp\<close>): the hooks Asio calls when a
  handler is created, entered and left, and when a descriptor is ready. They print, number the handlers, and keep the completions that are
  running on each thread in a list through their \<open>next_\<close> pointers.
\<close>

subsection \<open>State\<close>

type_synonym uintmax = "64 word"

record tracked_handler =
  handler_id :: uintmax
  tree_id :: uintmax
  object_type :: string
  native_handle :: uintmax

text \<open>
  The counter is shared, \<open>current_completion\<close> belongs to a thread: here the handlers of all completions on it, the innermost first.
  \<open>tracked\<close> is for the statements: the handlers created.
\<close>

record tracking =
  next_handler_id :: uintmax
  current_completion :: "nat \<Rightarrow> tracked_handler list"
  tracking_output :: string
  tracked :: "tracked_handler list"

definition tracking_init :: tracking where
  "tracking_init = \<lparr>next_handler_id = 1, current_completion = (\<lambda>_. []), tracking_output = [], tracked = []\<rparr>"

text \<open>A new handler; what has no initialiser is an argument.\<close>

definition new_tracked_handler :: "string \<Rightarrow> uintmax \<Rightarrow> tracked_handler" where
  "new_tracked_handler garbage_type garbage = \<lparr>handler_id = 0, tree_id = 0, object_type = garbage_type, native_handle = garbage\<rparr>"

subsection \<open>What is printed\<close>

definition print_uintmax :: "uintmax \<Rightarrow> string" where "print_uintmax n = to_string (unat n)"

definition print_int :: "cint \<Rightarrow> string" where
  "print_int n = (if sint n < 0 then CHR ''-'' # to_string (nat (- sint n)) else to_string (nat (sint n)))"

definition track_print :: "string \<Rightarrow> tracking \<Rightarrow> tracking" where
  "track_print line s = s\<lparr>tracking_output := tracking_output s @ line @ [CHR 0x0A]\<rparr>"

definition track_location :: "string \<Rightarrow> cint \<Rightarrow> string \<Rightarrow> tracking \<Rightarrow> tracking" where
  "track_location file_name line function_name s =
     track_print (''At location '' @ file_name @ '':'' @ print_int line @ '' in '' @ function_name) s"

subsection \<open>The hooks\<close>

text \<open>\<open>creation\<close> on thread \<open>i\<close>.\<close>

definition track_creation :: "nat \<Rightarrow> tracked_handler \<Rightarrow> string \<Rightarrow> uintmax \<Rightarrow> string \<Rightarrow> tracking \<Rightarrow> tracked_handler \<times> tracking" where
  "track_creation i h otype native op_name s =
     (let h = h\<lparr>handler_id := next_handler_id s\<rparr>;
          s = s\<lparr>next_handler_id := next_handler_id s + 1\<rparr>;
          h = (case current_completion s i of [] \<Rightarrow> h | c # _ \<Rightarrow> h\<lparr>tree_id := tree_id c\<rparr>);
          h = h\<lparr>object_type := otype, native_handle := native\<rparr>
      in (h, (track_print (''Starting operation '' @ otype @ ''.'' @ op_name @ '' for native_handle = '' @ print_uintmax (native_handle h) @
            '', handler = '' @ print_uintmax (handler_id h) @ '', tree = '' @ print_uintmax (tree_id h)) s)\<lparr>tracked := tracked s @ [h]\<rparr>))"

text \<open>Constructor and destructor of \<open>completion\<close>, and its two other members.\<close>

definition completion_begin :: "nat \<Rightarrow> tracked_handler \<Rightarrow> tracking \<Rightarrow> tracking" where
  "completion_begin i h s = s\<lparr>current_completion := (current_completion s)(i := h # current_completion s i)\<rparr>"

definition completion_end :: "nat \<Rightarrow> tracking \<Rightarrow> tracking" where
  "completion_end i s = s\<lparr>current_completion := (current_completion s)(i := tl (current_completion s i))\<rparr>"

definition invocation_begin :: "tracked_handler \<Rightarrow> tracking \<Rightarrow> tracking" where
  "invocation_begin h s =
     track_print (''Entering handler '' @ print_uintmax (handler_id h) @ '' in tree '' @ print_uintmax (tree_id h)) s"

definition invocation_end :: "tracked_handler \<Rightarrow> tracking \<Rightarrow> tracking" where
  "invocation_end h s =
     track_print (''Leaving handler '' @ print_uintmax (handler_id h) @ '' in tree '' @ print_uintmax (tree_id h)) s"

definition reactor_registration :: "uintmax \<Rightarrow> uintmax \<Rightarrow> tracking \<Rightarrow> tracking" where
  "reactor_registration native registration s =
     track_print (''Adding to reactor native_handle = '' @ print_uintmax native @ '', registration = '' @ print_uintmax registration) s"

definition reactor_deregistration :: "uintmax \<Rightarrow> uintmax \<Rightarrow> tracking \<Rightarrow> tracking" where
  "reactor_deregistration native registration s =
     track_print (''Removing from reactor native_handle = '' @ print_uintmax native @ '', registration = '' @ print_uintmax registration) s"

text \<open>The events are bits of an \<open>unsigned\<close>.\<close>

definition reactor_events :: "uintmax \<Rightarrow> cint \<Rightarrow> tracking \<Rightarrow> tracking" where
  "reactor_events registration events s =
     track_print (''Reactor readiness for registration = '' @ print_uintmax registration @ '', events ='' @
       (if bit events 0 then '' read'' else []) @ (if bit events 1 then '' write'' else []) @ (if bit events 2 then '' error'' else [])) s"

definition reactor_operation :: "tracked_handler \<Rightarrow> string \<Rightarrow> string \<Rightarrow> cint \<Rightarrow> uintmax option \<Rightarrow> tracking \<Rightarrow> tracking" where
  "reactor_operation h op_name category_name value bytes s =
     track_print (''Performed operation '' @ object_type h @ ''.'' @ op_name @ '' for native_handle = '' @ print_uintmax (native_handle h) @
       '', ec = '' @ category_name @ '':'' @ print_int value @
       (case bytes of None \<Rightarrow> [] | Some n \<Rightarrow> '', n = '' @ print_uintmax n)) s"

text \<open>Asio calls the hooks from any thread: operations are started there, handlers created before are completed there, one inside another.\<close>

inductive track_step :: "tracking \<Rightarrow> tracking \<Rightarrow> bool" where
  operation_started: "track_creation i (new_tracked_handler ty g) otype native op_name s = (h, t) \<Longrightarrow> track_step s t"
| handler_completes: "h \<in> set (tracked s) \<Longrightarrow> track_step s (invocation_begin h (completion_begin i h s))"
| handler_left: "current_completion s i = h # hs \<Longrightarrow> track_step s (completion_end i (invocation_end h s))"
| handler_freed: "current_completion s i \<noteq> [] \<Longrightarrow> track_step s (completion_end i s)"
| something_printed: "track_step s (track_print line s)"

subsection \<open>Handlers and trees\<close>

lemma track_print_frame [simp]:
  "next_handler_id (track_print l s) = next_handler_id s" "current_completion (track_print l s) = current_completion s"
  "tracked (track_print l s) = tracked s" "track_print l s \<lparr>tracked := hs\<rparr> = track_print l (s\<lparr>tracked := hs\<rparr>)"
  by (simp_all add: track_print_def)

lemma invocation_frame [simp]:
  "next_handler_id (invocation_begin h s) = next_handler_id s" "current_completion (invocation_begin h s) = current_completion s"
  "tracked (invocation_begin h s) = tracked s" "next_handler_id (invocation_end h s) = next_handler_id s"
  "current_completion (invocation_end h s) = current_completion s" "tracked (invocation_end h s) = tracked s"
  by (simp_all add: invocation_begin_def invocation_end_def)

lemma completion_frame [simp]:
  "next_handler_id (completion_begin i h s) = next_handler_id s" "tracked (completion_begin i h s) = tracked s"
  "current_completion (completion_begin i h s) = (current_completion s)(i := h # current_completion s i)"
  "next_handler_id (completion_end i s) = next_handler_id s" "tracked (completion_end i s) = tracked s"
  "current_completion (completion_end i s) = (current_completion s)(i := tl (current_completion s i))"
  by (simp_all add: completion_begin_def completion_end_def)

definition tracking_ok :: "tracking \<Rightarrow> bool" where
  "tracking_ok s \<longleftrightarrow>
     map handler_id (tracked s) = map (\<lambda>k. word_of_nat (Suc k)) [0..<length (tracked s)] \<and>
     next_handler_id s = word_of_nat (Suc (length (tracked s))) \<and>
     (\<forall>h \<in> set (tracked s). tree_id h = 0) \<and> (\<forall>i. set (current_completion s i) \<subseteq> set (tracked s))"

lemma track_creation_fields:
  assumes "track_creation i (new_tracked_handler ty g) otype native op_name s = (h, t)"
  shows "tracked t = tracked s @ [h]" "next_handler_id t = next_handler_id s + 1" "current_completion t = current_completion s"
    "handler_id h = next_handler_id s" "tree_id h = (case current_completion s i of [] \<Rightarrow> 0 | c # _ \<Rightarrow> tree_id c)"
  using assms by (auto simp: track_creation_def new_tracked_handler_def Let_def split: list.split)

lemma tracking_ok_step: "track_step s t \<Longrightarrow> tracking_ok s \<Longrightarrow> tracking_ok t"
proof (induction rule: track_step.induct)
  case (operation_started i ty g otype native op_name s h t)
  note f = track_creation_fields [OF operation_started(1)]
  have ok: "\<forall>h \<in> set (tracked s). tree_id h = 0" "set (current_completion s i) \<subseteq> set (tracked s)"
    using operation_started(2) by (simp_all add: tracking_ok_def)
  have "tree_id h = 0"
  proof (cases "current_completion s i")
    case (Cons c cs)
    with ok f(5) show ?thesis by simp
  qed (simp add: f(5))
  then show ?case using operation_started(2) f(1-4) unfolding tracking_ok_def by (auto simp: add.commute)
next
  case (handler_completes h s i)
  then show ?case by (auto simp: tracking_ok_def)
next
  case (handler_left s i h hs)
  then have "set hs \<subseteq> set (tracked s)" unfolding tracking_ok_def by (metis list.set_intros(2) subset_iff)
  with handler_left show ?case by (simp add: tracking_ok_def)
next
  case (handler_freed s i)
  have "set (tl (current_completion s i)) \<subseteq> set (current_completion s i)" by (cases "current_completion s i") auto
  with handler_freed show ?case by (auto simp: tracking_ok_def)
qed (simp add: tracking_ok_def)

lemma tracking_ok_reachable: "track_step\<^sup>*\<^sup>* tracking_init s \<Longrightarrow> tracking_ok s"
proof (induction rule: rtranclp_induct)
  case base
  then show ?case by (simp add: tracking_ok_def tracking_init_def)
qed (rule tracking_ok_step)

text \<open>
  Handlers are numbered from 1 in the order of their creation, so numbers differ before the counter wraps around. But no tree has
  a number: a handler takes it over from the one that is running, and the first ones have none.
\<close>

theorem handlers_numbered:
  assumes "track_step\<^sup>*\<^sup>* tracking_init s" "i < length (tracked s)"
  shows "handler_id (tracked s ! i) = word_of_nat (Suc i) \<and> tree_id (tracked s ! i) = 0 \<and>
    (length (tracked s) < 2 ^ 64 \<longrightarrow> distinct (map handler_id (tracked s)))"
proof -
  have ok: "tracking_ok s" using tracking_ok_reachable [OF assms(1)] .
  have ids: "map handler_id (tracked s) = map (\<lambda>k. word_of_nat (Suc k)) [0..<length (tracked s)]" using ok by (simp add: tracking_ok_def)
  then have "map handler_id (tracked s) ! i = word_of_nat (Suc i)" using assms(2) by (simp only: nth_map) simp
  moreover have "distinct (map handler_id (tracked s))" if "length (tracked s) < 2 ^ 64"
  proof -
    have "inj_on (\<lambda>k. word_of_nat (Suc k) :: uintmax) {0..<length (tracked s)}"
    proof (rule inj_onI)
      fix j k
      assume jk: "j \<in> {0..<length (tracked s)}" "k \<in> {0..<length (tracked s)}" "(word_of_nat (Suc j) :: uintmax) = word_of_nat (Suc k)"
      then have "unat (word_of_nat (Suc j) :: uintmax) = unat (word_of_nat (Suc k) :: uintmax)" by simp
      moreover have "Suc j < 2 ^ 64" "Suc k < 2 ^ 64" using jk(1,2) that by auto
      ultimately show "j = k" by (simp only: unat_of_nat take_bit_eq_mod len_num0 len_num1 len_bit0 len_bit1) simp
    qed
    then show ?thesis unfolding ids by (simp add: distinct_map del: of_nat_Suc)
  qed
  moreover have "tree_id (tracked s ! i) = 0" using ok assms(2) by (simp add: tracking_ok_def)
  ultimately show ?thesis using assms(2) by simp
qed

end
