(* ===== verification/Callback_Wrappers.thy ===== *)
theory Callback_Wrappers
  imports Prelude
begin

text \<open>
  Asynchronous operations around an interface with callbacks (\<open>boost_asio/example/cpp20/operations/c_callback_wrapper.cpp\<close>,
  \<open>callback_wrapper.cpp\<close>): a detached thread reads a line and calls back; the callback dispatches the completion handler. In the first
  program the callback is a function pointer with an argument, for which a state is allocated; in the second it is a function object. Where they
  differ, \<open>c_api\<close> says which is meant.
\<close>

subsection \<open>State\<close>

datatype test_kind = Test_callback | Test_deferred | Test_future

text \<open>\<open>main\<close> is between tests, in \<open>run\<close> of the context, or in \<open>get\<close> of the future, with the tests to come. The thread that
  reads is at its prompt, reads, has called back with a line, is about to dispatch, or has dispatched and still holds its work.\<close>

datatype wrap_main_pc = Between_tests "test_kind list" | In_run "test_kind list" | In_get "test_kind list"
datatype input_reader_pc = No_reader | Prompting | Reading_line | Called_back string | Dispatching string | Dispatched | Reader_over

text \<open>The context counts the work it waits for; handlers dispatched to it wait in a queue. \<open>on_context\<close>: the executor of the handler is the
  context's, else it is the system executor, which runs the handler at once.\<close>

record wrapped =
  wrap_main :: wrap_main_pc
  reader_at :: input_reader_pc
  on_context :: bool
  io_work :: nat
  io_queue :: "string list"
  promise :: "string option"
  allocated :: nat
  stdin_lines :: "string list"
  shown :: string

definition prompt_name :: string where "prompt_name = ''Enter your name''"

subsection \<open>read_input and its callback\<close>

text \<open>The thread starts; it prompts; it reads a line, which is empty at the end of the input.\<close>

definition read_input :: "wrapped \<Rightarrow> wrapped" where
  "read_input s = s\<lparr>reader_at := Prompting\<rparr>"

definition show_prompt :: "wrapped \<Rightarrow> wrapped" where
  "show_prompt s = s\<lparr>shown := shown s @ prompt_name @ '': '', reader_at := Reading_line\<rparr>"

fun first_or_empty :: "string list \<Rightarrow> string" where
  "first_or_empty [] = []"
| "first_or_empty (l # ls) = l"

definition read_stdin_line :: "wrapped \<Rightarrow> wrapped" where
  "read_stdin_line s = s\<lparr>stdin_lines := tl (stdin_lines s), reader_at := Called_back (first_or_empty (stdin_lines s))\<rparr>"

text \<open>A \<open>const char*\<close> ends at the first null character.\<close>

definition as_c_string :: "bool \<Rightarrow> string \<Rightarrow> string" where
  "as_c_string c_api line = (if c_api then takeWhile (\<lambda>c. c \<noteq> CHR 0x00) line else line)"

text \<open>\<open>read_input_state::create\<close>: memory for the handler and its work; \<open>callback\<close> moves both out of it and frees it before the handler is dispatched.\<close>

definition create_state :: "bool \<Rightarrow> wrapped \<Rightarrow> wrapped" where
  "create_state c_api s = s\<lparr>allocated := (if c_api then Suc (allocated s) else allocated s), io_work := (if on_context s then Suc (io_work s) else io_work s)\<rparr>"

definition free_state :: "bool \<Rightarrow> string \<Rightarrow> wrapped \<Rightarrow> wrapped" where
  "free_state c_api line s = s\<lparr>allocated := (if c_api then allocated s - 1 else allocated s), reader_at := Dispatching (as_c_string c_api line)\<rparr>"

definition dispatch_handler :: "string \<Rightarrow> wrapped \<Rightarrow> wrapped" where
  "dispatch_handler r s =
     (if on_context s then s\<lparr>io_queue := io_queue s @ [r], io_work := Suc (io_work s), reader_at := Dispatched\<rparr>
      else s\<lparr>promise := Some r, reader_at := Dispatched\<rparr>)"

definition drop_work :: "wrapped \<Rightarrow> wrapped" where
  "drop_work s = s\<lparr>io_work := (if on_context s then io_work s - 1 else io_work s), reader_at := Reader_over\<rparr>"

definition async_read_input :: "bool \<Rightarrow> wrapped \<Rightarrow> wrapped" where
  "async_read_input c_api s = read_input (create_state c_api s)"

subsection \<open>The tests\<close>

definition hello :: "string \<Rightarrow> string" where
  "hello r = ''Hello '' @ r @ [CHR 0x0A]"

text \<open>Up to where they wait. A deferred operation is a function that launches the operation.\<close>

definition test_callback :: "bool \<Rightarrow> test_kind list \<Rightarrow> wrapped \<Rightarrow> wrapped" where
  "test_callback c_api ks s = async_read_input c_api (s\<lparr>on_context := True, io_work := 0, io_queue := [], wrap_main := In_run ks\<rparr>)"

definition deferred_read_input :: "bool \<Rightarrow> wrapped \<Rightarrow> wrapped" where
  "deferred_read_input c_api = (\<lambda>s. async_read_input c_api s)"

definition test_deferred :: "bool \<Rightarrow> test_kind list \<Rightarrow> wrapped \<Rightarrow> wrapped" where
  "test_deferred c_api ks s = (let op = deferred_read_input c_api in op (s\<lparr>on_context := True, io_work := 0, io_queue := [], wrap_main := In_run ks\<rparr>))"

definition test_future :: "bool \<Rightarrow> test_kind list \<Rightarrow> wrapped \<Rightarrow> wrapped" where
  "test_future c_api ks s = async_read_input c_api (s\<lparr>on_context := False, promise := None, wrap_main := In_get ks\<rparr>)"

fun start_test :: "bool \<Rightarrow> test_kind \<Rightarrow> test_kind list \<Rightarrow> wrapped \<Rightarrow> wrapped" where
  "start_test c_api Test_callback ks s = test_callback c_api ks s"
| "start_test c_api Test_deferred ks s = test_deferred c_api ks s"
| "start_test c_api Test_future ks s = test_future c_api ks s"

text \<open>\<open>main\<close> and the thread, interleaved. \<open>run\<close> runs a handler that was dispatched, and returns when there is no work.\<close>

inductive wrap_step :: "bool \<Rightarrow> wrapped \<Rightarrow> wrapped \<Rightarrow> bool" for c_api where
  test_starts: "wrap_main s = Between_tests (k # ks) \<Longrightarrow> wrap_step c_api s (start_test c_api k ks s)"
| run_handler: "wrap_main s = In_run ks \<Longrightarrow> io_queue s = r # rs \<Longrightarrow>
    wrap_step c_api s (s\<lparr>io_queue := rs, io_work := io_work s - 1, shown := shown s @ hello r\<rparr>)"
| run_returns: "wrap_main s = In_run ks \<Longrightarrow> io_work s = 0 \<Longrightarrow> wrap_step c_api s (s\<lparr>wrap_main := Between_tests ks\<rparr>)"
| get_returns: "wrap_main s = In_get ks \<Longrightarrow> promise s = Some r \<Longrightarrow>
    wrap_step c_api s (s\<lparr>wrap_main := Between_tests ks, shown := shown s @ hello r\<rparr>)"
| reader_prompts: "reader_at s = Prompting \<Longrightarrow> wrap_step c_api s (show_prompt s)"
| reader_reads: "reader_at s = Reading_line \<Longrightarrow> wrap_step c_api s (read_stdin_line s)"
| reader_calls: "reader_at s = Called_back line \<Longrightarrow> wrap_step c_api s (free_state c_api line s)"
| reader_dispatches: "reader_at s = Dispatching r \<Longrightarrow> wrap_step c_api s (dispatch_handler r s)"
| reader_ends: "reader_at s = Dispatched \<Longrightarrow> wrap_step c_api s (drop_work s)"

definition wrap_start :: "string list \<Rightarrow> wrapped" where
  "wrap_start ls = \<lparr>wrap_main = Between_tests [Test_callback, Test_deferred, Test_future], reader_at = No_reader, on_context = False, io_work = 0,
     io_queue = [], promise = None, allocated = 0, stdin_lines = ls, shown = []\<rparr>"

subsection \<open>What is shown\<close>

text \<open>The specification: each test asks and greets.\<close>

primrec dialogue :: "bool \<Rightarrow> test_kind list \<Rightarrow> string list \<Rightarrow> string" where
  "dialogue c_api [] ls = []"
| "dialogue c_api (k # ks) ls = prompt_name @ '': '' @ hello (as_c_string c_api (first_or_empty ls)) @ dialogue c_api ks (tl ls)"

fun tests_left :: "wrap_main_pc \<Rightarrow> test_kind list" where
  "tests_left (Between_tests ks) = ks"
| "tests_left (In_run ks) = ks"
| "tests_left (In_get ks) = ks"

text \<open>What the test that is running has still to show, by the place of the reader.\<close>

definition greeting_left :: "bool \<Rightarrow> wrapped \<Rightarrow> string" where
  "greeting_left c_api s =
     (case wrap_main s of
        Between_tests _ \<Rightarrow> []
      | In_run _ \<Rightarrow> concat (map hello (io_queue s))
      | In_get _ \<Rightarrow> (case promise s of None \<Rightarrow> [] | Some r \<Rightarrow> hello r))"

definition to_show :: "bool \<Rightarrow> wrapped \<Rightarrow> string" where
  "to_show c_api s =
     (case reader_at s of
        Prompting \<Rightarrow> prompt_name @ '': '' @ hello (as_c_string c_api (first_or_empty (stdin_lines s))) @ dialogue c_api (tests_left (wrap_main s)) (tl (stdin_lines s))
      | Reading_line \<Rightarrow> hello (as_c_string c_api (first_or_empty (stdin_lines s))) @ dialogue c_api (tests_left (wrap_main s)) (tl (stdin_lines s))
      | Called_back l \<Rightarrow> hello (as_c_string c_api l) @ dialogue c_api (tests_left (wrap_main s)) (stdin_lines s)
      | Dispatching r \<Rightarrow> hello r @ dialogue c_api (tests_left (wrap_main s)) (stdin_lines s)
      | _ \<Rightarrow> greeting_left c_api s @ dialogue c_api (tests_left (wrap_main s)) (stdin_lines s))"

text \<open>Where main can be, by the place of the reader; the work counted; the memory in use. The last test is the one with the future.\<close>

definition wrap_places :: "bool \<Rightarrow> wrapped \<Rightarrow> bool" where
  "wrap_places c_api s \<longleftrightarrow>
     (case reader_at s of
        No_reader \<Rightarrow> (\<exists>ks. wrap_main s = Between_tests ks) \<and> allocated s = 0
      | Prompting \<Rightarrow> (on_context s \<longrightarrow> io_work s = 1) \<and> io_queue s = [] \<and> (\<not> on_context s \<longrightarrow> promise s = None) \<and> allocated s = (if c_api then 1 else 0)
      | Reading_line \<Rightarrow> (on_context s \<longrightarrow> io_work s = 1) \<and> io_queue s = [] \<and> (\<not> on_context s \<longrightarrow> promise s = None) \<and> allocated s = (if c_api then 1 else 0)
      | Called_back l \<Rightarrow> (on_context s \<longrightarrow> io_work s = 1) \<and> io_queue s = [] \<and> (\<not> on_context s \<longrightarrow> promise s = None) \<and> allocated s = (if c_api then 1 else 0)
      | Dispatching r \<Rightarrow> (on_context s \<longrightarrow> io_work s = 1) \<and> io_queue s = [] \<and> (\<not> on_context s \<longrightarrow> promise s = None) \<and> allocated s = 0
      | Dispatched \<Rightarrow> (on_context s \<longrightarrow> io_work s = Suc (length (io_queue s)) \<and> length (io_queue s) \<le> 1) \<and> (\<not> on_context s \<longrightarrow> promise s \<noteq> None) \<and> allocated s = 0
      | Reader_over \<Rightarrow> (on_context s \<longrightarrow> io_work s = length (io_queue s)) \<and> (\<not> on_context s \<longrightarrow> promise s \<noteq> None) \<and> allocated s = 0) \<and>
     (case wrap_main s of
        Between_tests ks \<Rightarrow> (ks = [] \<and> reader_at s \<in> {Dispatched, Reader_over} \<and> \<not> on_context s \<or>
            reader_at s \<in> {No_reader, Reader_over} \<and> ks \<in> {[Test_callback, Test_deferred, Test_future], [Test_deferred, Test_future], [Test_future]}) \<and> io_queue s = []
      | In_run ks \<Rightarrow> on_context s \<and> reader_at s \<noteq> No_reader \<and> ks \<in> {[Test_deferred, Test_future], [Test_future]}
      | In_get ks \<Rightarrow> \<not> on_context s \<and> reader_at s \<noteq> No_reader \<and> ks = [] \<and> io_queue s = [])"

definition wrap_ok :: "bool \<Rightarrow> string \<Rightarrow> wrapped \<Rightarrow> bool" where
  "wrap_ok c_api out s \<longleftrightarrow> wrap_places c_api s \<and> shown s @ to_show c_api s = out"

lemmas wrap_defs = wrap_ok_def wrap_places_def to_show_def greeting_left_def

lemma start_test_simps [simp]:
  "start_test c_api k ks s = (if k = Test_future
     then s\<lparr>on_context := False, promise := None, wrap_main := In_get ks, reader_at := Prompting, allocated := (if c_api then Suc (allocated s) else allocated s)\<rparr>
     else s\<lparr>on_context := True, io_work := 1, io_queue := [], wrap_main := In_run ks, reader_at := Prompting,
       allocated := (if c_api then Suc (allocated s) else allocated s)\<rparr>)"
  by (cases s; cases k) (simp_all add: test_callback_def test_deferred_def test_future_def deferred_read_input_def async_read_input_def
      read_input_def create_state_def Let_def)

lemma wrap_ok_step: "wrap_step c_api s t \<Longrightarrow> wrap_ok c_api out s \<Longrightarrow> wrap_ok c_api out t"
proof (induction rule: wrap_step.induct)
  case (test_starts s k ks)
  then show ?case by (auto simp: wrap_defs split: input_reader_pc.splits)
next
  case (run_handler s ks r rs)
  then show ?case by (auto simp: wrap_defs split: input_reader_pc.splits)
next
  case (run_returns s ks)
  then show ?case by (auto simp: wrap_defs split: input_reader_pc.splits)
next
  case (get_returns s ks r)
  then show ?case by (auto simp: wrap_defs split: input_reader_pc.splits)
next
  case (reader_prompts s)
  then show ?case by (auto simp: wrap_defs show_prompt_def split: wrap_main_pc.splits)
next
  case (reader_reads s)
  then show ?case by (auto simp: wrap_defs read_stdin_line_def split: wrap_main_pc.splits)
next
  case (reader_calls s line)
  then show ?case by (auto simp: wrap_defs free_state_def split: wrap_main_pc.splits)
next
  case (reader_dispatches s r)
  then show ?case by (auto simp: wrap_defs dispatch_handler_def split: wrap_main_pc.splits)
next
  case (reader_ends s)
  then show ?case by (auto simp: wrap_defs drop_work_def split: wrap_main_pc.splits)
qed

lemma wrap_ok_reachable:
  "(wrap_step c_api)\<^sup>*\<^sup>* (wrap_start ls) s \<Longrightarrow> wrap_ok c_api (dialogue c_api [Test_callback, Test_deferred, Test_future] ls) s"
proof (induction rule: rtranclp_induct)
  case base
  then show ?case by (simp add: wrap_defs wrap_start_def)
qed (rule wrap_ok_step)

text \<open>Every test asks and greets with the line read; all memory is freed when main is over; until then some step is possible, so no call of \<open>run\<close> or \<open>get\<close> waits for
  ever, and \<open>run\<close> does not return before the handler has run. With the C interface a line is greeted up to its first null character.\<close>

theorem wrapped_greets:
  assumes "(wrap_step c_api)\<^sup>*\<^sup>* (wrap_start ls) s"
  shows "if wrap_main s = Between_tests []
    then shown s = dialogue c_api [Test_callback, Test_deferred, Test_future] ls \<and> allocated s = 0
    else \<exists>t. wrap_step c_api s t"
proof -
  have ok: "wrap_ok c_api (dialogue c_api [Test_callback, Test_deferred, Test_future] ls) s" using wrap_ok_reachable [OF assms] .
  show ?thesis
  proof (cases "wrap_main s = Between_tests []")
    case True
    with ok show ?thesis by (auto simp: wrap_defs simp del: dialogue.simps(2))
  next
    case False
    have "\<exists>t. wrap_step c_api s t"
    proof (cases "reader_at s")
      case No_reader
      with ok False obtain k ks where "wrap_main s = Between_tests (k # ks)" by (auto simp: wrap_defs)
      then show ?thesis using wrap_step.test_starts by blast
    next
      case Reader_over
      show ?thesis
      proof (cases "wrap_main s")
        case (Between_tests ks)
        with False obtain k ks' where "ks = k # ks'" by (cases ks) auto
        with Between_tests show ?thesis using wrap_step.test_starts by blast
      next
        case (In_run ks)
        then have "io_work s = length (io_queue s)" using ok Reader_over by (simp add: wrap_ok_def wrap_places_def)
        then show ?thesis using wrap_step.run_returns [OF In_run] wrap_step.run_handler [OF In_run] by (cases "io_queue s") fastforce+
      next
        case (In_get ks)
        then have "promise s \<noteq> None" using ok Reader_over by (simp add: wrap_ok_def wrap_places_def)
        with In_get show ?thesis using wrap_step.get_returns by blast
      qed
    qed (use wrap_step.reader_prompts wrap_step.reader_reads wrap_step.reader_calls wrap_step.reader_dispatches wrap_step.reader_ends in metis)+
    with False show ?thesis by simp
  qed
qed

end
