(* ===== verification/Spec2Isabelle.thy ===== *)
theory Spec2Isabelle
  imports Pipeline Singleton_Properties Http_Client_Properties Chat_Posix_Properties
    Fork_Join_Bound Actor_Properties Pipeline_Threads_Done Stock_Quotes Port_Hopper_Properties Priority_Handlers Deadline_Client_Properties Icmp_Properties Compiler_Id_Properties
    Composed_Ops Locked_Session Third_Party Fork_Echo Blocking_Clients Socks4
    Coro_Chat Http_Server4 Throttling_Proxy Local_Filter
    Log_Service Handler_Tracking Callback_Wrappers
begin

text \<open>
  BoostSearcher, a search engine for the Boost documentation: a parser that turns HTML files
  into one raw text file (\<open>src/parser.cc\<close>), an index built from that file
  (\<open>include/index.hpp\<close>), a searcher over the index (\<open>include/searcher.hpp\<close>),
  an HTTP server with a hot-word statistic kept in Redis (\<open>src/http_server.cc\<close>,
  \<open>include/util.hpp\<close>), a test program (\<open>src/debug.cc\<close>), and a log function
  (\<open>include/log.hpp\<close>). All of these are modelled, function by function, under the names
  the source gives them (spelling included: \<open>BulidIndex\<close>, \<open>AddkeywordAndIncrase\<close>,
  \<open>LABLE\<close>).

  The repository also carries two kinds of programs beside its own: the example programs of Boost
  among its input documents (\<open>data/input/boost_asio/example\<close>, most under \<open>cpp11\<close>), of which the HTTP server in two of its forms and its clients,
  the chat in both its forms, the servers and clients with deadlines, the echo servers with a twist, the composed operations, the sessions with a
  lock, the fork-join sort, the pipeline of threads, the ring of actors, the two programs with
  priority queues, the stock quotes, the port hopper, the SOCKS client, the proxy that limits the rate, the filter on a connected pair,
  the logging service, the tracking of handlers, the wrappers around callbacks
  and ping are modelled, and the programs by which the build identifies its
  compilers (\<open>build/CMakeFiles/3.17.5/CompilerIdC\<close> and \<open>CompilerIdCXX\<close>), both modelled.

  How the parts interact. \<open>parser_main\<close> walks \<open>data/input\<close>, extracts title, text
  and URL of each page and writes them, one line per page, fields separated by the character 3.
  \<open>http_start\<close> (the server's \<open>main\<close> up to \<open>listen\<close>; \<open>server_main\<close> is all of it) pings Redis, and
  \<open>BulidIndex\<close> reads the raw file into the forward index (documents by id) and the inverted
  index (postings by word). \<open>handle_s\<close> is the handler of \<open>GET /s\<close>: \<open>Search\<close>
  cuts the query into words, counts each indexed word in Redis, merges the postings, sorts by
  weight and renders the documents with a summary from \<open>GetDesc\<close>. A timer thread prints and
  deletes the counts. \<open>GetInstance\<close> creates the one index.

  Theories and what they model.
  \<^item> \<open>Prelude\<close>: collections of rules, machine integers (\<open>cint\<close> is \<open>int\<close>,
    \<open>u64\<close> is \<open>uint64_t\<close>), the exceptions, generic lemmas.
  \<^item> \<open>Std_Strings\<close>, \<open>Std_Streams\<close>, \<open>Std_Containers\<close>: what the source uses
    of the C++ library: \<open>find\<close>, \<open>substr\<close>, \<open>std::search\<close>, \<open>tolower\<close> in the
    C locale; files, \<open>getline\<close> with the state bits of a stream, the reading loop; unordered maps as
    lists of distinct keys with an iteration order that is a parameter (locale \<open>hash_order\<close>), and
    \<open>std::sort\<close> (locale \<open>std_sorter\<close>: for a strict weak order, a sorted permutation, not stable).
  \<^item> \<open>Logging\<close>: \<open>log.hpp\<close>, console events, and the messages of the program.
  \<^item> \<open>Util\<close>: \<open>FileUtil\<close>, \<open>StringUtil\<close>, \<open>JiebaUtil\<close>; \<open>boost::split\<close>
    with \<open>token_compress_on\<close> is a parameter with the locale \<open>splitter\<close>.
  \<^item> \<open>Parser\<close>, \<open>Parser_Correct\<close>: \<open>parser.cc\<close> and its properties.
  \<^item> \<open>Index_Build\<close>, \<open>Index_Correct\<close>, \<open>Index_Properties\<close>: \<open>index.hpp\<close>; the
    invariant \<open>index_ok\<close>, and the contract \<open>search_index\<close> a searcher may rely on,
    interpreted on the index of the code (\<open>ns_index\<close>).
  \<^item> \<open>Hot_Words\<close>: \<open>RedisUtil\<close>, \<open>ThreadUtil\<close>; the Redis server is a parameter,
    its documented sorted-set semantics the locale \<open>sorted_set_server\<close>, and \<open>zref\<close> an
    executable server that has them.
  \<^item> \<open>Searcher\<close>, \<open>Desc_Correct\<close>, \<open>Search_Correct\<close>, \<open>Desc_Properties\<close>,
    \<open>Search_Properties\<close>: \<open>searcher.hpp\<close>; \<open>found\<close>, \<open>doc_score\<close>, \<open>best_first\<close>
    and \<open>rendered\<close> are the specification of a search.
  \<^item> \<open>Singleton\<close>, \<open>Singleton_Properties\<close>: \<open>Index::GetInstance\<close> as a machine of
    interleaved threads.
  \<^item> \<open>Http_Server\<close>, \<open>Server_Threads\<close>, \<open>Server_Properties\<close>:
    \<open>http_server.cc\<close>, \<open>debug.cc\<close>, and the handlers and the timer as a machine whose steps
    are single Redis commands.
  \<^item> \<open>Demo\<close>: a small concrete world in which the theorems are applied.
  \<^item> \<open>Pipeline\<close>: parser and server together, from the HTML files to the answer of a request.

  \<^item> \<open>Asio_Request\<close>, \<open>Asio_Request_Correct\<close> (\<open>http/server/request_parser.cpp\<close>):
    the parser as a machine with one state per state of the code; \<open>wf_request\<close> and
    \<open>print_request\<close> say what a request is and how it is written.
  \<^item> \<open>Asio_Reply\<close>, \<open>Asio_Handler\<close>, \<open>Asio_Handler_Correct\<close> (\<open>reply.cpp\<close>,
    \<open>mime_types.cpp\<close>, \<open>request_handler.cpp\<close>): stock replies, buffers, decoding of the URL, and
    the handler over a file system that is a map.
  \<^item> \<open>Asio_Server\<close>, \<open>Asio_Server_Properties\<close> (\<open>connection.cpp\<close>,
    \<open>connection_manager.cpp\<close>, \<open>server.cpp\<close>, \<open>main.cpp\<close>): one step per completed
    operation. The network chooses what is read and when; a handler runs to its end.
  \<^item> \<open>Http_Client\<close>, \<open>Http_Client_Properties\<close> (\<open>http/client/async_client.cpp\<close>, \<open>sync_client.cpp\<close>):
    both clients over a connection that brings pieces of any size, and together with the handler of the server.
  \<^item> \<open>Chat_Message\<close>, \<open>Chat_Room\<close>, \<open>Chat_Client\<close>, \<open>Chat_Properties\<close>, \<open>Chat_Posix\<close>,
    \<open>Chat_Posix_Properties\<close> (\<open>chat/chat_message.hpp\<close>, \<open>chat_server.cpp\<close>, \<open>chat_client.cpp\<close>,
    \<open>posix_chat_client.cpp\<close>): the message as its array of
    516 bytes and a length; what the room relies on is the locale \<open>message_sink\<close>,
    interpreted on the sessions of the code.
  \<^item> \<open>Steady_Timer\<close>, \<open>Deadline_Server\<close>, \<open>Deadline_Properties\<close>, \<open>Deadline_Client\<close>,
    \<open>Deadline_Client_Properties\<close> (\<open>timeouts/server.cpp\<close>, \<open>timeouts/async_tcp_client.cpp\<close>): timers with
    their waiting handlers, the channel with its sessions and broadcaster (\<open>message_sink\<close> again), the client,
    and both together.
  \<^item> \<open>Fork_Join\<close>, \<open>Fork_Join_Correct\<close>, \<open>Fork_Join_Properties\<close>, \<open>Fork_Join_Bound\<close>
    (\<open>executors/fork_join.cpp\<close>): pool, executor and sort as interleaved threads; a call is named by the halves
    that lead to it, and the phase of every call is the abstract state the proofs work on.
  \<^item> \<open>Actor_Ring\<close>, \<open>Actor_Ring_Steps\<close>, \<open>Actor_Properties\<close> (\<open>executors/actor.cpp\<close>): messages,
    handlers by type, one strand per actor, the iterators a handler makes invalid; a step of the ring is one function of a strand or one statement of \<open>main\<close>.
  \<^item> \<open>Pipeline_Threads\<close>, \<open>Pipeline_Threads_Properties\<close>, \<open>Pipeline_Threads_Done\<close>
    (\<open>executors/pipeline.cpp\<close>): queues with mutex and condition variable, a thread per stage, \<open>main\<close>;
    the specification is the composition of the stages as functions on lines.
  \<^item> \<open>Priority_Handlers\<close> (\<open>invocation/prioritised_handlers.cpp\<close>, \<open>executors/priority_scheduler.cpp\<close>): the
    choice among equals of the priority queue is a parameter with the locale \<open>heap_top\<close>, interpreted on one choice.
  \<^item> \<open>Std_Extract\<close>, \<open>Stock_Quotes\<close> (\<open>serialization/*\<close>):
    formatted extraction of words and hexadecimal numbers; the header of eight digits and the archive behind it, whose
    text is a parameter.
  \<^item> \<open>Port_Hopper\<close>, \<open>Port_Hopper_Properties\<close> (\<open>porthopper/*\<close>): requests and frames as bytes, the server
    with its subscriptions, the client with its renegotiation; the network keeps every datagram ever sent.
  \<^item> \<open>Composed_Ops\<close> (\<open>operations/composed_1.cpp\<close> to \<open>composed_8.cpp\<close>): how the
    underlying operations end is a list of results; the specification is what is on the wire and when, and how often a step delays.
  \<^item> \<open>Locked_Session\<close> (\<open>cpp20/channels/mutual_exclusion_1.cpp\<close>, \<open>mutual_exclusion_2.cpp\<close>):
    two coroutines that share a socket, one step per suspension point, and the channel that is their lock.
  \<^item> \<open>Echo_Sessions\<close>, \<open>Third_Party\<close>, \<open>Fork_Echo\<close> (\<open>allocation/server.cpp\<close>,
    \<open>nonblocking/third_party_lib.cpp\<close>, \<open>fork/process_per_connection.cpp\<close>): what a session that echoes promises is the locale
    \<open>echo_session\<close>, interpreted on the sessions of each.
  \<^item> \<open>Blocking_Clients\<close> (\<open>timeouts/blocking_tcp_client.cpp\<close>,
    \<open>blocking_token_tcp_client.cpp\<close>, \<open>blocking_udp_client.cpp\<close>): operations run for a time and then given up.
  \<^item> \<open>Socks4\<close> (\<open>socks4/*\<close>): request and reply as bytes, and the client.
  \<^item> \<open>Coro_Chat\<close> (\<open>cpp20/coroutines/chat_server.cpp\<close>): the chat with a coroutine that reads
    and one that writes; \<open>message_sink\<close> once more.
  \<^item> \<open>Http_Server4\<close> (\<open>http/server4\<close>): one stackless coroutine that is copied for each connection; its parser, replies and
    file handler have the code of \<open>http/server\<close> and are those of \<open>Asio_Request\<close>, \<open>Asio_Reply\<close> and \<open>Asio_Handler\<close>.
  \<^item> \<open>Throttling_Proxy\<close> (\<open>cpp20/channels/throttling_proxy.cpp\<close>), \<open>Local_Filter\<close>
    (\<open>local/connect_pair.cpp\<close>): tokens against time; a filter and its user over a pair that holds a limited number of bytes.
  \<^item> \<open>Log_Service\<close> (\<open>services/*\<close>), \<open>Handler_Tracking\<close> (\<open>handler_tracking/custom_tracking.hpp\<close>): tasks posted
    to a thread that writes a file; the hooks with the handlers running on each thread.
  \<^item> \<open>Callback_Wrappers\<close> (\<open>cpp20/operations/c_callback_wrapper.cpp\<close>, \<open>callback_wrapper.cpp\<close>): the thread that
    reads, the memory and the work of the operation, and \<open>main\<close>, interleaved.
  \<^item> \<open>Icmp\<close>, \<open>Icmp_Properties\<close> (\<open>icmp/icmp_header.hpp\<close>, \<open>ipv4_header.hpp\<close>,
    \<open>ping.cpp\<close>): headers as their bytes, the checksum on 32-bit words, the pinger with its timer.
  \<^item> \<open>Compiler_Id\<close>, \<open>Compiler_Id_C\<close>, \<open>Compiler_Id_CXX\<close>,
    \<open>Compiler_Id_Properties\<close>: the set of predefined macros is an argument; a chain of
    \<open>#if\<close> is the first branch that holds; the strings are what a compiled program contains.

  How state and operations correspond. A string behind an output pointer is passed in and
  returned; files are a record \<open>filesys\<close>; console output is the list of events a function
  returns; the index is a record that \<open>BulidIndex\<close> returns updated; the Redis server is a state of
  any type threaded through the calls. An exception is the left side of a sum. A null pointer is
  \<open>None\<close>; \<open>return nullptr\<close> in \<open>GetDesc\<close>, whose result is a
  \<open>std::string\<close>, is \<open>std::logic_error\<close>, as libstdc++ throws it. Third-party functions are
  fields of \<open>text_libs\<close>, \<open>search_libs\<close>, \<open>fs_lib\<close>, \<open>http_lib\<close> and
  \<open>redis_ops\<close>; what is assumed of them is always visible as a hypothesis.

  What the lemmas show. The parser: what is a title, what text remains, what the raw file holds,
  which exit status means what. The index: exactly the postings of the documents with a word,
  with exact weights, whatever the hash order, and a raw file read back as it was written, but
  for documents with an empty content. The search: one result for each document with a word of
  the query, ordered by score, determined when scores differ; what it counts in Redis; every way it
  can fail. The summary: a window of the content that shows the match and never the content's last
  character. The threads: one index object, no deadlock; no count is invented by the server, but a
  count can be deleted unprinted. The pipeline: all of this from the HTML files to the response.
  The example HTTP server: the parser is independent of how the input is cut, accepts and reads back every
  well-formed request and nothing else; replies are framed as their headers say and come from below the
  document root; a connection is registered exactly while its socket is open; after a signal the
  server ends. The chat: every participant receives the room's history in order, from some
  point on; no array is overrun. The server and client with deadlines: lines arrive whole, once and in order; queues
  move; deadlines close what is late and nothing else, but for a finished write; what has stopped comes to rest. The fork-join sort sorts, without
  overlap and without deadlock, in a bounded number of steps. The pipeline of threads prints what its stages make of the
  input as functions, and ends; so does the ring of actors, with every token received, where iterators are pointers: by the C++ standard it is undefined. Both HTTP clients show what the
  modelled server replies. Stocks are read back as they were written; the port hopper shows frames in rising order. Ping: the checksum is valid; exactly the matching replies are counted.
  The composed operations write the same bytes in all their forms, but for one that sends once more. Under the lock frames stay whole; a session can be left
  waiting for the lock. Echo sessions send back what they receive, in memory of their own, through a foreign library, or in a process of their own. A
  client that blocks is not stuck longer than its timeouts, and prints the round trip exactly when there was one. A SOCKS request is read back as the
  endpoint it was made of. The proxy passes on at most 20480 bytes for a token and a token per tenth of a second. The filter answers every request that fits.
  The log holds everything posted, in order, when the service is gone. Tracked handlers are numbered in order, but their trees are not. A wrapped operation
  completes once, with its memory freed before and its context kept running until then.
  The identification programs: which compiler they find, that the two agree, that the strings CMake looks
  for are there, and when \<open>main\<close> stays inside its strings.

  Bounds. Weights and offsets are \<open>int\<close>: the theorems on order and summaries assume scores and
  contents (plus the window) below \<open>2^31\<close> (\<open>fits\<close>), and at most \<open>2^31\<close>
  documents (\<open>index_valid\<close>), since a document's id is an \<open>int\<close>. The progress counter of
  \<open>BulidIndex\<close> is a natural number, equal to the \<open>int\<close> of the code up to that many documents.
  Redis scores are integers of a double, exact up to \<open>2^53\<close>. The only loops that need not end are
  \<open>while (true)\<close> of the timer and of the test program: \<open>timerTask n\<close> and
  \<open>debug_loop n\<close> are their first \<open>n\<close> rounds, for every \<open>n\<close>. In the examples: a read of the
  HTTP server brings at most 8192 bytes; a chat message has 4 + 512 bytes; a packet body the theorem on the
  checksum covers has at most 65507 bytes, the most an IPv4 packet holds, so that the sum of 16-bit
  words stays below \<open>2^32\<close>; an identification program has at most ten arguments (\<open>argc \<le> 11\<close>). The ring of \<open>n\<close> actors with tokens
  of value \<open>v\<close> makes \<open>n * (v + 6)\<close> steps where iterators are pointers; a pipeline of \<open>m\<close> filters on \<open>n\<close> lines at most
  \<open>(3 * m + 2) * n + 5 * m + 8\<close>, apart from spurious wake-ups. No definition runs on fuel: a loop that need not end
  is a \<open>partial_function\<close> or a step relation.

  Not modelled. Contents and internals of Boost, cppjieba, JsonCpp, redis++ and cpp-httplib (parameters);
  what the connection options do, the sleep of the timer and the serving of static files by the
  HTTP library; the JavaScript page under \<open>wwwroot\<close>; the HTML pages under \<open>data\<close>, which are
  input; the other example programs found there: versions of the
  modelled ones for other language standards, \<open>http/server2\<close> and \<open>http/server3\<close>, which are \<open>http/server\<close> on several threads,
  plain echo and daytime programs, and small demonstrations of single Asio operations; resolvers and certificates;
  makefiles and cache entries under \<open>build\<close>. Of Asio only what the examples rely on: an operation
  completes once, with an error code or a number of bytes, and its handler runs on one thread. Threads are interleaved under sequential consistency: that the first test of
  \<open>GetInstance\<close> reads a non-atomic pointer without the lock, a data race for the C++ memory
  model, is outside the machine. Reading errors in the middle of a file are not modelled, nor is running out of memory.
\<close>

end
